(* ===== verification/IEG_Prelude.thy ===== *)
theory IEG_Prelude
  imports Main "HOL-Library.Char_ord" "HOL-Library.List_Lexorder"
    "HOL-Library.Product_Lexorder" "HOL-Library.Sublist"
begin

text \<open>
  Shared vocabulary of the development: the ways an operation of the library can fail, the
  C++ integer operators, decimal printing of integers as \<open>std::ostream\<close> does it, and the
  loop that the library uses to keep every one of its lists sorted and free of duplicates,
  with the contract (a locale) under which that loop is correct.
\<close>

section \<open>Failures as values\<close>

text \<open>
  \<open>Assert msg\<close> is the \<open>assert_exception\<close> the library throws. The others are undefined
  behaviour of C++ that the source does not guard against: an integer division by zero, the
  dereference of a null or uninitialised pointer, an element access outside a vector, the
  use of an object that has been deleted, a number that \<open>atoi\<close> cannot represent, and the reading of
  another member of a union than the one last written. \<open>ParseError msg\<close> is the \<open>parse_exception\<close>
  of the parser.
\<close>

datatype err = Assert string | ParseError string | DivByZero | NullDeref | OutOfBounds | UseAfterFree
  | Overflow | WrongMember

type_synonym 'a res = "err + 'a"

fun bindr :: "'a res \<Rightarrow> ('a \<Rightarrow> 'b res) \<Rightarrow> 'b res" where
  "bindr (Inl e) f = Inl e"
| "bindr (Inr x) f = f x"

lemma bindr_cong [fundef_cong]:
  "r = r' \<Longrightarrow> (\<And>x. r' = Inr x \<Longrightarrow> f x = g x) \<Longrightarrow> bindr r f = bindr r' g"
  by (cases r) auto

lemma bindr_eq_Inr: "bindr r f = Inr y \<longleftrightarrow> (\<exists>x. r = Inr x \<and> f x = Inr y)"
  by (cases r) auto

fun mapr :: "('a \<Rightarrow> 'b res) \<Rightarrow> 'a list \<Rightarrow> 'b list res" where
  "mapr f [] = Inr []"
| "mapr f (x # xs) = bindr (f x) (\<lambda>y. bindr (mapr f xs) (\<lambda>ys. Inr (y # ys)))"

lemma mapr_cong [fundef_cong]:
  "xs = ys \<Longrightarrow> (\<And>x. x \<in> set ys \<Longrightarrow> f x = g x) \<Longrightarrow> mapr f xs = mapr g ys"
  by (induction ys arbitrary: xs) auto

lemma mapr_eq_Inr: "mapr f xs = Inr ys \<longleftrightarrow> list_all2 (\<lambda>x y. f x = Inr y) xs ys"
proof (induction xs arbitrary: ys)
  case Nil
  then show ?case by (cases ys) auto
next
  case (Cons x xs)
  then show ?case by (cases ys) (auto simp: bindr_eq_Inr)
qed

lemma mapr_Inr_nth:
  "mapr f xs = Inr ys \<Longrightarrow> length ys = length xs \<and> (\<forall>i < length xs. f (xs ! i) = Inr (ys ! i))"
  by (simp add: mapr_eq_Inr list_all2_conv_all_nth)

text \<open>A loop over a list whose body may fail.\<close>

fun foldm :: "('a \<Rightarrow> 's \<Rightarrow> 's res) \<Rightarrow> 'a list \<Rightarrow> 's \<Rightarrow> 's res" where
  "foldm f [] s = Inr s"
| "foldm f (x # xs) s = bindr (f x s) (\<lambda>s'. foldm f xs s')"

lemma foldm_cong [fundef_cong]:
  "xs = ys \<Longrightarrow> s = t \<Longrightarrow> (\<And>x u. x \<in> set ys \<Longrightarrow> f x u = g x u) \<Longrightarrow> foldm f xs s = foldm g ys t"
proof (induction ys arbitrary: xs s t)
  case (Cons y ys)
  then show ?case by (cases "g y t") auto
qed simp

lemma foldm_invariant:
  "foldm f xs s = Inr t \<Longrightarrow> P s \<Longrightarrow> (\<And>x u u'. x \<in> set xs \<Longrightarrow> P u \<Longrightarrow> f x u = Inr u' \<Longrightarrow> P u') \<Longrightarrow> P t"
  by (induction xs arbitrary: s) (auto simp: bindr_eq_Inr)

lemma foldm_append: "foldm f (xs @ ys) s = bindr (foldm f xs s) (\<lambda>s'. foldm f ys s')"
proof (induction xs arbitrary: s)
  case (Cons x xs)
  then show ?case by (cases "f x s") auto
qed simp

section \<open>Integer division of C++\<close>

text \<open>
  The operators \<open>/\<close> and \<open>%\<close> truncate towards zero. A zero divisor is undefined behaviour.
\<close>

definition c_quot :: "int \<Rightarrow> int \<Rightarrow> int" where
  "c_quot a b = sgn a * sgn b * (\<bar>a\<bar> div \<bar>b\<bar>)"

definition c_rem :: "int \<Rightarrow> int \<Rightarrow> int" where
  "c_rem a b = a - b * c_quot a b"

lemma c_quot_dvd: "b dvd a \<Longrightarrow> c_quot a b = a div b"
proof (erule dvdE)
  fix k assume a: "a = b * k"
  show "c_quot a b = a div b"
    by (cases "0::int" b rule: linorder_cases; cases "0::int" k rule: linorder_cases)
      (simp_all add: c_quot_def a sgn_mult abs_mult zdiv_zminus1_eq_if zdiv_zminus2_eq_if)
qed

lemma c_rem_eq_0: "c_rem a b = 0 \<longleftrightarrow> b dvd a"
proof
  assume "c_rem a b = 0"
  then have "a = b * c_quot a b" by (simp add: c_rem_def)
  then show "b dvd a" by (metis dvd_triv_left)
next
  assume "b dvd a"
  then show "c_rem a b = 0" by (simp add: c_rem_def c_quot_dvd)
qed

section \<open>Printing integers\<close>

text \<open>\<open>digit_char\<close> and \<open>nat_str\<close> print in base ten, \<open>int_str\<close> adds the sign, as
  \<open>operator<<\<close> of a stream and the conversion \<open>%d\<close> do.\<close>

definition digit_char :: "nat \<Rightarrow> char" where
  "digit_char d = char_of (48 + d)"

fun nat_str :: "nat \<Rightarrow> string" where
  "nat_str n = (if n < 10 then [digit_char n]
                else nat_str (n div 10) @ [digit_char (n mod 10)])"

declare nat_str.simps [simp del]

definition int_str :: "int \<Rightarrow> string" where
  "int_str i = (if i < 0 then CHR ''-'' # nat_str (nat (- i)) else nat_str (nat i))"

definition is_digit :: "char \<Rightarrow> bool" where
  "is_digit c \<longleftrightarrow> 48 \<le> (of_char c :: nat) \<and> (of_char c :: nat) \<le> 57"

definition is_ident :: "char \<Rightarrow> bool" where
  "is_ident c \<longleftrightarrow> is_digit c \<or> c = CHR ''_'' \<or> c = CHR ''$'' \<or> (of_char c :: nat) = 39
     \<or> (65 \<le> (of_char c :: nat) \<and> (of_char c :: nat) \<le> 90)
     \<or> (97 \<le> (of_char c :: nat) \<and> (of_char c :: nat) \<le> 122)"

lemma of_char_digit: "d < 10 \<Longrightarrow> (of_char (digit_char d) :: nat) = 48 + d"
  by (simp add: digit_char_def)

lemma digit_char_inject: "d < 10 \<Longrightarrow> d' < 10 \<Longrightarrow> digit_char d = digit_char d' \<longleftrightarrow> d = d'"
  by (metis add_left_cancel of_char_digit)

lemma is_digit_digit_char [simp]: "d < 10 \<Longrightarrow> is_digit (digit_char d)"
  by (simp add: is_digit_def of_char_digit)

lemma is_ident_digit: "is_digit c \<Longrightarrow> is_ident c"
  by (simp add: is_ident_def)

lemma nat_str_not_Nil [simp]: "nat_str n \<noteq> []" "[] \<noteq> nat_str n"
  by (subst nat_str.simps, simp)+

lemma nat_str_digits: "c \<in> set (nat_str n) \<Longrightarrow> is_digit c"
proof (induction n rule: nat_str.induct)
  case (1 n)
  then show ?case by (subst (asm) nat_str.simps) (auto split: if_splits)
qed

lemma nat_str_inject: "nat_str m = nat_str n \<longleftrightarrow> m = n"
proof
  show "nat_str m = nat_str n \<Longrightarrow> m = n"
  proof (induction m arbitrary: n rule: nat_str.induct)
    case (1 m)
    show ?case
    proof (cases "m < 10")
      case True
      with "1.prems" show ?thesis
        by (subst (asm) nat_str.simps [of m], subst (asm) nat_str.simps [of n])
          (auto simp: digit_char_inject split: if_splits)
    next
      case False
      with "1.prems" have n: "\<not> n < 10"
        by (subst (asm) nat_str.simps [of m], subst (asm) nat_str.simps [of n])
          (auto split: if_splits)
      from "1.prems" False n have "nat_str (m div 10) = nat_str (n div 10)"
        and "digit_char (m mod 10) = digit_char (n mod 10)"
        by (simp_all add: nat_str.simps [of m] nat_str.simps [of n])
      with "1.IH" [OF False, of "n div 10"] have "m div 10 = n div 10" "m mod 10 = n mod 10"
        by (simp_all add: digit_char_inject)
      then show ?thesis by (metis div_mult_mod_eq)
    qed
  qed
qed simp

text \<open>A maximal run of characters of one kind is determined by the string it starts.\<close>

lemma run_unique:
  assumes "s @ r = s' @ r'" and "\<And>c. c \<in> set s \<Longrightarrow> P c" and "\<And>c. c \<in> set s' \<Longrightarrow> P c"
    and "r \<noteq> [] \<Longrightarrow> \<not> P (hd r)" and "r' \<noteq> [] \<Longrightarrow> \<not> P (hd r')"
  shows "s = s' \<and> r = r'"
proof -
  have run: "takeWhile P (t @ q) = t" if "\<And>c. c \<in> set t \<Longrightarrow> P c" "q \<noteq> [] \<Longrightarrow> \<not> P (hd q)" for t q
    using that by (cases q) (auto simp: takeWhile_append)
  have "s = s'" using run [of s r] run [of s' r'] assms by metis
  with assms(1) show ?thesis by simp
qed

lemma nat_str_run:
  assumes "nat_str m @ r = nat_str n @ r'"
    and "r \<noteq> [] \<Longrightarrow> \<not> is_digit (hd r)" and "r' \<noteq> [] \<Longrightarrow> \<not> is_digit (hd r')"
  shows "m = n \<and> r = r'"
  using run_unique [OF assms(1), of is_digit] assms(2,3)
  by (auto simp: nat_str_inject dest: nat_str_digits)

lemma hd_nat_str: "is_digit (hd (nat_str n))"
  by (rule nat_str_digits [of _ n], rule hd_in_set) simp

lemma minus_not_digit [simp]: "\<not> is_digit CHR ''-''"
  by (simp add: is_digit_def)

lemma nat_str_hd_eq: "nat_str n @ r = c # s \<Longrightarrow> is_digit c"
  by (metis append_Cons hd_nat_str list.exhaust_sel list.sel(1) nat_str_not_Nil)

lemma int_str_run:
  assumes "int_str m @ r = int_str n @ r'"
    and "r \<noteq> [] \<Longrightarrow> \<not> is_digit (hd r)" and "r' \<noteq> [] \<Longrightarrow> \<not> is_digit (hd r')"
  shows "m = n \<and> r = r'"
proof -
  have sgn: "m < 0 \<longleftrightarrow> n < 0"
    using assms(1) nat_str_hd_eq [of "nat m" r] nat_str_hd_eq [of "nat n" r']
    by (auto simp: int_str_def split: if_splits) (metis minus_not_digit)+
  show ?thesis
  proof (cases "n < 0")
    case True
    with assms(1) sgn have "nat_str (nat (- m)) @ r = nat_str (nat (- n)) @ r'"
      by (simp add: int_str_def)
    then have "nat (- m) = nat (- n) \<and> r = r'" by (rule nat_str_run) (use assms in auto)
    with True sgn show ?thesis by auto
  next
    case False
    with assms(1) sgn have "nat_str (nat m) @ r = nat_str (nat n) @ r'"
      by (simp add: int_str_def)
    then have "nat m = nat n \<and> r = r'" by (rule nat_str_run) (use assms in auto)
    with False sgn show ?thesis by auto
  qed
qed

lemma int_str_inject: "int_str m = int_str n \<longleftrightarrow> m = n"
  using int_str_run [of m "[]" n "[]"] by auto

lemma int_str_not_Nil [simp]: "int_str i \<noteq> []"
  by (simp add: int_str_def)

section \<open>Sorted lists without duplicates\<close>

text \<open>
  \<open>insert_unique\<close> is the loop shared by \<open>Conjunction::addEquality\<close>,
  \<open>Conjunction::addInequality\<close> and \<open>SparseConstraints::addConjunction\<close>: walk the list, drop
  the new element when it is equivalent to one already there, insert it in front of the
  first greater one, append it otherwise. \<open>scan_less\<close> is the loop with which the
  comparison operators walk two lists of one length: \<open>Some\<close> is an early return.
\<close>

fun insert_unique :: "('a \<Rightarrow> 'a \<Rightarrow> bool) \<Rightarrow> 'a \<Rightarrow> 'a list \<Rightarrow> 'a list" where
  "insert_unique lt x [] = [x]"
| "insert_unique lt x (y # ys) =
     (if \<not> (lt x y \<or> lt y x) then y # ys
      else if lt x y then x # y # ys
      else y # insert_unique lt x ys)"

fun scan_less :: "('a \<Rightarrow> 'a \<Rightarrow> bool) \<Rightarrow> 'a list \<Rightarrow> 'a list \<Rightarrow> bool option" where
  "scan_less lt (x # xs) (y # ys) =
     (if lt x y then Some True else if lt y x then Some False else scan_less lt xs ys)"
| "scan_less lt _ _ = None"

lemma set_insert_unique: "set (insert_unique lt x xs) \<subseteq> insert x (set xs)"
  by (induction xs) auto

text \<open>The contract: on the elements of interest the comparison is decided by a key.\<close>

locale keyed_order =
  fixes lt :: "'a \<Rightarrow> 'a \<Rightarrow> bool" and key :: "'a \<Rightarrow> 'k::linorder" and ok :: "'a \<Rightarrow> bool"
  assumes lt_key: "ok x \<Longrightarrow> ok y \<Longrightarrow> lt x y \<longleftrightarrow> key x < key y"
begin

lemma irrefl: "ok x \<Longrightarrow> \<not> lt x x"
  by (simp add: lt_key)

lemma trans: "ok x \<Longrightarrow> ok y \<Longrightarrow> ok z \<Longrightarrow> lt x y \<Longrightarrow> lt y z \<Longrightarrow> lt x z"
  by (auto simp: lt_key)

lemma asym: "ok x \<Longrightarrow> ok y \<Longrightarrow> lt x y \<Longrightarrow> \<not> lt y x"
  by (auto simp: lt_key)

lemma equiv_key: "ok x \<Longrightarrow> ok y \<Longrightarrow> \<not> (lt x y \<or> lt y x) \<longleftrightarrow> key x = key y"
  by (auto simp: lt_key)

lemma ok_insert: "ok x \<Longrightarrow> list_all ok xs \<Longrightarrow> list_all ok (insert_unique lt x xs)"
  using set_insert_unique [of lt x xs] by (auto simp: list_all_iff)

lemma key_insert:
  "ok x \<Longrightarrow> list_all ok xs \<Longrightarrow> key ` set (insert_unique lt x xs) = insert (key x) (key ` set xs)"
  by (induction xs) (auto simp: lt_key)

lemma sorted_insert:
  "ok x \<Longrightarrow> list_all ok xs \<Longrightarrow> sorted_wrt (<) (map key xs) \<Longrightarrow>
   sorted_wrt (<) (map key (insert_unique lt x xs))"
proof (induction xs)
  case (Cons y ys)
  then have "\<forall>z \<in> set (insert_unique lt x ys). key z \<in> insert (key x) (key ` set ys)"
    using key_insert [of x ys] by auto
  with Cons show ?case by (auto simp: lt_key sorted_wrt_map)
qed simp

lemma insert_present:
  "ok x \<Longrightarrow> list_all ok xs \<Longrightarrow> sorted_wrt (<) (map key xs) \<Longrightarrow> key x \<in> key ` set xs \<Longrightarrow>
   insert_unique lt x xs = xs"
  by (induction xs) (auto simp: lt_key)

lemma ok_fold:
  "list_all ok xs \<Longrightarrow> list_all ok ys \<Longrightarrow> list_all ok (fold (insert_unique lt) xs ys)"
  by (induction xs arbitrary: ys) (auto intro: ok_insert)

lemma key_fold:
  "list_all ok xs \<Longrightarrow> list_all ok ys \<Longrightarrow>
   key ` set (fold (insert_unique lt) xs ys) = key ` set xs \<union> key ` set ys"
  by (induction xs arbitrary: ys) (auto simp: key_insert ok_insert)

lemma sorted_fold:
  "list_all ok xs \<Longrightarrow> list_all ok ys \<Longrightarrow> sorted_wrt (<) (map key ys) \<Longrightarrow>
   sorted_wrt (<) (map key (fold (insert_unique lt) xs ys))"
  by (induction xs arbitrary: ys) (auto intro: sorted_insert ok_insert)

lemma sorted_unique:
  assumes "sorted_wrt (<) (map key xs)" and "sorted_wrt (<) (map key ys)"
    and "key ` set xs = key ` set ys"
  shows "map key xs = map key ys"
  using assms
  by (intro sorted_distinct_set_unique) (auto simp: strict_sorted_iff)

lemma scan_less_key:
  "length xs = length ys \<Longrightarrow> list_all ok xs \<Longrightarrow> list_all ok ys \<Longrightarrow>
   scan_less lt xs ys =
     (if map key xs < map key ys then Some True
      else if map key ys < map key xs then Some False else None)"
  by (induction xs ys rule: list_induct2) (auto simp: lt_key)

end

section \<open>Collections of facts\<close>

named_theorems eval_simps \<open>the value of the result of an operation\<close>
named_theorems plain_intros \<open>the operations keep expressions well formed\<close>

end
