(* ===== verification/IEG_Terms.thy ===== *)
theory IEG_Terms
  imports IEG_Prelude
begin

text \<open>
  Terms and affine expressions (\<open>expression.h\<close>, \<open>expression.cc\<close>): the data, the accessors of
  the term classes, the construction of calls and tuples argument by argument, printing, the
  comparison operators and the test whether two terms share a factor.

  A \<open>trm\<close> is an object of one of the five term classes; its first argument is the coefficient
  \<open>mCoeff\<close>. The arguments of a \<open>UFCallTerm\<close> and the elements of a \<open>TupleExpTerm\<close> are
  complete: the copy of a call with a missing argument throws, and every term of an
  expression is such a copy or is copied when it is used. Objects under construction, with
  null pointers in their vectors, are the records \<open>ufcall_slots\<close> and \<open>tupexp_slots\<close>.
  Coefficients are unbounded; the source uses \<open>int\<close>, whose overflow is undefined in C++.
\<close>

section \<open>Data\<close>

datatype termtype = TupleVar | SymConst | UFCall | ConstVal | TupleExp

datatype exptype = Expression | Inequality | Equality

datatype trm =
    Term int
  | TupleVarTerm int int
  | VarTerm int string
  | UFCallTerm int string "exp list" int
  | TupleExpTerm int "exp list"
and exp = Exp (mTerms: "trm list") (mExpType: exptype)

text \<open>The order of the enumeration is the sort order of the term classes.\<close>

fun termtype_rank :: "termtype \<Rightarrow> nat" where
  "termtype_rank TupleVar = 0"
| "termtype_rank SymConst = 1"
| "termtype_rank UFCall = 2"
| "termtype_rank ConstVal = 3"
| "termtype_rank TupleExp = 4"

lemma termtype_rank_inject: "termtype_rank a = termtype_rank b \<longleftrightarrow> a = b"
  by (cases a; cases b) simp_all

instantiation termtype :: linorder
begin

definition less_eq_termtype :: "termtype \<Rightarrow> termtype \<Rightarrow> bool" where
  "less_eq_termtype a b \<longleftrightarrow> termtype_rank a \<le> termtype_rank b"

definition less_termtype :: "termtype \<Rightarrow> termtype \<Rightarrow> bool" where
  "less_termtype a b \<longleftrightarrow> termtype_rank a < termtype_rank b"

instance
  by standard (auto simp: less_eq_termtype_def less_termtype_def termtype_rank_inject [symmetric])

end

fun termType :: "trm \<Rightarrow> termtype" where
  "termType (Term _) = ConstVal"
| "termType (TupleVarTerm _ _) = TupleVar"
| "termType (VarTerm _ _) = SymConst"
| "termType (UFCallTerm _ _ _ _) = UFCall"
| "termType (TupleExpTerm _ _) = TupleExp"

fun coefficient :: "trm \<Rightarrow> int" where
  "coefficient (Term c) = c"
| "coefficient (TupleVarTerm c _) = c"
| "coefficient (VarTerm c _) = c"
| "coefficient (UFCallTerm c _ _ _) = c"
| "coefficient (TupleExpTerm c _) = c"

fun setCoefficient :: "int \<Rightarrow> trm \<Rightarrow> trm" where
  "setCoefficient c (Term _) = Term c"
| "setCoefficient c (TupleVarTerm _ l) = TupleVarTerm c l"
| "setCoefficient c (VarTerm _ s) = VarTerm c s"
| "setCoefficient c (UFCallTerm _ f es i) = UFCallTerm c f es i"
| "setCoefficient c (TupleExpTerm _ es) = TupleExpTerm c es"

fun isUFCall :: "trm \<Rightarrow> bool" where
  "isUFCall (UFCallTerm _ _ _ _) = True"
| "isUFCall _ = False"

fun isTupleExp :: "trm \<Rightarrow> bool" where
  "isTupleExp (TupleExpTerm _ _) = True"
| "isTupleExp _ = False"

fun isConst :: "trm \<Rightarrow> bool" where
  "isConst (Term _) = True"
| "isConst _ = False"

fun type_name :: "trm \<Rightarrow> string" where
  "type_name (Term _) = ''Term''"
| "type_name (TupleVarTerm _ _) = ''TupleVarTerm''"
| "type_name (VarTerm _ _) = ''VarTerm''"
| "type_name (UFCallTerm _ _ _ _) = ''UFCallTerm''"
| "type_name (TupleExpTerm _ _) = ''TupleExpTerm''"

definition compareTermTypes :: "trm \<Rightarrow> trm \<Rightarrow> int" where
  "compareTermTypes a b =
     (if termType a < termType b then -1 else if termType a > termType b then 1 else 0)"

text \<open>\<open>Term::multiplyBy\<close> and \<open>Term::divideBy\<close> only touch the coefficient.\<close>

definition term_multiplyBy :: "int \<Rightarrow> trm \<Rightarrow> trm" where
  "term_multiplyBy k t = setCoefficient (coefficient t * k) t"

definition term_divideBy :: "int \<Rightarrow> trm \<Rightarrow> trm res" where
  "term_divideBy d t =
     (if d = 0 then Inl DivByZero
      else if c_rem (coefficient t) d \<noteq> 0
      then Inl (Assert ''Term::divideBy: mCoeff is not divisible by divisor'')
      else Inr (setCoefficient (c_quot (coefficient t) d) t))"

section \<open>Calls and tuples under construction\<close>

record ufcall_slots =
  mCoeff :: int
  mFuncName :: string
  mArgs :: "exp option list"
  mTupleIndex :: int

definition UFCallTerm_new :: "int \<Rightarrow> string \<Rightarrow> nat \<Rightarrow> int \<Rightarrow> ufcall_slots" where
  "UFCallTerm_new coeff funcName num_args tuple_index =
     \<lparr>mCoeff = coeff, mFuncName = funcName, mArgs = replicate num_args None,
      mTupleIndex = tuple_index\<rparr>"

definition setParamExp :: "nat \<Rightarrow> exp \<Rightarrow> ufcall_slots \<Rightarrow> ufcall_slots res" where
  "setParamExp i param_exp s =
     (if i \<ge> length (mArgs s) then Inl (Assert ''UFCallTerm::setParamExp: i is out of bounds'')
      else if mArgs s ! i \<noteq> None
      then Inl (Assert ''UFCallTerm::setParamExp: param exp being set twice'')
      else Inr (s\<lparr>mArgs := (mArgs s)[i := Some param_exp]\<rparr>))"

definition getParamExp :: "nat \<Rightarrow> ufcall_slots \<Rightarrow> exp res" where
  "getParamExp i s =
     (if i \<ge> length (mArgs s) then Inl (Assert ''UFCallTerm::setParamExp: i is out of bounds'')
      else case mArgs s ! i of
        None \<Rightarrow> Inl (Assert ''UFCallTerm::setParamExp: requested parameter hasn't been set'')
      | Some e \<Rightarrow> Inr e)"

text \<open>The copy (\<open>operator=\<close>) checks that every argument has been set.\<close>

definition ufcall_copy :: "ufcall_slots \<Rightarrow> trm res" where
  "ufcall_copy s =
     (if None \<in> set (mArgs s)
      then Inl (Assert ''UFCallTerm::operator=: other missing a parameter expression'')
      else Inr (UFCallTerm (mCoeff s) (mFuncName s) (map the (mArgs s)) (mTupleIndex s)))"

definition slots_of :: "int \<Rightarrow> string \<Rightarrow> exp list \<Rightarrow> int \<Rightarrow> ufcall_slots" where
  "slots_of c f es i =
     \<lparr>mCoeff = c, mFuncName = f, mArgs = map Some es, mTupleIndex = i\<rparr>"

record tupexp_slots =
  tCoeff :: int
  mExps :: "exp option list"

definition TupleExpTerm_new :: "int \<Rightarrow> nat \<Rightarrow> tupexp_slots" where
  "TupleExpTerm_new coeff sz = \<lparr>tCoeff = coeff, mExps = replicate sz None\<rparr>"

definition setExpElem :: "nat \<Rightarrow> exp \<Rightarrow> tupexp_slots \<Rightarrow> tupexp_slots res" where
  "setExpElem exp_index e s =
     (if exp_index \<ge> length (mExps s)
      then Inl (Assert ''Attempt to set expression out of tuple bounds'')
      else if mExps s ! exp_index \<noteq> None
      then Inl (Assert ''UFCallTerm::setParamExp: param exp being set twice'')
      else Inr (s\<lparr>mExps := (mExps s)[exp_index := Some e]\<rparr>))"

definition getExpElem :: "nat \<Rightarrow> tupexp_slots \<Rightarrow> exp option res" where
  "getExpElem exp_index s =
     (if exp_index \<ge> length (mExps s)
      then Inl (Assert ''Attempt to get expression out of tuple bounds'')
      else Inr (mExps s ! exp_index))"

definition cloneExp :: "nat \<Rightarrow> tupexp_slots \<Rightarrow> exp res" where
  "cloneExp exp_index s =
     (if exp_index \<ge> length (mExps s)
      then Inl (Assert ''Attempt to get expression out of tuple bounds'')
      else case mExps s ! exp_index of
        None \<Rightarrow> Inl (Assert ''TupleExpTerm::cloneExp: NULL exp'')
      | Some e \<Rightarrow> Inr e)"

text \<open>The copy of a tuple clones every element without a check.\<close>

definition tupexp_copy :: "tupexp_slots \<Rightarrow> trm res" where
  "tupexp_copy s =
     (if None \<in> set (mExps s) then Inl NullDeref
      else Inr (TupleExpTerm (tCoeff s) (map the (mExps s))))"

text \<open>Indexing the tuple that a function returns; \<open>-1\<close> stands for no index.\<close>

definition isIndexed :: "int \<Rightarrow> bool" where
  "isIndexed tuple_index \<longleftrightarrow> tuple_index \<noteq> -1"

definition tupleIndex :: "int \<Rightarrow> int" where
  "tupleIndex tuple_index = (if \<not> isIndexed tuple_index then 0 else tuple_index)"

fun setTupleIndex :: "int \<Rightarrow> trm \<Rightarrow> trm" where
  "setTupleIndex idx (UFCallTerm c f es _) = UFCallTerm c f es idx"
| "setTupleIndex idx t = t"

fun nonIndexedClone :: "trm \<Rightarrow> trm" where
  "nonIndexedClone (UFCallTerm c f es _) = UFCallTerm c f es (-1)"
| "nonIndexedClone t = t"

section \<open>Printing\<close>

definition coeffToStream :: "int \<Rightarrow> bool \<Rightarrow> string" where
  "coeffToStream c absValue =
     (if absValue then (if \<bar>c\<bar> = 1 then [] else int_str \<bar>c\<bar> @ '' '')
      else if c = 1 then []
      else if c = -1 then ''-''
      else int_str c @ '' '')"

fun term_toString :: "bool \<Rightarrow> bool \<Rightarrow> trm \<Rightarrow> string"
and exp_toString :: "bool \<Rightarrow> exp \<Rightarrow> string"
and terms_toString :: "bool \<Rightarrow> bool \<Rightarrow> trm list \<Rightarrow> string"
and argsToStream :: "bool \<Rightarrow> bool \<Rightarrow> exp list \<Rightarrow> string" where
  "term_toString absValue generic (Term c) = int_str (if absValue then \<bar>c\<bar> else c)"
| "term_toString absValue generic (TupleVarTerm c l) =
     coeffToStream c absValue @ (if \<not> generic then ''__tv'' else ''tv'') @ int_str l"
| "term_toString absValue generic (VarTerm c s) = coeffToStream c absValue @ s"
| "term_toString absValue generic (UFCallTerm c f es i) =
     coeffToStream c absValue @ f @ ''('' @ argsToStream True generic es @ '')''
     @ (if isIndexed i then ''['' @ int_str (tupleIndex i) @ '']'' else [])"
| "term_toString absValue generic (TupleExpTerm c es) =
     ''( '' @ argsToStream True generic es @ '' )''"
| "exp_toString generic (Exp ts ty) =
     (if ts = [] then ''0'' else terms_toString True generic ts)"
| "terms_toString firstTerm generic [] = []"
| "terms_toString firstTerm generic (t # ts) =
     (if \<not> firstTerm then (if coefficient t < 0 then '' - '' else '' + '') else [])
     @ term_toString (\<not> firstTerm) generic t @ terms_toString False generic ts"
| "argsToStream firstArg generic [] = []"
| "argsToStream firstArg generic (e # es) =
     (if \<not> firstArg then '', '' else []) @ exp_toString generic e
     @ argsToStream False generic es"

section \<open>Comparison\<close>

text \<open>
  \<open>TupleExpTerm::operator<\<close> compares the pointers to the elements, not the elements. The
  order of the addresses of two elements is the allocator's, so it is an argument \<open>ad\<close> of
  every function that may consult it.
\<close>

type_synonym addr_order = "exp \<Rightarrow> exp \<Rightarrow> bool"

definition term_less :: "trm \<Rightarrow> trm \<Rightarrow> bool" where
  "term_less a b =
     (if termType a < termType b then True
      else if termType a > termType b then False
      else coefficient a < coefficient b)"

fun ufcall_less :: "trm \<Rightarrow> trm \<Rightarrow> bool" where
  "ufcall_less (UFCallTerm c f es i) (UFCallTerm c' f' es' i') =
     (if f < f' then True else if f > f' then False
      else if i < i' then True else if i > i' then False
      else let args = argsToStream True False es; otherArgs = argsToStream True False es'
        in if args < otherArgs then True else if args > otherArgs then False
        else term_less (UFCallTerm c f es i) (UFCallTerm c' f' es' i'))"
| "ufcall_less a b = (compareTermTypes a b = -1)"

fun tuplevar_less :: "trm \<Rightarrow> trm \<Rightarrow> bool" where
  "tuplevar_less (TupleVarTerm c l) (TupleVarTerm c' l') =
     (if l < l' then True else if l > l' then False
      else term_less (TupleVarTerm c l) (TupleVarTerm c' l'))"
| "tuplevar_less a b = (compareTermTypes a b = -1)"

fun var_less :: "trm \<Rightarrow> trm \<Rightarrow> bool" where
  "var_less (VarTerm c s) (VarTerm c' s') =
     (if s < s' then True else if s > s' then False
      else term_less (VarTerm c s) (VarTerm c' s'))"
| "var_less a b = (compareTermTypes a b = -1)"

fun tupexp_less :: "addr_order \<Rightarrow> trm \<Rightarrow> trm \<Rightarrow> bool" where
  "tupexp_less ad (TupleExpTerm c es) (TupleExpTerm c' es') =
     (if length es < length es' then True else if length es' < length es then False
      else scan_less ad es es' = Some True)"
| "tupexp_less ad a b = (compareTermTypes a b = -1)"

text \<open>The virtual \<open>operator<\<close>: the class of the left operand selects the method.\<close>

definition trm_less :: "addr_order \<Rightarrow> trm \<Rightarrow> trm \<Rightarrow> bool" where
  "trm_less ad a b =
     (case a of Term _ \<Rightarrow> term_less a b
      | TupleVarTerm _ _ \<Rightarrow> tuplevar_less a b
      | VarTerm _ _ \<Rightarrow> var_less a b
      | UFCallTerm _ _ _ _ \<Rightarrow> ufcall_less a b
      | TupleExpTerm _ _ \<Rightarrow> tupexp_less ad a b)"

definition trm_eq :: "addr_order \<Rightarrow> trm \<Rightarrow> trm \<Rightarrow> bool" where
  "trm_eq ad a b \<longleftrightarrow> trm_less ad a b = False \<and> trm_less ad b a = False"

definition exp_less :: "addr_order \<Rightarrow> exp \<Rightarrow> exp \<Rightarrow> bool" where
  "exp_less ad e e' =
     (if length (mTerms e) < length (mTerms e') then True
      else if length (mTerms e') < length (mTerms e) then False
      else scan_less (trm_less ad) (mTerms e) (mTerms e') = Some True)"

definition exp_eq :: "addr_order \<Rightarrow> exp \<Rightarrow> exp \<Rightarrow> bool" where
  "exp_eq ad e e' \<longleftrightarrow> \<not> (exp_less ad e e' \<or> exp_less ad e' e)"

text \<open>Two terms have the same factor: they agree in everything but the coefficient.\<close>

definition term_factorMatches :: "trm \<Rightarrow> trm \<Rightarrow> bool" where
  "term_factorMatches a b \<longleftrightarrow> termType b = termType a"

fun ufcall_factorMatches :: "trm \<Rightarrow> trm \<Rightarrow> bool" where
  "ufcall_factorMatches (UFCallTerm c f es i) (UFCallTerm c' f' es' i') \<longleftrightarrow>
     f = f' \<and> tupleIndex i = tupleIndex i'
     \<and> argsToStream True False es = argsToStream True False es'"
| "ufcall_factorMatches _ _ = False"

fun tuplevar_factorMatches :: "trm \<Rightarrow> trm \<Rightarrow> bool" where
  "tuplevar_factorMatches (TupleVarTerm c l) (TupleVarTerm c' l') \<longleftrightarrow> l = l'"
| "tuplevar_factorMatches _ _ = False"

fun var_factorMatches :: "trm \<Rightarrow> trm \<Rightarrow> bool" where
  "var_factorMatches (VarTerm c s) (VarTerm c' s') \<longleftrightarrow> s = s'"
| "var_factorMatches _ _ = False"

fun tupexp_factorMatches :: "trm \<Rightarrow> trm \<Rightarrow> bool" where
  "tupexp_factorMatches (TupleExpTerm c es) (TupleExpTerm c' es') \<longleftrightarrow> length es = length es'"
| "tupexp_factorMatches _ _ = False"

definition factorMatches :: "trm \<Rightarrow> trm \<Rightarrow> bool" where
  "factorMatches a b =
     (case a of Term _ \<Rightarrow> term_factorMatches a b
      | TupleVarTerm _ _ \<Rightarrow> tuplevar_factorMatches a b
      | VarTerm _ _ \<Rightarrow> var_factorMatches a b
      | UFCallTerm _ _ _ _ \<Rightarrow> ufcall_factorMatches a b
      | TupleExpTerm _ _ \<Rightarrow> tupexp_factorMatches a b)"

end
