(* ===== verification/IEG_Exp.thy ===== *)
theory IEG_Exp
  imports IEG_Terms
begin

text \<open>
  The operations of the class \<open>Exp\<close> (\<open>expression.cc\<close>) that need neither the substitution map
  nor the environment: building an affine expression term by term, scaling and dividing it,
  normalising it, the tests and queries on it, the remapping of its tuple variables and its
  output in dot format.
\<close>

section \<open>Adding terms\<close>

lemma size_setCoefficient [simp]: "size (setCoefficient c t) = size t"
  by (cases t) simp_all

lemma size_term_multiplyBy [simp]: "size (term_multiplyBy k t) = size t"
  by (simp add: term_multiplyBy_def)

lemma size_list_term_multiplyBy [simp]:
  "size_list size (map (term_multiplyBy k) ts) = size_list size ts"
  by (induction ts) simp_all

lemma size_list_multiplied: "size_list (size \<circ> term_multiplyBy k) ts = size_list size ts"
  by (simp add: comp_def)

lemma size_list_mTerms: "size_list size (mTerms e) < size e"
  by (cases e) simp

text \<open>
  \<open>Term::combine\<close> and \<open>TupleExpTerm::combine\<close>, with \<open>None\<close> where they return false, and
  \<open>Exp::addTerm\<close>, \<open>Exp::addExp\<close> on the list \<open>mTerms\<close>. The four are mutually recursive
  because tuples are combined by adding their elements. The comparison with the term \<open>t\<close> of
  the list comes after \<open>combine\<close> has failed, so it never reaches the addresses of the elements
  of two tuples of one length (see \<open>trm_less_addr\<close> below) and the address order is immaterial.
\<close>

definition no_addr :: addr_order where
  "no_addr a b = False"

function (sequential) combine :: "trm \<Rightarrow> trm \<Rightarrow> trm option"
and combine_elems :: "int \<Rightarrow> int \<Rightarrow> exp list \<Rightarrow> exp list \<Rightarrow> exp list"
and addTerm_loop :: "trm \<Rightarrow> trm list \<Rightarrow> trm list"
and addExp_loop :: "trm list \<Rightarrow> trm list \<Rightarrow> trm list" where
  "combine t other =
     (if \<not> factorMatches t other then None
      else case (t, other) of
        (TupleExpTerm c es, TupleExpTerm c' es') \<Rightarrow>
          Some (TupleExpTerm c (combine_elems c c' es es'))
      | _ \<Rightarrow> Some (setCoefficient (coefficient t + coefficient other) t))"
| "combine_elems c c' (e # es) (e' # es') =
     Exp (addExp_loop (map (term_multiplyBy c') (mTerms e')) (map (term_multiplyBy c) (mTerms e)))
       (mExpType e) # combine_elems c c' es es'"
| "combine_elems c c' _ _ = []"
| "addTerm_loop term [] = [term]"
| "addTerm_loop term (t # ts) =
     (case combine t term of
        Some t' \<Rightarrow> if coefficient t' = 0 then ts else t' # ts
      | None \<Rightarrow> if trm_less no_addr term t then term # t # ts else t # addTerm_loop term ts)"
| "addExp_loop [] acc = acc"
| "addExp_loop (t # ts) acc =
     addExp_loop ts (if coefficient t = 0 then acc else addTerm_loop t acc)"
  by pat_completeness auto

termination
  by (relation "measures
       [\<lambda>x. case x of Inl (Inl (t, other)) \<Rightarrow> size other
                 | Inl (Inr (c, c', es, es')) \<Rightarrow> size_list size es'
                 | Inr (Inl (term, ts)) \<Rightarrow> size term
                 | Inr (Inr (ts, acc)) \<Rightarrow> size_list size ts,
        \<lambda>x. case x of Inr (Inl (term, ts)) \<Rightarrow> Suc (length ts) | _ \<Rightarrow> 0]")
    (auto simp: size_list_multiplied intro: less_le_trans [OF size_list_mTerms])

declare combine.simps [simp del]

definition addTerm :: "trm \<Rightarrow> exp \<Rightarrow> exp" where
  "addTerm term e =
     (if coefficient term = 0 then e else Exp (addTerm_loop term (mTerms e)) (mExpType e))"

definition addExp :: "exp \<Rightarrow> exp \<Rightarrow> exp" where
  "addExp e this = Exp (addExp_loop (mTerms e) (mTerms this)) (mExpType this)"

text \<open>A fresh \<open>Exp\<close> has no terms and is a plain expression, neither \<open>= 0\<close> nor \<open>>= 0\<close>.\<close>

definition Exp_new :: exp where
  "Exp_new = Exp [] Expression"

fun setExpression :: "exp \<Rightarrow> exp" where
  "setExpression (Exp ts _) = Exp ts Expression"

fun setInequality :: "exp \<Rightarrow> exp" where
  "setInequality (Exp ts _) = Exp ts Inequality"

fun setEquality :: "exp \<Rightarrow> exp" where
  "setEquality (Exp ts _) = Exp ts Equality"

definition isExpression :: "exp \<Rightarrow> bool" where
  "isExpression e \<longleftrightarrow> mExpType e = Expression"

definition isInequality :: "exp \<Rightarrow> bool" where
  "isInequality e \<longleftrightarrow> mExpType e = Inequality"

definition isEquality :: "exp \<Rightarrow> bool" where
  "isEquality e \<longleftrightarrow> mExpType e = Equality"

section \<open>Scaling, dividing, normalising\<close>

definition multiplyBy :: "int \<Rightarrow> exp \<Rightarrow> exp" where
  "multiplyBy k e = Exp (map (term_multiplyBy k) (mTerms e)) (mExpType e)"

text \<open>The loop stops at the first coefficient that is not divisible; a zero divisor is only
  reached when there is a term.\<close>

fun isDivisible_loop :: "int \<Rightarrow> trm list \<Rightarrow> bool res" where
  "isDivisible_loop d [] = Inr True"
| "isDivisible_loop d (t # ts) =
     (if d = 0 then Inl DivByZero
      else if c_rem (coefficient t) d \<noteq> 0 then Inr False
      else isDivisible_loop d ts)"

definition isDivisible :: "int \<Rightarrow> exp \<Rightarrow> bool res" where
  "isDivisible d e = isDivisible_loop d (mTerms e)"

definition divideBy :: "int \<Rightarrow> exp \<Rightarrow> exp res" where
  "divideBy d e = bindr (mapr (term_divideBy d) (mTerms e)) (\<lambda>ts. Inr (Exp ts (mExpType e)))"

definition normalizeForEquality :: "exp \<Rightarrow> exp" where
  "normalizeForEquality e =
     (if mTerms e = [] then e
      else let e' = (if coefficient (hd (mTerms e)) < 0 then multiplyBy (-1) e else e)
        in if coefficient (last (mTerms e')) = 0
           then Exp (butlast (mTerms e')) (mExpType e') else e')"

section \<open>Tests and queries\<close>

definition equalsZero :: "exp \<Rightarrow> bool" where
  "equalsZero e =
     (if length (mTerms e) = 0 then True
      else if length (mTerms e) > 1 then False
      else coefficient (hd (mTerms e)) = 0)"

definition exp_eq_term :: "addr_order \<Rightarrow> exp \<Rightarrow> trm \<Rightarrow> bool" where
  "exp_eq_term ad e other =
     (if length (mTerms e) = 1 then trm_eq ad (hd (mTerms e)) other
      else if equalsZero e then trm_eq ad (Term 0) other
      else False)"

definition Exp_isConst :: "exp \<Rightarrow> bool" where
  "Exp_isConst e \<longleftrightarrow> equalsZero e \<or> length (mTerms e) = 1 \<and> isConst (hd (mTerms e))"

definition isContradiction :: "exp \<Rightarrow> bool" where
  "isContradiction e \<longleftrightarrow>
     length (mTerms e) = 1 \<and> (isConst (hd (mTerms e)) \<and> coefficient (hd (mTerms e)) \<noteq> 0)
     \<and> mExpType e = Equality"

definition getTerm :: "exp \<Rightarrow> trm option" where
  "getTerm e = (if length (mTerms e) = 1 then Some (hd (mTerms e)) else None)"

definition getConstTerm :: "exp \<Rightarrow> trm option" where
  "getConstTerm e = find isConst (mTerms e)"

definition getTermList :: "exp \<Rightarrow> trm list" where
  "getTermList e = mTerms e"

text \<open>\<open>Exp::dependsOn\<close>: the factor occurs at the top or inside an argument.\<close>

fun dependsOn :: "trm \<Rightarrow> exp \<Rightarrow> bool"
and term_dependsOn :: "trm \<Rightarrow> trm \<Rightarrow> bool" where
  "dependsOn factor (Exp ts ty) \<longleftrightarrow> (\<exists>t \<in> set ts. term_dependsOn factor t)"
| "term_dependsOn factor (UFCallTerm c f es i) \<longleftrightarrow>
     factorMatches (UFCallTerm c f es i) factor \<or> (\<exists>e \<in> set es. dependsOn factor e)"
| "term_dependsOn factor (TupleExpTerm c es) \<longleftrightarrow>
     factorMatches (TupleExpTerm c es) factor \<or> (\<exists>e \<in> set es. dependsOn factor e)"
| "term_dependsOn factor t \<longleftrightarrow> factorMatches t factor"

fun first_call_indexed :: "trm list \<Rightarrow> bool" where
  "first_call_indexed [] = False"
| "first_call_indexed (UFCallTerm c f es i # ts) = isIndexed i"
| "first_call_indexed (t # ts) = first_call_indexed ts"

definition hasIndexedUFCall :: "exp \<Rightarrow> bool" where
  "hasIndexedUFCall e = first_call_indexed (mTerms e)"

fun indexed_call_loop :: "trm option \<Rightarrow> trm list \<Rightarrow> trm option res" where
  "indexed_call_loop retval [] = Inr retval"
| "indexed_call_loop retval (UFCallTerm c f es i # ts) =
     (if isIndexed i
      then if retval \<noteq> None
           then Inl (Assert ''Exp::getIndexedUFCallTerm: more than one indexed UFCallTerm in expression'')
           else indexed_call_loop (Some (UFCallTerm c f es i)) ts
      else indexed_call_loop retval ts)"
| "indexed_call_loop retval (t # ts) = indexed_call_loop retval ts"

definition cloneIndexedUFCallTerm :: "exp \<Rightarrow> trm option res" where
  "cloneIndexedUFCallTerm e =
     (if \<not> hasIndexedUFCall e
      then Inl (Assert ''Exp::getIndexedUFCallTerm: no indexed UFCallTerm'')
      else indexed_call_loop None (mTerms e))"

text \<open>\<open>Exp::getSymbolIterator\<close> collects a \<open>std::set\<close> of the symbolic constants.\<close>

fun symbols :: "exp \<Rightarrow> string set"
and term_symbols :: "trm \<Rightarrow> string set" where
  "symbols (Exp ts ty) = (\<Union>t \<in> set ts. term_symbols t)"
| "term_symbols (VarTerm c s) = {s}"
| "term_symbols (UFCallTerm c f es i) = (\<Union>e \<in> set es. symbols e)"
| "term_symbols (TupleExpTerm c es) = (\<Union>e \<in> set es. symbols e)"
| "term_symbols t = {}"

section \<open>Remapping tuple variables\<close>

definition remapLocation :: "int list \<Rightarrow> trm \<Rightarrow> int \<Rightarrow> int res" where
  "remapLocation oldToNewLocs t loc =
     (if loc \<ge> 0 \<and> loc < int (length oldToNewLocs)
      then if oldToNewLocs ! nat loc < 0
           then Inl (Assert (''TupleVarTerm::remapLocation: mapping '' @ term_toString False False t
                             @ '' to location < 0''))
           else Inr (oldToNewLocs ! nat loc)
      else Inl (Assert (''TupleVarTerm::remapLocation: mLocation = '' @ int_str loc
                        @ '', out of range [0,'' @ int_str (int (length oldToNewLocs) - 1) @ '']'')))"

text \<open>The check that no two old locations have one new location.\<close>

fun newLocs_seen :: "bool list \<Rightarrow> int list \<Rightarrow> bool" where
  "newLocs_seen seen [] = True"
| "newLocs_seen seen (l # ls) =
     (if l \<ge> 0 then if seen ! nat l then False else newLocs_seen (seen[nat l := True]) ls
      else newLocs_seen seen ls)"

definition newLocs_ok :: "int list \<Rightarrow> bool" where
  "newLocs_ok oldToNewLocs =
     newLocs_seen (replicate (nat (fold max oldToNewLocs 0) + 1) False) oldToNewLocs"

fun remapTupleVars :: "int list \<Rightarrow> exp \<Rightarrow> exp res"
and term_remapTupleVars :: "int list \<Rightarrow> trm \<Rightarrow> trm res" where
  "remapTupleVars m (Exp ts ty) =
     (if \<not> newLocs_ok m
      then Inl (Assert ''Exp::remapTupleVars: two old locations are being mapped to the same new location'')
      else bindr (mapr (\<lambda>t. term_remapTupleVars m t) ts) (\<lambda>ts'. Inr (Exp ts' ty)))"
| "term_remapTupleVars m (TupleVarTerm c l) =
     bindr (remapLocation m (TupleVarTerm c l) l) (\<lambda>l'. Inr (TupleVarTerm c l'))"
| "term_remapTupleVars m (UFCallTerm c f es i) =
     bindr (mapr (\<lambda>e. remapTupleVars m e) es) (\<lambda>es'. Inr (UFCallTerm c f es' i))"
| "term_remapTupleVars m (TupleExpTerm c es) =
     bindr (mapr (\<lambda>e. remapTupleVars m e) es) (\<lambda>es'. Inr (TupleExpTerm c es'))"
| "term_remapTupleVars m t = Inr t"

section \<open>Output in dot format\<close>

text \<open>Node numbers are drawn from a counter that is passed by reference.\<close>

definition dot_quote :: string where
  "dot_quote = [CHR 0x22]"

definition dot_nl :: string where
  "dot_nl = [CHR 0x5C, CHR 0x6E]"

definition endl :: string where
  "endl = [CHR 0x0A]"

fun term_toDotString :: "bool \<Rightarrow> trm \<Rightarrow> string" where
  "term_toDotString absValue (UFCallTerm c f es i) =
     coeffToStream c absValue @ f @ ''(...)''
     @ (if isIndexed i then ''['' @ int_str (tupleIndex i) @ '']'' else [])"
| "term_toDotString absValue (TupleExpTerm c es) = term_toString False False (TupleExpTerm c es)"
| "term_toDotString absValue t = term_toString absValue False t"

fun toDotString :: "exp \<Rightarrow> int \<Rightarrow> string \<times> int"
and terms_toDot :: "int \<Rightarrow> trm list \<Rightarrow> int \<Rightarrow> string \<times> int"
and args_toDot :: "int \<Rightarrow> exp list \<Rightarrow> int \<Rightarrow> string \<times> int"
and subexps_toDot :: "int \<Rightarrow> trm \<Rightarrow> int \<Rightarrow> string \<times> int" where
  "toDotString (Exp ts ty) next_id =
     (let self_id = next_id; (children, next_id') = terms_toDot self_id ts (next_id + 1) in
      (int_str self_id @ '' [label = '' @ dot_quote @ ''Exp'' @ dot_nl
       @ (if length ts > 1 then ''... + ...'' else []) @ dot_quote @ ''];'' @ endl @ children,
       next_id'))"
| "terms_toDot self_id [] next_id = ([], next_id)"
| "terms_toDot self_id (t # ts) next_id =
     (let term_id = next_id;
          (sub, n1) = subexps_toDot term_id t (next_id + 1);
          (rest, n2) = terms_toDot self_id ts n1 in
      (int_str self_id @ '' -> '' @ int_str term_id @ '';'' @ endl
       @ int_str term_id @ '' [label = '' @ dot_quote @ type_name t @ dot_nl @ '' ''
       @ term_toDotString False t @ dot_quote @ ''];'' @ endl
       @ sub @ rest, n2))"
| "args_toDot term_id [] next_id = ([], next_id)"
| "args_toDot term_id (e # es) next_id =
     (let self_id = next_id;
          (node, n1) = toDotString e next_id;
          (rest, n2) = args_toDot term_id es n1 in
      (int_str term_id @ '' -> '' @ int_str self_id @ '';'' @ endl @ node @ rest, n2))"
| "subexps_toDot term_id (UFCallTerm c f es i) next_id = args_toDot term_id es next_id"
| "subexps_toDot term_id (TupleExpTerm c es) next_id = args_toDot term_id es next_id"
| "subexps_toDot term_id t next_id = ([], next_id)"

end
