(* ===== verification/IEG_Reading.thy ===== *)
theory IEG_Reading
  imports IEG_Exp
begin

text \<open>
  The comparison of two calls and the test whether they share a factor compare the printed
  arguments (\<open>UFCallTerm::operator<\<close>, \<open>UFCallTerm::factorMatches\<close>). That is sound only if the
  printed form determines the expression. This theory proves it for the expressions of the
  library: names are identifiers of the grammar, no symbolic constant looks like a printed
  tuple variable, and no tuple expression is nested in an affine expression. Two such
  expressions print alike exactly if they are equal up to the kind of the expression
  (\<open>mExpType\<close>) and to the empty sum being printed as the constant zero.
\<close>

section \<open>Plain expressions\<close>

definition wf_name :: "string \<Rightarrow> bool" where
  "wf_name s \<longleftrightarrow> s \<noteq> [] \<and> \<not> is_digit (hd s) \<and> list_all is_ident s"

fun plain_term :: "trm \<Rightarrow> bool"
and plain_exp :: "exp \<Rightarrow> bool" where
  "plain_term (Term c) = True"
| "plain_term (TupleVarTerm c l) \<longleftrightarrow> l \<ge> 0"
| "plain_term (VarTerm c s) \<longleftrightarrow> wf_name s \<and> take 4 s \<noteq> ''__tv''"
| "plain_term (UFCallTerm c f es i) \<longleftrightarrow> wf_name f \<and> i \<ge> -1 \<and> list_all plain_exp es"
| "plain_term (TupleExpTerm c es) = False"
| "plain_exp (Exp ts ty) = list_all plain_term ts"

fun canon :: "exp \<Rightarrow> exp"
and canon_term :: "trm \<Rightarrow> trm" where
  "canon (Exp ts ty) = Exp (if ts = [] then [Term 0] else map canon_term ts) Expression"
| "canon_term (UFCallTerm c f es i) = UFCallTerm c f (map canon es) i"
| "canon_term (TupleExpTerm c es) = TupleExpTerm c (map canon es)"
| "canon_term t = t"

definition exp_stop :: "string \<Rightarrow> bool" where
  "exp_stop r \<longleftrightarrow> r = [] \<or> hd r = CHR '','' \<or> hd r = CHR '')''"

definition term_stop :: "string \<Rightarrow> bool" where
  "term_stop r \<longleftrightarrow> exp_stop r \<or> take 3 r = '' + '' \<or> take 3 r = '' - ''"

lemma stop_not_ident: "term_stop r \<Longrightarrow> r \<noteq> [] \<Longrightarrow> \<not> is_ident (hd r)"
  by (cases r) (auto simp: term_stop_def exp_stop_def is_ident_def is_digit_def)

lemma stop_not_digit: "term_stop r \<Longrightarrow> r \<noteq> [] \<Longrightarrow> \<not> is_digit (hd r)"
  using stop_not_ident is_ident_digit by blast

lemma stop_not_bracket: "term_stop r \<Longrightarrow> r \<noteq> CHR ''('' # s \<and> r \<noteq> CHR ''['' # s"
  by (auto simp: term_stop_def exp_stop_def)

lemma stop_space: "term_stop (CHR '' '' # s) \<Longrightarrow> s \<noteq> [] \<and> \<not> is_ident (hd s)"
  by (cases s) (auto simp: term_stop_def exp_stop_def is_ident_def is_digit_def)

definition name_start :: "string \<Rightarrow> bool" where
  "name_start b \<longleftrightarrow> b \<noteq> [] \<and> is_ident (hd b) \<and> \<not> is_digit (hd b)"

lemma name_start_Cons [simp]: "name_start (c # b) \<longleftrightarrow> is_ident c \<and> \<not> is_digit c"
  by (simp add: name_start_def)

lemma wf_name_start: "wf_name s \<Longrightarrow> name_start (s @ r)"
  by (cases s) (auto simp: wf_name_def)

lemma space_minus [simp]: "\<not> is_digit CHR '' ''" "\<not> is_ident CHR '' ''" "\<not> is_ident CHR ''-''"
  by (simp_all add: is_ident_def is_digit_def)

lemma int_str_Cons: "int_str i @ r = c # s \<Longrightarrow> is_digit c \<or> c = CHR ''-'' \<and> (\<exists>d s'. s = d # s' \<and> is_digit d)"
  using nat_str_hd_eq [of "nat i" r c s] nat_str_hd_eq [of "nat (- i)" r "hd s" "tl s"]
  by (cases s) (auto simp: int_str_def split: if_splits)

lemma int_str_not_name:
  assumes "name_start b"
  shows "int_str i @ r \<noteq> b"
proof
  assume eq: "int_str i @ r = b"
  obtain c s where "b = c # s" using assms by (cases b) (auto simp: name_start_def)
  with assms eq int_str_Cons [of i r c s] show False by auto
qed

lemma int_str_not_minus_name:
  assumes "name_start b"
  shows "int_str i @ r \<noteq> CHR ''-'' # b"
proof
  assume eq: "int_str i @ r = CHR ''-'' # b"
  obtain c s where "b = c # s" using assms by (cases b) (auto simp: name_start_def)
  with assms int_str_Cons [OF eq] show False by auto
qed

lemma coeff_not_int:
  assumes "name_start b" and "term_stop r"
  shows "int_str i @ r \<noteq> coeffToStream c a @ b"
proof
  assume eq: "int_str i @ r = coeffToStream c a @ b"
  have "\<not> (\<exists>j. int_str i @ r = int_str j @ CHR '' '' # b)"
  proof
    assume "\<exists>j. int_str i @ r = int_str j @ CHR '' '' # b"
    then have "r = CHR '' '' # b"
      using int_str_run [of i r _ "CHR '' '' # b"] stop_not_digit assms(2) by fastforce
    with assms stop_space [of b] show False by (simp add: name_start_def)
  qed
  with eq int_str_not_name [OF assms(1), of i r] int_str_not_minus_name [OF assms(1), of i r]
  show False by (auto simp: coeffToStream_def split: if_splits)
qed

lemma coeff_run:
  assumes "coeffToStream c a @ b = coeffToStream c' a @ b'"
    and "name_start b" and "name_start b'" and "a \<Longrightarrow> c < 0 \<longleftrightarrow> c' < 0"
  shows "c = c' \<and> b = b'"
proof -
  have int: "int_str i @ CHR '' '' # b = int_str j @ CHR '' '' # b' \<Longrightarrow> i = j \<and> b = b'" for i j
    using int_str_run [of i "CHR '' '' # b" j "CHR '' '' # b'"] by simp
  note no = int_str_not_name [OF assms(2)] int_str_not_name [OF assms(3)]
    int_str_not_minus_name [OF assms(2)] int_str_not_minus_name [OF assms(3)]
  note no' = no [symmetric]
  show ?thesis
  proof (cases a)
    case True
    with assms(1,4) no no' int [of "\<bar>c\<bar>" "\<bar>c'\<bar>"] show ?thesis
      by (auto simp: coeffToStream_def split: if_splits)
  next
    case False
    with assms(1-3) no no' int [of c c'] show ?thesis
      by (cases b; cases b') (auto simp: coeffToStream_def split: if_splits)
  qed
qed


text \<open>What is to be shown by induction on the first term or expression.\<close>

definition reads_term :: "trm \<Rightarrow> bool" where
  "reads_term t \<longleftrightarrow> (\<forall>t' a r r'. plain_term t \<longrightarrow> plain_term t' \<longrightarrow> term_stop r \<longrightarrow> term_stop r' \<longrightarrow>
     (a \<longrightarrow> (coefficient t < 0 \<longleftrightarrow> coefficient t' < 0)) \<longrightarrow>
     term_toString a False t @ r = term_toString a False t' @ r' \<longrightarrow>
     canon_term t = canon_term t' \<and> r = r')"

definition reads_exp :: "exp \<Rightarrow> bool" where
  "reads_exp e \<longleftrightarrow> (\<forall>e' r r'. plain_exp e \<longrightarrow> plain_exp e' \<longrightarrow> exp_stop r \<longrightarrow> exp_stop r' \<longrightarrow>
     exp_toString False e @ r = exp_toString False e' @ r' \<longrightarrow> canon e = canon e' \<and> r = r')"

lemma reads_termD:
  "reads_term t \<Longrightarrow> plain_term t \<Longrightarrow> plain_term t' \<Longrightarrow> term_stop r \<Longrightarrow> term_stop r' \<Longrightarrow>
   (a \<Longrightarrow> (coefficient t < 0 \<longleftrightarrow> coefficient t' < 0)) \<Longrightarrow>
   term_toString a False t @ r = term_toString a False t' @ r' \<Longrightarrow>
   canon_term t = canon_term t' \<and> r = r'"
  unfolding reads_term_def by blast

lemma reads_expD:
  "reads_exp e \<Longrightarrow> plain_exp e \<Longrightarrow> plain_exp e' \<Longrightarrow> exp_stop r \<Longrightarrow> exp_stop r' \<Longrightarrow>
   exp_toString False e @ r = exp_toString False e' @ r' \<Longrightarrow> canon e = canon e' \<and> r = r'"
  unfolding reads_exp_def by blast

fun body :: "trm \<Rightarrow> string" where
  "body (TupleVarTerm c l) = ''__tv'' @ int_str l"
| "body (VarTerm c s) = s"
| "body (UFCallTerm c f es i) = f @ ''('' @ argsToStream True False es @ '')''
     @ (if isIndexed i then ''['' @ int_str (tupleIndex i) @ '']'' else [])"
| "body t = []"

lemma toString_body:
  "plain_term t \<Longrightarrow> \<not> isConst t \<Longrightarrow> term_toString a False t = coeffToStream (coefficient t) a @ body t"
  by (cases t) simp_all

lemma body_start: "plain_term t \<Longrightarrow> \<not> isConst t \<Longrightarrow> name_start (body t @ r)"
  by (cases t) (auto simp: is_ident_def is_digit_def wf_name_start)

lemma tv_ident: "l \<ge> 0 \<Longrightarrow> c \<in> set (''__tv'' @ int_str l) \<Longrightarrow> is_ident c"
  by (auto simp: int_str_def is_ident_def is_digit_def dest: nat_str_digits)

lemma wf_name_ident: "wf_name s \<Longrightarrow> c \<in> set s \<Longrightarrow> is_ident c"
  by (simp add: wf_name_def list_all_iff)

lemma name_run:
  assumes "s @ r = s' @ r'" and "wf_name s" and "wf_name s'"
    and "r \<noteq> [] \<Longrightarrow> \<not> is_ident (hd r)" and "r' \<noteq> [] \<Longrightarrow> \<not> is_ident (hd r')"
  shows "s = s' \<and> r = r'"
  by (rule run_unique [OF assms(1), of is_ident]) (use assms in \<open>auto dest: wf_name_ident\<close>)

lemma wf_name_tv: "l \<ge> 0 \<Longrightarrow> wf_name (''__tv'' @ int_str l)"
  using tv_ident [of l] by (auto simp: wf_name_def list_all_iff is_digit_def)

lemma bracket_not_ident [simp]: "\<not> is_ident CHR ''(''" "\<not> is_ident CHR ''[''"
  by (simp_all add: is_ident_def is_digit_def)

text \<open>The arguments of a call.\<close>

lemma term_toString_start:
  assumes "plain_term t"
  shows "\<exists>c s. term_toString a False t @ r = c # s \<and> (is_ident c \<or> c = CHR ''-'')"
proof (cases "isConst t")
  case True
  then obtain i where "term_toString a False t = int_str i" by (cases t) simp_all
  with int_str_Cons [of i r] show ?thesis by (cases "int_str i @ r") (auto simp: is_ident_digit)
next
  case False
  obtain c s where b: "body t @ r = c # s" "is_ident c"
    using body_start [OF assms False, of r] by (cases "body t @ r") (auto simp: name_start_def)
  with int_str_Cons show ?thesis
    by (cases "int_str \<bar>coefficient t\<bar>"; cases "int_str (coefficient t)")
      (auto simp: toString_body [OF assms False] coeffToStream_def is_ident_digit
        dest: int_str_Cons [of _ "[]", simplified])
qed

lemma exp_toString_start: "plain_exp e \<Longrightarrow> \<exists>c s. exp_toString False e = c # s \<and> c \<noteq> CHR '')''"
proof (cases e)
  case (Exp ts ty)
  assume "plain_exp e"
  with Exp show ?thesis
    using term_toString_start [of "hd ts" False "terms_toString False False (tl ts)"]
    by (cases ts) (auto simp: is_ident_def is_digit_def)
qed

lemma reads_args:
  assumes "\<forall>e \<in> set es. reads_exp e" and "list_all plain_exp es" and "list_all plain_exp es'"
    and "argsToStream first False es @ CHR '')'' # r = argsToStream first False es' @ CHR '')'' # r'"
  shows "map canon es = map canon es' \<and> r = r'"
  using assms
proof (induction es arbitrary: es' first)
  case Nil
  then show ?case
    using exp_toString_start [of "hd es'"] by (cases es') (auto split: if_splits)
next
  case (Cons e es)
  then obtain e' es2 where es': "es' = e' # es2"
    using exp_toString_start [of e] by (cases es') (auto split: if_splits)
  have stop: "exp_stop (argsToStream False False xs @ CHR '')'' # q)" for xs q
    by (cases xs) (auto simp: exp_stop_def)
  have "exp_toString False e @ argsToStream False False es @ CHR '')'' # r
      = exp_toString False e' @ argsToStream False False es2 @ CHR '')'' # r'"
    using Cons.prems(4) by (auto simp: es' split: if_splits)
  then have "canon e = canon e' \<and>
      argsToStream False False es @ CHR '')'' # r = argsToStream False False es2 @ CHR '')'' # r'"
    using Cons.prems(1-3) by (intro reads_expD stop) (auto simp: es')
  with Cons.IH [of es2 False] Cons.prems show ?case by (simp add: es')
qed

text \<open>The sum that is an expression.\<close>

lemma reads_terms:
  assumes "\<forall>t \<in> set ts. reads_term t" and "list_all plain_term ts" and "list_all plain_term ts'"
    and "exp_stop r" and "exp_stop r'" and "first \<Longrightarrow> ts \<noteq> [] \<and> ts' \<noteq> []"
    and "terms_toString first False ts @ r = terms_toString first False ts' @ r'"
  shows "map canon_term ts = map canon_term ts' \<and> r = r'"
  using assms
proof (induction ts arbitrary: ts' first)
  case Nil
  then show ?case by (cases ts') (auto simp: exp_stop_def split: if_splits)
next
  case (Cons t ts)
  then obtain t' ts2 where ts': "ts' = t' # ts2"
    by (cases ts') (auto simp: exp_stop_def split: if_splits)
  have stop: "term_stop (terms_toString False False xs @ q)" if "exp_stop q" for xs q
    using that by (cases xs) (auto simp: term_stop_def)
  have sign: "\<not> first \<Longrightarrow> coefficient t < 0 \<longleftrightarrow> coefficient t' < 0"
    using Cons.prems(7) by (auto simp: ts' split: if_splits)
  have "term_toString (\<not> first) False t @ terms_toString False False ts @ r
      = term_toString (\<not> first) False t' @ terms_toString False False ts2 @ r'"
    using Cons.prems(7) by (auto simp: ts' split: if_splits)
  then have "canon_term t = canon_term t' \<and>
      terms_toString False False ts @ r = terms_toString False False ts2 @ r'"
    using Cons.prems(1-5) sign by (intro reads_termD [where a = "\<not> first"] stop) (auto simp: ts')
  with Cons.IH [of ts2 False] Cons.prems show ?case by (simp add: ts')
qed

lemma reads_const: "reads_term (Term c)"
proof (unfold reads_term_def, intro allI impI)
  fix t' a r r'
  assume t': "plain_term t'" and stop: "term_stop r" "term_stop r'"
    and sign: "a \<longrightarrow> (coefficient (Term c) < 0 \<longleftrightarrow> coefficient t' < 0)"
    and eq: "term_toString a False (Term c) @ r = term_toString a False t' @ r'"
  show "canon_term (Term c) = canon_term t' \<and> r = r'"
  proof (cases "isConst t'")
    case True
    then obtain c' where "t' = Term c'" by (cases t') simp_all
    with eq sign int_str_run [of "\<bar>c\<bar>" r "\<bar>c'\<bar>" r'] int_str_run [of c r c' r'] stop stop_not_digit
    show ?thesis by (cases a) auto
  next
    case False
    with coeff_not_int [OF body_start [OF t' False] stop(1)] eq show ?thesis
      by (auto simp: toString_body [OF t'])
  qed
qed

lemma canon_term_coefficient [simp]: "coefficient (canon_term t) = coefficient t"
  by (cases t) simp_all

lemma canon_setCoefficient: "canon_term (setCoefficient c t) = setCoefficient c (canon_term t)"
  by (cases t) simp_all

lemma setCoefficient_coefficient: "setCoefficient (coefficient t) (setCoefficient c t) = t"
  by (cases t) simp_all

lemma reads_body:
  assumes nc: "\<not> isConst t"
    and body: "\<And>t' r r'. plain_term t \<Longrightarrow> plain_term t' \<Longrightarrow> \<not> isConst t' \<Longrightarrow> term_stop r \<Longrightarrow> term_stop r' \<Longrightarrow>
      body t @ r = body t' @ r' \<Longrightarrow>
      canon_term (setCoefficient 1 t) = canon_term (setCoefficient 1 t') \<and> r = r'"
  shows "reads_term t"
proof (unfold reads_term_def, intro allI impI)
  fix t' a r r'
  assume t: "plain_term t" and t': "plain_term t'" and stop: "term_stop r" "term_stop r'"
    and sign: "a \<longrightarrow> (coefficient t < 0 \<longleftrightarrow> coefficient t' < 0)"
    and eq: "term_toString a False t @ r = term_toString a False t' @ r'"
  have nc': "\<not> isConst t'"
  proof
    assume "isConst t'"
    then obtain i where "term_toString a False t' = int_str i" by (cases t') simp_all
    with eq coeff_not_int [OF body_start [OF t nc] stop(2)] show False
      by (simp add: toString_body [OF t nc]) (metis)
  qed
  from eq have "coefficient t = coefficient t' \<and> body t @ r = body t' @ r'"
    using sign body_start [OF t nc] body_start [OF t' nc']
    by (intro coeff_run [where a = a]) (simp_all add: toString_body t t' nc nc')
  with body [OF t t' nc' stop] show "canon_term t = canon_term t' \<and> r = r'"
    by (metis canon_setCoefficient setCoefficient_coefficient canon_term_coefficient)
qed

lemma index_run:
  assumes "(if isIndexed i then ''['' @ int_str (tupleIndex i) @ '']'' else []) @ r
         = (if isIndexed j then ''['' @ int_str (tupleIndex j) @ '']'' else []) @ r'"
    and "term_stop r" and "term_stop r'"
  shows "i = j \<and> r = r'"
  using assms stop_not_bracket [of r] stop_not_bracket [of r'] int_str_run [of i "CHR '']'' # r" j "CHR '']'' # r'"]
  by (auto simp: isIndexed_def tupleIndex_def is_digit_def split: if_splits)

lemma name_stop:
  "s @ r = s' @ r' \<Longrightarrow> wf_name s \<Longrightarrow> wf_name s' \<Longrightarrow> term_stop r \<Longrightarrow> term_stop r' \<Longrightarrow> s = s' \<and> r = r'"
  by (rule name_run) (auto dest: stop_not_ident)

lemma name_call:
  assumes "wf_name s" and "wf_name f" and "term_stop r"
  shows "s @ r \<noteq> f @ CHR ''('' # q"
proof
  assume "s @ r = f @ CHR ''('' # q"
  then have "s = f \<and> r = CHR ''('' # q"
    using assms by (intro name_run) (auto dest: stop_not_ident)
  with assms(3) stop_not_bracket show False by blast
qed

definition call_shaped :: "string \<Rightarrow> bool" where
  "call_shaped s \<longleftrightarrow> (\<exists>f q. wf_name f \<and> s = f @ CHR ''('' # q)"

lemma call_shapedI [simp]: "wf_name f \<Longrightarrow> call_shaped (f @ CHR ''('' # q)"
  by (auto simp: call_shaped_def)

lemma no_call: "wf_name s \<Longrightarrow> term_stop r \<Longrightarrow> \<not> call_shaped (s @ r)"
  using name_call by (auto simp: call_shaped_def)

lemma call_call:
  "f @ CHR ''('' # q = f' @ CHR ''('' # q' \<Longrightarrow> wf_name f \<Longrightarrow> wf_name f' \<Longrightarrow> f = f' \<and> q = q'"
  using name_run [of f "CHR ''('' # q" f' "CHR ''('' # q'"] by simp

lemma reads_tuplevar: "reads_term (TupleVarTerm c l)"
proof (rule reads_body)
  fix t' r r'
  assume t: "plain_term (TupleVarTerm c l)" and t': "plain_term t'" "\<not> isConst t'"
    and stop: "term_stop r" "term_stop r'"
    and eq: "body (TupleVarTerm c l) @ r = body t' @ r'"
  have tv: "wf_name (''__tv'' @ int_str l)" using t by (intro wf_name_tv) simp
  show "canon_term (setCoefficient 1 (TupleVarTerm c l)) = canon_term (setCoefficient 1 t') \<and> r = r'"
  proof (cases t')
    case (TupleVarTerm c' l')
    with eq stop int_str_run [of l r l' r'] stop_not_digit show ?thesis by auto
  next
    case (VarTerm c' s)
    have "''__tv'' @ int_str l = s \<and> r = r'"
      using eq t' VarTerm tv stop by (intro name_stop) simp_all
    with t' VarTerm show ?thesis by auto
  next
    case (UFCallTerm c' f es i)
    then show ?thesis using arg_cong [OF eq, of call_shaped] t' no_call [OF tv stop(1)] by simp
  qed (use t' in auto)
qed simp

lemma reads_var: "reads_term (VarTerm c s)"
proof (rule reads_body)
  fix t' r r'
  assume t: "plain_term (VarTerm c s)" and t': "plain_term t'" "\<not> isConst t'"
    and stop: "term_stop r" "term_stop r'"
    and eq: "body (VarTerm c s) @ r = body t' @ r'"
  have s: "wf_name s" using t by simp
  show "canon_term (setCoefficient 1 (VarTerm c s)) = canon_term (setCoefficient 1 t') \<and> r = r'"
  proof (cases t')
    case (TupleVarTerm c' l')
    have "s = ''__tv'' @ int_str l' \<and> r = r'"
      using eq t' TupleVarTerm s stop by (intro name_stop wf_name_tv) simp_all
    with t show ?thesis by auto
  next
    case (VarTerm c' s')
    then show ?thesis using eq t' s stop name_stop [of s r s' r'] by simp
  next
    case (UFCallTerm c' f es i)
    then show ?thesis using arg_cong [OF eq, of call_shaped] t' no_call [OF s stop(1)] by simp
  qed (use t' in auto)
qed simp

lemma reads_call:
  assumes es: "\<forall>e \<in> set es. reads_exp e"
  shows "reads_term (UFCallTerm c f es i)"
proof (rule reads_body)
  fix t' r r'
  assume t: "plain_term (UFCallTerm c f es i)" and t': "plain_term t'" "\<not> isConst t'"
    and stop: "term_stop r" "term_stop r'"
    and eq: "body (UFCallTerm c f es i) @ r = body t' @ r'"
  have f: "wf_name f" using t by simp
  let ?idx = "\<lambda>i. if isIndexed i then ''['' @ int_str (tupleIndex i) @ '']'' else []"
  show "canon_term (setCoefficient 1 (UFCallTerm c f es i)) = canon_term (setCoefficient 1 t') \<and> r = r'"
  proof (cases t')
    case (TupleVarTerm c' l')
    then have "wf_name (''__tv'' @ int_str l')" using t' by (intro wf_name_tv) simp
    with TupleVarTerm show ?thesis
      using arg_cong [OF eq, of call_shaped] no_call [OF _ stop(2), of "''__tv'' @ int_str l'"] f by simp
  next
    case (VarTerm c' s')
    then show ?thesis using arg_cong [OF eq, of call_shaped] t' no_call [OF _ stop(2)] f by simp
  next
    case (UFCallTerm c' f' es' i')
    have "f = f' \<and> argsToStream True False es @ CHR '')'' # ?idx i @ r
        = argsToStream True False es' @ CHR '')'' # ?idx i' @ r'"
      using eq t' f UFCallTerm by (intro call_call) simp_all
    moreover from this have "map canon es = map canon es' \<and> ?idx i @ r = ?idx i' @ r'"
      using es t t' UFCallTerm by (intro reads_args [where first = True]) simp_all
    ultimately show ?thesis using index_run [of i r i' r'] stop UFCallTerm by simp
  qed (use t' in auto)
qed simp

lemma reads_Exp:
  assumes "\<forall>t \<in> set ts. reads_term t"
  shows "reads_exp (Exp ts ty)"
proof (unfold reads_exp_def, intro allI impI)
  fix e' r r'
  assume p: "plain_exp (Exp ts ty)" "plain_exp e'" and stop: "exp_stop r" "exp_stop r'"
    and eq: "exp_toString False (Exp ts ty) @ r = exp_toString False e' @ r'"
  obtain ts' ty' where e': "e' = Exp ts' ty'" by (cases e')
  let ?ne = "\<lambda>ts. if ts = [] then [Term 0] else ts"
  have "int_str 0 = ''0''" by code_simp
  then have str: "exp_toString False (Exp ts ty) = terms_toString True False (?ne ts)" for ts ty
    by simp
  have "map canon_term (?ne ts) = map canon_term (?ne ts') \<and> r = r'"
    by (rule reads_terms [where first = True])
      (use assms p stop eq reads_const in \<open>simp_all add: str e' del: exp_toString.simps\<close>)
  then show "canon (Exp ts ty) = canon e' \<and> r = r'"
    by (auto simp: e' split: if_splits)
qed

lemma reads: "plain_term t \<Longrightarrow> reads_term t" "plain_exp e \<Longrightarrow> reads_exp e"
  by (induction t and e) (auto simp: list_all_iff reads_const reads_tuplevar reads_var reads_call reads_Exp)


section \<open>Equal strings\<close>

lemma int_str_0: "int_str 0 = ''0''"
  by code_simp

lemma canon_toString:
  "term_toString a g (canon_term t) = term_toString a g t"
  "exp_toString g (canon e) = exp_toString g e"
proof (induction t and e arbitrary: a and a)
  case (UFCallTerm c f es i)
  then have "argsToStream b g (map canon es) = argsToStream b g es" for b
    by (induction es arbitrary: b) auto
  then show ?case by simp
next
  case (TupleExpTerm c es)
  then have "argsToStream b g (map canon es) = argsToStream b g es" for b
    by (induction es arbitrary: b) auto
  then show ?case by simp
next
  case (Exp ts ty)
  then have "terms_toString b g (map canon_term ts) = terms_toString b g ts" for b
    by (induction ts arbitrary: b) auto
  then show ?case by (simp add: int_str_0)
qed simp_all

text \<open>A call and its arguments print alike only if the arguments agree.\<close>

lemma args_unique:
  assumes "list_all plain_exp es" and "list_all plain_exp es'"
    and "argsToStream True False es = argsToStream True False es'"
  shows "map canon es = map canon es'"
  using reads_args [of es es' True "[]" "[]"] reads(2) assms by (simp add: list_all_iff)

text \<open>
  C3. The printed form of an expression identifies it: two expressions of the library print
  alike exactly if their canonical forms are equal.
\<close>

theorem toString_identifies:
  assumes "plain_exp e" and "plain_exp e'"
  shows "exp_toString False e = exp_toString False e' \<longleftrightarrow> canon e = canon e'"
  using reads_expD [OF reads(2) [OF assms(1)] assms, of "[]" "[]"]
  by (metis append_Nil2 canon_toString(2) exp_stop_def)

theorem toString_identifies_witness:
  "exp_toString False (Exp [VarTerm 2 ''n'', UFCallTerm (-1) ''f'' [Exp [] Equality] 0] Expression)
   = exp_toString False (Exp [VarTerm 2 ''n'', UFCallTerm (-1) ''f'' [Exp [Term 0] Expression] 0] Equality)"
  by (subst toString_identifies) (simp_all add: wf_name_def is_ident_def is_digit_def)

end
