(* ===== verification/IEG_Algebra.thy ===== *)
theory IEG_Algebra
  imports IEG_Reading
begin

text \<open>
  What the operations of \<open>Exp\<close> compute. Two views of an expression are related to its sorted
  list of terms: its value under a valuation of tuple variables, symbolic constants and
  uninterpreted functions (an index \<open>-1\<close> of a call is read as 0, as \<open>tupleIndex\<close> does), and
  the function from factors to coefficients. The list is a canonical form of the second: the
  operations keep it strictly sorted by factor and free of zero coefficients, and the
  comparison operators of the source decide equality of the coefficient functions.
\<close>

section \<open>One term against another\<close>

lemma factorMatches_type: "factorMatches t u \<Longrightarrow> termType t = termType u"
  by (cases t; cases u) (simp_all add: factorMatches_def term_factorMatches_def)

lemma combine_eq:
  "\<not> isTupleExp t \<Longrightarrow> combine t u =
     (if factorMatches t u then Some (setCoefficient (coefficient t + coefficient u) t) else None)"
  by (cases t) (simp_all add: combine.simps)

lemma trm_less_addr: "\<not> factorMatches t u \<Longrightarrow> trm_less ad u t = trm_less ad' u t"
  by (cases u; cases t) (auto simp: trm_less_def factorMatches_def)

lemma coefficient_set [simp]: "coefficient (setCoefficient c t) = c"
  by (cases t) simp_all

lemma set_set [simp]: "setCoefficient c (setCoefficient d t) = setCoefficient c t"
  by (cases t) simp_all

lemma isTupleExp_set [simp]: "isTupleExp (setCoefficient c t) = isTupleExp t"
  by (cases t) simp_all

lemma isConst_set [simp]: "isConst (setCoefficient c t) = isConst t"
  by (cases t) simp_all

section \<open>Values\<close>

record valuation =
  tvv :: "int \<Rightarrow> int"
  symv :: "string \<Rightarrow> int"
  ufv :: "string \<Rightarrow> int \<Rightarrow> int list \<Rightarrow> int"

fun factor_val :: "valuation \<Rightarrow> trm \<Rightarrow> int"
and eval_exp :: "valuation \<Rightarrow> exp \<Rightarrow> int" where
  "factor_val v (Term c) = 1"
| "factor_val v (TupleVarTerm c l) = tvv v l"
| "factor_val v (VarTerm c s) = symv v s"
| "factor_val v (UFCallTerm c f es i) = ufv v f (tupleIndex i) (map (eval_exp v) es)"
| "factor_val v (TupleExpTerm c es) = 0"
| "eval_exp v (Exp ts ty) = (\<Sum>t\<leftarrow>ts. coefficient t * factor_val v t)"

definition eval_terms :: "valuation \<Rightarrow> trm list \<Rightarrow> int" where
  "eval_terms v ts = (\<Sum>t\<leftarrow>ts. coefficient t * factor_val v t)"

lemma eval_terms_simps [simp]:
  "eval_terms v [] = 0"
  "eval_terms v (t # ts) = coefficient t * factor_val v t + eval_terms v ts"
  by (simp_all add: eval_terms_def)

lemma eval_exp_terms: "eval_exp v e = eval_terms v (mTerms e)"
  by (cases e) (simp add: eval_terms_def)

lemma eval_Exp [simp]: "eval_exp v (Exp ts ty) = eval_terms v ts"
  by (simp add: eval_terms_def)

declare eval_exp.simps [simp del]

lemma factor_val_set [simp]: "factor_val v (setCoefficient c t) = factor_val v t"
  by (cases t) simp_all

lemma eval_canon: "factor_val v (canon_term t) = factor_val v t" "eval_exp v (canon e) = eval_exp v e"
proof (induction t and e)
  case (UFCallTerm c f es i)
  then have "map (eval_exp v \<circ> canon) es = map (eval_exp v) es" by simp
  then show ?case by (simp only: canon_term.simps factor_val.simps map_map)
next
  case (Exp ts ty)
  then have "eval_terms v (map canon_term ts) = eval_terms v ts"
    by (induction ts) simp_all
  then show ?case by simp
qed simp_all

lemma factorMatches_val:
  assumes "plain_term t" and "plain_term u" and "factorMatches t u"
  shows "factor_val v t = factor_val v u"
proof (cases t)
  case (UFCallTerm c f es i)
  then obtain c' es' i' where u: "u = UFCallTerm c' f es' i'" "tupleIndex i = tupleIndex i'"
    "argsToStream True False es = argsToStream True False es'"
    using assms(3) by (cases u) (auto simp: factorMatches_def)
  then have "map (eval_exp v) (map canon es) = map (eval_exp v) (map canon es')"
    using args_unique assms(1,2) UFCallTerm by (metis plain_term.simps(4))
  then have "map (eval_exp v) es = map (eval_exp v) es'"
    by (simp add: eval_canon comp_def)
  with UFCallTerm u show ?thesis by simp
qed (use assms in \<open>cases u; auto simp: factorMatches_def term_factorMatches_def\<close>)+

lemma plain_not_tuple: "plain_term t \<Longrightarrow> \<not> isTupleExp t"
  by (cases t) simp_all

lemma plain_set [simp]: "plain_term (setCoefficient c t) = plain_term t"
  by (cases t) simp_all

lemma plain_mTerms: "plain_exp e \<longleftrightarrow> list_all plain_term (mTerms e)"
  by (cases e) simp

lemma eval_addTerm_loop:
  "plain_term t \<Longrightarrow> list_all plain_term ts \<Longrightarrow>
   eval_terms v (addTerm_loop t ts) = eval_terms v ts + coefficient t * factor_val v t"
  by (induction ts)
    (auto simp: combine_eq plain_not_tuple factorMatches_val algebra_simps add_eq_0_iff split: if_splits)

lemma plain_addTerm_loop:
  "plain_term t \<Longrightarrow> list_all plain_term ts \<Longrightarrow> list_all plain_term (addTerm_loop t ts)"
  by (induction ts) (auto simp: combine_eq plain_not_tuple)

lemma eval_addExp_loop:
  "list_all plain_term ts \<Longrightarrow> list_all plain_term acc \<Longrightarrow>
   list_all plain_term (addExp_loop ts acc) \<and> eval_terms v (addExp_loop ts acc) = eval_terms v acc + eval_terms v ts"
  by (induction ts arbitrary: acc) (auto simp: eval_addTerm_loop plain_addTerm_loop)

lemma plain_addTerm [plain_intros]: "plain_term t \<Longrightarrow> plain_exp e \<Longrightarrow> plain_exp (addTerm t e)"
  by (simp add: addTerm_def plain_mTerms plain_addTerm_loop)

lemma plain_addExp [plain_intros]: "plain_exp e \<Longrightarrow> plain_exp this \<Longrightarrow> plain_exp (addExp e this)"
  by (simp add: addExp_def plain_mTerms eval_addExp_loop)

lemma plain_multiplyBy [plain_intros]: "plain_exp e \<Longrightarrow> plain_exp (multiplyBy k e)"
  by (simp add: multiplyBy_def plain_mTerms term_multiplyBy_def list_all_iff)

lemma plain_new [plain_intros]: "plain_exp Exp_new"
  by (simp add: Exp_new_def)

lemma eval_addTerm [eval_simps]:
  "plain_term t \<Longrightarrow> plain_exp e \<Longrightarrow>
   eval_exp v (addTerm t e) = eval_exp v e + coefficient t * factor_val v t"
  by (cases e) (simp add: addTerm_def eval_addTerm_loop)

lemma eval_addExp [eval_simps]:
  "plain_exp e \<Longrightarrow> plain_exp this \<Longrightarrow> eval_exp v (addExp e this) = eval_exp v this + eval_exp v e"
  by (cases e; cases this) (simp add: addExp_def eval_addExp_loop)

lemma eval_multiplyBy [eval_simps]: "eval_exp v (multiplyBy k e) = k * eval_exp v e"
proof -
  have "eval_terms v (map (term_multiplyBy k) ts) = k * eval_terms v ts" for ts
    by (induction ts) (simp_all add: term_multiplyBy_def algebra_simps)
  then show ?thesis by (simp add: multiplyBy_def eval_exp_terms)
qed

lemma eval_new [eval_simps]: "eval_exp v Exp_new = 0"
  by (simp add: Exp_new_def)


section \<open>Division\<close>

lemma isDivisible_loop_eq:
  "d \<noteq> 0 \<Longrightarrow> isDivisible_loop d ts = Inr (\<forall>t \<in> set ts. d dvd coefficient t)"
  by (induction ts) (auto simp: c_rem_eq_0)

lemma isDivisible_eq: "d \<noteq> 0 \<Longrightarrow> isDivisible d e = Inr (\<forall>t \<in> set (mTerms e). d dvd coefficient t)"
  by (simp add: isDivisible_def isDivisible_loop_eq)

lemma term_divideBy_Inr:
  "term_divideBy d t = Inr t' \<longleftrightarrow> d \<noteq> 0 \<and> d dvd coefficient t \<and> t' = setCoefficient (coefficient t div d) t"
  by (auto simp: term_divideBy_def c_rem_eq_0 c_quot_dvd)

lemma divideBy_Inr:
  assumes "d \<noteq> 0" and "\<forall>t \<in> set (mTerms e). d dvd coefficient t"
  shows "divideBy d e = Inr (Exp (map (\<lambda>t. setCoefficient (coefficient t div d) t) (mTerms e)) (mExpType e))"
proof -
  have "mapr (term_divideBy d) (mTerms e) = Inr (map (\<lambda>t. setCoefficient (coefficient t div d) t) (mTerms e))"
    using assms by (auto simp: mapr_eq_Inr list_all2_conv_all_nth term_divideBy_Inr)
  then show ?thesis by (simp add: divideBy_def)
qed

lemma divideBy_success:
  assumes "divideBy d e = Inr e'"
  shows "(d \<noteq> 0 \<or> mTerms e = []) \<and> (\<forall>t \<in> set (mTerms e). d dvd coefficient t)"
proof -
  from assms obtain ts where "mapr (term_divideBy d) (mTerms e) = Inr ts"
    by (auto simp: divideBy_def bindr_eq_Inr)
  then have "list_all2 (\<lambda>t t'. d \<noteq> 0 \<and> d dvd coefficient t) (mTerms e) ts"
    by (auto simp: mapr_eq_Inr term_divideBy_Inr elim: list_all2_mono)
  then show ?thesis by (induction rule: list_all2_induct) auto
qed

lemma eval_divideBy:
  assumes "divideBy d e = Inr e'"
  shows "d * eval_exp v e' = eval_exp v e"
proof -
  from assms obtain ts where ts: "mapr (term_divideBy d) (mTerms e) = Inr ts" "e' = Exp ts (mExpType e)"
    by (auto simp: divideBy_def bindr_eq_Inr)
  then have "list_all2 (\<lambda>t t'. term_divideBy d t = Inr t') (mTerms e) ts"
    by (simp add: mapr_eq_Inr)
  then have "d * eval_terms v ts = eval_terms v (mTerms e)"
    by (induction rule: list_all2_induct) (auto simp: term_divideBy_Inr distrib_left)
  with ts show ?thesis by (simp add: eval_exp_terms)
qed

lemma plain_divideBy: "divideBy d e = Inr e' \<Longrightarrow> plain_exp e \<Longrightarrow> plain_exp e'"
proof -
  assume "divideBy d e = Inr e'" and p: "plain_exp e"
  then obtain ts where ts: "mapr (term_divideBy d) (mTerms e) = Inr ts" "e' = Exp ts (mExpType e)"
    by (auto simp: divideBy_def bindr_eq_Inr)
  then have "list_all2 (\<lambda>t t'. term_divideBy d t = Inr t') (mTerms e) ts"
    by (simp add: mapr_eq_Inr)
  then have "list_all plain_term (mTerms e) \<Longrightarrow> list_all plain_term ts"
    by (induction rule: list_all2_induct) (auto simp: term_divideBy_Inr)
  with p ts show ?thesis by (simp add: plain_mTerms)
qed

section \<open>The order of terms and expressions\<close>

type_synonym factor_key = "nat \<times> int \<times> string \<times> int \<times> string"

fun fkey :: "trm \<Rightarrow> factor_key" where
  "fkey (Term c) = (termtype_rank ConstVal, 0, [], 0, [])"
| "fkey (TupleVarTerm c l) = (termtype_rank TupleVar, l, [], 0, [])"
| "fkey (VarTerm c s) = (termtype_rank SymConst, 0, s, 0, [])"
| "fkey (UFCallTerm c f es i) = (termtype_rank UFCall, 0, f, i, argsToStream True False es)"
| "fkey (TupleExpTerm c es) = (termtype_rank TupleExp, 0, [], 0, [])"

definition tkey :: "trm \<Rightarrow> factor_key \<times> int" where
  "tkey t = (fkey t, coefficient t)"

lemma fkey_set [simp]: "fkey (setCoefficient c t) = fkey t"
  by (cases t) simp_all

lemma trm_less_tkey:
  "\<not> isTupleExp t \<Longrightarrow> \<not> isTupleExp u \<Longrightarrow> trm_less ad t u \<longleftrightarrow> tkey t < tkey u"
  by (cases t; cases u)
    (auto simp: trm_less_def tkey_def term_less_def compareTermTypes_def less_termtype_def Let_def)

interpretation terms: keyed_order "trm_less ad" tkey "\<lambda>t. \<not> isTupleExp t" for ad
  by unfold_locales (rule trm_less_tkey)

definition no_tuple :: "exp \<Rightarrow> bool" where
  "no_tuple e \<longleftrightarrow> list_all (\<lambda>t. \<not> isTupleExp t) (mTerms e)"

definition ekey :: "exp \<Rightarrow> nat \<times> (factor_key \<times> int) list" where
  "ekey e = (length (mTerms e), map tkey (mTerms e))"

interpretation exps: keyed_order "exp_less ad" ekey no_tuple for ad
proof unfold_locales
  fix x y assume "no_tuple x" "no_tuple y"
  then show "exp_less ad x y \<longleftrightarrow> ekey x < ekey y"
    using terms.scan_less_key [of "mTerms x" "mTerms y" ad]
    by (auto simp: exp_less_def ekey_def no_tuple_def)
qed


section \<open>The abstract view: coefficients of factors\<close>

definition coef_of :: "trm list \<Rightarrow> factor_key \<Rightarrow> int" where
  "coef_of ts k = (\<Sum>t\<leftarrow>ts. if fkey t = k then coefficient t else 0)"

definition coefs :: "exp \<Rightarrow> factor_key \<Rightarrow> int" where
  "coefs e = coef_of (mTerms e)"

lemma coef_of_simps [simp]:
  "coef_of [] k = 0"
  "coef_of (t # ts) k = (if fkey t = k then coefficient t else 0) + coef_of ts k"
  by (simp_all add: coef_of_def)

fun idx_ok :: "(string \<Rightarrow> bool) \<Rightarrow> trm \<Rightarrow> bool" where
  "idx_ok scalar (UFCallTerm c f es i) \<longleftrightarrow> (if scalar f then i = -1 else i \<ge> 0)"
| "idx_ok scalar (TupleExpTerm c es) \<longleftrightarrow> False"
| "idx_ok scalar t \<longleftrightarrow> True"

lemma idx_ok_not_tuple: "idx_ok scalar t \<Longrightarrow> \<not> isTupleExp t"
  by (cases t) simp_all

lemma idx_ok_set [simp]: "idx_ok scalar (setCoefficient c t) = idx_ok scalar t"
  by (cases t) simp_all

lemma factorMatches_fkey:
  "idx_ok scalar t \<Longrightarrow> idx_ok scalar u \<Longrightarrow> factorMatches t u \<longleftrightarrow> fkey t = fkey u"
  by (cases t; cases u)
    (auto simp: factorMatches_def term_factorMatches_def tupleIndex_def isIndexed_def split: if_splits)

definition wf_terms :: "(string \<Rightarrow> bool) \<Rightarrow> trm list \<Rightarrow> bool" where
  "wf_terms scalar ts \<longleftrightarrow>
     list_all (idx_ok scalar) ts \<and> sorted_wrt (<) (map fkey ts) \<and> list_all (\<lambda>t. coefficient t \<noteq> 0) ts"

definition wf_exp :: "(string \<Rightarrow> bool) \<Rightarrow> exp \<Rightarrow> bool" where
  "wf_exp scalar e \<longleftrightarrow> wf_terms scalar (mTerms e)"

lemma wf_terms_Nil [simp]: "wf_terms scalar []"
  by (simp add: wf_terms_def)

lemma wf_terms_Cons:
  "wf_terms scalar (t # ts) \<longleftrightarrow> idx_ok scalar t \<and> coefficient t \<noteq> 0 \<and>
     (\<forall>u \<in> set ts. fkey t < fkey u) \<and> wf_terms scalar ts"
  by (auto simp: wf_terms_def)

lemma addTerm_loop_step:
  assumes "idx_ok scalar t" and "idx_ok scalar u"
  shows "addTerm_loop t (u # us) =
    (if fkey t = fkey u
     then if coefficient u + coefficient t = 0 then us else setCoefficient (coefficient u + coefficient t) u # us
     else if fkey t < fkey u then t # u # us else u # addTerm_loop t us)"
  using assms idx_ok_not_tuple [OF assms(1)] idx_ok_not_tuple [OF assms(2)]
  by (auto simp: combine_eq factorMatches_fkey trm_less_tkey tkey_def)

lemma fkey_addTerm_loop:
  "idx_ok scalar t \<Longrightarrow> list_all (idx_ok scalar) ts \<Longrightarrow>
   fkey ` set (addTerm_loop t ts) \<subseteq> insert (fkey t) (fkey ` set ts)"
proof (induction ts)
  case (Cons u us)
  then show ?case by (simp add: addTerm_loop_step del: addTerm_loop.simps) blast
qed simp

lemma wf_addTerm_loop:
  "idx_ok scalar t \<Longrightarrow> coefficient t \<noteq> 0 \<Longrightarrow> wf_terms scalar ts \<Longrightarrow> wf_terms scalar (addTerm_loop t ts)"
proof (induction ts)
  case (Cons u us)
  have "\<forall>x \<in> set (addTerm_loop t us). fkey x \<in> insert (fkey t) (fkey ` set us)"
    using fkey_addTerm_loop [of scalar t us] Cons.prems by (auto simp: wf_terms_def)
  with Cons show ?case
    by (fastforce simp: addTerm_loop_step wf_terms_Cons simp del: addTerm_loop.simps)
qed (simp add: wf_terms_Cons)

lemma coef_addTerm_loop:
  "idx_ok scalar t \<Longrightarrow> list_all (idx_ok scalar) ts \<Longrightarrow>
   coef_of (addTerm_loop t ts) k = coef_of ts k + (if fkey t = k then coefficient t else 0)"
  by (induction ts) (auto simp: addTerm_loop_step simp del: addTerm_loop.simps(2))

lemma wf_addTerm: "idx_ok scalar t \<Longrightarrow> wf_exp scalar e \<Longrightarrow> wf_exp scalar (addTerm t e)"
  by (simp add: addTerm_def wf_exp_def wf_addTerm_loop)

lemma wf_terms_idx: "wf_terms scalar ts \<Longrightarrow> list_all (idx_ok scalar) ts"
  by (simp add: wf_terms_def)

lemma coefs_addTerm:
  "idx_ok scalar t \<Longrightarrow> wf_exp scalar e \<Longrightarrow> coefs (addTerm t e) = (coefs e)(fkey t := coefs e (fkey t) + coefficient t)"
  by (auto simp: addTerm_def coefs_def wf_exp_def coef_addTerm_loop [OF _ wf_terms_idx])

lemma addExp_loop_wf:
  "list_all (idx_ok scalar) ts \<Longrightarrow> wf_terms scalar acc \<Longrightarrow>
   wf_terms scalar (addExp_loop ts acc) \<and> (\<forall>k. coef_of (addExp_loop ts acc) k = coef_of acc k + coef_of ts k)"
  by (induction ts arbitrary: acc) (auto simp: wf_addTerm_loop coef_addTerm_loop [OF _ wf_terms_idx])

lemma wf_addExp: "wf_exp scalar e \<Longrightarrow> wf_exp scalar this \<Longrightarrow> wf_exp scalar (addExp e this)"
  by (simp add: addExp_def wf_exp_def addExp_loop_wf wf_terms_idx)

lemma coefs_addExp:
  "wf_exp scalar e \<Longrightarrow> wf_exp scalar this \<Longrightarrow> coefs (addExp e this) = (\<lambda>k. coefs this k + coefs e k)"
  by (rule ext) (simp add: addExp_def wf_exp_def coefs_def addExp_loop_wf [OF wf_terms_idx])

lemma wf_multiplyBy: "k \<noteq> 0 \<Longrightarrow> wf_exp scalar e \<Longrightarrow> wf_exp scalar (multiplyBy k e)"
  by (simp add: wf_exp_def wf_terms_def multiplyBy_def term_multiplyBy_def list_all_iff sorted_wrt_map)

lemma coefs_multiplyBy: "coefs (multiplyBy c e) k = c * coefs e k"
proof -
  have "coef_of (map (term_multiplyBy c) ts) k = c * coef_of ts k" for ts
    by (induction ts) (auto simp: term_multiplyBy_def algebra_simps)
  then show ?thesis by (simp add: coefs_def multiplyBy_def)
qed

lemma wf_new [simp]: "wf_exp scalar Exp_new"
  by (simp add: wf_exp_def Exp_new_def)

text \<open>A well-formed list is determined by its coefficients.\<close>

lemma coef_of_notin: "k \<notin> fkey ` set ts \<Longrightarrow> coef_of ts k = 0"
  by (induction ts) auto

lemma coef_of_member: "wf_terms scalar ts \<Longrightarrow> t \<in> set ts \<Longrightarrow> coef_of ts (fkey t) = coefficient t"
proof (induction ts)
  case (Cons u us)
  then have "fkey u \<notin> fkey ` set us" by (auto simp: wf_terms_Cons)
  with Cons show ?case by (auto simp: wf_terms_Cons coef_of_notin)
qed simp

lemma wf_terms_keys:
  assumes "wf_terms scalar ts"
  shows "fkey ` set ts = {k. coef_of ts k \<noteq> 0}"
proof (intro equalityI subsetI CollectI)
  fix k assume "k \<in> fkey ` set ts"
  then obtain t where "t \<in> set ts" "k = fkey t" by blast
  with assms coef_of_member [OF assms this(1)] show "coef_of ts k \<noteq> 0"
    by (simp add: wf_terms_def list_all_iff)
next
  fix k assume "k \<in> {k. coef_of ts k \<noteq> 0}"
  then show "k \<in> fkey ` set ts" using coef_of_notin by blast
qed

lemma wf_terms_unique:
  assumes "wf_terms scalar ts" and "wf_terms scalar us"
  shows "map tkey ts = map tkey us \<longleftrightarrow> coef_of ts = coef_of us"
proof
  assume eq: "map tkey ts = map tkey us"
  have "coef_of ts k = (\<Sum>(k', c)\<leftarrow>map tkey ts. if k' = k then c else 0)" for ts k
    by (induction ts) (simp_all add: tkey_def)
  with eq show "coef_of ts = coef_of us" by (intro ext) metis
next
  assume eq: "coef_of ts = coef_of us"
  then have "fkey ` set ts = fkey ` set us"
    using assms by (simp add: wf_terms_keys)
  then have keys: "map fkey ts = map fkey us"
    using assms by (intro sorted_distinct_set_unique) (auto simp: wf_terms_def strict_sorted_iff)
  have tk: "map tkey ts = map (\<lambda>k. (k, coef_of ts k)) (map fkey ts)" if "wf_terms scalar ts" for ts
    using that by (auto simp: tkey_def coef_of_member)
  show "map tkey ts = map tkey us"
    using tk [OF assms(1)] tk [OF assms(2)] keys eq by metis
qed

lemma wf_exp_no_tuple: "wf_exp scalar e \<Longrightarrow> no_tuple e"
  using idx_ok_not_tuple by (auto simp: wf_exp_def wf_terms_def no_tuple_def list_all_iff)

lemma exp_eq_coefs:
  assumes "wf_exp scalar e" and "wf_exp scalar e'"
  shows "exp_eq ad e e' \<longleftrightarrow> coefs e = coefs e'"
proof -
  have "exp_eq ad e e' \<longleftrightarrow> ekey e = ekey e'"
    unfolding exp_eq_def using assms by (intro exps.equiv_key wf_exp_no_tuple)
  also have "\<dots> \<longleftrightarrow> map tkey (mTerms e) = map tkey (mTerms e')"
    by (auto simp: ekey_def dest: map_eq_imp_length_eq)
  finally show ?thesis using assms wf_terms_unique by (simp add: wf_exp_def coefs_def)
qed


section \<open>Normalised equalities\<close>

lemma eval_terms_append [simp]: "eval_terms v (ts @ us) = eval_terms v ts + eval_terms v us"
  by (simp add: eval_terms_def)

lemma eval_butlast_zero:
  "ts \<noteq> [] \<Longrightarrow> coefficient (last ts) = 0 \<Longrightarrow> eval_terms v (butlast ts) = eval_terms v ts"
  using eval_terms_append [of v "butlast ts" "[last ts]"] by simp

lemma eval_normalizeForEquality: "eval_exp v (normalizeForEquality e) = 0 \<longleftrightarrow> eval_exp v e = 0"
proof -
  have drop: "eval_exp v (if coefficient (last (mTerms e)) = 0 then Exp (butlast (mTerms e)) (mExpType e) else e)
      = eval_exp v e" if "mTerms e \<noteq> []" for e
    using that by (simp add: eval_butlast_zero eval_exp_terms)
  have "mTerms (multiplyBy (-1) e) = [] \<longleftrightarrow> mTerms e = []" by (simp add: multiplyBy_def)
  then show ?thesis
    using drop [of e] drop [of "multiplyBy (-1) e"] eval_multiplyBy [of v "-1" e]
    by (cases "mTerms e = []"; cases "coefficient (hd (mTerms e)) < 0")
      (simp_all add: normalizeForEquality_def Let_def split del: if_split)
qed

lemma plain_normalizeForEquality [plain_intros]: "plain_exp e \<Longrightarrow> plain_exp (normalizeForEquality e)"
  using plain_multiplyBy [of e "-1"]
  by (auto simp: normalizeForEquality_def Let_def plain_mTerms list_all_iff dest: in_set_butlastD)

lemma mExpType_multiplyBy [simp]: "mExpType (multiplyBy k e) = mExpType e"
  by (simp add: multiplyBy_def)

lemma mExpType_normalize [simp]: "mExpType (normalizeForEquality e) = mExpType e"
  by (simp add: normalizeForEquality_def Let_def)

lemma term_multiplyBy_twice: "term_multiplyBy a (term_multiplyBy b t) = term_multiplyBy (b * a) t"
  by (simp add: term_multiplyBy_def mult.assoc)

lemma set_same [simp]: "setCoefficient (coefficient t) t = t"
  by (cases t) simp_all

lemma term_multiplyBy_1 [simp]: "term_multiplyBy 1 t = t"
  by (simp add: term_multiplyBy_def)

lemma multiplyBy_twice: "multiplyBy a (multiplyBy b e) = multiplyBy (b * a) e"
  by (simp add: multiplyBy_def term_multiplyBy_twice comp_def)

lemma multiplyBy_1 [simp]: "multiplyBy 1 e = e"
  by (cases e) (simp add: multiplyBy_def map_idI)

lemma multiplyBy_Nil: "mTerms e = [] \<Longrightarrow> multiplyBy k e = e"
  by (cases e) (simp add: multiplyBy_def)

lemma normalize_wf:
  assumes "wf_exp scalar e"
  shows "normalizeForEquality e =
    (if mTerms e \<noteq> [] \<and> coefficient (hd (mTerms e)) < 0 then multiplyBy (-1) e else e)"
proof (cases "mTerms e = []")
  case False
  have nz: "coefficient (last (mTerms x)) \<noteq> 0" if "wf_exp scalar x" "mTerms x \<noteq> []" for x
    using that last_in_set by (auto simp: wf_exp_def wf_terms_def list_all_iff)
  have "mTerms (multiplyBy (-1) e) \<noteq> []" using False by (simp add: multiplyBy_def)
  with False nz [OF assms] nz [OF wf_multiplyBy [OF _ assms], of "-1"] show ?thesis
    by (simp add: normalizeForEquality_def Let_def)
qed (simp add: normalizeForEquality_def)

lemma wf_normalize: "wf_exp scalar e \<Longrightarrow> wf_exp scalar (normalizeForEquality e)"
  by (simp add: normalize_wf wf_multiplyBy)

lemma normalize_neg:
  assumes "wf_exp scalar e"
  shows "normalizeForEquality (multiplyBy (-1) e) = normalizeForEquality e"
proof -
  have "mTerms e \<noteq> [] \<Longrightarrow> coefficient (hd (mTerms e)) \<noteq> 0"
    using assms by (auto simp: wf_exp_def wf_terms_def list_all_iff)
  moreover have "mTerms e \<noteq> [] \<Longrightarrow>
      coefficient (hd (mTerms (multiplyBy (-1) e))) = - coefficient (hd (mTerms e))"
    by (simp add: multiplyBy_def hd_map term_multiplyBy_def)
  moreover have "mTerms (multiplyBy (-1) e) = [] \<longleftrightarrow> mTerms e = []"
    by (simp add: multiplyBy_def)
  ultimately show ?thesis
    using normalize_wf [OF assms] normalize_wf [OF wf_multiplyBy [OF _ assms], of "-1"]
    by (cases "mTerms e = []") (auto simp: multiplyBy_twice multiplyBy_Nil)
qed

lemma normalize_idem: "wf_exp scalar e \<Longrightarrow> normalizeForEquality (normalizeForEquality e) = normalizeForEquality e"
  using normalize_neg normalize_wf by metis

section \<open>Properties\<close>

text \<open>
  Adding a term, adding an expression and multiplying by a constant compute the sum and
  the product, under every valuation, and keep expressions well formed.
\<close>

lemma arithmetic_value:
  assumes "plain_term t" and "plain_exp e" and "plain_exp e'"
  shows "plain_exp (addTerm t e) \<and> plain_exp (addExp e' e) \<and> plain_exp (multiplyBy k e)
    \<and> eval_exp v (addTerm t e) = eval_exp v e + coefficient t * factor_val v t
    \<and> eval_exp v (addExp e' e) = eval_exp v e + eval_exp v e'
    \<and> eval_exp v (multiplyBy k e) = k * eval_exp v e"
  using assms by (simp add: plain_intros eval_simps)

text \<open>
  C9. The sorted term list refines the map from factors to coefficients: when a function is
  used either always with an index or never, \<open>addTerm\<close> adds at one factor, \<open>addExp\<close> adds
  pointwise, \<open>multiplyBy\<close> scales, and the list stays strictly sorted by factor with no zero
  coefficient.
\<close>

theorem addTerm_refines:
  assumes "idx_ok scalar t" and "wf_exp scalar e" and "wf_exp scalar e'"
  shows "wf_exp scalar (addTerm t e) \<and> coefs (addTerm t e) = (coefs e)(fkey t := coefs e (fkey t) + coefficient t)
    \<and> wf_exp scalar (addExp e' e) \<and> coefs (addExp e' e) = (\<lambda>k. coefs e k + coefs e' k)
    \<and> (c \<noteq> 0 \<longrightarrow> wf_exp scalar (multiplyBy c e)) \<and> coefs (multiplyBy c e) = (\<lambda>k. c * coefs e k)"
  using assms by (simp add: wf_addTerm coefs_addTerm wf_addExp coefs_addExp wf_multiplyBy coefs_multiplyBy ext)

theorem addTerm_refines_witness:
  "coefs (addTerm (VarTerm 5 ''n'') (Exp [VarTerm (-5) ''n'', Term 1] Expression)) (fkey (VarTerm 1 ''n'')) = 0"
  by (subst addTerm_refines [of "\<lambda>f. True" _ _ Exp_new, THEN conjunct2, THEN conjunct1])
    (simp_all add: wf_exp_def wf_terms_def coefs_def Exp_new_def)

text \<open>
  C23. The operator \<open>==\<close> of expressions, which compares the sorted lists term by term, decides
  equality of the coefficient functions, whatever the addresses of the objects are.
\<close>

theorem exp_eq_decides:
  assumes "wf_exp scalar e" and "wf_exp scalar e'"
  shows "exp_eq ad e e' \<longleftrightarrow> coefs e = coefs e'"
  using assms by (rule exp_eq_coefs)

theorem exp_eq_decides_witness:
  "coefs (Exp [TupleVarTerm 1 0, Term 2] Expression) \<noteq> coefs (Exp [TupleVarTerm 1 0, Term 3] Expression)"
  by (subst exp_eq_decides [of "\<lambda>f. True" _ _ no_addr, symmetric])
    (simp_all add: wf_exp_def wf_terms_def exp_eq_def exp_less_def trm_less_def term_less_def)

text \<open>
  C24. Division: \<open>isDivisible\<close> with a nonzero divisor decides whether \<open>divideBy\<close> succeeds, a
  successful division is exact, and a failed one reports the assertion of the term class.
\<close>

theorem divideBy_exact:
  assumes "d \<noteq> 0"
  shows "(isDivisible d e = Inr True \<longleftrightarrow> (\<exists>e'. divideBy d e = Inr e'))
    \<and> (\<forall>e'. divideBy d e = Inr e' \<longrightarrow> d * eval_exp v e' = eval_exp v e)
    \<and> (isDivisible d e = Inr False \<longleftrightarrow>
         divideBy d e = Inl (Assert ''Term::divideBy: mCoeff is not divisible by divisor''))"
proof -
  have fail: "mapr (term_divideBy d) ts = Inl (Assert ''Term::divideBy: mCoeff is not divisible by divisor'')"
    if "\<exists>t \<in> set ts. \<not> d dvd coefficient t" for ts
    using that
  proof (induction ts)
    case (Cons t ts)
    then show ?case using assms by (cases "d dvd coefficient t") (auto simp: term_divideBy_def c_rem_eq_0)
  qed simp
  show ?thesis
  proof (cases "\<forall>t \<in> set (mTerms e). d dvd coefficient t")
    case True
    with divideBy_Inr [OF assms, of e] eval_divideBy [of d e] show ?thesis
      by (simp add: isDivisible_eq [OF assms])
  next
    case False
    then have "divideBy d e = Inl (Assert ''Term::divideBy: mCoeff is not divisible by divisor'')"
      using fail by (simp add: divideBy_def)
    with False show ?thesis by (simp add: isDivisible_eq [OF assms])
  qed
qed

theorem divideBy_exact_witness:
  "isDivisible 3 (Exp [VarTerm (-6) ''n'', Term 9] Equality) = Inr True"
  by (subst divideBy_exact [of 3 _ undefined, THEN conjunct1])
    (simp_all add: divideBy_def term_divideBy_def c_rem_def c_quot_def)

text \<open>
  C12. \<open>normalizeForEquality\<close> keeps the solutions of \<open>e = 0\<close>; on well-formed expressions it is
  idempotent, gives \<open>e\<close> and \<open>-e\<close> one representative and makes the first coefficient positive.
\<close>

theorem normalizeForEquality_correct:
  assumes "wf_exp scalar e"
  shows "(eval_exp v (normalizeForEquality e) = 0 \<longleftrightarrow> eval_exp v e = 0)
    \<and> wf_exp scalar (normalizeForEquality e)
    \<and> normalizeForEquality (normalizeForEquality e) = normalizeForEquality e
    \<and> normalizeForEquality (multiplyBy (-1) e) = normalizeForEquality e
    \<and> (mTerms e \<noteq> [] \<longrightarrow> coefficient (hd (mTerms (normalizeForEquality e))) > 0)"
proof -
  have "coefficient (hd (mTerms (normalizeForEquality e))) > 0" if ne: "mTerms e \<noteq> []"
  proof -
    have "coefficient (hd (mTerms e)) \<noteq> 0"
      using assms ne by (auto simp: wf_exp_def wf_terms_def list_all_iff)
    with ne show ?thesis by (simp add: normalize_wf [OF assms] multiplyBy_def hd_map term_multiplyBy_def)
  qed
  with assms show ?thesis
    by (simp add: eval_normalizeForEquality wf_normalize normalize_idem normalize_neg)
qed

theorem normalizeForEquality_correct_witness:
  "normalizeForEquality (multiplyBy (-1) (Exp [TupleVarTerm 1 0, Term 4] Equality))
   = normalizeForEquality (Exp [TupleVarTerm 1 0, Term 4] Equality)"
  by (rule normalizeForEquality_correct
      [of "\<lambda>f. True" _ undefined, THEN conjunct2, THEN conjunct2, THEN conjunct2, THEN conjunct1])
    (simp add: wf_exp_def wf_terms_def)

text \<open>
  The proviso on indices is needed. A call without an index and the call with index 0 have
  the same factor, yet they are sorted by the stored indices \<open>-1\<close> and 0: the term \<open>f(m)\<close> is
  inserted in front of \<open>f(n)\<close>, before the loop reaches the \<open>f(m)[0]\<close> it would combine with.
\<close>

theorem addTerm_mixed_index:
  "let u = UFCallTerm 1 ''f'' [Exp [VarTerm 1 ''m''] Expression] 0;
       t = UFCallTerm (-1) ''f'' [Exp [VarTerm 1 ''m''] Expression] (-1);
       n = UFCallTerm 1 ''f'' [Exp [VarTerm 1 ''n''] Expression] (-1)
   in factorMatches u t \<and> mTerms (addTerm t (addTerm u (addTerm n Exp_new))) = [t, n, u]"
  by code_simp

end
