(* ===== verification/IEG_SubMap.thy ===== *)
theory IEG_SubMap
  imports IEG_Algebra
begin

text \<open>
  The substitution map (\<open>SubMap.h\<close>, \<open>SubMap.cc\<close>) and what rewrites the factors of an
  expression with it: \<open>Exp::substitute\<close>. The map is keyed by the pointers to the factors, so it
  iterates in the order of their addresses, which are arguments here; \<open>subExp\<close> returns the
  first entry whose factor matches. The locale \<open>factor_map\<close> states what the substitution needs
  of the map.
\<close>

section \<open>The map\<close>

text \<open>An entry is the address of the key, the key and the expression. The iterator is the
  address it points at, \<open>None\<close> at the end; insertions leave iterators valid.\<close>

record submap =
  mTerm2ExpMap :: "(nat \<times> trm \<times> exp) list"
  mIter :: "nat option"

definition SubMap_new :: submap where
  "SubMap_new = \<lparr>mTerm2ExpMap = [], mIter = None\<rparr>"

fun map_assign :: "nat \<Rightarrow> trm \<times> exp \<Rightarrow> (nat \<times> trm \<times> exp) list \<Rightarrow> (nat \<times> trm \<times> exp) list" where
  "map_assign a p [] = [(a, p)]"
| "map_assign a p ((b, q) # xs) =
     (if a < b then (a, p) # (b, q) # xs
      else if a = b then (b, fst q, snd p) # xs
      else (b, q) # map_assign a p xs)"

definition insertPair :: "nat \<Rightarrow> trm \<Rightarrow> exp \<Rightarrow> submap \<Rightarrow> submap" where
  "insertPair addr factor e m = m\<lparr>mTerm2ExpMap := map_assign addr (factor, e) (mTerm2ExpMap m)\<rparr>"

definition startIter :: "submap \<Rightarrow> submap" where
  "startIter m = m\<lparr>mIter := (case mTerm2ExpMap m of [] \<Rightarrow> None | (a, _) # _ \<Rightarrow> Some a)\<rparr>"

definition hasNext :: "submap \<Rightarrow> bool" where
  "hasNext m \<longleftrightarrow> mIter m \<noteq> None"

text \<open>\<open>next\<close> dereferences the iterator without looking whether it is at the end.\<close>

definition iter_next :: "submap \<Rightarrow> (trm \<times> submap) res" where
  "iter_next m =
     (case mIter m of
        None \<Rightarrow> Inl NullDeref
      | Some a \<Rightarrow>
          (case map_of (mTerm2ExpMap m) a of
             None \<Rightarrow> Inl NullDeref
           | Some (t, e) \<Rightarrow>
               Inr (t, m\<lparr>mIter := (case filter (\<lambda>(b, _). a < b) (mTerm2ExpMap m) of
                                     [] \<Rightarrow> None | (b, _) # _ \<Rightarrow> Some b)\<rparr>)))"

fun first_match :: "trm \<Rightarrow> (nat \<times> trm \<times> exp) list \<Rightarrow> exp option" where
  "first_match factor [] = None"
| "first_match factor ((a, searchptr, e) # xs) =
     (if factorMatches factor searchptr then Some e else first_match factor xs)"

definition subExp :: "submap \<Rightarrow> trm \<Rightarrow> exp option" where
  "subExp m factor = first_match factor (mTerm2ExpMap m)"

definition submap_toString :: "submap \<Rightarrow> string" where
  "submap_toString m =
     ''SubMap:'' @ endl @
     concat (map (\<lambda>(a, t, e). [CHR 0x09] @ ''term = '' @ term_toString False False t
                   @ '', exp = '' @ exp_toString False e @ endl) (mTerm2ExpMap m))"

text \<open>A loop of the clients: visit every key.\<close>

fun iter_keys :: "nat \<Rightarrow> submap \<Rightarrow> trm list res" where
  "iter_keys 0 m = Inr []"
| "iter_keys (Suc n) m =
     (if hasNext m then bindr (iter_next m) (\<lambda>(t, m'). bindr (iter_keys n m') (\<lambda>ts. Inr (t # ts)))
      else Inr [])"

section \<open>Substitution\<close>

text \<open>
  All terms of the expression are moved, substituted or with substituted arguments, into
  \<open>addedTerms\<close>, which is then added to the expression that the loop has emptied.
\<close>

fun substitute :: "(trm \<Rightarrow> exp option) \<Rightarrow> exp \<Rightarrow> exp"
and substitute_loop :: "(trm \<Rightarrow> exp option) \<Rightarrow> trm list \<Rightarrow> exp \<Rightarrow> exp"
and substitute_args :: "(trm \<Rightarrow> exp option) \<Rightarrow> trm \<Rightarrow> trm" where
  "substitute sub (Exp ts ty) = addExp (substitute_loop sub ts Exp_new) (Exp [] ty)"
| "substitute_loop sub [] addedTerms = addedTerms"
| "substitute_loop sub (t # ts) addedTerms =
     (case sub t of
        Some e \<Rightarrow> substitute_loop sub ts (addExp (multiplyBy (coefficient t) e) addedTerms)
      | None \<Rightarrow> substitute_loop sub ts (addTerm (substitute_args sub t) addedTerms))"
| "substitute_args sub (UFCallTerm c f es i) = UFCallTerm c f (map (\<lambda>e. substitute sub e) es) i"
| "substitute_args sub (TupleExpTerm c es) = TupleExpTerm c (map (\<lambda>e. substitute sub e) es)"
| "substitute_args sub (TupleVarTerm c l) = TupleVarTerm c l"
| "substitute_args sub (VarTerm c s) = VarTerm c s"
| "substitute_args sub (Term c) = Term c"

text \<open>
  The substitution lemma: the value under \<open>v\<close> of the rewritten expression is the value under
  \<open>v'\<close> of the original one, if \<open>v'\<close> gives each replaced factor the value of its replacement
  and agrees with \<open>v\<close> on the functions and on the factors that are kept.
\<close>

lemma substitute_value:
  assumes "\<And>t e. sub t = Some e \<Longrightarrow> plain_term t \<Longrightarrow> plain_exp e \<and> eval_exp v e = factor_val v' t"
    and "\<And>t. sub t = None \<Longrightarrow> \<not> isUFCall t \<Longrightarrow> factor_val v t = factor_val v' t"
    and "ufv v = ufv v'"
  shows "plain_exp e \<Longrightarrow> plain_exp (substitute sub e) \<and> eval_exp v (substitute sub e) = eval_exp v' e"
    and "list_all plain_term ts \<Longrightarrow> plain_exp a \<Longrightarrow> plain_exp (substitute_loop sub ts a)
      \<and> eval_exp v (substitute_loop sub ts a) = eval_exp v a + eval_terms v' ts"
    and "plain_term t \<Longrightarrow> sub t = None \<Longrightarrow> plain_term (substitute_args sub t)
      \<and> coefficient (substitute_args sub t) = coefficient t
      \<and> factor_val v (substitute_args sub t) = factor_val v' t"
  using assms
proof (induction sub e and sub ts a and sub t rule: substitute_substitute_loop_substitute_args.induct)
  case (1 sub ts ty)
  then have "plain_exp (substitute_loop sub ts Exp_new)
      \<and> eval_exp v (substitute_loop sub ts Exp_new) = eval_exp v Exp_new + eval_terms v' ts"
    by (simp add: plain_intros)
  then show ?case by (simp add: eval_simps plain_intros)
next
  case (3 sub t ts a)
  show ?case
  proof (cases "sub t")
    case None
    with 3 have "plain_term (substitute_args sub t)
      \<and> coefficient (substitute_args sub t) = coefficient t
      \<and> factor_val v (substitute_args sub t) = factor_val v' t" by simp
    with 3 None show ?thesis by (simp add: eval_simps plain_intros)
  next
    case (Some e)
    with 3 have "plain_exp e \<and> eval_exp v e = factor_val v' t" by simp
    with 3 Some show ?thesis by (simp add: eval_simps plain_intros)
  qed
next
  case (4 sub c f es i)
  then have "\<forall>e \<in> set es. plain_exp (substitute sub e) \<and> eval_exp v (substitute sub e) = eval_exp v' e"
    by (simp add: list_all_iff)
  then have "map (eval_exp v) (map (substitute sub) es) = map (eval_exp v') es" and
    "list_all plain_exp (map (substitute sub) es)"
    by (simp_all add: list_all_iff)
  with 4 show ?case by (simp del: map_map)
next
  case (6 sub c l)
  with "6.prems"(4) [of "TupleVarTerm c l"] show ?case by simp
next
  case (7 sub c s)
  with "7.prems"(4) [of "VarTerm c s"] show ?case by simp
qed simp_all

section \<open>What substitution needs of the map\<close>

locale factor_map =
  fixes look :: "'m \<Rightarrow> trm \<Rightarrow> exp option" and pairs :: "'m \<Rightarrow> (trm \<times> exp) set"
  assumes look_Some: "look m t = Some e \<Longrightarrow> \<exists>k. (k, e) \<in> pairs m \<and> factorMatches t k"
    and look_None: "look m t = None \<Longrightarrow> (k, e) \<in> pairs m \<Longrightarrow> \<not> factorMatches t k"
begin

definition sound :: "valuation \<Rightarrow> 'm \<Rightarrow> bool" where
  "sound v m \<longleftrightarrow> (\<forall>(k, e) \<in> pairs m. plain_term k \<and> plain_exp e \<and> eval_exp v e = factor_val v k)"

lemma look_sound:
  assumes "sound v m" and "look m t = Some e" and "plain_term t"
  shows "plain_exp e" and "eval_exp v e = factor_val v t"
proof -
  obtain k where k: "(k, e) \<in> pairs m" "factorMatches t k" using assms look_Some by blast
  with assms show "plain_exp e" by (auto simp: sound_def)
  from k assms show "eval_exp v e = factor_val v t"
    using factorMatches_val [of t k v] by (auto simp: sound_def)
qed

lemma substitute_look_sound:
  assumes "sound v m" and "plain_exp e"
  shows "plain_exp (substitute (look m) e) \<and> eval_exp v (substitute (look m) e) = eval_exp v e"
  using assms look_sound look_None by (intro substitute_value) auto

end

definition pairs_of :: "submap \<Rightarrow> (trm \<times> exp) set" where
  "pairs_of m = snd ` set (mTerm2ExpMap m)"

lemma first_match_Some: "first_match t xs = Some e \<Longrightarrow> \<exists>k. (k, e) \<in> snd ` set xs \<and> factorMatches t k"
  by (induction t xs rule: first_match.induct) (auto split: if_splits)

lemma first_match_None: "first_match t xs = None \<Longrightarrow> (k, e) \<in> snd ` set xs \<Longrightarrow> \<not> factorMatches t k"
  by (induction t xs rule: first_match.induct) (auto split: if_splits)

interpretation submap: factor_map subExp pairs_of
  by unfold_locales (auto simp: subExp_def pairs_of_def dest: first_match_Some first_match_None)


section \<open>Lookup and iteration\<close>

lemma set_map_assign:
  "a \<notin> fst ` set xs \<Longrightarrow> set (map_assign a p xs) = insert (a, p) (set xs)"
  by (induction a p xs rule: map_assign.induct) auto

lemma sorted_map_assign:
  "sorted_wrt (<) (map fst xs) \<Longrightarrow> sorted_wrt (<) (map fst (map_assign a p xs))
   \<and> fst ` set (map_assign a p xs) = insert a (fst ` set xs)"
proof (induction xs)
  case (Cons x xs)
  then show ?case by (cases x) auto
qed simp

definition wf_submap :: "submap \<Rightarrow> bool" where
  "wf_submap m \<longleftrightarrow> sorted_wrt (<) (map fst (mTerm2ExpMap m))
     \<and> (case mIter m of None \<Rightarrow> True | Some a \<Rightarrow> a \<in> fst ` set (mTerm2ExpMap m))"

lemma wf_insertPair: "wf_submap m \<Longrightarrow> wf_submap (insertPair a k e m)"
  using sorted_map_assign [of "mTerm2ExpMap m" a "(k, e)"]
  by (auto simp: wf_submap_def insertPair_def split: option.splits)

lemma pairs_insertPair:
  "a \<notin> fst ` set (mTerm2ExpMap m) \<Longrightarrow> pairs_of (insertPair a k e m) = insert (k, e) (pairs_of m)"
  by (simp add: pairs_of_def insertPair_def set_map_assign)

text \<open>With keys of which no two share a factor, the addresses do not matter.\<close>

definition separated :: "(string \<Rightarrow> bool) \<Rightarrow> (trm \<times> exp) set \<Rightarrow> bool" where
  "separated scalar ps \<longleftrightarrow> (\<forall>(k, e) \<in> ps. idx_ok scalar k)
     \<and> (\<forall>(k, e) \<in> ps. \<forall>(k', e') \<in> ps. fkey k = fkey k' \<longrightarrow> e = e')"

lemma subExp_separated:
  assumes "separated scalar (pairs_of m)" and "idx_ok scalar t"
  shows "subExp m t = Some e \<longleftrightarrow> (\<exists>k. (k, e) \<in> pairs_of m \<and> fkey k = fkey t)"
proof
  assume "subExp m t = Some e"
  then obtain k where "(k, e) \<in> pairs_of m" "factorMatches t k"
    using submap.look_Some by blast
  with assms show "\<exists>k. (k, e) \<in> pairs_of m \<and> fkey k = fkey t"
    using factorMatches_fkey by (fastforce simp: separated_def)
next
  assume "\<exists>k. (k, e) \<in> pairs_of m \<and> fkey k = fkey t"
  then obtain k where k: "(k, e) \<in> pairs_of m" "fkey k = fkey t" by blast
  with assms have "factorMatches t k"
    using factorMatches_fkey by (fastforce simp: separated_def)
  with k obtain e' where e': "subExp m t = Some e'"
    using submap.look_None by (cases "subExp m t") blast+
  then obtain k' where "(k', e') \<in> pairs_of m" "factorMatches t k'"
    using submap.look_Some by blast
  with assms have "(k', e') \<in> pairs_of m" "fkey k' = fkey t"
    using factorMatches_fkey by (fastforce simp: separated_def)+
  with k assms(1) have "e' = e" by (fastforce simp: separated_def)
  with e' show "subExp m t = Some e" by simp
qed

lemma filter_greater:
  "sorted_wrt (<) (map fst (xs @ (a, p) # ys)) \<Longrightarrow> filter (\<lambda>(b, _). (a::nat) < b) (xs @ (a, p) # ys) = ys"
proof -
  assume "sorted_wrt (<) (map fst (xs @ (a, p) # ys))"
  then have "\<forall>x \<in> set xs. \<not> a < fst x" and "\<forall>y \<in> set ys. a < fst y"
    by (auto simp: sorted_wrt_append)
  then have "filter (\<lambda>(b, _). a < b) xs = []" and "filter (\<lambda>(b, _). a < b) ys = ys"
    by (simp_all add: filter_empty_conv filter_id_conv case_prod_beta)
  then show ?thesis by simp
qed

lemma map_of_middle:
  "sorted_wrt (<) (map fst (xs @ (a, p) # ys)) \<Longrightarrow> map_of (xs @ (a::nat, p) # ys) a = Some p"
  by (auto simp: sorted_wrt_append map_add_def split: option.splits dest!: map_of_SomeD)

lemma iter_keys_suffix:
  assumes "sorted_wrt (<) (map fst (mTerm2ExpMap m))"
    and "mTerm2ExpMap m = xs @ ys" and "mIter m = (case ys of [] \<Rightarrow> None | (a, _) # _ \<Rightarrow> Some a)"
    and "length ys \<le> n"
  shows "iter_keys n m = Inr (map (\<lambda>(a, t, e). t) ys)"
  using assms
proof (induction n arbitrary: m xs ys)
  case (Suc n)
  show ?case
  proof (cases ys)
    case (Cons y zs)
    obtain a t e where y: "y = (a, t, e)" by (cases y)
    have sorted: "sorted_wrt (<) (map fst (xs @ (a, t, e) # zs))"
      using Suc.prems Cons y by simp
    let ?m = "m\<lparr>mIter := (case zs of [] \<Rightarrow> None | (b, _) # _ \<Rightarrow> Some b)\<rparr>"
    have "iter_next m = Inr (t, ?m)"
      using map_of_middle [OF sorted] filter_greater [OF sorted] Suc.prems Cons y
      by (simp add: iter_next_def)
    moreover have "iter_keys n ?m = Inr (map (\<lambda>(a, t, e). t) zs)"
      by (rule Suc.IH [of _ "xs @ [y]"]) (use Suc.prems Cons in simp_all)
    moreover have "hasNext m" using Suc.prems Cons y by (simp add: hasNext_def)
    ultimately show ?thesis by (simp add: Cons y)
  qed (use Suc.prems in \<open>simp add: hasNext_def\<close>)
qed simp

section \<open>Properties\<close>

text \<open>
  Substituting through the map of equal factors is sound: if every expression of the map
  has the value of its key, the expression keeps its value, inside function arguments too.
\<close>

lemma substitute_equals:
  assumes "\<forall>(k, s) \<in> pairs_of m. plain_term k \<and> plain_exp s \<and> eval_exp v s = factor_val v k"
    and "plain_exp e"
  shows "plain_exp (substitute (subExp m) e) \<and> eval_exp v (substitute (subExp m) e) = eval_exp v e"
  using assms submap.substitute_look_sound [of v m e] by (simp add: submap.sound_def)

definition valuation_sub :: "(trm \<Rightarrow> exp option) \<Rightarrow> valuation \<Rightarrow> valuation" where
  "valuation_sub sub v = v
     \<lparr>tvv := \<lambda>l. (case sub (TupleVarTerm 1 l) of None \<Rightarrow> tvv v l | Some e \<Rightarrow> eval_exp v e),
      symv := \<lambda>s. (case sub (VarTerm 1 s) of None \<Rightarrow> symv v s | Some e \<Rightarrow> eval_exp v e)\<rparr>"

lemma first_match_coefficient:
  "first_match (TupleVarTerm c l) xs = first_match (TupleVarTerm 1 l) xs"
  "first_match (VarTerm c s) xs = first_match (VarTerm 1 s) xs"
proof -
  have "factorMatches (TupleVarTerm c l) k = factorMatches (TupleVarTerm 1 l) k"
    "factorMatches (VarTerm c s) k = factorMatches (VarTerm 1 s) k" for k
    by (cases k; simp add: factorMatches_def)+
  then show "first_match (TupleVarTerm c l) xs = first_match (TupleVarTerm 1 l) xs"
    "first_match (VarTerm c s) xs = first_match (VarTerm 1 s) xs"
    by (induction xs) auto
qed

lemma substitute_variables_value:
  assumes "\<forall>(k, s) \<in> pairs_of m. termType k \<in> {TupleVar, SymConst} \<and> plain_exp s"
    and "plain_exp e"
  shows "plain_exp (substitute (subExp m) e) \<and> eval_exp v (substitute (subExp m) e) = eval_exp (valuation_sub (subExp m) v) e"
proof -
  have type: "termType t \<in> {TupleVar, SymConst} \<and> plain_exp s" if "subExp m t = Some s" for t s
    using submap.look_Some [OF that] assms(1) factorMatches_type [of t] by fastforce
  have coeff: "subExp m (TupleVarTerm c l) = subExp m (TupleVarTerm 1 l)"
    "subExp m (VarTerm c s) = subExp m (VarTerm 1 s)" for c l s
    by (simp_all only: subExp_def first_match_coefficient [of c])
  show ?thesis
  proof (rule substitute_value(1))
    fix t s assume s: "subExp m t = Some s"
    have "subExp m (TupleVarTerm 1 l) = Some s" if "t = TupleVarTerm c l" for c l
      using s coeff(1) [of c l] that by simp
    moreover have "subExp m (VarTerm 1 n) = Some s" if "t = VarTerm c n" for c n
      using s coeff(2) [of c n] that by simp
    ultimately show "plain_exp s \<and> eval_exp v s = factor_val (valuation_sub (subExp m) v) t"
      using type [OF s] by (cases t) (auto simp: valuation_sub_def)
  next
    fix t assume t: "subExp m t = None" "\<not> isUFCall t"
    have "subExp m (TupleVarTerm 1 l) = None" if "t = TupleVarTerm c l" for c l
      using t coeff(1) [of c l] that by simp
    moreover have "subExp m (VarTerm 1 n) = None" if "t = VarTerm c n" for c n
      using t coeff(2) [of c n] that by simp
    ultimately show "factor_val v t = factor_val (valuation_sub (subExp m) v) t"
      using t by (cases t) (auto simp: valuation_sub_def)
  qed (use assms in \<open>simp_all add: valuation_sub_def\<close>)
qed

text \<open>
  C10. The substitution lemma: replacing tuple variables and symbolic constants and then
  evaluating is evaluating under the valuation that gives each replaced variable the value of
  its expression.
\<close>

theorem substitute_variables:
  assumes "\<forall>(k, s) \<in> pairs_of m. termType k \<in> {TupleVar, SymConst} \<and> plain_exp s"
    and "plain_exp e"
  shows "eval_exp v (substitute (subExp m) e) = eval_exp (valuation_sub (subExp m) v) e"
  using substitute_variables_value [OF assms] by simp

theorem substitute_variables_witness:
  "eval_exp \<lparr>tvv = \<lambda>l. 3, symv = \<lambda>s. 5, ufv = \<lambda>f i xs. sum_list xs\<rparr>
     (substitute (subExp (insertPair 1 (TupleVarTerm 1 0) (Exp [VarTerm 1 ''n''] Expression) SubMap_new))
       (Exp [UFCallTerm 4 ''f'' [Exp [TupleVarTerm 2 0] Expression] (-1)] Expression)) = 40"
  by (subst substitute_variables)
    (simp_all add: SubMap_new_def insertPair_def pairs_of_def wf_name_def is_ident_def is_digit_def
      valuation_sub_def subExp_def factorMatches_def)

text \<open>
  When no two keys with one factor have different expressions, what \<open>subExp\<close> returns does
  not depend on the addresses of the keys, so two maps with the same pairs are interchangeable.
\<close>

lemma subExp_addresses:
  assumes "separated scalar (pairs_of m)" and "pairs_of m' = pairs_of m" and "idx_ok scalar t"
  shows "subExp m' t = subExp m t"
proof (cases "subExp m t")
  case (Some e)
  then show ?thesis using assms subExp_separated by metis
next
  case None
  then show ?thesis using assms subExp_separated by (metis not_None_eq)
qed

text \<open>
  The iterator visits every key once, in the order of the addresses: after \<open>startIter\<close>, a
  loop on \<open>hasNext\<close> and \<open>next\<close> collects all keys and no call of \<open>next\<close> fails.
\<close>

lemma iterate_keys:
  assumes "wf_submap m"
  shows "iter_keys (length (mTerm2ExpMap m)) (startIter m) = Inr (map (\<lambda>(a, t, e). t) (mTerm2ExpMap m))"
  by (rule iter_keys_suffix [of _ "[]"]) (use assms in \<open>simp_all add: wf_submap_def startIter_def\<close>)

end
