(* ===== verification/IEG_Variables.thy ===== *)
theory IEG_Variables
  imports IEG_Algebra
begin

text \<open>
  What the queries on the variables of an expression mean: \<open>dependsOn\<close> and
  \<open>getSymbolIterator\<close> bound the variables the value depends on, and \<open>remapTupleVars\<close> renames
  tuple variables, with an exact account of when it throws.
\<close>

section \<open>Tuple variables of an expression\<close>

fun tuple_locs :: "exp \<Rightarrow> int set"
and term_locs :: "trm \<Rightarrow> int set" where
  "tuple_locs (Exp ts ty) = (\<Union>t \<in> set ts. term_locs t)"
| "term_locs (TupleVarTerm c l) = {l}"
| "term_locs (UFCallTerm c f es i) = (\<Union>e \<in> set es. tuple_locs e)"
| "term_locs (TupleExpTerm c es) = (\<Union>e \<in> set es. tuple_locs e)"
| "term_locs t = {}"

lemma dependsOn_tuplevar:
  "dependsOn (TupleVarTerm c l) e \<longleftrightarrow> l \<in> tuple_locs e"
  "term_dependsOn (TupleVarTerm c l) t \<longleftrightarrow> l \<in> term_locs t"
  by (induction e and t rule: tuple_locs_term_locs.induct)
    (auto simp: factorMatches_def term_factorMatches_def)

lemma dependsOn_var:
  "dependsOn (VarTerm c s) e \<longleftrightarrow> s \<in> symbols e"
  "term_dependsOn (VarTerm c s) t \<longleftrightarrow> s \<in> term_symbols t"
  by (induction e and t rule: symbols_term_symbols.induct)
    (auto simp: factorMatches_def term_factorMatches_def)

lemma eval_agree:
  assumes "ufv v = ufv v'"
  shows "(\<forall>l \<in> tuple_locs e. tvv v l = tvv v' l) \<Longrightarrow> (\<forall>s \<in> symbols e. symv v s = symv v' s) \<Longrightarrow>
      eval_exp v e = eval_exp v' e"
    and "(\<forall>l \<in> term_locs t. tvv v l = tvv v' l) \<Longrightarrow> (\<forall>s \<in> term_symbols t. symv v s = symv v' s) \<Longrightarrow>
      factor_val v t = factor_val v' t"
proof (induction e and t rule: symbols_term_symbols.induct)
  case (1 ts ty)
  then have "\<forall>t \<in> set ts. coefficient t * factor_val v t = coefficient t * factor_val v' t" by auto
  then show ?case unfolding eval_Exp eval_terms_def by (metis (no_types, lifting) map_eq_conv)
next
  case (3 c f es i)
  then have "map (eval_exp v) es = map (eval_exp v') es" by auto
  with assms show ?case by (simp only: factor_val.simps)
qed auto

section \<open>The check for two locations mapped to one\<close>

lemma newLocs_seen_iff:
  "\<forall>l \<in> set ls. l < int (length seen) \<Longrightarrow>
   newLocs_seen seen ls \<longleftrightarrow> distinct (filter (\<lambda>l. l \<ge> 0) ls) \<and> (\<forall>l \<in> set ls. l \<ge> 0 \<longrightarrow> \<not> seen ! nat l)"
proof (induction ls arbitrary: seen)
  case (Cons l ls)
  show ?case
  proof (cases "l \<ge> 0")
    case True
    with Cons.prems have "nat l < length seen" by auto
    with True Cons show ?thesis by (auto simp: nth_list_update nat_eq_iff)
  qed (use Cons in auto)
qed simp

lemma fold_max_ge: "\<forall>l \<in> insert a (set ls). l \<le> fold max ls (a::int)"
proof (induction ls arbitrary: a)
  case (Cons l ls)
  from Cons [of "max l a"] show ?case by auto
qed simp

lemma newLocs_ok_iff: "newLocs_ok m \<longleftrightarrow> distinct (filter (\<lambda>l. l \<ge> 0) m)"
proof -
  let ?n = "nat (fold max m 0) + 1"
  have bound: "\<forall>l \<in> set m. l < int ?n" using fold_max_ge [of 0 m] by auto
  have "\<not> replicate n False ! nat l" if "0 \<le> l" "l < int n" for n l
    using that by (simp add: nat_less_iff)
  with bound have "\<forall>l \<in> set m. l \<ge> 0 \<longrightarrow> \<not> replicate ?n False ! nat l" by blast
  with bound newLocs_seen_iff [of m "replicate ?n False"] show ?thesis
    unfolding newLocs_ok_def by (simp del: replicate.simps)
qed

section \<open>Remapping\<close>

definition remappable :: "int list \<Rightarrow> int \<Rightarrow> bool" where
  "remappable m l \<longleftrightarrow> 0 \<le> l \<and> l < int (length m) \<and> m ! nat l \<ge> 0"

lemma remapLocation_Inr: "remapLocation m t l = Inr l' \<longleftrightarrow> remappable m l \<and> l' = m ! nat l"
  by (auto simp: remapLocation_def remappable_def)

lemma mapr_success: "(\<exists>ys. mapr f xs = Inr ys) \<longleftrightarrow> (\<forall>x \<in> set xs. \<exists>y. f x = Inr y)"
  by (induction xs) (auto simp: bindr_eq_Inr)

lemma remap_success:
  "newLocs_ok m \<Longrightarrow> (\<exists>e'. remapTupleVars m e = Inr e') \<longleftrightarrow> (\<forall>l \<in> tuple_locs e. remappable m l)"
  "newLocs_ok m \<Longrightarrow> (\<exists>t'. term_remapTupleVars m t = Inr t') \<longleftrightarrow> (\<forall>l \<in> term_locs t. remappable m l)"
  by (induction m e and m t rule: remapTupleVars_term_remapTupleVars.induct)
    (simp_all add: bindr_eq_Inr remapLocation_Inr flip: ex_simps(6) add: mapr_success)

lemma mapr_map:
  assumes "mapr f xs = Inr ys" and "\<And>x y. x \<in> set xs \<Longrightarrow> f x = Inr y \<Longrightarrow> g y = h x"
  shows "map g ys = map h xs"
proof -
  have "list_all2 (\<lambda>x y. f x = Inr y) xs ys" using assms(1) by (simp add: mapr_eq_Inr)
  then show ?thesis using assms(2) by (induction rule: list_all2_induct) auto
qed

definition renamed :: "int list \<Rightarrow> valuation \<Rightarrow> valuation" where
  "renamed m v = v\<lparr>tvv := \<lambda>l. tvv v (m ! nat l)\<rparr>"

lemma remap_value:
  "remapTupleVars m e = Inr e' \<Longrightarrow> eval_exp v e' = eval_exp (renamed m v) e"
  "term_remapTupleVars m t = Inr t' \<Longrightarrow>
     coefficient t' = coefficient t \<and> factor_val v t' = factor_val (renamed m v) t"
proof (induction m e and m t arbitrary: e' and t' rule: remapTupleVars_term_remapTupleVars.induct)
  case (1 m ts ty)
  then obtain ts' where ts': "mapr (\<lambda>t. term_remapTupleVars m t) ts = Inr ts'" "e' = Exp ts' ty" "newLocs_ok m"
    by (auto simp: bindr_eq_Inr split: if_splits)
  then have "map (\<lambda>t. coefficient t * factor_val v t) ts' =
      map (\<lambda>t. coefficient t * factor_val (renamed m v) t) ts"
    using 1 by (intro mapr_map [OF ts'(1)]) auto
  then show ?case by (simp add: ts' eval_terms_def)
next
  case (3 m c f es i)
  then obtain es' where es': "mapr (\<lambda>e. remapTupleVars m e) es = Inr es'" "t' = UFCallTerm c f es' i"
    by (auto simp: bindr_eq_Inr)
  then have "map (eval_exp v) es' = map (eval_exp (renamed m v)) es"
    using 3 by (intro mapr_map [OF es'(1)]) auto
  then show ?case by (simp add: es' renamed_def)
qed (auto simp: bindr_eq_Inr remapLocation_Inr renamed_def)

section \<open>Properties\<close>

text \<open>
  C8. Remapping tuple variables succeeds exactly when no two old locations go to one new
  location and every tuple variable of the expression is in range and has a new location;
  the result then is the expression with its tuple variables renamed.
\<close>

theorem remapTupleVars_correct:
  "((\<exists>e'. remapTupleVars m e = Inr e') \<longleftrightarrow>
      distinct (filter (\<lambda>l. l \<ge> 0) m)
      \<and> (\<forall>l \<in> tuple_locs e. 0 \<le> l \<and> l < int (length m) \<and> m ! nat l \<ge> 0))
   \<and> (\<forall>e'. remapTupleVars m e = Inr e' \<longrightarrow>
        eval_exp v e' = eval_exp (v\<lparr>tvv := \<lambda>l. tvv v (m ! nat l)\<rparr>) e)"
proof -
  have "\<not> newLocs_ok m \<Longrightarrow> remapTupleVars m e \<noteq> Inr e'" for e' by (cases e) simp
  then show ?thesis
    using remap_success(1) [of m e] remap_value(1) [of m e _ v]
    by (cases "newLocs_ok m") (auto simp: newLocs_ok_iff remappable_def renamed_def)
qed

theorem remapTupleVars_correct_witness:
  "let e = Exp [TupleVarTerm 2 0, UFCallTerm 1 ''f'' [Exp [TupleVarTerm 1 1] Expression] (-1)] Equality in
   (\<exists>e'. remapTupleVars [3, 0] e = Inr e' \<and> (\<forall>v. eval_exp v e' = eval_exp (v\<lparr>tvv := \<lambda>l. tvv v ([3, 0] ! nat l)\<rparr>) e))
   \<and> (\<nexists>e'. remapTupleVars [0, 0] e = Inr e')"
proof -
  let ?e = "Exp [TupleVarTerm 2 0, UFCallTerm 1 ''f'' [Exp [TupleVarTerm 1 1] Expression] (-1)] Equality"
  obtain e' where "remapTupleVars [3, 0] ?e = Inr e'"
    using remapTupleVars_correct [of "[3, 0]" ?e, THEN conjunct1] by auto
  moreover from this have "eval_exp v e' = eval_exp (v\<lparr>tvv := \<lambda>l. tvv v ([3, 0] ! nat l)\<rparr>) ?e" for v
    using remapTupleVars_correct [of "[3, 0]" ?e v] by blast
  moreover have "\<nexists>e'. remapTupleVars [0, 0] ?e = Inr e'"
    using remapTupleVars_correct [of "[0, 0]" ?e, THEN conjunct1] by simp
  ultimately show ?thesis unfolding Let_def by blast
qed

text \<open>
  The value of an expression depends only on what the queries report: changing a tuple
  variable or a symbolic constant on which \<open>dependsOn\<close> answers no leaves the value, and the
  symbols collected for the symbol iterator are the ones on which it answers yes.
\<close>

lemma dependsOn_sound:
  "(\<not> dependsOn (TupleVarTerm c l) e \<longrightarrow> eval_exp (v\<lparr>tvv := (tvv v)(l := x)\<rparr>) e = eval_exp v e)
   \<and> (\<not> dependsOn (VarTerm c s) e \<longrightarrow> eval_exp (v\<lparr>symv := (symv v)(s := x)\<rparr>) e = eval_exp v e)
   \<and> symbols e = {s. dependsOn (VarTerm c s) e}"
  by (auto simp: dependsOn_tuplevar dependsOn_var intro!: eval_agree(1))

end
