(* ===== verification/IEG_Solve.thy ===== *)
theory IEG_Solve
  imports IEG_Algebra
begin

text \<open>
  Solving an equality for a factor and simplifying nested inverse functions
  (\<open>Exp::findMatchingFactor\<close>, \<open>Exp::invertFuncToExposeFactor\<close>, \<open>Exp::solveForFactor\<close>,
  \<open>collapseNestedInvertibleFunctions\<close>). The name of the inverse of a function, the empty
  string if it has none, is what \<open>queryInverseCurrEnv\<close> returns; it is the argument \<open>invOf\<close>.
\<close>

section \<open>Finding the factor\<close>

fun find_factor_loop :: "exp \<Rightarrow> trm \<Rightarrow> trm list \<Rightarrow> trm option res" where
  "find_factor_loop this factor [] = Inr None"
| "find_factor_loop this factor (t # ts) =
     (if factorMatches t factor
      then bindr (isDivisible (coefficient t) this)
             (\<lambda>d. if d then Inr (Some t) else find_factor_loop this factor ts)
      else find_factor_loop this factor ts)"

definition check_factor :: "trm \<Rightarrow> unit res" where
  "check_factor factor =
     (if coefficient factor \<noteq> 1
      then Inl (Assert (''coefficient to factor is '' @ int_str (coefficient factor)
                        @ '' it is required to be 1''))
      else Inr ())"

definition findMatchingFactor :: "exp \<Rightarrow> trm \<Rightarrow> trm option res" where
  "findMatchingFactor this factor =
     bindr (check_factor factor) (\<lambda>_. find_factor_loop this factor (mTerms this))"

section \<open>Inverting a function\<close>

text \<open>The loop over the terms keeps the call found so far and the name of the inverse that was
  looked up last; the name is overwritten before it is known whether there is an inverse.\<close>

fun invertible_call_loop ::
  "(string \<Rightarrow> string) \<Rightarrow> trm \<Rightarrow> trm option \<Rightarrow> string \<Rightarrow> trm list \<Rightarrow> (trm option \<times> string) res" where
  "invertible_call_loop invOf factor found inverseFuncName [] = Inr (found, inverseFuncName)"
| "invertible_call_loop invOf factor found inverseFuncName (UFCallTerm c f es i # ts) =
     (if \<not> dependsOn factor (addTerm (UFCallTerm c f es i) Exp_new)
      then invertible_call_loop invOf factor found inverseFuncName ts
      else if invOf f = [] then invertible_call_loop invOf factor found (invOf f) ts
      else if found \<noteq> None
      then Inl (Assert ''Exp::invertFuncToExposeFactor: Already found a UF call.'')
      else invertible_call_loop invOf factor (Some (UFCallTerm c f es i)) (invOf f) ts)"
| "invertible_call_loop invOf factor found inverseFuncName (t # ts) =
     invertible_call_loop invOf factor found inverseFuncName ts"

text \<open>The last argument that depends on the factor, with its position.\<close>

fun relevant_arg_loop :: "trm \<Rightarrow> nat \<Rightarrow> (nat \<times> exp) option \<Rightarrow> exp list \<Rightarrow> (nat \<times> exp) option" where
  "relevant_arg_loop factor arg_count relevant [] = relevant"
| "relevant_arg_loop factor arg_count relevant (arg # args) =
     relevant_arg_loop factor (Suc arg_count)
       (if dependsOn factor arg then Some (arg_count, arg) else relevant) args"

text \<open>If no argument depends on the factor, the source copies through an uninitialised pointer.\<close>

definition invert_call :: "trm \<Rightarrow> exp \<Rightarrow> trm \<Rightarrow> string \<Rightarrow> exp list \<Rightarrow> exp res" where
  "invert_call factor this foundUFC inverseFuncName args =
     (let negFoundUFC = multiplyBy (-1) (addTerm foundUFC Exp_new) in
      bindr (divideBy (- coefficient foundUFC) (addExp negFoundUFC this)) (\<lambda>expClone.
      case relevant_arg_loop factor 0 None args of
        None \<Rightarrow> Inl NullDeref
      | Some (arg_index, relevant_arg) \<Rightarrow>
          let invCall = (if length args = 1 then UFCallTerm (-1) inverseFuncName [expClone] (-1)
                         else UFCallTerm (-1) inverseFuncName [expClone] (int arg_index))
          in Inr (addExp relevant_arg (addTerm invCall Exp_new))))"

definition invertFuncToExposeFactor :: "(string \<Rightarrow> string) \<Rightarrow> exp \<Rightarrow> trm \<Rightarrow> exp option res" where
  "invertFuncToExposeFactor invOf this factor =
     bindr (invertible_call_loop invOf factor None [] (mTerms this)) (\<lambda>(found, inverseFuncName).
     case found of
       Some (UFCallTerm c f es i) \<Rightarrow>
         bindr (invert_call factor this (UFCallTerm c f es i) inverseFuncName es) (\<lambda>r. Inr (Some r))
     | _ \<Rightarrow> Inr None)"

section \<open>Solving\<close>

text \<open>The divisibility that is checked before the division is that of the original expression.\<close>

definition solveForFactor :: "(string \<Rightarrow> string) \<Rightarrow> exp \<Rightarrow> trm \<Rightarrow> exp option res" where
  "solveForFactor invOf this factor =
     bindr (check_factor factor) (\<lambda>_.
     bindr (findMatchingFactor this factor) (\<lambda>matchingFactor.
     bindr (case matchingFactor of
              None \<Rightarrow>
                bindr (invertFuncToExposeFactor invOf this factor) (\<lambda>exposed.
                case exposed of
                  None \<Rightarrow> Inr (None, None)
                | Some e \<Rightarrow> bindr (findMatchingFactor e factor) (\<lambda>matching. Inr (Some e, matching)))
            | Some t \<Rightarrow> Inr (Some this, Some t)) (\<lambda>(factorExposedExp, matchingFactor).
     case (factorExposedExp, matchingFactor) of
       (Some e, Some t) \<Rightarrow>
         bindr (isDivisible (coefficient t) this) (\<lambda>d.
         if d then bindr (divideBy (- coefficient t) (addTerm (term_multiplyBy (- coefficient t) factor) e))
                     (\<lambda>r. Inr (Some r))
         else Inr (Some e))
     | _ \<Rightarrow> Inr factorExposedExp)))"

section \<open>Collapsing nested inverses\<close>

fun collapse_check ::
  "addr_order \<Rightarrow> string \<Rightarrow> int \<Rightarrow> exp option \<Rightarrow> exp list \<Rightarrow> exp option option res" where
  "collapse_check ad inverseFuncName arg_index saved_arg [] = Inr (Some saved_arg)"
| "collapse_check ad inverseFuncName arg_index saved_arg (arg # args) =
     (case getTerm arg of
        Some (UFCallTerm c f es i) \<Rightarrow>
          if f \<noteq> inverseFuncName then Inr None
          else if arg_index \<noteq> tupleIndex i then Inr None
          else if length es \<noteq> 1
          then Inl (Assert ''UFCallTerm::collapseNestedInvertibleFunctions: nested invertible function should only take one arg'')
          else if arg_index = 0
          then collapse_check ad inverseFuncName (arg_index + 1) (Some (hd es)) args
          else (case saved_arg of
                  None \<Rightarrow> Inl NullDeref
                | Some s \<Rightarrow> if exp_eq ad (hd es) s
                            then collapse_check ad inverseFuncName (arg_index + 1) saved_arg args
                            else Inr None)
      | _ \<Rightarrow> Inr None)"

lemma collapse_check_size:
  "collapse_check ad g k s args = Inr (Some (Some e)) \<Longrightarrow>
   s = Some e \<or> size e < size_list size args"
proof (induction args arbitrary: k s)
  case (Cons arg args)
  then obtain c es i where arg: "getTerm arg = Some (UFCallTerm c g es i)" "length es = 1"
    by (auto split: option.splits trm.splits if_splits)
  then obtain x where es: "es = [x]" by (cases es) auto
  from arg es have "size x < size arg"
    by (cases arg; cases "mTerms arg") (auto simp: getTerm_def split: if_splits)
  moreover have "s = Some e \<or> Some x = Some e \<or> size e < size_list size args"
    using Cons.IH [of "k + 1"] Cons.prems arg es
    by (auto split: if_splits option.splits)
  ultimately show ?case by auto
qed simp

lemma size_list_member: "x \<in> set xs \<Longrightarrow> size x < Suc (size_list size xs)"
  by (induction xs) auto

function (sequential) collapse :: "addr_order \<Rightarrow> (string \<Rightarrow> string) \<Rightarrow> exp \<Rightarrow> exp res"
and term_collapse :: "addr_order \<Rightarrow> (string \<Rightarrow> string) \<Rightarrow> trm \<Rightarrow> exp res" where
  "collapse ad invOf (Exp ts ty) =
     bindr (mapr (\<lambda>t. term_collapse ad invOf t) ts) (\<lambda>es. Inr (fold addExp es Exp_new))"
| "term_collapse ad invOf (UFCallTerm c f es i) =
     bindr (collapse_check ad (invOf f) 0 None es) (\<lambda>r.
     case r of
       Some None \<Rightarrow> Inl NullDeref
     | Some (Some saved_arg) \<Rightarrow> bindr (collapse ad invOf saved_arg) (\<lambda>e. Inr (multiplyBy c e))
     | None \<Rightarrow> bindr (mapr (\<lambda>e. collapse ad invOf e) es)
                 (\<lambda>es'. Inr (addTerm (UFCallTerm c f es' i) Exp_new)))"
| "term_collapse ad invOf t = Inr (addTerm t Exp_new)"
  by pat_completeness auto

termination
  by (relation "measure (\<lambda>x. case x of Inl (ad, invOf, e) \<Rightarrow> size e | Inr (ad, invOf, t) \<Rightarrow> size t)")
    (auto dest: collapse_check_size size_list_member)


section \<open>Facts about solving\<close>

lemma find_factor_loop_Some:
  "find_factor_loop e factor ts = Inr (Some t) \<Longrightarrow>
   t \<in> set ts \<and> factorMatches t factor \<and> isDivisible (coefficient t) e = Inr True"
  by (induction ts) (auto simp: bindr_eq_Inr split: if_splits)

lemma findMatchingFactor_Some:
  assumes "findMatchingFactor e factor = Inr (Some t)"
  shows "coefficient factor = 1" and "t \<in> set (mTerms e)" and "factorMatches t factor"
    and "coefficient t \<noteq> 0" and "\<forall>u \<in> set (mTerms e). coefficient t dvd coefficient u"
proof -
  from assms show "coefficient factor = 1"
    by (auto simp: findMatchingFactor_def check_factor_def bindr_eq_Inr split: if_splits)
  from assms have "find_factor_loop e factor (mTerms e) = Inr (Some t)"
    by (auto simp: findMatchingFactor_def bindr_eq_Inr)
  then have t: "t \<in> set (mTerms e)" "factorMatches t factor" "isDivisible (coefficient t) e = Inr True"
    using find_factor_loop_Some by blast+
  then show "t \<in> set (mTerms e)" "factorMatches t factor" by simp_all
  show "coefficient t \<noteq> 0"
  proof
    assume "coefficient t = 0"
    with t show False by (cases "mTerms e") (simp_all add: isDivisible_def)
  qed
  with t show "\<forall>u \<in> set (mTerms e). coefficient t dvd coefficient u"
    by (simp add: isDivisible_eq)
qed

text \<open>Adding a multiple of a term keeps the coefficients divisible.\<close>

lemma dvd_addTerm_loop:
  assumes "d dvd coefficient t" and "\<not> isTupleExp t"
  shows "\<forall>u \<in> set ts. \<not> isTupleExp u \<and> d dvd coefficient u \<Longrightarrow>
    \<forall>u \<in> set (addTerm_loop t ts). \<not> isTupleExp u \<and> d dvd coefficient u"
  using assms by (induction ts) (auto simp: combine_eq)

lemma plain_set_mTerms: "plain_exp e \<Longrightarrow> t \<in> set (mTerms e) \<Longrightarrow> plain_term t"
  by (simp add: plain_mTerms list_all_iff)

lemma plain_multiplyBy_term [simp]: "plain_term (term_multiplyBy k t) = plain_term t"
  by (simp add: term_multiplyBy_def)

lemma factor_val_multiplyBy [simp]: "factor_val v (term_multiplyBy k t) = factor_val v t"
  by (simp add: term_multiplyBy_def)

lemma coefficient_multiplyBy [simp]: "coefficient (term_multiplyBy k t) = coefficient t * k"
  by (simp add: term_multiplyBy_def)

text \<open>Removing the term with the factor and dividing by its coefficient.\<close>

lemma isolate:
  assumes t: "findMatchingFactor e factor = Inr (Some t)" and p: "plain_exp e" "plain_term factor"
  obtains r where
    "divideBy (- coefficient t) (addTerm (term_multiplyBy (- coefficient t) factor) e) = Inr r"
    and "plain_exp r" and "\<And>v. eval_exp v e = coefficient t * (factor_val v factor - eval_exp v r)"
proof -
  note f = findMatchingFactor_Some [OF t]
  let ?t = "term_multiplyBy (- coefficient t) factor"
  let ?e = "addTerm ?t e"
  have "\<forall>u \<in> set (mTerms ?e). \<not> isTupleExp u \<and> coefficient t dvd coefficient u"
    using f p plain_not_tuple plain_set_mTerms
      dvd_addTerm_loop [of "coefficient t" ?t "mTerms e"]
    by (auto simp: addTerm_def)
  then obtain r where r: "divideBy (- coefficient t) ?e = Inr r"
    using f(4) divideBy_Inr [of "- coefficient t" ?e] by auto
  have pe: "plain_exp ?e" using p by (intro plain_intros) simp_all
  have "eval_exp v e = coefficient t * (factor_val v factor - eval_exp v r)" for v
    using eval_divideBy [OF r, of v] p f(1) by (simp add: eval_simps algebra_simps)
  with r that plain_divideBy [OF r pe] show thesis by blast
qed

lemma solveForFactor_direct:
  assumes t: "findMatchingFactor e factor = Inr (Some t)"
  shows "solveForFactor invOf e factor =
    bindr (divideBy (- coefficient t) (addTerm (term_multiplyBy (- coefficient t) factor) e)) (\<lambda>r. Inr (Some r))"
  using findMatchingFactor_Some [OF t] t
  by (simp add: solveForFactor_def check_factor_def isDivisible_eq)

section \<open>Facts about inverting a function\<close>

text \<open>A function with an inverse maps the tuples \<open>D f\<close> to tuples of \<open>n f\<close> elements, and its inverse,
  applied to such a tuple, gives back each element of the argument.\<close>

definition inverses ::
  "(string \<Rightarrow> string) \<Rightarrow> (string \<Rightarrow> nat) \<Rightarrow> (string \<Rightarrow> int list set) \<Rightarrow> valuation \<Rightarrow> bool" where
  "inverses invOf n D v \<longleftrightarrow>
     (\<forall>f. invOf f \<noteq> [] \<longrightarrow> (\<forall>xs \<in> D f. \<forall>k < length xs.
        ufv v (invOf f) (int k) (map (\<lambda>j. ufv v f (int j) xs) [0..<n f]) = xs ! k))"

text \<open>The calls that depend on the factor: functions with an inverse and a single result, whose arguments are
  in the domain.\<close>

definition calls_invertible :: "(string \<Rightarrow> string) \<Rightarrow> (string \<Rightarrow> nat) \<Rightarrow> trm \<Rightarrow> exp \<Rightarrow> bool" where
  "calls_invertible invOf n factor e \<longleftrightarrow>
     (\<forall>t \<in> set (mTerms e). case t of
        UFCallTerm c f es i \<Rightarrow> term_dependsOn factor t \<longrightarrow> wf_name (invOf f) \<and> n f = 1 \<and> tupleIndex i = 0
      | _ \<Rightarrow> True)"

definition calls_inside :: "(string \<Rightarrow> int list set) \<Rightarrow> trm \<Rightarrow> exp \<Rightarrow> valuation \<Rightarrow> bool" where
  "calls_inside D factor e v \<longleftrightarrow>
     (\<forall>t \<in> set (mTerms e). case t of
        UFCallTerm c f es i \<Rightarrow> term_dependsOn factor t \<longrightarrow> map (eval_exp v) es \<in> D f
      | _ \<Rightarrow> True)"

lemma wf_name_not_Nil: "wf_name s \<Longrightarrow> s \<noteq> []"
  by (simp add: wf_name_def)

lemma dependsOn_single: "dependsOn factor (addTerm t Exp_new) \<longleftrightarrow> coefficient t \<noteq> 0 \<and> term_dependsOn factor t"
  by (simp add: addTerm_def Exp_new_def)

lemma invertible_call_loop_Some:
  assumes "invertible_call_loop invOf factor found name ts = Inr (Some u, name')"
    and "\<forall>t \<in> set ts. case t of
        UFCallTerm c f es i \<Rightarrow> term_dependsOn factor t \<longrightarrow> wf_name (invOf f) \<and> n f = 1 \<and> tupleIndex i = 0 | _ \<Rightarrow> True"
  shows "found = Some u \<and> name' = name \<or>
    (\<exists>c f es i. u = UFCallTerm c f es i \<and> u \<in> set ts \<and> c \<noteq> 0 \<and> name' = invOf f
       \<and> wf_name (invOf f) \<and> n f = 1 \<and> tupleIndex i = 0 \<and> term_dependsOn factor u)"
  using assms
proof (induction invOf factor found name ts rule: invertible_call_loop.induct)
  case (2 invOf factor found name c f es i ts)
  then show ?case
    using wf_name_not_Nil [of "invOf f"] by (auto simp: dependsOn_single split: if_splits)
qed (fastforce split: if_splits)+

lemma relevant_arg_loop_Some:
  "relevant_arg_loop factor n r args = Some (k, a) \<Longrightarrow>
   r = Some (k, a) \<or> n \<le> k \<and> k < n + length args \<and> args ! (k - n) = a"
proof (induction factor n r args rule: relevant_arg_loop.induct)
  case (2 factor n r arg args)
  then show ?case by (auto simp: nth_Cons' split: if_splits)
qed simp

lemma invert_call_value:
  assumes inv: "invert_call factor e u (invOf f) es = Inr r" and u: "u = UFCallTerm c f es i"
    and mem: "u \<in> set (mTerms e)" and c: "c \<noteq> 0" and name: "wf_name (invOf f)" and i: "tupleIndex i = 0"
    and one: "n f = 1" and p: "plain_exp e"
  shows "plain_exp r \<and> (\<forall>v. inverses invOf n D v \<longrightarrow> map (eval_exp v) es \<in> D f \<longrightarrow> eval_exp v e = 0 \<longrightarrow> eval_exp v r = 0)"
proof -
  have pu: "plain_term u" using p mem plain_set_mTerms by blast
  let ?neg = "multiplyBy (-1) (addTerm u Exp_new)"
  have pn: "plain_exp ?neg" using pu by (intro plain_intros)
  obtain ec k a where ec: "divideBy (- c) (addExp ?neg e) = Inr ec"
    and k: "relevant_arg_loop factor 0 None es = Some (k, a)"
    and r: "r = addExp a (addTerm (if length es = 1 then UFCallTerm (-1) (invOf f) [ec] (-1)
      else UFCallTerm (-1) (invOf f) [ec] (int k)) Exp_new)"
    using inv by (auto simp: invert_call_def u bindr_eq_Inr Let_def split: option.splits)
  have pec: "plain_exp ec" by (rule plain_divideBy [OF ec]) (intro plain_intros pn p)
  have ka: "k < length es" "es ! k = a" using relevant_arg_loop_Some [OF k] by auto
  then have pa: "plain_exp a" using pu u by (auto simp: list_all_length)
  have pr: "plain_exp r" unfolding r using pec name pa by (intro plain_intros; simp)
  have "eval_exp v r = 0"
    if v: "inverses invOf n D v" and d: "map (eval_exp v) es \<in> D f" and z: "eval_exp v e = 0" for v
  proof -
    let ?F = "ufv v f 0 (map (eval_exp v) es)"
    have "- c * eval_exp v ec = - c * ?F"
      using eval_divideBy [OF ec, of v] pn p pu z u i by (simp add: eval_simps plain_intros)
    with c have "eval_exp v ec = ?F" by simp
    moreover have "ufv v (invOf f) (int k) [?F] = eval_exp v a"
      using v d ka one wf_name_not_Nil [OF name] by (auto simp: inverses_def)
    moreover have "length es = 1 \<Longrightarrow> k = 0" using ka by simp
    ultimately show ?thesis
      using pec name pa by (auto simp: r eval_simps plain_intros tupleIndex_def isIndexed_def)
  qed
  with pr show ?thesis by blast
qed

lemma invertFunc_value:
  assumes "invertFuncToExposeFactor invOf e factor = Inr (Some r)"
    and "calls_invertible invOf n factor e" and "plain_exp e"
  shows "plain_exp r
    \<and> (\<forall>v. inverses invOf n D v \<longrightarrow> calls_inside D factor e v \<longrightarrow> eval_exp v e = 0 \<longrightarrow> eval_exp v r = 0)"
proof -
  obtain found name where loop: "invertible_call_loop invOf factor None [] (mTerms e) = Inr (found, name)"
    and r: "(case found of
       Some (UFCallTerm c f es i) \<Rightarrow>
         bindr (invert_call factor e (UFCallTerm c f es i) name es) (\<lambda>r. Inr (Some r))
     | _ \<Rightarrow> Inr None) = Inr (Some r)"
    using assms(1) by (auto simp: invertFuncToExposeFactor_def bindr_eq_Inr)
  obtain u where found: "found = Some u" using r by (cases found) auto
  obtain c f es i where u: "u = UFCallTerm c f es i" using r by (cases u) (auto simp: found)
  have inv: "invert_call factor e u name es = Inr r" using r by (auto simp: found u bindr_eq_Inr)
  have m: "u \<in> set (mTerms e)" "c \<noteq> 0" "name = invOf f" "wf_name (invOf f)" "n f = 1" "tupleIndex i = 0"
    "term_dependsOn factor u"
    using invertible_call_loop_Some [of invOf factor None "[]" "mTerms e" u name n] loop assms(2)
    by (auto simp: calls_invertible_def found u)
  have "map (eval_exp v) es \<in> D f" if "calls_inside D factor e v" for v
    using that m(1,7) unfolding calls_inside_def u by (auto dest!: bspec [OF _ m(1) [unfolded u]])
  with invert_call_value [where D = D and n = n and invOf = invOf and f = f, OF inv [unfolded m(3)] u m(1,2,4,6,5) assms(3)] show ?thesis by blast
qed


section \<open>Facts about collapsing\<close>

lemma fkey_val:
  assumes "plain_term t" and "plain_term u" and "fkey t = fkey u"
  shows "factor_val v t = factor_val v u"
proof -
  have "factorMatches t u"
    using assms by (cases t; cases u) (auto simp: factorMatches_def term_factorMatches_def)
  with assms show ?thesis using factorMatches_val by blast
qed

lemma tkeys_val:
  "map tkey ts = map tkey us \<Longrightarrow> list_all plain_term ts \<Longrightarrow> list_all plain_term us \<Longrightarrow>
   eval_terms v ts = eval_terms v us"
proof (induction ts arbitrary: us)
  case (Cons t ts)
  then obtain u us' where "us = u # us'" by (cases us) auto
  with Cons fkey_val [of t u] show ?case by (auto simp: tkey_def)
qed simp

lemma plain_no_tuple: "plain_exp e \<Longrightarrow> no_tuple e"
  by (auto simp: no_tuple_def plain_mTerms list_all_iff dest: plain_not_tuple)

lemma exp_eq_val:
  assumes "exp_eq ad e e'" and "plain_exp e" and "plain_exp e'"
  shows "eval_exp v e = eval_exp v e'"
proof -
  have "ekey e = ekey e'"
    using assms exps.equiv_key [of e e' ad] plain_no_tuple by (simp add: exp_eq_def)
  with assms(2,3) show ?thesis using tkeys_val [of "mTerms e" "mTerms e'" v]
    by (simp add: ekey_def eval_exp_terms plain_mTerms)
qed

text \<open>The calls for which collapsing is meant: an invertible function is not indexed, and the
  inverse call inside it has coefficient one.\<close>

definition unit_call :: "string \<Rightarrow> exp \<Rightarrow> bool" where
  "unit_call g e = (case getTerm e of Some (UFCallTerm c f es i) \<Rightarrow> f = g \<longrightarrow> c = 1 | _ \<Rightarrow> True)"

fun nests_ok :: "(string \<Rightarrow> string) \<Rightarrow> exp \<Rightarrow> bool"
and term_nests_ok :: "(string \<Rightarrow> string) \<Rightarrow> trm \<Rightarrow> bool" where
  "nests_ok invOf (Exp ts ty) = list_all (term_nests_ok invOf) ts"
| "term_nests_ok invOf (UFCallTerm c f es i) \<longleftrightarrow>
     (invOf f \<noteq> [] \<longrightarrow> tupleIndex i = 0 \<and> list_all (unit_call (invOf f)) es) \<and> list_all (nests_ok invOf) es"
| "term_nests_ok invOf t = True"

definition inverts :: "(string \<Rightarrow> string) \<Rightarrow> valuation \<Rightarrow> bool" where
  "inverts invOf v \<longleftrightarrow>
     (\<forall>f. invOf f \<noteq> [] \<longrightarrow>
        (\<forall>x n. 0 < n \<longrightarrow> ufv v f 0 (map (\<lambda>k. ufv v (invOf f) (int k) [x]) [0..<n]) = x))"

lemma getTerm_mTerms: "getTerm e = Some t \<longleftrightarrow> mTerms e = [t]"
  by (auto simp: getTerm_def length_Suc_conv)

lemma collapse_check_value:
  assumes "collapse_check ad g k s args = Inr (Some (Some e))"
    and "list_all plain_exp args" and "list_all (unit_call g) args" and "0 \<le> k"
    and "k = 0 \<longleftrightarrow> s = None" and "\<And>x. s = Some x \<Longrightarrow> plain_exp x"
  shows "plain_exp e \<and> (\<forall>x. s = Some x \<longrightarrow> e = x)
    \<and> map (eval_exp v) args = map (\<lambda>j. ufv v g (k + int j) [eval_exp v e]) [0..<length args]"
  using assms
proof (induction args arbitrary: k s)
  case (Cons arg args)
  then obtain c es i where arg: "getTerm arg = Some (UFCallTerm c g es i)" "length es = 1" "tupleIndex i = k"
    by (auto split: option.splits trm.splits if_splits)
  then obtain x where es: "es = [x]" by (cases es) auto
  have c: "c = 1" using Cons.prems(3) arg by (simp add: unit_call_def)
  have px: "plain_exp x" using Cons.prems(2) arg es by (auto simp: getTerm_mTerms plain_mTerms)
  have val: "eval_exp v arg = ufv v g k [eval_exp v x]"
    using arg es c by (simp add: getTerm_mTerms eval_exp_terms)
  obtain s' where rec: "collapse_check ad g (k + 1) (Some s') args = Inr (Some (Some e))"
    and ps: "plain_exp s'" and eq: "eval_exp v s' = eval_exp v x" and keep: "\<forall>y. s = Some y \<longrightarrow> s' = y"
  proof (cases "k = 0")
    case True
    with Cons.prems arg es px that [of x] show thesis by simp
  next
    case False
    then obtain y where y: "s = Some y" using Cons.prems(5) by auto
    then have eq: "exp_eq ad x y" and rec: "collapse_check ad g (k + 1) (Some y) args = Inr (Some (Some e))"
      using Cons.prems(1) arg es False by (auto split: if_splits)
    have py: "plain_exp y" using Cons.prems(6) y by simp
    show thesis by (rule that [OF rec py]) (simp_all add: y exp_eq_val [OF eq px py])
  qed
  have "plain_exp e \<and> e = s' \<and> map (eval_exp v) args = map (\<lambda>j. ufv v g (k + 1 + int j) [eval_exp v e]) [0..<length args]"
    using Cons.IH [OF rec] Cons.prems ps by auto
  moreover have "[0..<length (arg # args)] = 0 # map Suc [0..<length args]"
    by (simp add: map_Suc_upt upt_conv_Cons del: upt_Suc)
  ultimately show ?case using val eq keep by (simp add: comp_def ac_simps ps del: upt_Suc)
qed simp

lemma fold_addExp:
  "\<forall>e \<in> set es. plain_exp e \<Longrightarrow> plain_exp a \<Longrightarrow>
   plain_exp (fold addExp es a) \<and> eval_exp v (fold addExp es a) = eval_exp v a + sum_list (map (eval_exp v) es)"
  by (induction es arbitrary: a) (auto simp: eval_simps plain_intros)

lemma collapse_check_args:
  "collapse_check ad g k s args = Inr (Some (Some e)) \<Longrightarrow> s \<noteq> Some e \<Longrightarrow>
   \<exists>arg \<in> set args. \<exists>c i. getTerm arg = Some (UFCallTerm c g [e] i)"
proof (induction args arbitrary: k s)
  case (Cons arg args)
  then obtain c es i where arg: "getTerm arg = Some (UFCallTerm c g es i)" "length es = 1"
    by (auto split: option.splits trm.splits if_splits)
  then obtain x where es: "es = [x]" by (cases es) auto
  show ?case
  proof (cases "x = e")
    case True
    with arg es show ?thesis by auto
  next
    case False
    then obtain s' where "collapse_check ad g (k + 1) s' args = Inr (Some (Some e))" "s' \<noteq> Some e"
      using Cons.prems arg es by (auto split: if_splits option.splits)
    with Cons.IH show ?thesis by auto
  qed
qed simp

lemma nests_ok_mTerms: "nests_ok invOf e \<longleftrightarrow> list_all (term_nests_ok invOf) (mTerms e)"
  by (cases e) simp


lemma collapse_value:
  assumes "inverts invOf v"
  shows "collapse ad invOf e = Inr r \<Longrightarrow> plain_exp e \<Longrightarrow> nests_ok invOf e \<Longrightarrow>
      plain_exp r \<and> eval_exp v r = eval_exp v e"
    and "term_collapse ad invOf t = Inr r \<Longrightarrow> plain_term t \<Longrightarrow> term_nests_ok invOf t \<Longrightarrow>
      plain_exp r \<and> eval_exp v r = coefficient t * factor_val v t"
  using assms
proof (induction ad invOf e and ad invOf t arbitrary: r and r rule: collapse_term_collapse.induct)
  case (1 ad invOf ts ty)
  then obtain es where es: "mapr (\<lambda>t. term_collapse ad invOf t) ts = Inr es" "r = fold addExp es Exp_new"
    by (auto simp: bindr_eq_Inr)
  then have l: "list_all2 (\<lambda>t e. term_collapse ad invOf t = Inr e) ts es" by (simp add: mapr_eq_Inr)
  then have "list_all2 (\<lambda>t e. plain_exp e \<and> eval_exp v e = coefficient t * factor_val v t) ts es"
    by (rule list.rel_mono_strong) (use 1 in \<open>auto simp: list_all_iff\<close>)
  then have "(\<forall>e \<in> set es. plain_exp e) \<and> sum_list (map (eval_exp v) es) = eval_terms v ts"
    by (induction rule: list_all2_induct) auto
  with es fold_addExp [of es Exp_new v] show ?case by (simp add: plain_intros eval_simps)
next
  case (2 ad invOf c f es i)
  then obtain q where q: "collapse_check ad (invOf f) 0 None es = Inr q" by (auto simp: bindr_eq_Inr)
  show ?case
  proof (cases q)
    case None
    with 2 q obtain es' where es': "mapr (\<lambda>e. collapse ad invOf e) es = Inr es'"
      and r: "r = addTerm (UFCallTerm c f es' i) Exp_new" by (auto simp: bindr_eq_Inr)
    have "list_all2 (\<lambda>e e'. collapse ad invOf e = Inr e') es es'" using es' by (simp add: mapr_eq_Inr)
    then have "list_all2 (\<lambda>e e'. plain_exp e' \<and> eval_exp v e' = eval_exp v e) es es'"
      by (rule list.rel_mono_strong) (use 2(1) [OF q None] 2(3-) in \<open>auto simp: list_all_iff\<close>)
    then have "list_all plain_exp es' \<and> map (eval_exp v) es' = map (eval_exp v) es"
      by (induction rule: list_all2_induct) auto
    with 2 show ?thesis by (simp add: r eval_simps plain_intros)
  next
    case (Some s)
    then obtain x where x: "s = Some x" using 2 q by (cases s) auto
    then obtain y where y: "collapse ad invOf x = Inr y" "r = multiplyBy c y"
      using 2 q Some by (auto simp: bindr_eq_Inr)
    have chk: "collapse_check ad (invOf f) 0 None es = Inr (Some (Some x))" using q Some x by simp
    obtain a c' i' where a: "a \<in> set es" "mTerms a = [UFCallTerm c' (invOf f) [x] i']"
      using collapse_check_args [OF chk] by (auto simp: getTerm_mTerms)
    then have "plain_exp a" "nests_ok invOf a" using 2 by (auto simp: list_all_iff)
    then have px: "nests_ok invOf x" and name: "invOf f \<noteq> []"
      using a by (auto simp: nests_ok_mTerms plain_mTerms wf_name_def)
    have val: "plain_exp x \<and> map (eval_exp v) es = map (\<lambda>j. ufv v (invOf f) (int j) [eval_exp v x]) [0..<length es]"
      using collapse_check_value [OF chk, of v] 2 name by simp
    have "es \<noteq> []" using a by auto
    then have "factor_val v (UFCallTerm c f es i) = eval_exp v x"
      using val name 2 by (simp add: inverts_def del: map_map)
    moreover have "plain_exp y \<and> eval_exp v y = eval_exp v x"
      using 2(2) [OF q Some x y(1)] val px "2.prems"(4) by simp
    ultimately show ?thesis using y by (simp add: eval_simps plain_intros)
  qed
qed (auto simp: eval_simps plain_intros)

section \<open>Properties\<close>

lemma coefs_divideBy:
  assumes "divideBy d e = Inr r"
  shows "coefs e k = d * coefs r k"
proof -
  from assms obtain ts where ts: "mapr (term_divideBy d) (mTerms e) = Inr ts" "r = Exp ts (mExpType e)"
    by (auto simp: divideBy_def bindr_eq_Inr)
  then have "list_all2 (\<lambda>t t'. term_divideBy d t = Inr t') (mTerms e) ts"
    by (simp add: mapr_eq_Inr)
  then have "coef_of (mTerms e) k = d * coef_of ts k"
    by (induction rule: list_all2_induct) (auto simp: term_divideBy_Inr algebra_simps)
  with ts show ?thesis by (simp add: coefs_def)
qed

lemma find_factor_loop_finds:
  "t \<in> set ts \<Longrightarrow> factorMatches t factor \<Longrightarrow> \<forall>u \<in> set ts. coefficient u \<noteq> 0 \<Longrightarrow>
   \<forall>u \<in> set ts. factorMatches u factor \<longrightarrow> u = t \<Longrightarrow> isDivisible (coefficient t) e = Inr True \<Longrightarrow>
   find_factor_loop e factor ts = Inr (Some t)"
proof (induction ts)
  case (Cons u ts)
  show ?case
  proof (cases "factorMatches u factor")
    case True
    with Cons.prems have "u = t" by simp
    with True Cons.prems(5) show ?thesis by simp
  next
    case False
    with Cons.prems(1,2) have "t \<in> set ts" by auto
    then have "find_factor_loop e factor ts = Inr (Some t)"
      by (rule Cons.IH) (use Cons.prems(2-) in simp_all)
    with False show ?thesis by simp
  qed
qed simp

text \<open>
  C11. Solving for a factor that occurs linearly: if the coefficient of the factor divides all
  others, \<open>solveForFactor\<close> returns an expression without the factor that equals the factor in
  exactly the solutions of \<open>e = 0\<close>.
\<close>

theorem solveForFactor_linear:
  assumes "plain_exp e" and "wf_exp scalar e" and "plain_term factor" and "idx_ok scalar factor"
    and "coefficient factor = 1" and "coefs e (fkey factor) \<noteq> 0"
    and "\<forall>k. coefs e (fkey factor) dvd coefs e k"
  shows "\<exists>r. solveForFactor invOf e factor = Inr (Some r) \<and> coefs r (fkey factor) = 0
    \<and> (\<forall>k. k \<noteq> fkey factor \<longrightarrow> coefs e k = - coefs e (fkey factor) * coefs r k)
    \<and> (\<forall>v. eval_exp v e = 0 \<longleftrightarrow> factor_val v factor = eval_exp v r)"
proof -
  let ?ts = "mTerms e"
  have wf: "wf_terms scalar ?ts" using assms(2) by (simp add: wf_exp_def)
  have "fkey factor \<in> fkey ` set ?ts" using assms(6) coef_of_notin unfolding coefs_def by blast
  then obtain t where t: "t \<in> set ?ts" "fkey t = fkey factor" by auto
  have c: "coefs e (fkey u) = coefficient u" if "u \<in> set ?ts" for u
    using that wf by (simp add: coefs_def coef_of_member)
  have idx: "\<forall>u \<in> set ?ts. idx_ok scalar u \<and> coefficient u \<noteq> 0" using wf by (simp add: wf_terms_def list_all_iff)
  have uniq: "\<forall>u \<in> set ?ts. factorMatches u factor \<longrightarrow> u = t"
  proof (intro ballI impI)
    fix u assume u: "u \<in> set ?ts" "factorMatches u factor"
    then have "fkey u = fkey t" using factorMatches_fkey idx assms(4) t by metis
    moreover have "distinct (map fkey ?ts)" using wf by (simp add: wf_terms_def strict_sorted_iff)
    ultimately show "u = t" using u(1) t(1) by (simp add: distinct_map inj_on_def)
  qed
  have match: "factorMatches t factor" using factorMatches_fkey idx assms(4) t by metis
  have ct: "coefficient t \<noteq> 0" "coefs e (fkey factor) = coefficient t"
    using c [OF t(1)] t idx by auto
  have "\<forall>u \<in> set ?ts. coefficient t dvd coefficient u" using ct(2) assms(7) c by metis
  with ct(1) have div: "isDivisible (coefficient t) e = Inr True" by (simp add: isDivisible_eq)
  have "find_factor_loop e factor ?ts = Inr (Some t)"
    by (rule find_factor_loop_finds [OF t(1) match _ uniq div]) (use idx in blast)
  then have find: "findMatchingFactor e factor = Inr (Some t)"
    using assms(5) by (simp add: findMatchingFactor_def check_factor_def)
  obtain r where r: "divideBy (- coefficient t) (addTerm (term_multiplyBy (- coefficient t) factor) e) = Inr r"
    and val: "\<And>v. eval_exp v e = coefficient t * (factor_val v factor - eval_exp v r)"
    using isolate [OF find assms(1,3)] by blast
  have "coefs (addTerm (term_multiplyBy (- coefficient t) factor) e)
      = (coefs e)(fkey factor := coefs e (fkey factor) - coefficient t)"
    using assms(2,4,5) by (subst coefs_addTerm) (simp_all add: term_multiplyBy_def)
  then have upd: "((coefs e)(fkey factor := 0)) k = - coefficient t * coefs r k" for k
    using coefs_divideBy [OF r, of k] ct by simp
  have zero: "coefs r (fkey factor) = 0" using upd [of "fkey factor"] ct by simp
  have rest: "coefs e k = - coefficient t * coefs r k" if "k \<noteq> fkey factor" for k
    using upd [of k] that by simp
  have "solveForFactor invOf e factor = Inr (Some r)"
    using solveForFactor_direct [OF find, of invOf] r by simp
  moreover have "eval_exp v e = 0 \<longleftrightarrow> factor_val v factor = eval_exp v r" for v
    using ct by (simp add: val)
  ultimately show ?thesis
    using zero rest ct by (intro exI [of _ r] conjI allI impI) simp_all
qed

theorem solveForFactor_linear_witness:
  "let e = Exp [TupleVarTerm 2 0, VarTerm (-4) ''n'', Term 6] Equality; t = TupleVarTerm 1 0 in
   \<exists>r. solveForFactor (\<lambda>f. []) e t = Inr (Some r) \<and> coefs r (fkey t) = 0
     \<and> (\<forall>k. k \<noteq> fkey t \<longrightarrow> coefs e k = - coefs e (fkey t) * coefs r k)
     \<and> (\<forall>v. eval_exp v e = 0 \<longleftrightarrow> factor_val v t = eval_exp v r)"
  unfolding Let_def
  by (rule solveForFactor_linear [of _ "\<lambda>f. True"])
    (auto simp: wf_exp_def wf_terms_def coefs_def wf_name_def is_ident_def is_digit_def)

text \<open>
  Solving through an invertible function: when the factor is exposed by inverting the only
  invertible call that depends on it, the result equals the factor in every solution of
  \<open>e = 0\<close> under a valuation that respects the inverses.
\<close>

lemma solve_by_inverse:
  assumes "findMatchingFactor e factor = Inr None"
    and "invertFuncToExposeFactor invOf e factor = Inr (Some x)"
    and "findMatchingFactor x factor = Inr (Some t)"
    and "\<forall>u \<in> set (mTerms e). coefficient t dvd coefficient u"
    and "calls_invertible invOf n factor e" and "plain_exp e" and "plain_term factor"
  shows "\<exists>r. solveForFactor invOf e factor = Inr (Some r)
    \<and> (\<forall>v. inverses invOf n D v \<longrightarrow> calls_inside D factor e v \<longrightarrow> eval_exp v e = 0 \<longrightarrow> factor_val v factor = eval_exp v r)"
proof -
  note x = invertFunc_value [where D = D, OF assms(2,5,6)]
  note t = findMatchingFactor_Some [OF assms(3)]
  obtain r where r: "divideBy (- coefficient t) (addTerm (term_multiplyBy (- coefficient t) factor) x) = Inr r"
    and val: "\<And>v. eval_exp v x = coefficient t * (factor_val v factor - eval_exp v r)"
    using isolate [OF assms(3) _ assms(7)] x by blast
  have "solveForFactor invOf e factor = Inr (Some r)"
    using assms(1-4) t(1,4) r by (simp add: solveForFactor_def check_factor_def isDivisible_eq)
  with x val t(4) show ?thesis by fastforce
qed

text \<open>
  When inverting exposes the factor with a coefficient that does not divide the rest, the
  exposed but unsolved expression is returned as if it were the solution: solving
  \<open>x - f(3 y) = 0\<close> for \<open>y\<close> gives \<open>3 y - g(x)\<close>.
\<close>

theorem solveForFactor_unsolved:
  "solveForFactor (\<lambda>f. if f = ''f'' then ''g'' else [])
     (Exp [VarTerm 1 ''x'', UFCallTerm (-1) ''f'' [Exp [VarTerm 3 ''y''] Expression] (-1)] Equality)
     (VarTerm 1 ''y'')
   = Inr (Some (Exp [VarTerm 3 ''y'', UFCallTerm (-1) ''g'' [Exp [VarTerm 1 ''x''] Equality] (-1)] Expression))"
  by code_simp

text \<open>
  The name of the inverse is overwritten by a later call on the factor that has no inverse:
  with \<open>f\<close> invertible and \<open>h\<close> not, solving \<open>f(y) + h(y) = 0\<close> calls a function with the empty name.
\<close>

theorem invertFunc_name_overwritten:
  "let call = \<lambda>c f e. UFCallTerm c f [e] (-1); y = Exp [VarTerm 1 ''y''] Expression in
   invertFuncToExposeFactor (\<lambda>f. if f = ''f'' then ''g'' else [])
     (Exp [call 1 ''f'' y, call 1 ''h'' y] Equality) (VarTerm 1 ''y'')
   = Inr (Some (Exp [VarTerm 1 ''y'', call (-1) [] (Exp [call (-1) ''h'' y] Equality)] Expression))"
  by code_simp

text \<open>
  Collapsing \<open>f(f_inv(x))\<close> to \<open>x\<close>, at any depth, keeps the value under valuations that
  respect the inverses, provided the nested inverse calls have coefficient one.
\<close>

lemma collapse_sound:
  assumes "collapse ad invOf e = Inr r" and "plain_exp e" and "nests_ok invOf e" and "inverts invOf v"
  shows "plain_exp r \<and> eval_exp v r = eval_exp v e"
  using collapse_value(1) [OF assms(4) assms(1-3)] .

text \<open>
  The proviso is needed: \<open>f(2 g(x))\<close> is collapsed to \<open>x\<close> although the argument of \<open>f\<close> is
  twice the inverse.
\<close>

theorem collapse_coefficient:
  "collapse no_addr (\<lambda>f. if f = ''f'' then ''g'' else [])
     (Exp [UFCallTerm 1 ''f'' [Exp [UFCallTerm 2 ''g'' [Exp [VarTerm 1 ''x''] Expression] (-1)] Expression] (-1)] Equality)
   = Inr (Exp [VarTerm 1 ''x''] Expression)"
  by code_simp

end
