(* ===== verification/IEG_TupleDecl.thy ===== *)
theory IEG_TupleDecl
  imports IEG_Variables "HOL-Library.Option_ord"
begin

text \<open>
  Tuple declarations (\<open>TupleDecl.h\<close>, \<open>TupleDecl.cc\<close>): a vector of elements, each a constant or
  a named variable, kept as three parallel vectors; and the printing of expressions with the
  names of a declaration (\<open>prettyPrintString\<close>). The element accessors do not check the
  position, so their callers must stay in range; where a caller does not check, the access is
  an error of the model.
\<close>

section \<open>The declaration\<close>

record tuple_decl =
  mSize :: nat
  mIsConst :: "bool list"
  mConstVal :: "int list"
  mVarString :: "string list"

definition sDefaultTupleVarName :: "nat \<Rightarrow> string" where
  "sDefaultTupleVarName loc = ''tv'' @ nat_str loc"

definition TupleDecl_new :: "nat \<Rightarrow> tuple_decl" where
  "TupleDecl_new sz =
     \<lparr>mSize = sz, mIsConst = replicate sz False, mConstVal = replicate sz 0,
      mVarString = map sDefaultTupleVarName [0..<sz]\<rparr>"

definition tdecl_size :: "tuple_decl \<Rightarrow> nat" where
  "tdecl_size td = mSize td"

definition setTupleElem_const :: "nat \<Rightarrow> int \<Rightarrow> tuple_decl \<Rightarrow> tuple_decl res" where
  "setTupleElem_const elem_loc const_val td =
     (if elem_loc \<ge> mSize td then Inl (Assert ''TupleDecl::setTupleElem: elem_loc out of bounds'')
      else Inr (td\<lparr>mIsConst := (mIsConst td)[elem_loc := True],
                   mConstVal := (mConstVal td)[elem_loc := const_val]\<rparr>))"

definition setTupleElem_var :: "nat \<Rightarrow> string \<Rightarrow> tuple_decl \<Rightarrow> tuple_decl res" where
  "setTupleElem_var elem_loc var_string td =
     (if elem_loc \<ge> mSize td then Inl (Assert ''TupleDecl::setTupleElem: elem_loc out of bounds'')
      else Inr (td\<lparr>mIsConst := (mIsConst td)[elem_loc := False],
                   mVarString := (mVarString td)[elem_loc := var_string]\<rparr>))"

fun default_names :: "nat list \<Rightarrow> tuple_decl \<Rightarrow> tuple_decl res" where
  "default_names [] td = Inr td"
| "default_names (i # is) td =
     bindr (setTupleElem_var i (sDefaultTupleVarName i) td) (\<lambda>td'. default_names is td')"

definition sDefaultTupleDecl :: "nat \<Rightarrow> tuple_decl res" where
  "sDefaultTupleDecl arity = default_names [0..<arity] (TupleDecl_new arity)"

definition copyTupleElem :: "tuple_decl \<Rightarrow> nat \<Rightarrow> nat \<Rightarrow> tuple_decl \<Rightarrow> tuple_decl res" where
  "copyTupleElem other elem_loc_from elem_loc_to td =
     (if elem_loc_from \<ge> length (mIsConst other) \<or> elem_loc_to \<ge> length (mIsConst td) then Inl OutOfBounds
      else Inr (td\<lparr>mIsConst := (mIsConst td)[elem_loc_to := mIsConst other ! elem_loc_from],
                   mConstVal := (mConstVal td)[elem_loc_to := mConstVal other ! elem_loc_from],
                   mVarString := (mVarString td)[elem_loc_to := mVarString other ! elem_loc_from]\<rparr>))"

definition elemIsConst :: "tuple_decl \<Rightarrow> nat \<Rightarrow> bool" where
  "elemIsConst td elem_loc = mIsConst td ! elem_loc"

definition elemConstVal :: "tuple_decl \<Rightarrow> nat \<Rightarrow> int" where
  "elemConstVal td elem_loc = mConstVal td ! elem_loc"

definition elemVarString :: "tuple_decl \<Rightarrow> nat \<Rightarrow> string" where
  "elemVarString td elem_loc = mVarString td ! elem_loc"

definition elemToString :: "tuple_decl \<Rightarrow> bool \<Rightarrow> nat \<Rightarrow> string" where
  "elemToString td generic elem_loc =
     (if mIsConst td ! elem_loc then int_str (mConstVal td ! elem_loc)
      else if \<not> generic then mVarString td ! elem_loc
      else ''tv'' @ nat_str elem_loc)"

definition elemCreateTerm :: "tuple_decl \<Rightarrow> nat \<Rightarrow> nat \<Rightarrow> trm res" where
  "elemCreateTerm td view_elem_loc use_elem_loc =
     (if view_elem_loc \<ge> mSize td
      then Inl (Assert ''TupleDecl::elemCreateTerm: view_elem_loc parameter is out of bounds'')
      else if mIsConst td ! view_elem_loc then Inr (Term (mConstVal td ! view_elem_loc))
      else Inr (TupleVarTerm 1 (int use_elem_loc)))"

definition tdecl_concat :: "tuple_decl \<Rightarrow> tuple_decl \<Rightarrow> tuple_decl" where
  "tdecl_concat td other =
     \<lparr>mSize = mSize td + mSize other,
      mIsConst = mIsConst td @ map (\<lambda>j. mIsConst other ! j) [0..<mSize other],
      mConstVal = mConstVal td @ map (\<lambda>j. mConstVal other ! j) [0..<mSize other],
      mVarString = mVarString td @
        map (\<lambda>j. if mVarString other ! j = sDefaultTupleVarName j
                then sDefaultTupleVarName (j + mSize td)
                else mVarString other ! j) [0..<mSize other]\<rparr>"

text \<open>Constants and variables are compared with a variable as smallest value.\<close>

fun tdecl_less_loop :: "(bool \<times> int) list \<Rightarrow> (bool \<times> int) list \<Rightarrow> bool" where
  "tdecl_less_loop ((isc, c) # xs) ((isc', c') # ys) =
     (if \<not> isc \<and> \<not> isc' then tdecl_less_loop xs ys
      else if isc \<and> \<not> isc' then False
      else if isc' \<and> \<not> isc then True
      else if c < c' then True
      else if c' < c then False
      else tdecl_less_loop xs ys)"
| "tdecl_less_loop _ _ = False"

definition tdecl_less :: "tuple_decl \<Rightarrow> tuple_decl \<Rightarrow> bool" where
  "tdecl_less td other =
     (if mSize td < mSize other then True
      else if mSize other < mSize td then False
      else tdecl_less_loop (zip (mIsConst td) (mConstVal td)) (zip (mIsConst other) (mConstVal other)))"

definition tdecl_eq :: "tuple_decl \<Rightarrow> tuple_decl \<Rightarrow> bool" where
  "tdecl_eq td other \<longleftrightarrow> \<not> (tdecl_less td other \<or> tdecl_less other td)"

fun elems_toString :: "tuple_decl \<Rightarrow> bool \<Rightarrow> nat \<Rightarrow> bool \<Rightarrow> nat list \<Rightarrow> string" where
  "elems_toString td withBrackets aritySplit generic [] = []"
| "elems_toString td withBrackets aritySplit generic (i # is) =
     (if i > 0
      then if aritySplit = i \<and> withBrackets then ''] -> ['' else '', ''
      else []) @ elemToString td generic i @ elems_toString td withBrackets aritySplit generic is"

definition tdecl_toString :: "tuple_decl \<Rightarrow> bool \<Rightarrow> nat \<Rightarrow> bool \<Rightarrow> string" where
  "tdecl_toString td withBrackets aritySplit generic =
     (if mSize td \<noteq> 0
      then (if withBrackets then ''['' else [])
           @ elems_toString td withBrackets aritySplit generic [0..<mSize td]
           @ (if withBrackets then '']'' else [])
      else [])"

section \<open>Printing expressions with the names of a declaration\<close>

fun term_prettyPrint :: "tuple_decl \<Rightarrow> bool \<Rightarrow> trm \<Rightarrow> string res"
and exp_prettyPrint :: "tuple_decl \<Rightarrow> exp \<Rightarrow> string res"
and terms_prettyPrint :: "tuple_decl \<Rightarrow> bool \<Rightarrow> trm list \<Rightarrow> string res"
and args_prettyPrint :: "tuple_decl \<Rightarrow> bool \<Rightarrow> exp list \<Rightarrow> string res" where
  "term_prettyPrint td absValue (Term c) = Inr (int_str (if absValue then \<bar>c\<bar> else c))"
| "term_prettyPrint td absValue (TupleVarTerm c l) =
     (if l < 0 \<or> l \<ge> int (length (mIsConst td)) then Inl OutOfBounds
      else if elemIsConst td (nat l)
      then Inl (Assert ''TupleVarTerm::prettyPrintString: tuple var location declaration for tuple var term should not be constant'')
      else Inr (coeffToStream c absValue @ elemToString td False (nat l)))"
| "term_prettyPrint td absValue (VarTerm c s) = Inr (coeffToStream c absValue @ s)"
| "term_prettyPrint td absValue (UFCallTerm c f es i) =
     bindr (args_prettyPrint td True es) (\<lambda>args.
       Inr (coeffToStream c absValue @ f @ ''('' @ args @ '')''
            @ (if isIndexed i then ''['' @ int_str (tupleIndex i) @ '']'' else [])))"
| "term_prettyPrint td absValue (TupleExpTerm c es) =
     bindr (args_prettyPrint td True es) (\<lambda>args. Inr (''( '' @ args @ '' )''))"
| "exp_prettyPrint td (Exp ts ty) = terms_prettyPrint td True ts"
| "terms_prettyPrint td firstTerm [] = Inr []"
| "terms_prettyPrint td firstTerm (t # ts) =
     bindr (term_prettyPrint td (\<not> firstTerm) t) (\<lambda>s.
     bindr (terms_prettyPrint td False ts) (\<lambda>rest.
       Inr ((if \<not> firstTerm then (if coefficient t < 0 then '' - '' else '' + '') else []) @ s @ rest)))"
| "args_prettyPrint td firstArg [] = Inr []"
| "args_prettyPrint td firstArg (e # es) =
     bindr (exp_prettyPrint td e) (\<lambda>s.
     bindr (args_prettyPrint td False es) (\<lambda>rest.
       Inr ((if \<not> firstArg then '', '' else []) @ s @ rest)))"

section \<open>The order\<close>

definition wf_tdecl :: "tuple_decl \<Rightarrow> bool" where
  "wf_tdecl td \<longleftrightarrow> length (mIsConst td) = mSize td \<and> length (mConstVal td) = mSize td
     \<and> length (mVarString td) = mSize td"

definition consts_of :: "tuple_decl \<Rightarrow> int option list" where
  "consts_of td = map (\<lambda>(isc, c). if isc then Some c else None) (zip (mIsConst td) (mConstVal td))"

definition tdkey :: "tuple_decl \<Rightarrow> nat \<times> int option list" where
  "tdkey td = (mSize td, consts_of td)"

lemma tdecl_less_loop_key:
  "length xs = length ys \<Longrightarrow>
   tdecl_less_loop xs ys \<longleftrightarrow>
     map (\<lambda>(isc, c). if isc then Some c else None) xs < map (\<lambda>(isc, c). if isc then Some c else None) ys"
proof (induction xs ys rule: list_induct2)
  case (Cons x xs y ys)
  then show ?case by (cases x; cases y) auto
qed simp

interpretation tdecls: keyed_order tdecl_less tdkey wf_tdecl
  by unfold_locales
    (auto simp: tdecl_less_def tdkey_def wf_tdecl_def consts_of_def tdecl_less_loop_key)

lemma wf_new_tdecl [simp]: "wf_tdecl (TupleDecl_new n)"
  by (simp add: wf_tdecl_def TupleDecl_new_def)

lemma wf_concat [simp]: "wf_tdecl a \<Longrightarrow> wf_tdecl b \<Longrightarrow> wf_tdecl (tdecl_concat a b)"
  by (simp add: wf_tdecl_def tdecl_concat_def)

lemma wf_setTupleElem:
  "wf_tdecl td \<Longrightarrow> setTupleElem_const i c td = Inr td' \<Longrightarrow> wf_tdecl td'"
  "wf_tdecl td \<Longrightarrow> setTupleElem_var i s td = Inr td' \<Longrightarrow> wf_tdecl td'"
  by (auto simp: wf_tdecl_def setTupleElem_const_def setTupleElem_var_def split: if_splits)

lemma wf_copyTupleElem: "wf_tdecl td \<Longrightarrow> copyTupleElem other i j td = Inr td' \<Longrightarrow> wf_tdecl td'"
  by (auto simp: wf_tdecl_def copyTupleElem_def split: if_splits)

section \<open>The tuples a declaration admits\<close>

definition admits :: "tuple_decl \<Rightarrow> int list \<Rightarrow> bool" where
  "admits td xs \<longleftrightarrow> length xs = mSize td \<and>
     (\<forall>i < mSize td. elemIsConst td i \<longrightarrow> xs ! i = elemConstVal td i)"

lemma consts_of_nth:
  "wf_tdecl td \<Longrightarrow> i < mSize td \<Longrightarrow>
   consts_of td ! i = (if elemIsConst td i then Some (elemConstVal td i) else None)"
  by (simp add: consts_of_def wf_tdecl_def elemIsConst_def elemConstVal_def)

lemma length_consts_of: "wf_tdecl td \<Longrightarrow> length (consts_of td) = mSize td"
  by (simp add: consts_of_def wf_tdecl_def)

lemma admits_consts:
  assumes "wf_tdecl td"
  shows "admits td xs \<longleftrightarrow> list_all2 (\<lambda>c x. c = None \<or> c = Some x) (consts_of td) xs"
proof -
  have "list_all2 (\<lambda>c x. c = None \<or> c = Some x) (consts_of td) xs \<longleftrightarrow>
      length xs = mSize td \<and> (\<forall>i < mSize td. consts_of td ! i = None \<or> consts_of td ! i = Some (xs ! i))"
    by (auto simp: list_all2_conv_all_nth length_consts_of [OF assms])
  then show ?thesis by (auto simp: admits_def consts_of_nth [OF assms])
qed

lemma consts_concat:
  "wf_tdecl a \<Longrightarrow> wf_tdecl b \<Longrightarrow> consts_of (tdecl_concat a b) = consts_of a @ consts_of b"
proof -
  assume wf: "wf_tdecl a" "wf_tdecl b"
  then have "map (\<lambda>j. mIsConst b ! j) [0..<mSize b] = mIsConst b"
    and "map (\<lambda>j. mConstVal b ! j) [0..<mSize b] = mConstVal b"
    by (simp_all add: wf_tdecl_def list_eq_iff_nth_eq)
  with wf show ?thesis by (simp add: consts_of_def tdecl_concat_def wf_tdecl_def)
qed


lemma admits_concat:
  assumes "wf_tdecl a" and "wf_tdecl b" and "length xs = mSize a"
  shows "admits (tdecl_concat a b) (xs @ ys) \<longleftrightarrow> admits a xs \<and> admits b ys"
  using assms
  by (auto simp: admits_consts consts_concat length_consts_of list_all2_append)

lemma admits_distinguish:
  assumes "length cs = length ds" and "cs \<noteq> (ds :: int option list)"
  shows "\<exists>xs. length xs = length cs \<and>
    list_all2 (\<lambda>c x. c = None \<or> c = Some x) cs xs \<noteq> list_all2 (\<lambda>c x. c = None \<or> c = Some x) ds xs"
  using assms
proof (induction cs ds rule: list_induct2)
  case (Cons c cs d ds)
  let ?P = "\<lambda>c x. c = None \<or> c = Some (x::int)"
  show ?case
  proof (cases "cs = ds")
    case True
    with Cons have cd: "c \<noteq> d" by simp
    have "\<exists>x. ?P c x \<noteq> ?P d x"
    proof (cases c)
      case None
      with cd show ?thesis by (cases d) (auto intro: exI [of _ "the d + 1"])
    next
      case (Some y)
      then show ?thesis
        by (cases d) (use cd in \<open>auto intro: exI [of _ "y + 1"] exI [of _ y]\<close>)
    qed
    then obtain x where "?P c x \<noteq> ?P d x" by blast
    moreover have "list_all2 ?P ds (map (\<lambda>c. case c of None \<Rightarrow> 0 | Some x \<Rightarrow> x) ds)"
      by (auto simp: list_all2_conv_all_nth split: option.splits)
    ultimately show ?thesis
      using True by (intro exI [of _ "x # map (\<lambda>c. case c of None \<Rightarrow> 0 | Some x \<Rightarrow> x) ds"]) auto
  next
    case False
    with Cons.IH obtain xs where xs: "length xs = length cs" "list_all2 ?P cs xs \<noteq> list_all2 ?P ds xs"
      by blast
    show ?thesis
    proof (cases "\<exists>x. ?P c x \<and> ?P d x")
      case True
      then obtain x where "?P c x" "?P d x" by blast
      with xs show ?thesis by (intro exI [of _ "x # xs"]) auto
    next
      case disjoint: False
      let ?xs = "map (\<lambda>c. case c of None \<Rightarrow> 0 | Some x \<Rightarrow> x) cs"
      have "list_all2 ?P cs ?xs"
        by (auto simp: list_all2_conv_all_nth split: option.splits)
      moreover obtain x where "?P c x" by (cases c) auto
      ultimately show ?thesis using disjoint by (intro exI [of _ "x # ?xs"]) auto
    qed
  qed
qed simp

section \<open>Properties\<close>

text \<open>
  C25. \<open>TupleDecl::operator==\<close> decides whether two declarations admit the same tuples, whatever
  their variables are called.
\<close>

theorem tdecl_eq_admits:
  assumes "wf_tdecl a" and "wf_tdecl b"
  shows "tdecl_eq a b \<longleftrightarrow> (\<forall>xs. admits a xs \<longleftrightarrow> admits b xs)"
proof -
  have "tdecl_eq a b \<longleftrightarrow> tdkey a = tdkey b"
    unfolding tdecl_eq_def using assms by (intro tdecls.equiv_key)
  also have "\<dots> \<longleftrightarrow> consts_of a = consts_of b"
    using assms length_consts_of by (metis prod.inject tdkey_def)
  also have "\<dots> \<longleftrightarrow> (\<forall>xs. admits a xs \<longleftrightarrow> admits b xs)"
  proof
    assume eq: "\<forall>xs. admits a xs \<longleftrightarrow> admits b xs"
    have len: "length (consts_of a) = length (consts_of b)"
    proof -
      have "list_all2 (\<lambda>c x. c = None \<or> c = Some x) (consts_of a)
          (map (\<lambda>c. case c of None \<Rightarrow> 0 | Some x \<Rightarrow> x) (consts_of a))"
        by (auto simp: list_all2_conv_all_nth split: option.splits)
      then have "admits b (map (\<lambda>c. case c of None \<Rightarrow> 0 | Some x \<Rightarrow> x) (consts_of a))"
        using eq assms by (simp add: admits_consts)
      then show ?thesis using assms by (simp add: admits_def length_consts_of)
    qed
    show "consts_of a = consts_of b"
    proof (rule ccontr)
      assume "consts_of a \<noteq> consts_of b"
      from admits_distinguish [OF len this] eq show False by (simp add: admits_consts assms)
    qed
  qed (simp add: admits_consts assms)
  finally show ?thesis .
qed

theorem tdecl_eq_admits_witness:
  "let a = \<lparr>mSize = 2, mIsConst = [False, True], mConstVal = [0, 5], mVarString = [''i'', ''j'']\<rparr>;
       b = \<lparr>mSize = 2, mIsConst = [False, True], mConstVal = [3, 5], mVarString = [''k'', ''l'']\<rparr>
   in \<forall>xs. admits a xs \<longleftrightarrow> admits b xs"
  unfolding Let_def
  by (subst tdecl_eq_admits [symmetric]) (simp_all add: wf_tdecl_def tdecl_eq_def tdecl_less_def)

text \<open>
  Concatenating declarations concatenates the tuples they admit, and a default name of the
  second declaration becomes the default name of its new position.
\<close>

lemma tdecl_concat_admits:
  assumes "wf_tdecl a" and "wf_tdecl b" and "length xs = mSize a"
  shows "(admits (tdecl_concat a b) (xs @ ys) \<longleftrightarrow> admits a xs \<and> admits b ys)
    \<and> wf_tdecl (tdecl_concat a b)
    \<and> (\<forall>j < mSize b. elemVarString (tdecl_concat a b) (mSize a + j) =
         (if elemVarString b j = sDefaultTupleVarName j then sDefaultTupleVarName (mSize a + j)
          else elemVarString b j))"
  using assms admits_concat [OF assms]
  by (auto simp: elemVarString_def tdecl_concat_def wf_tdecl_def nth_append add.commute)

lemma bindr_succeeds:
  "(\<exists>s. bindr r (\<lambda>x. Inr (g x)) = Inr s) \<longleftrightarrow> (\<exists>x. r = Inr x)"
  "(\<exists>s. bindr r (\<lambda>x. bindr q (\<lambda>y. Inr (h x y))) = Inr s) \<longleftrightarrow> (\<exists>x. r = Inr x) \<and> (\<exists>y. q = Inr y)"
  by (cases r; cases q; simp)+

lemma prettyPrint_success:
  "(\<exists>s. term_prettyPrint td a t = Inr s) \<longleftrightarrow>
     (\<forall>l \<in> term_locs t. 0 \<le> l \<and> l < int (length (mIsConst td)) \<and> \<not> elemIsConst td (nat l))"
  "(\<exists>s. exp_prettyPrint td e = Inr s) \<longleftrightarrow>
     (\<forall>l \<in> tuple_locs e. 0 \<le> l \<and> l < int (length (mIsConst td)) \<and> \<not> elemIsConst td (nat l))"
  "(\<exists>s. terms_prettyPrint td a ts = Inr s) \<longleftrightarrow>
     (\<forall>t \<in> set ts. \<forall>l \<in> term_locs t. 0 \<le> l \<and> l < int (length (mIsConst td)) \<and> \<not> elemIsConst td (nat l))"
  "(\<exists>s. args_prettyPrint td a es = Inr s) \<longleftrightarrow>
     (\<forall>e \<in> set es. \<forall>l \<in> tuple_locs e. 0 \<le> l \<and> l < int (length (mIsConst td)) \<and> \<not> elemIsConst td (nat l))"
proof (induction td a t and td e and td a ts and td a es
    rule: term_prettyPrint_exp_prettyPrint_terms_prettyPrint_args_prettyPrint.induct)
  case (8 td firstTerm t ts)
  then show ?case
    by (cases "term_prettyPrint td (\<not> firstTerm) t") (simp_all add: bindr_succeeds)
next
  case (10 td firstArg e es)
  then show ?case by (cases "exp_prettyPrint td e") (simp_all add: bindr_succeeds)
qed (simp_all add: bindr_succeeds not_le)

text \<open>
  Printing with the names of a declaration fails exactly if some tuple variable of the
  expression, at any depth, is out of the declaration's range or declared constant.
\<close>

lemma prettyPrint_fails:
  "(\<exists>err. exp_prettyPrint td e = Inl err) \<longleftrightarrow>
     (\<exists>l \<in> tuple_locs e. l < 0 \<or> l \<ge> int (length (mIsConst td)) \<or> elemIsConst td (nat l))"
  using prettyPrint_success(2) [of td e] by (cases "exp_prettyPrint td e") (auto simp flip: not_le)

end
