(* ===== verification/IEG_Util.thy ===== *)
theory IEG_Util
  imports IEG_Prelude
begin

text \<open>
  Utilities (\<open>util.h\<close>, \<open>util.cc\<close>): names that are not taken yet, and the iterator over strings
  that the symbol and tuple queries return. A \<open>std::set\<close> of strings is the list of its elements
  in ascending order.
\<close>

section \<open>Sets of strings\<close>

interpretation strings: keyed_order "(<) :: string \<Rightarrow> string \<Rightarrow> bool" "\<lambda>s. s" "\<lambda>_. True"
  by unfold_locales simp

definition string_insert :: "string \<Rightarrow> string list \<Rightarrow> string list" where
  "string_insert s xs = insert_unique (<) s xs"

lemma set_string_insert [simp]: "set (string_insert s xs) = insert s (set xs)"
  using strings.key_insert [of xs s] by (simp add: string_insert_def list_all_iff)

lemma sorted_string_insert: "sorted_wrt (<) xs \<Longrightarrow> sorted_wrt (<) (string_insert s xs)"
  using strings.sorted_insert [of xs s] by (simp add: string_insert_def list_all_iff)

section \<open>Unique names\<close>

text \<open>The loop appends 1, 2, 3 and so on until the name is free. It ends because the numerals
  are distinct and only finitely many names are taken.\<close>

lemma finite_taken: "finite {k. name @ nat_str k \<in> set taken}"
proof -
  have "inj_on (\<lambda>k. name @ nat_str k) {k. name @ nat_str k \<in> set taken}"
    by (auto simp: inj_on_def nat_str_inject)
  moreover have "finite ((\<lambda>k. name @ nat_str k) ` {k. name @ nat_str k \<in> set taken})"
    by (rule finite_subset [of _ "set taken"]) auto
  ultimately show ?thesis using finite_imageD by blast
qed

function unique_loop :: "string \<Rightarrow> nat \<Rightarrow> string list \<Rightarrow> string" where
  "unique_loop name count taken =
     (let retval = name @ nat_str count in
      if retval \<in> set taken then unique_loop name (count + 1) taken else retval)"
  by pat_completeness auto

termination
proof (relation "measure (\<lambda>(name, count, taken). card {k. k \<ge> count \<and> name @ nat_str k \<in> set taken})")
  fix name :: string and count :: nat and taken :: "string list" and retval
  assume r: "retval = name @ nat_str count" "retval \<in> set taken"
  let ?K = "\<lambda>n. {k. k \<ge> n \<and> name @ nat_str k \<in> set taken}"
  have "finite (?K count)" by (rule finite_subset [OF _ finite_taken [of name taken]]) auto
  moreover have "?K (count + 1) \<subset> ?K count"
  proof
    have "count \<in> ?K count" "count \<notin> ?K (count + 1)" using r by auto
    then show "?K (count + 1) \<noteq> ?K count" by blast
  qed auto
  ultimately show "((name, count + 1, taken), name, count, taken) \<in>
      measure (\<lambda>(name, count, taken). card {k. k \<ge> count \<and> name @ nat_str k \<in> set taken})"
    by (simp add: psubset_card_mono)
qed simp

declare unique_loop.simps [simp del]

definition createUniqueName :: "string \<Rightarrow> string list \<Rightarrow> string \<times> string list" where
  "createUniqueName name taken =
     (if name \<notin> set taken then (name, taken)
      else let retval = unique_loop name 1 taken in (retval, string_insert retval taken))"

section \<open>The string iterator\<close>

record string_iterator =
  mList :: "string list"
  mIterPos :: nat

definition StringIterator_new :: "string list \<Rightarrow> string_iterator" where
  "StringIterator_new aList = \<lparr>mList = aList, mIterPos = 0\<rparr>"

definition si_hasNext :: "string_iterator \<Rightarrow> bool" where
  "si_hasNext it \<longleftrightarrow> mIterPos it \<noteq> length (mList it)"

definition si_next :: "string_iterator \<Rightarrow> (string \<times> string_iterator) res" where
  "si_next it =
     (if mIterPos it \<ge> length (mList it) then Inl OutOfBounds
      else Inr (mList it ! mIterPos it, it\<lparr>mIterPos := mIterPos it + 1\<rparr>))"

fun si_collect :: "nat \<Rightarrow> string_iterator \<Rightarrow> string list res" where
  "si_collect 0 it = Inr []"
| "si_collect (Suc n) it =
     (if si_hasNext it
      then bindr (si_next it) (\<lambda>(s, it'). bindr (si_collect n it') (\<lambda>ss. Inr (s # ss)))
      else Inr [])"

section \<open>Properties\<close>

lemma unique_loop_result:
  "\<exists>k \<ge> count. unique_loop name count taken = name @ nat_str k \<and> name @ nat_str k \<notin> set taken
     \<and> (\<forall>j. count \<le> j \<longrightarrow> j < k \<longrightarrow> name @ nat_str j \<in> set taken)"
proof (induction name count taken rule: unique_loop.induct)
  case (1 name count taken)
  show ?case
  proof (cases "name @ nat_str count \<in> set taken")
    case True
    with "1.IH" obtain k where "k \<ge> count + 1" "unique_loop name (count + 1) taken = name @ nat_str k"
      "name @ nat_str k \<notin> set taken" "\<forall>j. count + 1 \<le> j \<longrightarrow> j < k \<longrightarrow> name @ nat_str j \<in> set taken"
      by auto
    moreover from this True have "\<forall>j. count \<le> j \<longrightarrow> j < k \<longrightarrow> name @ nat_str j \<in> set taken"
      by (metis Suc_eq_plus1 Suc_leI le_neq_implies_less)
    ultimately show ?thesis
      using True by (subst unique_loop.simps) (auto simp: Let_def intro!: exI [of _ k])
  next
    case False
    then show ?thesis by (subst unique_loop.simps) (auto intro!: exI [of _ count])
  qed
qed

text \<open>
  \<open>createUniqueName\<close> returns the name itself if it is free and otherwise the name with the
  smallest positive number that makes it free; only in the second case the set of taken names
  grows, by the name returned.
\<close>

lemma createUniqueName_fresh:
  "let (r, taken') = createUniqueName name taken in
     r \<notin> set taken
     \<and> (name \<notin> set taken \<longrightarrow> r = name \<and> taken' = taken)
     \<and> (name \<in> set taken \<longrightarrow>
          (\<exists>k \<ge> 1. r = name @ nat_str k \<and> (\<forall>j. 1 \<le> j \<longrightarrow> j < k \<longrightarrow> name @ nat_str j \<in> set taken))
          \<and> set taken' = insert r (set taken))"
  using unique_loop_result [of 1 name taken]
  by (auto simp: createUniqueName_def Let_def)

lemma si_collect_drop:
  "mIterPos it \<le> length (mList it) \<Longrightarrow> length (mList it) - mIterPos it \<le> n \<Longrightarrow>
   si_collect n it = Inr (drop (mIterPos it) (mList it))"
proof (induction n arbitrary: it)
  case (Suc n)
  show ?case
  proof (cases "mIterPos it < length (mList it)")
    case True
    with Suc.IH [of "it\<lparr>mIterPos := mIterPos it + 1\<rparr>"] Suc.prems
    show ?thesis by (auto simp: si_hasNext_def si_next_def Cons_nth_drop_Suc)
  next
    case False
    with Suc.prems show ?thesis by (simp add: si_hasNext_def)
  qed
qed simp

end
