(* ===== verification/IEG_Conjunction.thy ===== *)
theory IEG_Conjunction
  imports IEG_SubMap IEG_Solve IEG_TupleDecl IEG_Util
begin

text \<open>
  Conjunctions of constraints (\<open>class Conjunction\<close> in \<open>set_relation.h\<close>, \<open>set_relation.cc\<close>): a
  tuple declaration, the sorted lists of equalities \<open>e = 0\<close> and inequalities \<open>e >= 0\<close>, the input
  arity of a relation and the flag \<open>unsat\<close>. Every operation of the class is here.

  What the operations take from their surroundings is the record \<open>world\<close>: the order of the
  addresses of expressions, the addresses of the keys put into a substitution map, the current
  environment's inverse of a function and the arity of a function's range.
\<close>

section \<open>Data\<close>

record world =
  address_order :: addr_order
  key_address :: "nat \<Rightarrow> nat"
  inverse_of :: "string \<Rightarrow> string"
  range_arity :: "string \<Rightarrow> nat res"

record conj =
  mTupleDecl :: tuple_decl
  mInArity :: int
  mEqualities :: "exp list"
  mInequalities :: "exp list"
  unsat :: bool

definition Conjunction_tdecl :: "tuple_decl \<Rightarrow> conj" where
  "Conjunction_tdecl tdecl =
     \<lparr>mTupleDecl = tdecl, mInArity = 0, mEqualities = [], mInequalities = [], unsat = False\<rparr>"

definition Conjunction_new :: "nat \<Rightarrow> conj" where
  "Conjunction_new arity = Conjunction_tdecl (TupleDecl_new arity)"

definition Conjunction_rel :: "nat \<Rightarrow> int \<Rightarrow> conj" where
  "Conjunction_rel arity inarity = (Conjunction_new arity)\<lparr>mInArity := inarity\<rparr>"

definition conj_arity :: "conj \<Rightarrow> nat" where
  "conj_arity c = tdecl_size (mTupleDecl c)"

definition setUnsat :: "conj \<Rightarrow> conj" where
  "setUnsat c = c\<lparr>unsat := True\<rparr>"

definition conj_less :: "addr_order \<Rightarrow> conj \<Rightarrow> conj \<Rightarrow> bool" where
  "conj_less ad this other =
     (if tdecl_less (mTupleDecl this) (mTupleDecl other) then True
      else if tdecl_less (mTupleDecl other) (mTupleDecl this) then False
      else if length (mEqualities this) < length (mEqualities other) then True
      else if length (mEqualities other) < length (mEqualities this) then False
      else if length (mInequalities this) < length (mInequalities other) then True
      else if length (mInequalities other) < length (mInequalities this) then False
      else case scan_less (exp_less ad) (mEqualities this) (mEqualities other) of
             Some b \<Rightarrow> b
           | None \<Rightarrow>
               (case scan_less (exp_less ad) (mInequalities this) (mInequalities other) of
                  Some b \<Rightarrow> b
                | None \<Rightarrow> False))"

section \<open>The tuple declaration\<close>

definition setInArity :: "int \<Rightarrow> conj \<Rightarrow> conj res" where
  "setInArity inarity c =
     (if inarity < 0 \<or> inarity > int (conj_arity c) - 1
      then Inl (Assert ''Conjunction::setInArity: impossible arity match'')
      else Inr (c\<lparr>mInArity := inarity\<rparr>))"

definition merge_decl :: "tuple_decl \<Rightarrow> nat \<Rightarrow> tuple_decl \<Rightarrow> tuple_decl res" where
  "merge_decl own i tuple_decl =
     (if elemIsConst own i \<and> elemIsConst tuple_decl i
         \<and> elemToString own False i \<noteq> elemToString tuple_decl False i
      then Inl (Assert ''Conjunction::setTupleDecl: constants don't match.'')
      else if elemIsConst own i \<and> \<not> elemIsConst tuple_decl i then copyTupleElem own i i tuple_decl
      else Inr tuple_decl)"

definition setTupleDecl :: "tuple_decl \<Rightarrow> conj \<Rightarrow> conj res" where
  "setTupleDecl tuple_decl c =
     bindr (foldm (merge_decl (mTupleDecl c)) [0..<min (conj_arity c) (tdecl_size tuple_decl)] tuple_decl)
       (\<lambda>td. Inr (c\<lparr>mTupleDecl := td\<rparr>))"

definition getTupleDecl :: "conj \<Rightarrow> tuple_decl" where
  "getTupleDecl c = mTupleDecl c"

definition setTupleDecl_inout :: "tuple_decl \<Rightarrow> tuple_decl \<Rightarrow> conj \<Rightarrow> conj res" where
  "setTupleDecl_inout tuple_decl_in tuple_decl_out c =
     setTupleDecl (tdecl_concat tuple_decl_in tuple_decl_out) c"

section \<open>Adding constraints\<close>

definition addEquality :: "addr_order \<Rightarrow> exp \<Rightarrow> conj \<Rightarrow> conj" where
  "addEquality ad equality c =
     (let e = normalizeForEquality equality in
      if equalsZero e then c
      else c\<lparr>mEqualities := insert_unique (exp_less ad) (setEquality e) (mEqualities c)\<rparr>)"

definition addInequality :: "addr_order \<Rightarrow> exp \<Rightarrow> conj \<Rightarrow> conj" where
  "addInequality ad inequality c =
     (if equalsZero inequality then c
      else c\<lparr>mInequalities := insert_unique (exp_less ad) (setInequality inequality) (mInequalities c)\<rparr>)"

definition copyConstraintsFrom :: "conj \<Rightarrow> conj \<Rightarrow> conj" where
  "copyConstraintsFrom source c =
     c\<lparr>mEqualities := mEqualities c @ mEqualities source,
       mInequalities := mInequalities c @ mInequalities source\<rparr>"

definition add_constraints :: "addr_order \<Rightarrow> conj \<Rightarrow> conj \<Rightarrow> conj" where
  "add_constraints ad rhs c =
     fold (addInequality ad) (mInequalities rhs) (fold (addEquality ad) (mEqualities rhs) c)"

definition conj_Intersect :: "addr_order \<Rightarrow> conj \<Rightarrow> conj \<Rightarrow> conj" where
  "conj_Intersect ad this rhs = add_constraints ad rhs this"

definition conj_Restrict :: "addr_order \<Rightarrow> conj \<Rightarrow> conj \<Rightarrow> conj" where
  "conj_Restrict ad this rhs = add_constraints ad rhs this"

text \<open>\<open>Conjunction::cleanUp\<close>: every constraint is collapsed (equalities are normalised first),
  dropped if it is zero, and added again to the emptied list.\<close>

definition cleanUp :: "world \<Rightarrow> conj \<Rightarrow> conj res" where
  "cleanUp w c =
     bindr (mapr (\<lambda>e. collapse (address_order w) (inverse_of w) (normalizeForEquality e)) (mEqualities c)) (\<lambda>eqs.
     let c1 = fold (addEquality (address_order w)) (filter (\<lambda>e. \<not> equalsZero e) eqs) (c\<lparr>mEqualities := []\<rparr>) in
     bindr (mapr (\<lambda>e. collapse (address_order w) (inverse_of w) e) (mInequalities c1)) (\<lambda>ineqs.
     Inr (fold (addInequality (address_order w)) (filter (\<lambda>e. \<not> equalsZero e) ineqs)
            (c1\<lparr>mInequalities := []\<rparr>))))"

definition substituteInConstraints :: "world \<Rightarrow> submap \<Rightarrow> conj \<Rightarrow> conj res" where
  "substituteInConstraints w m c =
     cleanUp w (c\<lparr>mEqualities := map (substitute (subExp m)) (mEqualities c),
                  mInequalities := map (substitute (subExp m)) (mInequalities c)\<rparr>)"

text \<open>The first occurrence of a variable name is mapped to its tuple variable; a repeated name
  gives an equality between two tuple variables.\<close>

definition tuple_name_step ::
  "world \<Rightarrow> tuple_decl \<Rightarrow> nat \<Rightarrow> (string \<rightharpoonup> int) \<times> submap \<times> conj \<Rightarrow> (string \<rightharpoonup> int) \<times> submap \<times> conj" where
  "tuple_name_step w td i = (\<lambda>(nameToLocationMap, var2TupleVar, c).
     if elemIsConst td i then (nameToLocationMap, var2TupleVar, c)
     else let var = elemVarString td i in
       case nameToLocationMap var of
         Some loc \<Rightarrow>
           (nameToLocationMap, var2TupleVar,
            addEquality (address_order w)
              (addTerm (TupleVarTerm (-1) (int i)) (addTerm (TupleVarTerm 1 loc) Exp_new)) c)
       | None \<Rightarrow>
           (nameToLocationMap(var \<mapsto> int i),
            insertPair (key_address w i) (VarTerm 1 var) (addTerm (TupleVarTerm 1 (int i)) Exp_new)
              var2TupleVar,
            c))"

definition substituteTupleDecl :: "world \<Rightarrow> conj \<Rightarrow> conj res" where
  "substituteTupleDecl w c =
     (let (_, m, c') = fold (tuple_name_step w (mTupleDecl c)) [0..<conj_arity c] (Map.empty, SubMap_new, c)
      in substituteInConstraints w m c')"

section \<open>Queries\<close>

definition hasConstraints :: "conj \<Rightarrow> bool" where
  "hasConstraints c \<longleftrightarrow> length (mEqualities c) + length (mInequalities c) > 0"

definition satisfiable :: "conj \<Rightarrow> bool" where
  "satisfiable c \<longleftrightarrow> \<not> list_ex isContradiction (mEqualities c)"

definition conj_symbols :: "conj \<Rightarrow> string set" where
  "conj_symbols c = (\<Union>e \<in> set (mEqualities c). symbols e) \<union> (\<Union>e \<in> set (mInequalities c). symbols e)"

definition getSymbolIterator :: "conj \<Rightarrow> string_iterator" where
  "getSymbolIterator c = StringIterator_new (sorted_list_of_set (conj_symbols c))"

definition getTupleIterator :: "conj \<Rightarrow> string_iterator res" where
  "getTupleIterator c =
     bindr (mapr (\<lambda>i. if elemIsConst (mTupleDecl c) i
                      then Inl (Assert ''Conjunction::getTupleIterator: expecting all tuple vars to be non const'')
                      else Inr (elemVarString (mTupleDecl c) i)) [0..<conj_arity c])
       (\<lambda>names. Inr (StringIterator_new names))"

text \<open>Searching an equality that gives a tuple element as a function of a range of others.\<close>

definition acceptable :: "nat \<Rightarrow> int \<Rightarrow> int \<Rightarrow> exp \<Rightarrow> bool" where
  "acceptable arity startTupleRange endTupleRange solution \<longleftrightarrow>
     list_all (\<lambda>j. int j \<ge> startTupleRange \<and> int j \<le> endTupleRange
                   \<or> \<not> dependsOn (TupleVarTerm 1 (int j)) solution) [0..<arity]"

fun function_search ::
  "(string \<Rightarrow> string) \<Rightarrow> (exp \<Rightarrow> bool) \<Rightarrow> trm \<Rightarrow> exp list \<Rightarrow> exp list \<Rightarrow> (exp \<times> exp list) option res" where
  "function_search invOf accept factor seen [] = Inr None"
| "function_search invOf accept factor seen (e # es) =
     bindr (solveForFactor invOf e factor) (\<lambda>solution.
     case solution of
       None \<Rightarrow> function_search invOf accept factor (seen @ [e]) es
     | Some s \<Rightarrow> if accept s then Inr (Some (s, seen @ es))
                else function_search invOf accept factor (seen @ [e]) es)"

definition findAndRemoveFunction :: "world \<Rightarrow> int \<Rightarrow> int \<Rightarrow> int \<Rightarrow> conj \<Rightarrow> (exp option \<times> conj) res" where
  "findAndRemoveFunction w tupleLocToFind startTupleRange endTupleRange c =
     (if tupleLocToFind < 0 \<or> tupleLocToFind \<ge> int (length (mIsConst (mTupleDecl c))) then Inl OutOfBounds
      else if elemIsConst (mTupleDecl c) (nat tupleLocToFind)
      then Inr (Some (addTerm (Term (elemConstVal (mTupleDecl c) (nat tupleLocToFind))) Exp_new), c)
      else bindr (function_search (inverse_of w) (acceptable (conj_arity c) startTupleRange endTupleRange)
                    (TupleVarTerm 1 tupleLocToFind) [] (mEqualities c)) (\<lambda>r.
           case r of
             None \<Rightarrow> Inr (None, c)
           | Some (s, rest) \<Rightarrow> Inr (Some s, c\<lparr>mEqualities := rest\<rparr>)))"

definition findFunction :: "world \<Rightarrow> int \<Rightarrow> int \<Rightarrow> int \<Rightarrow> conj \<Rightarrow> exp option res" where
  "findFunction w tupleLocToFind startTupleRange endTupleRange c =
     (if tupleLocToFind < 0 \<or> tupleLocToFind \<ge> int (length (mIsConst (mTupleDecl c))) then Inl OutOfBounds
      else if elemIsConst (mTupleDecl c) (nat tupleLocToFind)
      then Inr (Some (addTerm (Term (elemConstVal (mTupleDecl c) (nat tupleLocToFind))) Exp_new))
      else bindr (function_search (inverse_of w) (acceptable (conj_arity c) startTupleRange endTupleRange)
                    (TupleVarTerm 1 tupleLocToFind) [] (mEqualities c)) (\<lambda>r.
           case r of None \<Rightarrow> Inr None | Some (s, rest) \<Rightarrow> Inr (Some s)))"

fun all_functions :: "world \<Rightarrow> int \<Rightarrow> int \<Rightarrow> conj \<Rightarrow> int list \<Rightarrow> bool res" where
  "all_functions w lo hi c [] = Inr True"
| "all_functions w lo hi c (i # is) =
     bindr (findFunction w i lo hi c) (\<lambda>f.
     case f of None \<Rightarrow> Inr False | Some _ \<Rightarrow> all_functions w lo hi c is)"

definition isFunction :: "world \<Rightarrow> int \<Rightarrow> conj \<Rightarrow> bool res" where
  "isFunction w inArity c = all_functions w 0 (inArity - 1) c [inArity..int (conj_arity c) - 1]"

definition isFunctionInverse :: "world \<Rightarrow> int \<Rightarrow> conj \<Rightarrow> bool res" where
  "isFunctionInverse w inArity c =
     all_functions w inArity (int (conj_arity c) - 1) c [0..inArity - 1]"

section \<open>Constants and tuple variables\<close>

definition push_const_step :: "addr_order \<Rightarrow> nat \<Rightarrow> conj \<Rightarrow> conj res" where
  "push_const_step ad i c =
     (if elemIsConst (mTupleDecl c) i
      then let const_val = elemConstVal (mTupleDecl c) i in
        bindr (setTupleElem_var i (''c_'' @ int_str const_val) (mTupleDecl c)) (\<lambda>td.
        bindr (elemCreateTerm td i i) (\<lambda>t.
        Inr (addEquality ad (addTerm (Term (-1 * const_val)) (addTerm t Exp_new)) (c\<lparr>mTupleDecl := td\<rparr>))))
      else Inr c)"

definition pushConstToConstraints :: "addr_order \<Rightarrow> conj \<Rightarrow> conj res" where
  "pushConstToConstraints ad c = foldm (push_const_step ad) [0..<conj_arity c] c"

text \<open>The constants found for the tuple variables, and the equalities they come from.\<close>

definition const_solution :: "exp option \<Rightarrow> int option" where
  "const_solution solution =
     (case solution of
        None \<Rightarrow> None
      | Some s \<Rightarrow>
          if equalsZero s then Some 0
          else (case getTerm s of
                  Some t \<Rightarrow> if isConst t then Some (coefficient t) else None
                | None \<Rightarrow> None))"

definition const_step ::
  "world \<Rightarrow> tuple_decl \<Rightarrow> exp \<times> nat \<Rightarrow> (nat \<rightharpoonup> int) \<times> exp list \<Rightarrow> ((nat \<rightharpoonup> int) \<times> exp list) res" where
  "const_step w td = (\<lambda>(e, i) (tupleIndexToConst, equalitiesToRemove).
     if elemIsConst td i then Inr (tupleIndexToConst, equalitiesToRemove)
     else bindr (elemCreateTerm td i i) (\<lambda>t.
          bindr (solveForFactor (inverse_of w) e t) (\<lambda>solution.
          case const_solution solution of
            None \<Rightarrow> Inr (tupleIndexToConst, equalitiesToRemove)
          | Some k \<Rightarrow> Inr (tupleIndexToConst(i \<mapsto> k), equalitiesToRemove @ [e]))))"

definition set_const_step :: "(nat \<rightharpoonup> int) \<Rightarrow> nat \<Rightarrow> tuple_decl \<Rightarrow> tuple_decl res" where
  "set_const_step tupleIndexToConst i td =
     (case tupleIndexToConst i of None \<Rightarrow> Inr td | Some k \<Rightarrow> setTupleElem_const i k td)"

definition pushConstConstraintsToTupleDecl :: "world \<Rightarrow> conj \<Rightarrow> conj res" where
  "pushConstConstraintsToTupleDecl w c =
     bindr (foldm (const_step w (mTupleDecl c)) (List.product (mEqualities c) [0..<conj_arity c]) (Map.empty, []))
       (\<lambda>(tupleIndexToConst, equalitiesToRemove).
     bindr (foldm (set_const_step tupleIndexToConst) [0..<conj_arity c] (mTupleDecl c)) (\<lambda>td.
     Inr (c\<lparr>mTupleDecl := td,
            mEqualities := filter (\<lambda>e. \<not> list_ex (exp_eq (address_order w) e) equalitiesToRemove)
              (mEqualities c)\<rparr>)))"

definition copy_new_loc :: "int list \<Rightarrow> tuple_decl \<Rightarrow> nat \<Rightarrow> tuple_decl \<Rightarrow> tuple_decl res" where
  "copy_new_loc oldToNewLocs own i newDecl =
     (if oldToNewLocs ! i \<ge> 0 then copyTupleElem own i (nat (oldToNewLocs ! i)) newDecl else Inr newDecl)"

definition conj_remapTupleVars :: "int list \<Rightarrow> conj \<Rightarrow> conj res" where
  "conj_remapTupleVars oldToNewLocs c =
     bindr (mapr (\<lambda>e. bindr (remapTupleVars oldToNewLocs e) (\<lambda>e'. Inr (normalizeForEquality e')))
              (mEqualities c)) (\<lambda>eqs.
     bindr (mapr (\<lambda>e. remapTupleVars oldToNewLocs e) (mInequalities c)) (\<lambda>ineqs.
     let maxLoc = fold max oldToNewLocs (-1) in
     bindr (foldm (copy_new_loc oldToNewLocs (mTupleDecl c)) [0..<length oldToNewLocs]
              (TupleDecl_new (nat (maxLoc + 1)))) (\<lambda>td.
     Inr (c\<lparr>mEqualities := eqs, mInequalities := ineqs, mTupleDecl := td\<rparr>))))"

section \<open>Inverse, composition, application, bounds\<close>

text \<open>\<open>outArity\<close> is unsigned; an input arity outside \<open>0..size\<close> makes it huge and the loops
  run out of every vector.\<close>

definition conj_Inverse :: "conj \<Rightarrow> conj res" where
  "conj_Inverse c =
     (let sz = int (tdecl_size (mTupleDecl c)); outArity = sz - mInArity c in
      if outArity < 0 \<or> outArity > sz then Inl OutOfBounds
      else conj_remapTupleVars (map int ([nat outArity..<nat sz] @ [0..<nat outArity]))
             (c\<lparr>mInArity := outArity\<rparr>))"

definition truncate_decl :: "nat \<Rightarrow> tuple_decl \<Rightarrow> tuple_decl res" where
  "truncate_decl n td = foldm (\<lambda>i t. copyTupleElem td i i t) [0..<n] (TupleDecl_new n)"

text \<open>Fill a substitution map with a function for each tuple variable \<open>lo, ..., lo + n - 1\<close>.
  A missing function is stored as a null pointer. \<open>subExp\<close> returns it for the variable, which is also what it returns
  for a variable without a pair, and \<open>substitute\<close> leaves the term alone; so the pair is left out.\<close>

definition function_step :: "world \<Rightarrow> int \<Rightarrow> int \<Rightarrow> conj \<Rightarrow> nat \<Rightarrow> submap \<Rightarrow> submap res" where
  "function_step w startTupleRange endTupleRange result idx m =
     bindr (elemCreateTerm (mTupleDecl result) idx idx) (\<lambda>t.
     bindr (findFunction w (int idx) startTupleRange endTupleRange result) (\<lambda>f.
     case f of None \<Rightarrow> Inr m | Some e \<Rightarrow> Inr (insertPair (key_address w idx) t e m)))"

definition out_name_step :: "tuple_decl \<Rightarrow> nat \<Rightarrow> nat \<Rightarrow> tuple_decl \<times> string list \<Rightarrow> (tuple_decl \<times> string list) res" where
  "out_name_step lhs_decl finalInArity i = (\<lambda>(td, taken).
     let (name, taken') = createUniqueName (elemVarString lhs_decl (finalInArity + i)) taken in
     bindr (setTupleElem_var (finalInArity + i) name td) (\<lambda>td'. Inr (td', taken')))"

definition in_name_step :: "tuple_decl \<Rightarrow> nat \<Rightarrow> tuple_decl \<times> string list \<Rightarrow> (tuple_decl \<times> string list) res" where
  "in_name_step rhs_decl i = (\<lambda>(td, taken).
     bindr (copyTupleElem rhs_decl i i td) (\<lambda>td'. Inr (td', string_insert (elemVarString td' i) taken)))"

text \<open>The constraints of both relations over the tuple \<open>x z y\<close>: input of \<open>rhs\<close>, output of
  \<open>this\<close>, and the inner tuple that is to disappear.\<close>

definition compose_setup :: "world \<Rightarrow> conj \<Rightarrow> conj \<Rightarrow> nat \<Rightarrow> conj res" where
  "compose_setup w this rhs innerArity =
     (let finalInArity = conj_arity rhs - innerArity; finalOutArity = conj_arity this - innerArity;
          result = (Conjunction_new (finalInArity + finalOutArity + innerArity))\<lparr>mInArity := int finalInArity\<rparr> in
      bindr (pushConstToConstraints (address_order w) this) (\<lambda>lhs_copy.
      bindr (conj_remapTupleVars
               (map int ([finalInArity + finalOutArity..<finalInArity + finalOutArity + innerArity]
                         @ [finalInArity..<finalInArity + finalOutArity])) lhs_copy) (\<lambda>lhs_copy.
      bindr (pushConstToConstraints (address_order w) rhs) (\<lambda>rhs_copy.
      bindr (conj_remapTupleVars
               (map int ([0..<finalInArity]
                         @ [finalInArity + finalOutArity..<finalInArity + finalOutArity + innerArity])) rhs_copy) (\<lambda>rhs_copy.
      let result = copyConstraintsFrom lhs_copy (copyConstraintsFrom rhs_copy result) in
      bindr (foldm (in_name_step (mTupleDecl rhs_copy)) [0..<finalInArity] (mTupleDecl result, [])) (\<lambda>(td, taken).
      bindr (foldm (out_name_step (mTupleDecl lhs_copy) finalInArity) [0..<finalOutArity] (td, taken)) (\<lambda>(td, taken).
      Inr (result\<lparr>mTupleDecl := td\<rparr>))))))))"

definition compose_error :: "bool \<Rightarrow> bool \<Rightarrow> bool \<Rightarrow> bool \<Rightarrow> string" where
  "compose_error lf lfi rf rfi =
     (let b = (\<lambda>x. if x then ''1'' else ''0'') in
      ''Conjunction::Compose: both relations are required to be a function or a function inverse: lhsIsFunction:''
      @ b lf @ '' lhsIsFunctionInverse:'' @ b lfi @ '' rhsIsFunction:'' @ b rf
      @ '' rhsIsFunctionInverse:'' @ b rfi)"

text \<open>Everything but the last call, \<open>pushConstConstraintsToTupleDecl\<close>.\<close>

definition compose_open :: "world \<Rightarrow> conj \<Rightarrow> conj \<Rightarrow> nat \<Rightarrow> conj res" where
  "compose_open w this rhs innerArity =
     (let rhsInArity = int (conj_arity rhs) - int innerArity in
      bindr (isFunction w (int innerArity) this) (\<lambda>lhsIsFunction.
      bindr (isFunction w rhsInArity rhs) (\<lambda>rhsIsFunction.
      bindr (isFunctionInverse w (int innerArity) this) (\<lambda>lhsIsFunctionInverse.
      bindr (isFunctionInverse w rhsInArity rhs) (\<lambda>rhsIsFunctionInverse.
      if \<not> (lhsIsFunction \<and> rhsIsFunction \<or> lhsIsFunctionInverse \<and> rhsIsFunctionInverse)
      then Inl (Assert (compose_error lhsIsFunction lhsIsFunctionInverse rhsIsFunction rhsIsFunctionInverse))
      else if innerArity > conj_arity this \<or> innerArity > conj_arity rhs then Inl OutOfBounds
      else
        let finalInArity = conj_arity rhs - innerArity; finalOutArity = conj_arity this - innerArity;
            inner = [finalInArity + finalOutArity..<finalInArity + finalOutArity + innerArity] in
        bindr (compose_setup w this rhs innerArity) (\<lambda>result.
        bindr (if lhsIsFunction \<and> rhsIsFunction
               then foldm (function_step w 0 (int finalInArity - 1) result) inner SubMap_new
               else foldm (function_step w (int finalInArity) (int (finalInArity + finalOutArity) - 1) result)
                      inner SubMap_new) (\<lambda>submap.
        bindr (substituteInConstraints w submap result) (\<lambda>result.
        bindr (truncate_decl (finalInArity + finalOutArity) (mTupleDecl result)) (\<lambda>final_tdecl.
        setTupleDecl final_tdecl result)))))))))"

definition conj_Compose :: "world \<Rightarrow> conj \<Rightarrow> conj \<Rightarrow> nat \<Rightarrow> conj res" where
  "conj_Compose w this rhs innerArity =
     bindr (compose_open w this rhs innerArity) (pushConstConstraintsToTupleDecl w)"

definition apply_open :: "world \<Rightarrow> conj \<Rightarrow> conj \<Rightarrow> conj res" where
  "apply_open w this rhs =
     (let lhsInArity = conj_arity rhs in
      bindr (isFunctionInverse w (int lhsInArity) this) (\<lambda>lhsIsFunctionInverse.
      if \<not> lhsIsFunctionInverse then Inl (Assert ''Conjunction::Apply: Relation not invertible'')
      else if lhsInArity > conj_arity this then Inl OutOfBounds
      else
        let finalResultArity = conj_arity this - lhsInArity in
        bindr (pushConstToConstraints (address_order w) this) (\<lambda>result.
        bindr (conj_remapTupleVars
                 (map int ([finalResultArity..<finalResultArity + lhsInArity] @ [0..<finalResultArity]))
                 (result\<lparr>mInArity := int finalResultArity\<rparr>)) (\<lambda>result.
        bindr (pushConstToConstraints (address_order w) rhs) (\<lambda>rhs_copy.
        bindr (conj_remapTupleVars (map int [finalResultArity..<finalResultArity + lhsInArity]) rhs_copy) (\<lambda>rhs_copy.
        let result = copyConstraintsFrom rhs_copy result in
        bindr (foldm (function_step w 0 (int finalResultArity - 1) result)
                 [finalResultArity..<conj_arity result] SubMap_new) (\<lambda>submap.
        bindr (substituteInConstraints w submap result) (\<lambda>result.
        bindr (truncate_decl finalResultArity (mTupleDecl result)) (\<lambda>final_tdecl.
        Inr (copyConstraintsFrom result (Conjunction_tdecl final_tdecl)))))))))))"

definition conj_Apply :: "world \<Rightarrow> conj \<Rightarrow> conj \<Rightarrow> conj res" where
  "conj_Apply w this rhs = bindr (apply_open w this rhs) (pushConstConstraintsToTupleDecl w)"

text \<open>The substitution map of \<open>boundTupleExp\<close>: the tuple variables of the copy against the
  elements of the tuple expression.\<close>

definition bound_step :: "world \<Rightarrow> conj \<Rightarrow> exp list \<Rightarrow> nat \<Rightarrow> submap \<Rightarrow> submap res" where
  "bound_step w dup es i m =
     bindr (elemCreateTerm (mTupleDecl dup) i i) (\<lambda>t.
       Inr (insertPair (key_address w i) t (es ! i) m))"

definition conj_boundTupleExp :: "world \<Rightarrow> exp list \<Rightarrow> conj \<Rightarrow> conj res" where
  "conj_boundTupleExp w tuple_exp this =
     (if length tuple_exp \<noteq> conj_arity this
      then Inl (Assert ''Conjunction::boundTupleExp tuple_exp arity does not match that of Conjunction'')
      else bindr (pushConstToConstraints (address_order w) this) (\<lambda>dup.
           bindr (foldm (bound_step w dup tuple_exp) [0..<length tuple_exp] SubMap_new) (\<lambda>submap.
           substituteInConstraints w submap (copyConstraintsFrom dup (Conjunction_new 0)))))"

section \<open>Grouping indexed calls\<close>

text \<open>A \<open>std::map\<close> with a comparison: an association list kept in ascending order.\<close>

fun map_update :: "('k \<Rightarrow> 'k \<Rightarrow> bool) \<Rightarrow> 'k \<Rightarrow> ('v option \<Rightarrow> 'v) \<Rightarrow> ('k \<times> 'v) list \<Rightarrow> ('k \<times> 'v) list" where
  "map_update lt k f [] = [(k, f None)]"
| "map_update lt k f ((k', v) # xs) =
     (if lt k k' then (k, f None) # (k', v) # xs
      else if lt k' k then (k', v) # map_update lt k f xs
      else (k', f (Some v)) # xs)"

type_synonym ret_exps = "(int \<times> exp option) list"

text \<open>Take an equality with an indexed call out of the list and file what the call equals.\<close>

fun gather_calls ::
  "world \<Rightarrow> exp list \<Rightarrow> (trm \<times> ret_exps) list \<Rightarrow> (exp list \<times> (trm \<times> ret_exps) list) res" where
  "gather_calls w [] table = Inr ([], table)"
| "gather_calls w (e # es) table =
     (if hasIndexedUFCall e
      then bindr (cloneIndexedUFCallTerm e) (\<lambda>call.
           case call of
             Some (UFCallTerm c f args i) \<Rightarrow>
               let uf_call = (if c = -1 then UFCallTerm 1 f args i else UFCallTerm c f args i) in
               bindr (solveForFactor (inverse_of w) e uf_call) (\<lambda>ret_exp.
               gather_calls w es
                 (map_update ufcall_less (nonIndexedClone uf_call)
                    (\<lambda>m. map_update (<) (tupleIndex i) (\<lambda>_. ret_exp) (case m of None \<Rightarrow> [] | Some m \<Rightarrow> m))
                    table))
           | _ \<Rightarrow> Inl NullDeref)
      else bindr (gather_calls w es table) (\<lambda>(rest, table'). Inr (e # rest, table')))"

text \<open>
  When all results of a call are known, one equality between the tuple of the results and the
  call replaces them. Otherwise the equalities are put back; but the results that were already
  handed to the local tuple \<open>ret_exp_tuple\<close> are deleted with it at the end of the iteration
  while the conjunction still points at them. That is the case when the result with index 0 is
  known and another is missing.
\<close>

definition put_back :: "world \<Rightarrow> trm \<Rightarrow> int \<times> exp option \<Rightarrow> conj \<Rightarrow> conj res" where
  "put_back w ufcall = (\<lambda>(idx, ret_exp) c.
     case ret_exp of
       None \<Rightarrow> Inl NullDeref
     | Some e \<Rightarrow> Inr (addEquality (address_order w)
                       (addTerm (setTupleIndex idx ufcall) (multiplyBy (-1) e)) c))"

definition regroup_call :: "world \<Rightarrow> trm \<times> ret_exps \<Rightarrow> conj \<Rightarrow> conj res" where
  "regroup_call w = (\<lambda>(ufcall, index2retexp) c.
     case ufcall of
       UFCallTerm _ f _ _ \<Rightarrow>
         bindr (range_arity w f) (\<lambda>n.
         if list_all (\<lambda>i. map_of index2retexp (int i) \<noteq> None) [0..<n]
         then bindr (tupexp_copy \<lparr>tCoeff = 1, mExps = map (\<lambda>i. the (map_of index2retexp (int i))) [0..<n]\<rparr>)
                (\<lambda>tuple_term.
                 Inr (addEquality (address_order w)
                   (addTerm ufcall (addTerm (term_multiplyBy (-1) tuple_term) Exp_new)) c))
         else bindr (foldm (put_back w ufcall) index2retexp c) (\<lambda>c'.
              if map_of index2retexp 0 \<noteq> None then Inl UseAfterFree else Inr c'))
     | _ \<Rightarrow> Inl NullDeref)"

definition groupIndexedUFCalls :: "world \<Rightarrow> conj \<Rightarrow> conj res" where
  "groupIndexedUFCalls w c =
     bindr (gather_calls w (mEqualities c) []) (\<lambda>(rest, table).
     foldm (regroup_call w) table (c\<lparr>mEqualities := rest\<rparr>))"

section \<open>Printing\<close>

fun constraints_toString :: "bool \<Rightarrow> string \<Rightarrow> exp list \<Rightarrow> string" where
  "constraints_toString first rel [] = []"
| "constraints_toString first rel (e # es) =
     (if \<not> first then '' && '' else '' : '') @ exp_toString False e @ rel
     @ constraints_toString False rel es"

definition conj_toString :: "conj \<Rightarrow> string" where
  "conj_toString c =
     ''{ '' @ tdecl_toString (mTupleDecl c) True (nat (mInArity c)) False
     @ constraints_toString True '' = 0'' (mEqualities c)
     @ constraints_toString (mEqualities c = []) '' >= 0'' (mInequalities c) @ '' }''"

fun constraints_prettyPrint :: "tuple_decl \<Rightarrow> bool \<Rightarrow> string \<Rightarrow> exp list \<Rightarrow> string res" where
  "constraints_prettyPrint td first rel [] = Inr []"
| "constraints_prettyPrint td first rel (e # es) =
     bindr (exp_prettyPrint td e) (\<lambda>s.
     bindr (constraints_prettyPrint td False rel es) (\<lambda>rest.
       Inr ((if \<not> first then '' && '' else '' : '') @ s @ rel @ rest)))"

definition conj_prettyPrint :: "world \<Rightarrow> conj \<Rightarrow> string res" where
  "conj_prettyPrint w c =
     bindr (cleanUp w c) (\<lambda>dup.
     bindr (constraints_prettyPrint (mTupleDecl c) True '' = 0'' (mEqualities dup)) (\<lambda>eqs.
     bindr (constraints_prettyPrint (mTupleDecl c) (mEqualities dup = []) '' >= 0'' (mInequalities dup)) (\<lambda>ineqs.
     Inr (''{ '' @ tdecl_toString (mTupleDecl c) True (nat (mInArity c)) False @ eqs @ ineqs @ '' }''))))"

definition constraints_toDot :: "int \<Rightarrow> string \<Rightarrow> exp list \<Rightarrow> int \<Rightarrow> string \<times> int" where
  "constraints_toDot self_id label es next_id =
     (if es = [] then ([], next_id)
      else let node = next_id; (sub, n) = args_toDot node es (next_id + 1) in
        (int_str self_id @ ''->'' @ int_str node @ '';'' @ endl
         @ int_str node @ '' [label = '' @ dot_quote @ label @ dot_quote @ ''];'' @ endl @ sub, n))"

definition conj_toDotString :: "conj \<Rightarrow> int \<Rightarrow> string \<times> int" where
  "conj_toDotString c next_id =
     (let self_id = next_id;
          (eqs, n1) = constraints_toDot self_id (''Equalities'' @ dot_nl @ ''... = 0'') (mEqualities c) (next_id + 1);
          (ineqs, n2) = constraints_toDot self_id (''Inequalities'' @ dot_nl @ ''... >= 0'') (mInequalities c) n1 in
      (int_str self_id @ '' [label = '' @ dot_quote @ ''Conjunction'' @ dot_nl
       @ tdecl_toString (mTupleDecl c) True (nat (mInArity c)) False @ dot_quote @ ''];'' @ endl
       @ eqs @ ineqs, n2))"

end
