(* ===== verification/IEG_Sparse.thy ===== *)
theory IEG_Sparse
  imports IEG_Conjunction
begin

text \<open>
  Unions of conjunctions: \<open>class SparseConstraints\<close> and its subclasses \<open>Set\<close> and \<open>Relation\<close>
  (\<open>set_relation.h\<close>, \<open>set_relation.cc\<close>). A \<open>SparseConstraints\<close> is its list of conjunctions,
  kept in the order of \<open>Conjunction::operator<\<close>. No conjunction means FALSE; a single
  conjunction without constraints means TRUE.
\<close>

section \<open>SparseConstraints\<close>

type_synonym sparse = "conj list"

definition sparse_less :: "addr_order \<Rightarrow> sparse \<Rightarrow> sparse \<Rightarrow> bool" where
  "sparse_less ad this other =
     (if length this < length other then True
      else if length other < length this then False
      else case scan_less (conj_less ad) this other of Some b \<Rightarrow> b | None \<Rightarrow> False)"

definition drop_true :: "sparse \<Rightarrow> sparse" where
  "drop_true cs = (if length cs = 1 \<and> \<not> hasConstraints (hd cs) then [] else cs)"

definition sparse_addConjunction :: "addr_order \<Rightarrow> conj \<Rightarrow> sparse \<Rightarrow> sparse" where
  "sparse_addConjunction ad adoptedConjunction cs =
     insert_unique (conj_less ad) adoptedConjunction (drop_true cs)"

text \<open>\<open>std::list::sort\<close> is stable: an element goes in front of the later elements that are not
  smaller.\<close>

fun stable_insert :: "('a \<Rightarrow> 'a \<Rightarrow> bool) \<Rightarrow> 'a \<Rightarrow> 'a list \<Rightarrow> 'a list" where
  "stable_insert lt x [] = [x]"
| "stable_insert lt x (y # ys) = (if lt y x then y # stable_insert lt x ys else x # y # ys)"

definition list_sort :: "('a \<Rightarrow> 'a \<Rightarrow> bool) \<Rightarrow> 'a list \<Rightarrow> 'a list" where
  "list_sort lt xs = foldr (stable_insert lt) xs []"

definition sparse_cleanUp :: "world \<Rightarrow> sparse \<Rightarrow> sparse res" where
  "sparse_cleanUp w cs =
     bindr (mapr (cleanUp w) cs) (\<lambda>cs'.
     Inr (list_sort (conj_less (address_order w)) (filter satisfiable cs')))"

text \<open>The copy of the base class; \<open>Relation\<close> has a check in \<open>addConjunction\<close>, below.\<close>

definition sparse_copy :: "world \<Rightarrow> sparse \<Rightarrow> sparse res" where
  "sparse_copy w other = sparse_cleanUp w (fold (sparse_addConjunction (address_order w)) other [])"

definition sparse_setTupleDecl :: "tuple_decl \<Rightarrow> sparse \<Rightarrow> sparse res" where
  "sparse_setTupleDecl tuple_decl cs = mapr (\<lambda>c. setTupleDecl tuple_decl c) cs"

definition sparse_getTupleDecl :: "sparse \<Rightarrow> tuple_decl res" where
  "sparse_getTupleDecl cs = (case cs of [] \<Rightarrow> Inl NullDeref | c # _ \<Rightarrow> Inr (getTupleDecl c))"

definition sparse_setTupleDecl_inout :: "tuple_decl \<Rightarrow> tuple_decl \<Rightarrow> sparse \<Rightarrow> sparse res" where
  "sparse_setTupleDecl_inout td_in td_out cs = mapr (\<lambda>c. setTupleDecl_inout td_in td_out c) cs"

definition sparse_getTupleIterator :: "sparse \<Rightarrow> string_iterator res" where
  "sparse_getTupleIterator cs =
     (case cs of [] \<Rightarrow> Inl (Assert ''SparseConstraints::getTupleIterator: no conjunctions'')
      | c # _ \<Rightarrow> getTupleIterator c)"

definition sparse_substituteInConstraints :: "world \<Rightarrow> submap \<Rightarrow> sparse \<Rightarrow> sparse res" where
  "sparse_substituteInConstraints w m cs =
     (if list_ex (\<lambda>(a, t, e). isConst t) (mTerm2ExpMap m)
      then Inl (Assert ''SparseConstraints::substituteInConstraints: at least one Term in map is a constant, not allowed'')
      else mapr (\<lambda>c. substituteInConstraints w m c) cs)"

definition sparse_remapTupleVars :: "int list \<Rightarrow> sparse \<Rightarrow> sparse res" where
  "sparse_remapTupleVars oldToNewLocs cs = mapr (\<lambda>c. conj_remapTupleVars oldToNewLocs c) cs"

definition constraints_not_in :: "addr_order \<Rightarrow> exp list \<Rightarrow> exp list \<Rightarrow> exp list \<Rightarrow> exp list" where
  "constraints_not_in ad mine theirs diffSet =
     fold (insert_unique (exp_less ad)) (filter (\<lambda>e. \<not> list_ex (exp_eq ad e) theirs) mine) diffSet"

text \<open>The result is a \<open>std::set\<close> of expressions, a list in their order.\<close>

definition constraintsDifference :: "addr_order \<Rightarrow> sparse \<Rightarrow> sparse \<Rightarrow> exp list res" where
  "constraintsDifference ad this A =
     (if length this \<noteq> 1
      then Inl (Assert ''constraintsDifference:: more than one Conjunction in Relation'')
      else case A of
             [] \<Rightarrow> Inl NullDeref
           | conjA # _ \<Rightarrow>
               (let conjB = hd this in
                Inr (constraints_not_in ad (mInequalities conjB) (mInequalities conjA)
                      (constraints_not_in ad (mEqualities conjB) (mEqualities conjA) []))))"

definition sparse_isUnsat :: "sparse \<Rightarrow> bool" where
  "sparse_isUnsat cs = list_ex unsat cs"

section \<open>Printing\<close>

fun join_union :: "string list \<Rightarrow> string" where
  "join_union [] = []"
| "join_union [s] = s"
| "join_union (s # ss) = s @ '' union '' @ join_union ss"

definition false_string :: "nat \<Rightarrow> nat \<Rightarrow> string res" where
  "false_string arity aritySplit =
     bindr (sDefaultTupleDecl arity) (\<lambda>td. Inr (''{ '' @ tdecl_toString td True aritySplit False @ '' : FALSE }''))"

definition sparse_toString :: "nat \<Rightarrow> nat \<Rightarrow> sparse \<Rightarrow> string res" where
  "sparse_toString arity aritySplit cs =
     (if cs = [] then false_string arity aritySplit else Inr (join_union (map conj_toString cs)))"

definition sparse_prettyPrint :: "world \<Rightarrow> nat \<Rightarrow> nat \<Rightarrow> sparse \<Rightarrow> string res" where
  "sparse_prettyPrint w arity aritySplit cs =
     (if cs = [] then false_string arity aritySplit
      else bindr (mapr (conj_prettyPrint w) cs) (\<lambda>ss. Inr (join_union ss)))"

text \<open>A symbol of several conjunctions is declared several times.\<close>

fun symbol_list :: "string list \<Rightarrow> string" where
  "symbol_list [] = []"
| "symbol_list (s # ss) = '', '' @ s @ symbol_list ss"

definition sparse_toISLString :: "world \<Rightarrow> nat \<Rightarrow> nat \<Rightarrow> sparse \<Rightarrow> string res" where
  "sparse_toISLString w arity aritySplit cs =
     bindr (sparse_prettyPrint w arity aritySplit cs) (\<lambda>body.
     Inr ((case concat (map (\<lambda>c. mList (getSymbolIterator c)) cs) of
             [] \<Rightarrow> [] | s # ss \<Rightarrow> ''[ '' @ s @ symbol_list ss @ '' ] -> '') @ body))"

definition conj_toDot_parent :: "int \<Rightarrow> conj \<Rightarrow> int \<Rightarrow> string \<times> int" where
  "conj_toDot_parent parent_id c next_id =
     (let (s, n) = conj_toDotString c next_id in
      (int_str parent_id @ '' -> '' @ int_str next_id @ '';'' @ endl @ s, n))"

fun sparse_toDot :: "sparse \<Rightarrow> int \<Rightarrow> string" where
  "sparse_toDot [] next_id = []"
| "sparse_toDot (c # cs) next_id =
     (let (s, n) = conj_toDot_parent 0 c next_id in s @ sparse_toDot cs (n + 1))"

section \<open>Sets\<close>

record iset =
  mArity :: nat
  set_conjs :: sparse

definition Set_tdecl :: "addr_order \<Rightarrow> tuple_decl \<Rightarrow> iset" where
  "Set_tdecl ad tdecl =
     \<lparr>mArity = tdecl_size tdecl, set_conjs = sparse_addConjunction ad (Conjunction_tdecl tdecl) []\<rparr>"

definition Set_new :: "addr_order \<Rightarrow> nat \<Rightarrow> iset res" where
  "Set_new ad arity =
     bindr (sDefaultTupleDecl arity) (\<lambda>td.
     Inr \<lparr>mArity = arity, set_conjs = sparse_addConjunction ad (Conjunction_tdecl td) []\<rparr>)"

definition Set_copy :: "world \<Rightarrow> iset \<Rightarrow> iset res" where
  "Set_copy w other =
     bindr (sparse_copy w (set_conjs other)) (\<lambda>cs. Inr \<lparr>mArity = mArity other, set_conjs = cs\<rparr>)"

text \<open>The comparison casts to the base class and thereby copies both sides, which cleans them up.\<close>

definition Set_less :: "world \<Rightarrow> iset \<Rightarrow> iset \<Rightarrow> bool res" where
  "Set_less w this other =
     (if mArity this < mArity other then Inr True
      else if mArity this > mArity other then Inr False
      else bindr (sparse_copy w (set_conjs this)) (\<lambda>a.
           bindr (sparse_copy w (set_conjs other)) (\<lambda>b. Inr (sparse_less (address_order w) a b))))"

definition Set_eq :: "world \<Rightarrow> iset \<Rightarrow> iset \<Rightarrow> bool res" where
  "Set_eq w this other =
     bindr (Set_less w this other) (\<lambda>lt. if lt then Inr False
       else bindr (Set_less w other this) (\<lambda>gt. Inr (\<not> gt)))"

definition isDefault :: "world \<Rightarrow> iset \<Rightarrow> bool res" where
  "isDefault w this = bindr (Set_new (address_order w) (mArity this)) (\<lambda>defSet. Set_eq w this defSet)"

definition Set_setTupleDecl :: "tuple_decl \<Rightarrow> iset \<Rightarrow> iset res" where
  "Set_setTupleDecl tuple_decl this =
     bindr (sparse_setTupleDecl tuple_decl (set_conjs this)) (\<lambda>cs.
     Inr \<lparr>mArity = tdecl_size tuple_decl, set_conjs = cs\<rparr>)"

definition Set_toDotString :: "iset \<Rightarrow> string" where
  "Set_toDotString this =
     ''digraph SparseConstraints {'' @ endl
     @ int_str 0 @ '' [label = '' @ dot_quote @ ''Set'' @ dot_nl @ ''mArity='' @ nat_str (mArity this)
     @ dot_quote @ ''];'' @ endl @ sparse_toDot (set_conjs this) 1 @ ''}'' @ endl"

definition Set_Union :: "world \<Rightarrow> iset \<Rightarrow> iset \<Rightarrow> iset res" where
  "Set_Union w this rhs =
     (if mArity rhs \<noteq> mArity this then Inl (Assert ''Set::Union: mismatched arities'')
      else bindr (Set_new (address_order w) (mArity this)) (\<lambda>result.
        let add = sparse_addConjunction (address_order w) in
        Inr (result\<lparr>set_conjs := fold add (set_conjs rhs) (fold add (set_conjs this) (drop_true (set_conjs result)))\<rparr>)))"

definition Set_Intersect :: "world \<Rightarrow> iset \<Rightarrow> iset \<Rightarrow> iset res" where
  "Set_Intersect w this rhs =
     (if mArity rhs \<noteq> mArity this then Inl (Assert ''Set::Intersect: mismatched arities'')
      else bindr (Set_new (address_order w) (mArity this)) (\<lambda>result.
        Inr (result\<lparr>set_conjs :=
          fold (\<lambda>(i, j). sparse_addConjunction (address_order w) (conj_Intersect (address_order w) i j))
            (List.product (set_conjs this) (set_conjs rhs)) (set_conjs result)\<rparr>)))"

definition Set_boundTupleExp :: "world \<Rightarrow> exp list \<Rightarrow> iset \<Rightarrow> iset res" where
  "Set_boundTupleExp w tuple_exp this =
     bindr (Set_new (address_order w) 0) (\<lambda>result.
     bindr (foldm (\<lambda>i cs. bindr (conj_boundTupleExp w tuple_exp i) (\<lambda>c. Inr (sparse_addConjunction (address_order w) c cs)))
              (set_conjs this) (set_conjs result)) (\<lambda>cs.
     Inr (result\<lparr>set_conjs := cs\<rparr>)))"

section \<open>Relations\<close>

record irel =
  inArity :: int
  outArity :: int
  rel_conjs :: sparse

definition Relation_new :: "int \<Rightarrow> int \<Rightarrow> irel" where
  "Relation_new in_ar out_ar = \<lparr>inArity = in_ar, outArity = out_ar, rel_conjs = []\<rparr>"

definition rel_arity :: "irel \<Rightarrow> int" where
  "rel_arity r = inArity r + outArity r"

definition rel_addConjunction :: "addr_order \<Rightarrow> conj \<Rightarrow> irel \<Rightarrow> irel res" where
  "rel_addConjunction ad adoptedConjunction this =
     (if mInArity adoptedConjunction \<noteq> inArity this
      then Inl (Assert ''Relation::addConjunction: mismatched arities'')
      else Inr (this\<lparr>rel_conjs := sparse_addConjunction ad adoptedConjunction (rel_conjs this)\<rparr>))"

definition rel_cleanUp :: "world \<Rightarrow> irel \<Rightarrow> irel res" where
  "rel_cleanUp w r = bindr (sparse_cleanUp w (rel_conjs r)) (\<lambda>cs. Inr (r\<lparr>rel_conjs := cs\<rparr>))"

definition Relation_copy :: "world \<Rightarrow> irel \<Rightarrow> irel res" where
  "Relation_copy w other =
     bindr (foldm (rel_addConjunction (address_order w)) (rel_conjs other)
              (Relation_new (inArity other) (outArity other))) (rel_cleanUp w)"

text \<open>Assigning a set to a relation: the first \<open>inArity\<close> elements become the input tuple.\<close>

definition set_conj_to_rel :: "world \<Rightarrow> conj \<Rightarrow> irel \<Rightarrow> irel res" where
  "set_conj_to_rel w i this =
     bindr (setTupleDecl (getTupleDecl i) (Conjunction_rel (conj_arity i) (inArity this))) (\<lambda>c.
     rel_addConjunction (address_order w) (copyConstraintsFrom i c) this)"

definition Relation_of_set :: "world \<Rightarrow> iset \<Rightarrow> irel \<Rightarrow> irel res" where
  "Relation_of_set w other this =
     (if inArity this \<ge> int (mArity other) then Inl (Assert ''Relation::operator=(Set): impossible arity match'')
      else bindr (foldm (set_conj_to_rel w) (set_conjs other)
                    \<lparr>inArity = inArity this, outArity = int (mArity other) - inArity this, rel_conjs = []\<rparr>)
             (rel_cleanUp w))"

definition Relation_less :: "world \<Rightarrow> irel \<Rightarrow> irel \<Rightarrow> bool res" where
  "Relation_less w this other =
     (if inArity this < inArity other then Inr True
      else if inArity this > inArity other then Inr False
      else if outArity this < outArity other then Inr True
      else if outArity this > outArity other then Inr False
      else bindr (sparse_copy w (rel_conjs this)) (\<lambda>a.
           bindr (sparse_copy w (rel_conjs other)) (\<lambda>b. Inr (sparse_less (address_order w) a b))))"

definition Relation_eq :: "world \<Rightarrow> irel \<Rightarrow> irel \<Rightarrow> bool res" where
  "Relation_eq w this other =
     bindr (Relation_less w this other) (\<lambda>lt. if lt then Inr False
       else bindr (Relation_less w other this) (\<lambda>gt. Inr (\<not> gt)))"

definition Relation_isDefault :: "world \<Rightarrow> irel \<Rightarrow> bool res" where
  "Relation_isDefault w this = Relation_eq w this (Relation_new (inArity this) (outArity this))"

definition Relation_toString :: "irel \<Rightarrow> string res" where
  "Relation_toString r = sparse_toString (nat (rel_arity r)) (nat (inArity r)) (rel_conjs r)"

definition Relation_prettyPrint :: "world \<Rightarrow> irel \<Rightarrow> string res" where
  "Relation_prettyPrint w r = sparse_prettyPrint w (nat (rel_arity r)) (nat (inArity r)) (rel_conjs r)"

definition Relation_toDotString :: "irel \<Rightarrow> string" where
  "Relation_toDotString this =
     ''digraph SparseConstraints {'' @ endl
     @ int_str 0 @ '' [label = '' @ dot_quote @ ''Relation'' @ dot_nl @ ''mInArity='' @ int_str (inArity this)
     @ dot_nl @ ''mOutArity='' @ int_str (outArity this) @ dot_quote @ ''];'' @ endl
     @ sparse_toDot (rel_conjs this) 1 @ ''}'' @ endl"

definition Relation_setTupleDecl :: "tuple_decl \<Rightarrow> irel \<Rightarrow> irel res" where
  "Relation_setTupleDecl tuple_decl this =
     bindr (sparse_setTupleDecl tuple_decl (rel_conjs this)) (\<lambda>cs.
     Inr (this\<lparr>outArity := int (tdecl_size tuple_decl) - inArity this, rel_conjs := cs\<rparr>))"

definition Relation_Compose :: "world \<Rightarrow> irel \<Rightarrow> irel \<Rightarrow> irel res" where
  "Relation_Compose w this rhs =
     (if outArity rhs \<noteq> inArity this then Inl (Assert ''Relation::Compose: mismatched arities'')
      else bindr (foldm (\<lambda>(l, r) result. bindr (conj_Compose w l r (nat (outArity rhs))) (\<lambda>combo.
                           rel_addConjunction (address_order w) combo result))
                    (List.product (rel_conjs this) (rel_conjs rhs))
                    (Relation_new (inArity rhs) (outArity this))) (rel_cleanUp w))"

definition Relation_Apply :: "world \<Rightarrow> irel \<Rightarrow> iset \<Rightarrow> iset res" where
  "Relation_Apply w this rhs =
     (if int (mArity rhs) \<noteq> inArity this then Inl (Assert ''Relation::Apply: mismatched arities'')
      else bindr (Set_new (address_order w) (nat (outArity this))) (\<lambda>result.
           bindr (foldm (\<lambda>(l, r) cs. bindr (conj_Apply w l r) (\<lambda>combo.
                           Inr (sparse_addConjunction (address_order w) combo cs)))
                    (List.product (rel_conjs this) (set_conjs rhs)) (set_conjs result)) (\<lambda>cs.
           bindr (sparse_cleanUp w cs) (\<lambda>cs'. Inr (result\<lparr>set_conjs := cs'\<rparr>)))))"

definition Relation_Union :: "world \<Rightarrow> irel \<Rightarrow> irel \<Rightarrow> irel res" where
  "Relation_Union w this rhs =
     (if inArity rhs \<noteq> inArity this \<or> outArity rhs \<noteq> outArity this
      then Inl (Assert ''Relation::Union: mismatched arities'')
      else bindr (foldm (rel_addConjunction (address_order w)) (rel_conjs this)
                    (Relation_new (inArity this) (outArity this)))
             (foldm (rel_addConjunction (address_order w)) (rel_conjs rhs)))"

definition rel_cross :: "addr_order \<Rightarrow> (conj \<Rightarrow> conj \<Rightarrow> conj) \<Rightarrow> sparse \<Rightarrow> sparse \<Rightarrow> irel \<Rightarrow> irel res" where
  "rel_cross ad f as bs result = foldm (\<lambda>(i, j). rel_addConjunction ad (f i j)) (List.product as bs) result"

definition Relation_Intersect :: "world \<Rightarrow> irel \<Rightarrow> irel \<Rightarrow> irel res" where
  "Relation_Intersect w this rhs =
     (if inArity rhs \<noteq> inArity this \<or> outArity rhs \<noteq> outArity this
      then Inl (Assert ''Relation::Union: mismatched arities'')
      else rel_cross (address_order w) (conj_Intersect (address_order w)) (rel_conjs this) (rel_conjs rhs)
             (Relation_new (inArity this) (outArity this)))"

definition Relation_Restrict :: "world \<Rightarrow> irel \<Rightarrow> iset \<Rightarrow> irel res" where
  "Relation_Restrict w this rhs =
     (if inArity this \<noteq> int (mArity rhs) then Inl (Assert ''Relation::Restrict: mismatched arities'')
      else rel_cross (address_order w) (conj_Restrict (address_order w)) (rel_conjs this) (set_conjs rhs)
             (Relation_new (int (mArity rhs)) (outArity this)))"

definition Relation_Inverse :: "world \<Rightarrow> irel \<Rightarrow> irel res" where
  "Relation_Inverse w this =
     bindr (foldm (\<lambda>i result. bindr (conj_Inverse i) (\<lambda>c. rel_addConjunction (address_order w) c result))
              (rel_conjs this) (Relation_new (outArity this) (inArity this))) (rel_cleanUp w)"

text \<open>Once one conjunction is not a function, the others are not looked at.\<close>

fun all_conjs :: "(conj \<Rightarrow> bool res) \<Rightarrow> sparse \<Rightarrow> bool res" where
  "all_conjs f [] = Inr True"
| "all_conjs f (c # cs) = bindr (f c) (\<lambda>b. if b then all_conjs f cs else Inr False)"

definition Relation_isFunction :: "world \<Rightarrow> irel \<Rightarrow> bool res" where
  "Relation_isFunction w this = all_conjs (\<lambda>c. isFunction w (inArity this) c) (rel_conjs this)"

definition Relation_isFunctionInverse :: "world \<Rightarrow> irel \<Rightarrow> bool res" where
  "Relation_isFunctionInverse w this = all_conjs (\<lambda>c. isFunctionInverse w (inArity this) c) (rel_conjs this)"

definition Relation_findFunction :: "world \<Rightarrow> int \<Rightarrow> int \<Rightarrow> int \<Rightarrow> irel \<Rightarrow> exp option res" where
  "Relation_findFunction w tupleLocToFind startTupleRange endTupleRange this =
     (if length (rel_conjs this) \<noteq> 1 then Inl (Assert ''more than one Conjunction in Relation'')
      else findFunction w tupleLocToFind startTupleRange endTupleRange (hd (rel_conjs this)))"

end
