(* ===== verification/IEG_ConjSem.thy ===== *)
theory IEG_ConjSem
  imports IEG_Conjunction
begin

text \<open>
  What a conjunction denotes, for a valuation of the symbolic constants and the functions: the
  set of tuples that its declaration admits and that satisfy its constraints. The lemmas say
  what each operation of \<open>Conjunction\<close> does to that set, and that the lists of constraints stay
  sorted and free of duplicates.
\<close>

section \<open>Tuples that satisfy a conjunction\<close>

definition at_tuple :: "valuation \<Rightarrow> int list \<Rightarrow> valuation" where
  "at_tuple v xs = v\<lparr>tvv := \<lambda>l. if 0 \<le> l \<and> l < int (length xs) then xs ! nat l else 0\<rparr>"

definition zeros :: "valuation \<Rightarrow> exp list \<Rightarrow> bool" where
  "zeros v es \<longleftrightarrow> (\<forall>e \<in> set es. eval_exp v e = 0)"

definition nonnegs :: "valuation \<Rightarrow> exp list \<Rightarrow> bool" where
  "nonnegs v es \<longleftrightarrow> (\<forall>e \<in> set es. eval_exp v e \<ge> 0)"

definition sat_constraints :: "valuation \<Rightarrow> conj \<Rightarrow> bool" where
  "sat_constraints v c \<longleftrightarrow> zeros v (mEqualities c) \<and> nonnegs v (mInequalities c)"

definition holds :: "valuation \<Rightarrow> conj \<Rightarrow> int list \<Rightarrow> bool" where
  "holds v c xs \<longleftrightarrow> admits (mTupleDecl c) xs \<and> sat_constraints (at_tuple v xs) c"

definition plain_conj :: "conj \<Rightarrow> bool" where
  "plain_conj c \<longleftrightarrow> list_all plain_exp (mEqualities c) \<and> list_all plain_exp (mInequalities c)"

lemma eval_setType [simp]:
  "eval_exp v (setEquality e) = eval_exp v e" "eval_exp v (setInequality e) = eval_exp v e"
  by (cases e; simp)+

lemma plain_setType [simp]:
  "plain_exp (setEquality e) = plain_exp e" "plain_exp (setInequality e) = plain_exp e"
  by (cases e; simp)+

lemma equalsZero_eval: "equalsZero e \<Longrightarrow> eval_exp v e = 0"
  by (cases e; cases "mTerms e"; cases "tl (mTerms e)")
    (auto simp: equalsZero_def length_Suc_conv)

text \<open>An element that \<open>insert_unique\<close> drops is equivalent to one that is there.\<close>

lemma insert_unique_all:
  assumes "\<forall>x \<in> insert e (set es). plain_exp x"
    and "\<And>a b. plain_exp a \<Longrightarrow> plain_exp b \<Longrightarrow> (\<forall>v. eval_exp v a = eval_exp v b) \<Longrightarrow> P a \<longleftrightarrow> P b"
  shows "(\<forall>x \<in> set (insert_unique (exp_less ad) e es). P x) \<longleftrightarrow> P e \<and> (\<forall>x \<in> set es. P x)"
  using assms(1)
proof (induction es)
  case (Cons y ys)
  show ?case
  proof (cases "exp_less ad e y \<or> exp_less ad y e")
    case False
    then have "exp_eq ad e y" by (simp add: exp_eq_def)
    then have "\<forall>v. eval_exp v e = eval_exp v y" using Cons.prems exp_eq_val by auto
    with False Cons assms(2) [of e y] show ?thesis by auto
  next
    case True
    with Cons show ?thesis by auto
  qed
qed simp

lemma plain_insert_unique:
  "plain_exp e \<Longrightarrow> list_all plain_exp es \<Longrightarrow> list_all plain_exp (insert_unique lt e es)"
  using set_insert_unique [of lt e es] by (auto simp: list_all_iff)

text \<open>The order of the lists.\<close>

definition sorted_exps :: "exp list \<Rightarrow> bool" where
  "sorted_exps es \<longleftrightarrow> sorted_wrt (<) (map ekey es) \<and> list_all no_tuple es"

definition sorted_conj :: "conj \<Rightarrow> bool" where
  "sorted_conj c \<longleftrightarrow> sorted_exps (mEqualities c) \<and> sorted_exps (mInequalities c)"

lemma no_tuple_setType [simp]:
  "no_tuple (setEquality e) = no_tuple e" "no_tuple (setInequality e) = no_tuple e"
  by (cases e; simp add: no_tuple_def)+

lemma sorted_insert_exp:
  "plain_exp e \<Longrightarrow> sorted_exps es \<Longrightarrow> sorted_exps (insert_unique (exp_less ad) e es)"
  by (simp add: sorted_exps_def exps.sorted_insert exps.ok_insert plain_no_tuple)

lemma addEquality_list:
  assumes "plain_exp e" and "list_all plain_exp (mEqualities c)"
  shows "list_all plain_exp (mEqualities (addEquality ad e c))
    \<and> (zeros v (mEqualities (addEquality ad e c)) \<longleftrightarrow> zeros v (mEqualities c) \<and> eval_exp v e = 0)
    \<and> (sorted_exps (mEqualities c) \<longrightarrow> sorted_exps (mEqualities (addEquality ad e c)))"
proof -
  let ?e = "setEquality (normalizeForEquality e)"
  have p: "plain_exp ?e" using assms by (simp add: plain_intros)
  have "(\<forall>x \<in> set (insert_unique (exp_less ad) ?e (mEqualities c)). eval_exp v x = 0) \<longleftrightarrow>
      eval_exp v ?e = 0 \<and> (\<forall>x \<in> set (mEqualities c). eval_exp v x = 0)"
    by (rule insert_unique_all) (use p assms(2) in \<open>auto simp: list_all_iff\<close>)
  then show ?thesis
    using p equalsZero_eval [of "normalizeForEquality e" v] eval_normalizeForEquality [of v e] assms(2)
    by (auto simp: addEquality_def Let_def zeros_def plain_insert_unique sorted_insert_exp)
qed

lemma addInequality_list:
  assumes "plain_exp e" and "list_all plain_exp (mInequalities c)"
  shows "list_all plain_exp (mInequalities (addInequality ad e c))
    \<and> (nonnegs v (mInequalities (addInequality ad e c)) \<longleftrightarrow> nonnegs v (mInequalities c) \<and> eval_exp v e \<ge> 0)
    \<and> (sorted_exps (mInequalities c) \<longrightarrow> sorted_exps (mInequalities (addInequality ad e c)))"
proof -
  have "(\<forall>x \<in> set (insert_unique (exp_less ad) (setInequality e) (mInequalities c)). eval_exp v x \<ge> 0) \<longleftrightarrow>
      eval_exp v (setInequality e) \<ge> 0 \<and> (\<forall>x \<in> set (mInequalities c). eval_exp v x \<ge> 0)"
    by (rule insert_unique_all) (use assms in \<open>auto simp: list_all_iff\<close>)
  then show ?thesis
    using equalsZero_eval [of e v] assms
    by (auto simp: addInequality_def nonnegs_def plain_insert_unique sorted_insert_exp)
qed

lemma add_frame [simp]:
  "mTupleDecl (addEquality ad e c) = mTupleDecl c" "mInArity (addEquality ad e c) = mInArity c"
  "mTupleDecl (addInequality ad e c) = mTupleDecl c" "mInArity (addInequality ad e c) = mInArity c"
  "unsat (addEquality ad e c) = unsat c" "unsat (addInequality ad e c) = unsat c"
  "mInequalities (addEquality ad e c) = mInequalities c" "mEqualities (addInequality ad e c) = mEqualities c"
  by (simp_all add: addEquality_def addInequality_def Let_def)

lemma fold_addEquality_frame [simp]:
  "mTupleDecl (fold (addEquality ad) es c) = mTupleDecl c" "mInArity (fold (addEquality ad) es c) = mInArity c"
  "mInequalities (fold (addEquality ad) es c) = mInequalities c"
  by (induction es arbitrary: c) simp_all

lemma fold_addInequality_frame [simp]:
  "mTupleDecl (fold (addInequality ad) es c) = mTupleDecl c" "mInArity (fold (addInequality ad) es c) = mInArity c"
  "mEqualities (fold (addInequality ad) es c) = mEqualities c"
  by (induction es arbitrary: c) simp_all

lemma fold_addEquality:
  "list_all plain_exp es \<Longrightarrow> list_all plain_exp (mEqualities c) \<Longrightarrow>
   list_all plain_exp (mEqualities (fold (addEquality ad) es c))
   \<and> (zeros v (mEqualities (fold (addEquality ad) es c)) \<longleftrightarrow> zeros v (mEqualities c) \<and> zeros v es)
   \<and> (sorted_exps (mEqualities c) \<longrightarrow> sorted_exps (mEqualities (fold (addEquality ad) es c)))"
proof (induction es arbitrary: c)
  case (Cons e es)
  then have *: "list_all plain_exp (mEqualities (addEquality ad e c))"
    using addEquality_list [of e c ad v] by simp
  from Cons.IH [OF _ *] Cons.prems addEquality_list [of e c ad v] show ?case by (auto simp: zeros_def)
qed (simp add: zeros_def)

lemma fold_addInequality:
  "list_all plain_exp es \<Longrightarrow> list_all plain_exp (mInequalities c) \<Longrightarrow>
   list_all plain_exp (mInequalities (fold (addInequality ad) es c))
   \<and> (nonnegs v (mInequalities (fold (addInequality ad) es c)) \<longleftrightarrow> nonnegs v (mInequalities c) \<and> nonnegs v es)
   \<and> (sorted_exps (mInequalities c) \<longrightarrow> sorted_exps (mInequalities (fold (addInequality ad) es c)))"
proof (induction es arbitrary: c)
  case (Cons e es)
  then have *: "list_all plain_exp (mInequalities (addInequality ad e c))"
    using addInequality_list [of e c ad v] by simp
  from Cons.IH [OF _ *] Cons.prems addInequality_list [of e c ad v] show ?case by (auto simp: nonnegs_def)
qed (simp add: nonnegs_def)

lemma sat_addEquality:
  "plain_exp e \<Longrightarrow> plain_conj c \<Longrightarrow> plain_conj (addEquality ad e c) \<and>
   (sat_constraints v (addEquality ad e c) \<longleftrightarrow> sat_constraints v c \<and> eval_exp v e = 0)"
  using addEquality_list [of e c ad v] by (auto simp: plain_conj_def sat_constraints_def)

lemma sat_addInequality:
  "plain_exp e \<Longrightarrow> plain_conj c \<Longrightarrow> plain_conj (addInequality ad e c) \<and>
   (sat_constraints v (addInequality ad e c) \<longleftrightarrow> sat_constraints v c \<and> eval_exp v e \<ge> 0)"
  using addInequality_list [of e c ad v] by (auto simp: plain_conj_def sat_constraints_def)

lemma add_constraints_facts:
  assumes "plain_conj c" and "plain_conj rhs"
  shows "plain_conj (add_constraints ad rhs c) \<and> mTupleDecl (add_constraints ad rhs c) = mTupleDecl c
    \<and> mInArity (add_constraints ad rhs c) = mInArity c
    \<and> (sat_constraints v (add_constraints ad rhs c) \<longleftrightarrow> sat_constraints v c \<and> sat_constraints v rhs)
    \<and> (sorted_conj c \<longrightarrow> sorted_conj (add_constraints ad rhs c))"
  using assms fold_addEquality [of "mEqualities rhs" c ad v]
    fold_addInequality [of "mInequalities rhs" "fold (addEquality ad) (mEqualities rhs) c" ad v]
  by (auto simp: add_constraints_def sat_constraints_def plain_conj_def sorted_conj_def)

section \<open>Cleaning up and substituting\<close>

definition nests_ok_conj :: "(string \<Rightarrow> string) \<Rightarrow> conj \<Rightarrow> bool" where
  "nests_ok_conj invOf c \<longleftrightarrow>
     list_all (nests_ok invOf) (mEqualities c) \<and> list_all (nests_ok invOf) (mInequalities c)"

lemma term_nests_ok_set [simp]: "term_nests_ok invOf (setCoefficient k t) = term_nests_ok invOf t"
  by (cases t) simp_all

lemma nests_ok_multiplyBy: "nests_ok invOf (multiplyBy k e) = nests_ok invOf e"
  by (simp add: nests_ok_mTerms multiplyBy_def term_multiplyBy_def list_all_iff)

lemma nests_ok_normalize: "nests_ok invOf e \<Longrightarrow> nests_ok invOf (normalizeForEquality e)"
  using nests_ok_multiplyBy [of invOf "-1" e]
  by (auto simp: normalizeForEquality_def Let_def nests_ok_mTerms list_all_iff dest: in_set_butlastD)

lemma collapse_list:
  assumes "mapr (\<lambda>e. collapse ad invOf (g e)) es = Inr es'"
    and "list_all (\<lambda>e. plain_exp (g e) \<and> nests_ok invOf (g e)) es" and "inverts invOf v"
  shows "list_all plain_exp es' \<and> map (eval_exp v) es' = map (\<lambda>e. eval_exp v (g e)) es"
proof -
  have "list_all2 (\<lambda>e e'. collapse ad invOf (g e) = Inr e') es es'" using assms(1) by (simp add: mapr_eq_Inr)
  then show ?thesis
    using assms(2)
  proof (induction rule: list_all2_induct)
    case (Cons e es e' es')
    then show ?case using collapse_value(1) [OF assms(3), of ad "g e" e'] by simp
  qed simp
qed

lemma all_map_eq: "map f xs = map g ys \<Longrightarrow> (\<forall>x \<in> set xs. P (f x)) \<longleftrightarrow> (\<forall>y \<in> set ys. P (g y))"
proof -
  assume "map f xs = map g ys"
  from arg_cong [OF this, of set] have "f ` set xs = g ` set ys" by simp
  then have "(\<forall>y \<in> f ` set xs. P y) \<longleftrightarrow> (\<forall>y \<in> g ` set ys. P y)" by simp
  then show ?thesis by simp
qed

lemma filter_zero:
  "zeros v (filter (\<lambda>e. \<not> equalsZero e) es) \<longleftrightarrow> zeros v es"
  "nonnegs v (filter (\<lambda>e. \<not> equalsZero e) es) \<longleftrightarrow> nonnegs v es"
  using equalsZero_eval by (force simp: zeros_def nonnegs_def)+

lemma cleanUp_facts:
  assumes clean: "cleanUp w c = Inr c'" and p: "plain_conj c"
    and n: "nests_ok_conj (inverse_of w) c" and v: "inverts (inverse_of w) v"
  shows "plain_conj c' \<and> sorted_conj c' \<and> mTupleDecl c' = mTupleDecl c \<and> mInArity c' = mInArity c
    \<and> (sat_constraints v c' \<longleftrightarrow> sat_constraints v c)"
proof -
  let ?ad = "address_order w" and ?inv = "inverse_of w" and ?nz = "filter (\<lambda>e. \<not> equalsZero e)"
  obtain eqs where eqs: "mapr (\<lambda>e. collapse ?ad ?inv (normalizeForEquality e)) (mEqualities c) = Inr eqs"
    using clean by (auto simp: cleanUp_def bindr_eq_Inr)
  define c1 where "c1 = fold (addEquality ?ad) (?nz eqs) (c\<lparr>mEqualities := []\<rparr>)"
  obtain ineqs where ineqs: "mapr (\<lambda>e. collapse ?ad ?inv e) (mInequalities c) = Inr ineqs"
    and c': "c' = fold (addInequality ?ad) (?nz ineqs) (c1\<lparr>mInequalities := []\<rparr>)"
    using clean eqs by (auto simp: cleanUp_def bindr_eq_Inr Let_def c1_def)
  have e: "list_all plain_exp eqs \<and> map (eval_exp v) eqs = map (\<lambda>e. eval_exp v (normalizeForEquality e)) (mEqualities c)"
    by (rule collapse_list [OF eqs _ v])
      (use p n in \<open>auto simp: plain_conj_def nests_ok_conj_def list_all_iff nests_ok_normalize plain_intros\<close>)
  have i: "list_all plain_exp ineqs \<and> map (eval_exp v) ineqs = map (\<lambda>e. eval_exp v e) (mInequalities c)"
    by (rule collapse_list [OF ineqs _ v])
      (use p n in \<open>auto simp: plain_conj_def nests_ok_conj_def list_all_iff\<close>)
  have pe: "list_all plain_exp (?nz eqs)" and pi: "list_all plain_exp (?nz ineqs)"
    using e i by (auto simp: list_all_iff)
  have "zeros v eqs \<longleftrightarrow> zeros v (mEqualities c)"
    using all_map_eq [OF conjunct2 [OF e], of "\<lambda>x. x = 0"] by (simp add: zeros_def eval_normalizeForEquality)
  moreover have "nonnegs v ineqs \<longleftrightarrow> nonnegs v (mInequalities c)"
    using all_map_eq [OF conjunct2 [OF i], of "\<lambda>x. x \<ge> 0"] by (simp add: nonnegs_def)
  moreover have "list_all plain_exp (mEqualities c1) \<and> (zeros v (mEqualities c1) \<longleftrightarrow> zeros v eqs)
      \<and> sorted_exps (mEqualities c1)"
    using fold_addEquality [OF pe, of "c\<lparr>mEqualities := []\<rparr>" ?ad v]
    by (simp add: c1_def filter_zero zeros_def [of v "[]"] sorted_exps_def)
  moreover have "list_all plain_exp (mInequalities c') \<and> (nonnegs v (mInequalities c') \<longleftrightarrow> nonnegs v ineqs)
      \<and> sorted_exps (mInequalities c')"
    using fold_addInequality [OF pi, of "c1\<lparr>mInequalities := []\<rparr>" ?ad v]
    by (simp add: c' filter_zero nonnegs_def [of v "[]"] sorted_exps_def)
  moreover have "mEqualities c' = mEqualities c1" "mTupleDecl c' = mTupleDecl c" "mInArity c' = mInArity c"
    by (simp_all add: c' c1_def)
  ultimately show ?thesis by (simp add: plain_conj_def sat_constraints_def sorted_conj_def)
qed


section \<open>Constants\<close>

lemma eval_new_addTerm: "plain_term t \<Longrightarrow> eval_exp v (addTerm t Exp_new) = coefficient t * factor_val v t"
  by (simp add: eval_simps plain_intros)

lemma at_tuple_nth [simp]: "i < length xs \<Longrightarrow> tvv (at_tuple v xs) (int i) = xs ! i"
  by (simp add: at_tuple_def)

lemma ufv_at_tuple [simp]: "ufv (at_tuple v xs) = ufv v" "symv (at_tuple v xs) = symv v"
  by (simp_all add: at_tuple_def)

lemma inverts_at_tuple [simp]: "inverts invOf (at_tuple v xs) = inverts invOf v"
  by (simp add: inverts_def)

lemma push_const_step_facts:
  assumes step: "push_const_step ad i c = Inr c'" and p: "plain_conj c" and wf: "wf_tdecl (mTupleDecl c)"
    and i: "i < conj_arity c"
  shows "plain_conj c' \<and> wf_tdecl (mTupleDecl c') \<and> conj_arity c' = conj_arity c \<and> mInArity c' = mInArity c
    \<and> \<not> elemIsConst (mTupleDecl c') i \<and> (\<forall>j. \<not> elemIsConst (mTupleDecl c) j \<longrightarrow> \<not> elemIsConst (mTupleDecl c') j)
    \<and> (holds v c' xs \<longleftrightarrow> holds v c xs)"
proof (cases "elemIsConst (mTupleDecl c) i")
  case False
  with assms show ?thesis by (simp add: push_const_step_def)
next
  case True
  let ?td = "mTupleDecl c" and ?k = "elemConstVal (mTupleDecl c) i"
  obtain td where td: "setTupleElem_var i (''c_'' @ int_str ?k) ?td = Inr td"
    and c': "c' = addEquality ad (addTerm (Term (- ?k)) (addTerm (TupleVarTerm 1 (int i)) Exp_new)) (c\<lparr>mTupleDecl := td\<rparr>)"
    using step True i wf
    by (auto simp: push_const_step_def Let_def bindr_eq_Inr elemCreateTerm_def setTupleElem_var_def
        conj_arity_def tdecl_size_def wf_tdecl_def split: if_splits)
  let ?e = "addTerm (Term (- ?k)) (addTerm (TupleVarTerm 1 (int i)) Exp_new)"
  have pe: "plain_exp ?e" by (intro plain_intros) simp_all
  have val: "eval_exp (at_tuple v xs) ?e = 0 \<longleftrightarrow> xs ! i = ?k" if "length xs = mSize ?td"
    using that i by (simp add: eval_simps plain_intros conj_arity_def tdecl_size_def) (* value *)
  have tdv: "wf_tdecl td \<and> mSize td = mSize ?td \<and> \<not> elemIsConst td i
      \<and> (\<forall>j. j \<noteq> i \<longrightarrow> elemIsConst td j = elemIsConst ?td j \<and> elemConstVal td j = elemConstVal ?td j)"
    using td i wf
    by (auto simp: setTupleElem_var_def elemIsConst_def elemConstVal_def wf_tdecl_def conj_arity_def tdecl_size_def
        split: if_splits)
  have adm: "admits ?td xs \<longleftrightarrow> admits td xs \<and> xs ! i = ?k"
    using tdv True i by (auto simp: admits_def conj_arity_def tdecl_size_def)
  have "sat_constraints u (c\<lparr>mTupleDecl := td\<rparr>) = sat_constraints u c" "plain_conj (c\<lparr>mTupleDecl := td\<rparr>)" for u
    using p by (simp_all add: sat_constraints_def plain_conj_def)
  then have "plain_conj c' \<and> (\<forall>u. sat_constraints u c' \<longleftrightarrow> sat_constraints u c \<and> eval_exp u ?e = 0)"
    using sat_addEquality [OF pe] by (simp add: c')
  moreover have "admits td xs \<Longrightarrow> length xs = mSize ?td" using tdv by (simp add: admits_def)
  moreover have "\<forall>j. \<not> elemIsConst ?td j \<longrightarrow> \<not> elemIsConst td j" using tdv by metis
  ultimately show ?thesis
    using adm tdv val True by (auto simp: holds_def c' conj_arity_def tdecl_size_def)
qed

lemma pushConstToConstraints_facts:
  assumes push: "pushConstToConstraints ad c = Inr c'" and p: "plain_conj c" and wf: "wf_tdecl (mTupleDecl c)"
  shows "plain_conj c' \<and> wf_tdecl (mTupleDecl c') \<and> conj_arity c' = conj_arity c \<and> mInArity c' = mInArity c
    \<and> (\<forall>i < conj_arity c. \<not> elemIsConst (mTupleDecl c') i) \<and> (holds v c' xs \<longleftrightarrow> holds v c xs)"
proof -
  have "foldm (push_const_step ad) [0..<n] c = Inr c' \<Longrightarrow> n \<le> conj_arity c \<Longrightarrow>
      plain_conj c' \<and> wf_tdecl (mTupleDecl c') \<and> conj_arity c' = conj_arity c \<and> mInArity c' = mInArity c
    \<and> (\<forall>i < n. \<not> elemIsConst (mTupleDecl c') i) \<and> (holds v c' xs \<longleftrightarrow> holds v c xs)" for n c'
  proof (induction n arbitrary: c')
    case (Suc n)
    then obtain d where d: "foldm (push_const_step ad) [0..<n] c = Inr d" "push_const_step ad n d = Inr c'"
      by (auto simp: foldm_append bindr_eq_Inr)
    with Suc have IH: "plain_conj d \<and> wf_tdecl (mTupleDecl d) \<and> conj_arity d = conj_arity c \<and> mInArity d = mInArity c
      \<and> (\<forall>i < n. \<not> elemIsConst (mTupleDecl d) i) \<and> (holds v d xs \<longleftrightarrow> holds v c xs)" by simp
    from push_const_step_facts [OF d(2), of v xs] IH Suc.prems show ?case
      by (auto simp: less_Suc_eq)
  qed (use p wf in simp)
  from this [of "conj_arity c" c'] push show ?thesis by (simp add: pushConstToConstraints_def)
qed

section \<open>Remapping\<close>

lemma copy_new_loc_fold:
  assumes "foldm (copy_new_loc m own) [0..<k] (TupleDecl_new n) = Inr td" and "k \<le> length m"
    and "distinct m" and "\<forall>l \<in> set m. 0 \<le> l"
  shows "wf_tdecl td \<and> mSize td = n
    \<and> (\<forall>i < k. nat (m ! i) < n \<and> i < length (mIsConst own) \<and> elemIsConst td (nat (m ! i)) = elemIsConst own i
          \<and> elemConstVal td (nat (m ! i)) = elemConstVal own i)
    \<and> (\<forall>j < n. elemIsConst td j \<longrightarrow> (\<exists>i < k. j = nat (m ! i)))"
  using assms(1,2)
proof (induction k arbitrary: td)
  case 0
  then show ?case by (auto simp: TupleDecl_new_def elemIsConst_def wf_tdecl_def)
next
  case (Suc k)
  then obtain t where t: "foldm (copy_new_loc m own) [0..<k] (TupleDecl_new n) = Inr t"
    and td: "copy_new_loc m own k t = Inr td" by (auto simp: foldm_append bindr_eq_Inr)
  have mk: "m ! k \<ge> 0" using Suc.prems assms(4) by simp
  note IH = Suc.IH [OF t]
  have ne: "nat (m ! i) \<noteq> nat (m ! k)" if "i < k" for i
    using that Suc.prems assms(3,4) by (auto simp: nth_eq_iff_index_eq eq_nat_nat_iff)
  from td mk have "k < length (mIsConst own)" "nat (m ! k) < length (mIsConst t)"
    and "td = t\<lparr>mIsConst := (mIsConst t)[nat (m ! k) := mIsConst own ! k],
      mConstVal := (mConstVal t)[nat (m ! k) := mConstVal own ! k],
      mVarString := (mVarString t)[nat (m ! k) := mVarString own ! k]\<rparr>"
    by (auto simp: copy_new_loc_def copyTupleElem_def split: if_splits)
  with IH ne ne [symmetric] Suc.prems show ?case
    by (auto simp: wf_tdecl_def elemIsConst_def elemConstVal_def less_Suc_eq nth_list_update)
qed

lemma tuple_locs_remapped: "remapTupleVars m e = Inr e' \<Longrightarrow> \<forall>l \<in> tuple_locs e. remappable m l"
  using remap_success(1) [of m e] by (cases e) (auto split: if_splits)

lemma remap_eval:
  assumes "remapTupleVars m e = Inr e'" and "\<forall>l \<in> set m. 0 \<le> l \<and> nat l < length zs"
  shows "eval_exp (at_tuple v zs) e' = eval_exp (at_tuple v (map (\<lambda>i. zs ! nat (m ! i)) [0..<length m])) e"
proof -
  have "eval_exp (at_tuple v zs) e' = eval_exp (renamed m (at_tuple v zs)) e"
    using remap_value(1) [OF assms(1)] .
  also have "\<dots> = eval_exp (at_tuple v (map (\<lambda>i. zs ! nat (m ! i)) [0..<length m])) e"
  proof (rule eval_agree(1))
    have "m ! nat l < int (length zs)" if "remappable m l" for l
    proof -
      have "m ! nat l \<in> set m" using that by (simp add: remappable_def nat_less_iff)
      with assms(2) have "0 \<le> m ! nat l \<and> nat (m ! nat l) < length zs" by blast
      then show ?thesis by linarith
    qed
    then show "\<forall>l \<in> tuple_locs e. tvv (renamed m (at_tuple v zs)) l =
        tvv (at_tuple v (map (\<lambda>i. zs ! nat (m ! i)) [0..<length m])) l"
      using tuple_locs_remapped [OF assms(1)]
      by (auto simp: renamed_def at_tuple_def remappable_def nat_less_iff)
  qed (simp_all add: renamed_def)
  finally show ?thesis .
qed

lemma plain_remap:
  "remapTupleVars m e = Inr e' \<Longrightarrow> plain_exp e \<Longrightarrow> plain_exp e'"
  "term_remapTupleVars m t = Inr t' \<Longrightarrow> plain_term t \<Longrightarrow> plain_term t'"
proof (induction m e and m t arbitrary: e' and t' rule: remapTupleVars_term_remapTupleVars.induct)
  case (1 m ts ty)
  then obtain ts' where ts': "mapr (\<lambda>t. term_remapTupleVars m t) ts = Inr ts'" "e' = Exp ts' ty" "newLocs_ok m"
    by (auto simp: bindr_eq_Inr split: if_splits)
  then have "list_all2 (\<lambda>t t'. plain_term t') ts ts'"
    unfolding mapr_eq_Inr by (elim list.rel_mono_strong) (use 1 ts' in \<open>auto simp: list_all_iff\<close>)
  then show ?case using ts' by (simp add: list_all2_conv_all_nth list_all_length)
next
  case (3 m c f es i)
  then obtain es' where es': "mapr (\<lambda>e. remapTupleVars m e) es = Inr es'" "t' = UFCallTerm c f es' i"
    by (auto simp: bindr_eq_Inr)
  then have "list_all2 (\<lambda>e e'. plain_exp e') es es'"
    unfolding mapr_eq_Inr by (elim list.rel_mono_strong) (use 3 in \<open>auto simp: list_all_iff\<close>)
  then show ?case using es' 3 by (simp add: list_all2_conv_all_nth list_all_length)
qed (auto simp: bindr_eq_Inr remapLocation_Inr remappable_def)

lemma conj_remap_facts:
  assumes remap: "conj_remapTupleVars m c = Inr c'" and p: "plain_conj c"
    and m: "distinct m" "\<forall>l \<in> set m. 0 \<le> l" "length m = conj_arity c"
    and zs: "length zs = conj_arity c'"
  shows "plain_conj c' \<and> wf_tdecl (mTupleDecl c') \<and> mInArity c' = mInArity c
    \<and> conj_arity c' = nat (fold max m (-1) + 1)
    \<and> (holds v c' zs \<longleftrightarrow> holds v c (map (\<lambda>i. zs ! nat (m ! i)) [0..<length m]))"
proof -
  let ?n = "nat (fold max m (-1) + 1)" and ?xs = "map (\<lambda>i. zs ! nat (m ! i)) [0..<length m]"
  obtain eqs ineqs td where
    eqs: "mapr (\<lambda>e. bindr (remapTupleVars m e) (\<lambda>e'. Inr (normalizeForEquality e'))) (mEqualities c) = Inr eqs"
    and ineqs: "mapr (\<lambda>e. remapTupleVars m e) (mInequalities c) = Inr ineqs"
    and td: "foldm (copy_new_loc m (mTupleDecl c)) [0..<length m] (TupleDecl_new ?n) = Inr td"
    and c': "c' = c\<lparr>mEqualities := eqs, mInequalities := ineqs, mTupleDecl := td\<rparr>"
    using remap by (auto simp: conj_remapTupleVars_def bindr_eq_Inr Let_def)
  note decl = copy_new_loc_fold [OF td order_refl m(1,2)]
  have n: "conj_arity c' = ?n" using decl by (simp add: c' conj_arity_def tdecl_size_def)
  have "\<forall>l \<in> insert (-1) (set m). l \<le> fold max m (-1)" by (rule fold_max_ge)
  then have range: "\<forall>l \<in> set m. 0 \<le> l \<and> nat l < length zs"
    using m(2) zs n by (auto dest!: bspec simp: zless_nat_conj nat_less_iff)
  have "list_all2 (\<lambda>e e'. plain_exp e' \<and> (eval_exp (at_tuple v zs) e' = 0 \<longleftrightarrow> eval_exp (at_tuple v ?xs) e = 0))
      (mEqualities c) eqs"
    using eqs unfolding mapr_eq_Inr
    by (elim list.rel_mono_strong)
      (use p remap_eval [OF _ range] plain_remap(1) in
        \<open>auto simp: bindr_eq_Inr plain_conj_def list_all_iff eval_normalizeForEquality plain_intros\<close>)
  then have E: "list_all plain_exp eqs" "zeros (at_tuple v zs) eqs \<longleftrightarrow> zeros (at_tuple v ?xs) (mEqualities c)"
    by (auto simp: list_all2_conv_all_nth list_all_length zeros_def all_set_conv_all_nth)
  have "list_all2 (\<lambda>e e'. plain_exp e' \<and> eval_exp (at_tuple v zs) e' = eval_exp (at_tuple v ?xs) e)
      (mInequalities c) ineqs"
    using ineqs unfolding mapr_eq_Inr
    by (elim list.rel_mono_strong)
      (use p remap_eval [OF _ range] plain_remap(1) in \<open>auto simp: plain_conj_def list_all_iff\<close>)
  then have I: "list_all plain_exp ineqs" "nonnegs (at_tuple v zs) ineqs \<longleftrightarrow> nonnegs (at_tuple v ?xs) (mInequalities c)"
    by (auto simp: list_all2_conv_all_nth list_all_length nonnegs_def all_set_conv_all_nth)
  have "admits td zs \<longleftrightarrow> admits (mTupleDecl c) ?xs"
  proof
    assume a: "admits td zs"
    then show "admits (mTupleDecl c) ?xs"
      using decl m(3) by (auto simp: admits_def conj_arity_def tdecl_size_def)
  next
    assume a: "admits (mTupleDecl c) ?xs"
    show "admits td zs" unfolding admits_def
    proof (intro conjI allI impI)
      show "length zs = mSize td" using zs n decl by simp
      fix j assume "j < mSize td" "elemIsConst td j"
      then obtain i where "i < length m" "j = nat (m ! i)" using decl by auto
      with a decl m(3) \<open>elemIsConst td j\<close> show "zs ! j = elemConstVal td j"
        by (auto simp: admits_def conj_arity_def tdecl_size_def)
    qed
  qed
  with E I decl n show ?thesis by (simp add: c' plain_conj_def holds_def sat_constraints_def)
qed

end
