(* ===== verification/IEG_ConjProps.thy ===== *)
theory IEG_ConjProps
  imports IEG_ConjSem
begin

text \<open>
  The properties of the operations of \<open>Conjunction\<close>, in terms of the tuples that satisfy it.
\<close>

section \<open>Functions among the equalities\<close>

text \<open>Without declared inverses, what \<open>solveForFactor\<close> returns is always a solution.\<close>

lemma invertible_call_loop_none:
  "\<forall>f. invOf f = [] \<Longrightarrow> \<exists>name. invertible_call_loop invOf factor None n ts = Inr (None, name)"
proof (induction ts arbitrary: n)
  case (Cons t ts)
  then show ?case by (cases t) auto
qed simp

lemma solveForFactor_no_inverse:
  assumes inv: "\<forall>f. invOf f = []" and s: "solveForFactor invOf e factor = Inr (Some r)"
    and p: "plain_exp e" "plain_term factor"
  shows "plain_exp r \<and> (\<forall>v. eval_exp v e = 0 \<longleftrightarrow> factor_val v factor = eval_exp v r)"
proof -
  obtain name where "invertible_call_loop invOf factor None [] (mTerms e) = Inr (None, name)"
    using invertible_call_loop_none [OF inv] by blast
  then have none: "invertFuncToExposeFactor invOf e factor = Inr None"
    by (simp add: invertFuncToExposeFactor_def)
  obtain m where m: "findMatchingFactor e factor = Inr m"
    using s by (auto simp: solveForFactor_def bindr_eq_Inr)
  show ?thesis
  proof (cases m)
    case None
    with s m none show ?thesis by (auto simp: solveForFactor_def bindr_eq_Inr)
  next
    case (Some t)
    then have find: "findMatchingFactor e factor = Inr (Some t)" using m by simp
    obtain r' where r': "divideBy (- coefficient t) (addTerm (term_multiplyBy (- coefficient t) factor) e) = Inr r'"
      "plain_exp r'" "\<And>v. eval_exp v e = coefficient t * (factor_val v factor - eval_exp v r')"
      using isolate [OF find p] by blast
    then have "r' = r" using s solveForFactor_direct [OF find, of invOf] by simp
    with r' findMatchingFactor_Some(4) [OF find] show ?thesis by auto
  qed
qed

lemma function_search_Some:
  "function_search invOf accept factor seen es = Inr (Some (s, rest)) \<Longrightarrow>
   \<exists>e \<in> set es. solveForFactor invOf e factor = Inr (Some s) \<and> accept s"
  by (induction es arbitrary: seen) (auto simp: bindr_eq_Inr split: option.splits if_splits)

lemma findFunction_sound:
  assumes find: "findFunction w i lo hi c = Inr (Some s)" and inv: "\<forall>f. inverse_of w f = []"
    and p: "plain_conj c" and wf: "wf_tdecl (mTupleDecl c)"
  shows "0 \<le> i \<and> i < int (conj_arity c) \<and> plain_exp s
    \<and> (\<forall>xs. holds v c xs \<longrightarrow> xs ! nat i = eval_exp (at_tuple v xs) s)
    \<and> (\<forall>l \<in> tuple_locs s. 0 \<le> l \<and> l < int (conj_arity c) \<longrightarrow> lo \<le> l \<and> l \<le> hi)"
proof -
  have range: "0 \<le> i \<and> i < int (conj_arity c)"
    using find wf by (auto simp: findFunction_def conj_arity_def tdecl_size_def wf_tdecl_def split: if_splits)
  show ?thesis
  proof (cases "elemIsConst (mTupleDecl c) (nat i)")
    case True
    then have s: "s = addTerm (Term (elemConstVal (mTupleDecl c) (nat i))) Exp_new"
      using find by (auto simp: findFunction_def split: if_splits)
    have "tuple_locs s = {}" by (simp add: s addTerm_def Exp_new_def)
    moreover have "plain_exp s" unfolding s by (intro plain_intros) simp
    ultimately show ?thesis
      using range True
      by (auto simp: s holds_def admits_def eval_new_addTerm conj_arity_def tdecl_size_def nat_less_iff)
  next
    case False
    then obtain rest where "function_search (inverse_of w) (acceptable (conj_arity c) lo hi)
        (TupleVarTerm 1 i) [] (mEqualities c) = Inr (Some (s, rest))"
      using find by (auto simp: findFunction_def bindr_eq_Inr split: if_splits option.splits)
    then obtain e where e: "e \<in> set (mEqualities c)" "solveForFactor (inverse_of w) e (TupleVarTerm 1 i) = Inr (Some s)"
      and acc: "acceptable (conj_arity c) lo hi s"
      using function_search_Some by blast
    have sol: "plain_exp s \<and> (\<forall>v. eval_exp v e = 0 \<longleftrightarrow> tvv v i = eval_exp v s)"
      using solveForFactor_no_inverse [OF inv e(2)] p e(1) range by (auto simp: plain_conj_def list_all_iff)
    have "xs ! nat i = eval_exp (at_tuple v xs) s" if "holds v c xs" for xs
      using that sol e(1) range
      by (auto simp: holds_def sat_constraints_def zeros_def admits_def at_tuple_def conj_arity_def tdecl_size_def)
    moreover have "lo \<le> l \<and> l \<le> hi" if "l \<in> tuple_locs s" "0 \<le> l" "l < int (conj_arity c)" for l
      using acc that by (auto simp: acceptable_def list_all_iff dependsOn_tuplevar nat_less_iff dest: bspec [of _ _ "nat l"])
    ultimately show ?thesis using sol range by blast
  qed
qed

lemma all_functions_True:
  "all_functions w lo hi c is = Inr True \<Longrightarrow> i \<in> set is \<Longrightarrow> \<exists>s. findFunction w i lo hi c = Inr (Some s)"
  by (induction "is") (auto simp: bindr_eq_Inr split: option.splits)

text \<open>The elements found as functions are determined by the elements in the range.\<close>

lemma all_functions_determined:
  assumes all: "all_functions w lo hi c is = Inr True" and inv: "\<forall>f. inverse_of w f = []"
    and p: "plain_conj c" and wf: "wf_tdecl (mTupleDecl c)"
    and h: "holds v c xs" "holds v c ys"
    and agree: "\<forall>j. lo \<le> int j \<longrightarrow> int j \<le> hi \<longrightarrow> j < conj_arity c \<longrightarrow> xs ! j = ys ! j" and i: "int j \<in> set is"
  shows "xs ! j = ys ! j"
proof -
  obtain s where s: "findFunction w (int j) lo hi c = Inr (Some s)"
    using all_functions_True [OF all i] by blast
  note f = findFunction_sound [OF s inv p wf, of v]
  have len: "length xs = conj_arity c" "length ys = conj_arity c"
    using h by (simp_all add: holds_def admits_def conj_arity_def tdecl_size_def)
  have "eval_exp (at_tuple v xs) s = eval_exp (at_tuple v ys) s"
  proof (rule eval_agree(1))
    show "\<forall>l \<in> tuple_locs s. tvv (at_tuple v xs) l = tvv (at_tuple v ys) l"
      using f agree len by (auto simp: at_tuple_def nat_less_iff)
  qed simp_all
  with f h show ?thesis by simp
qed

section \<open>Properties\<close>

text \<open>
  Adding a constraint intersects the tuples of the conjunction with the solutions of the
  constraint, keeps the lists sorted and free of duplicates, and keeps the declaration.
\<close>

lemma addConstraint_holds:
  assumes "plain_conj c" and "sorted_conj c" and "plain_exp e"
  shows "(holds v (addEquality ad e c) xs \<longleftrightarrow> holds v c xs \<and> eval_exp (at_tuple v xs) e = 0)
    \<and> (holds v (addInequality ad e c) xs \<longleftrightarrow> holds v c xs \<and> eval_exp (at_tuple v xs) e \<ge> 0)
    \<and> sorted_conj (addEquality ad e c) \<and> sorted_conj (addInequality ad e c)"
  using assms sat_addEquality [of e c ad] sat_addInequality [of e c ad] addEquality_list [of e c ad v]
    addInequality_list [of e c ad v]
  by (simp add: holds_def sorted_conj_def plain_conj_def)

text \<open>
  C20. \<open>cleanUp\<close> keeps the tuples of the conjunction and establishes the order of its lists,
  under valuations that respect the inverses that \<open>collapseNestedInvertibleFunctions\<close> uses.
\<close>

theorem cleanUp_holds:
  assumes "cleanUp w c = Inr c'" and "plain_conj c" and "nests_ok_conj (inverse_of w) c"
    and "inverts (inverse_of w) v"
  shows "sorted_conj c' \<and> plain_conj c' \<and> (holds v c' xs \<longleftrightarrow> holds v c xs)"
  using cleanUp_facts [OF assms(1-3), of "at_tuple v xs"] assms(4) by (simp add: holds_def)

theorem cleanUp_holds_witness:
  "let w = \<lparr>address_order = no_addr, key_address = (\<lambda>n. n), inverse_of = (\<lambda>f. []), range_arity = (\<lambda>f. Inr 1)\<rparr>;
       x = \<lambda>k. Exp [TupleVarTerm k 0] Equality;
       c = (Conjunction_new 1)\<lparr>mEqualities := [x 2, x (-2)]\<rparr>;
       v = \<lparr>tvv = \<lambda>l. 0, symv = \<lambda>s. 4, ufv = \<lambda>f i xs. 0\<rparr>
   in cleanUp w c = Inr (c\<lparr>mEqualities := [x 2]\<rparr>) \<and> holds v (c\<lparr>mEqualities := [x 2]\<rparr>) [0]"
proof -
  let ?w = "\<lparr>address_order = no_addr, key_address = (\<lambda>n. n), inverse_of = (\<lambda>f. []), range_arity = (\<lambda>f. Inr 1)\<rparr>"
  let ?x = "\<lambda>k. Exp [TupleVarTerm k 0] Equality"
  let ?c = "(Conjunction_new 1)\<lparr>mEqualities := [?x 2, ?x (-2)]\<rparr>"
  let ?v = "\<lparr>tvv = \<lambda>l. 0, symv = \<lambda>s. 4, ufv = \<lambda>f i xs. 0\<rparr>"
  have clean: "cleanUp ?w ?c = Inr (?c\<lparr>mEqualities := [?x 2]\<rparr>)" by code_simp
  have "holds ?v (?c\<lparr>mEqualities := [?x 2]\<rparr>) [0] \<longleftrightarrow> holds ?v ?c [0]"
    using cleanUp_holds [OF clean, of ?v "[0]"]
    by (simp add: plain_conj_def nests_ok_conj_def inverts_def Conjunction_new_def Conjunction_tdecl_def)
  moreover have "holds ?v ?c [0]"
    by (simp add: holds_def sat_constraints_def zeros_def nonnegs_def Conjunction_new_def Conjunction_tdecl_def
        admits_def TupleDecl_new_def elemIsConst_def at_tuple_def)
  ultimately show ?thesis using clean by simp
qed

definition substituted :: "submap \<Rightarrow> conj \<Rightarrow> conj" where
  "substituted m c = c\<lparr>mEqualities := map (substitute (subExp m)) (mEqualities c),
     mInequalities := map (substitute (subExp m)) (mInequalities c)\<rparr>"

lemma sat_substituted:
  assumes "submap.sound v m" and "plain_conj c"
  shows "plain_conj (substituted m c) \<and> (sat_constraints v (substituted m c) \<longleftrightarrow> sat_constraints v c)"
  using assms submap.substitute_look_sound [OF assms(1)]
  by (auto simp: substituted_def plain_conj_def sat_constraints_def zeros_def nonnegs_def list_all_iff)


text \<open>
  C26. Substituting in all constraints keeps the tuples that satisfy them, if each substituted
  expression equals its key under those tuples.
\<close>

theorem substituteInConstraints_holds:
  assumes "substituteInConstraints w m c = Inr c'" and "plain_conj c"
    and "nests_ok_conj (inverse_of w) (substituted m c)" and "inverts (inverse_of w) v"
    and "\<forall>(k, s) \<in> pairs_of m. plain_term k \<and> plain_exp s
      \<and> eval_exp (at_tuple v xs) s = factor_val (at_tuple v xs) k"
  shows "sorted_conj c' \<and> plain_conj c' \<and> (holds v c' xs \<longleftrightarrow> holds v c xs)"
proof -
  have sub: "plain_conj (substituted m c)
      \<and> (sat_constraints (at_tuple v xs) (substituted m c) \<longleftrightarrow> sat_constraints (at_tuple v xs) c)"
    by (rule sat_substituted) (use assms(2,5) in \<open>simp_all add: submap.sound_def\<close>)
  have "cleanUp w (substituted m c) = Inr c'"
    using assms(1) by (simp add: substituteInConstraints_def substituted_def)
  from cleanUp_facts [OF this _ assms(3), of "at_tuple v xs"] assms(4) sub show ?thesis
    by (simp add: holds_def substituted_def)
qed

theorem substituteInConstraints_holds_witness:
  "let w = \<lparr>address_order = no_addr, key_address = (\<lambda>n. n), inverse_of = (\<lambda>f. []), range_arity = (\<lambda>f. Inr 1)\<rparr>;
       m = insertPair 1 (VarTerm 1 ''n'') (Exp [Term 4] Expression) SubMap_new;
       c = (Conjunction_new 1)\<lparr>mEqualities := [Exp [TupleVarTerm 1 0, VarTerm (-1) ''n''] Equality]\<rparr>;
       c' = (Conjunction_new 1)\<lparr>mEqualities := [Exp [TupleVarTerm 1 0, Term (-4)] Equality]\<rparr>;
       v = \<lparr>tvv = \<lambda>l. 0, symv = \<lambda>s. 4, ufv = \<lambda>f i xs. 0\<rparr>
   in substituteInConstraints w m c = Inr c' \<and> (holds v c' [4] \<longleftrightarrow> holds v c [4])"
proof -
  let ?w = "\<lparr>address_order = no_addr, key_address = (\<lambda>n. n), inverse_of = (\<lambda>f. []), range_arity = (\<lambda>f. Inr 1)\<rparr>"
  let ?m = "insertPair 1 (VarTerm 1 ''n'') (Exp [Term 4] Expression) SubMap_new"
  let ?c = "(Conjunction_new 1)\<lparr>mEqualities := [Exp [TupleVarTerm 1 0, VarTerm (-1) ''n''] Equality]\<rparr>"
  let ?c' = "(Conjunction_new 1)\<lparr>mEqualities := [Exp [TupleVarTerm 1 0, Term (-4)] Equality]\<rparr>"
  let ?v = "\<lparr>tvv = \<lambda>l. 0, symv = \<lambda>s. 4, ufv = \<lambda>f i xs. 0\<rparr>"
  have sub: "substituteInConstraints ?w ?m ?c = Inr ?c'" by code_simp
  have "substituted ?m ?c = ?c'" by code_simp
  then have "nests_ok_conj (inverse_of ?w) (substituted ?m ?c)"
    by (simp add: nests_ok_conj_def Conjunction_new_def Conjunction_tdecl_def)
  then have "holds ?v ?c' [4] \<longleftrightarrow> holds ?v ?c [4]"
    using substituteInConstraints_holds [OF sub, of ?v "[4]"]
    by (simp add: plain_conj_def inverts_def Conjunction_new_def Conjunction_tdecl_def pairs_of_def
        insertPair_def SubMap_new_def wf_name_def is_ident_def is_digit_def)
  with sub show ?thesis by simp
qed

text \<open>
  Intersecting two conjunctions conjoins their constraints; it is the intersection of
  their tuples if the tuples of the first declaration are tuples of the second.
\<close>

lemma conj_Intersect_holds:
  assumes "plain_conj a" and "plain_conj b" and "sorted_conj a"
  shows "(holds v (conj_Intersect ad a b) xs \<longleftrightarrow> holds v a xs \<and> sat_constraints (at_tuple v xs) b)
    \<and> ((admits (mTupleDecl a) xs \<longrightarrow> admits (mTupleDecl b) xs) \<longrightarrow>
        (holds v (conj_Intersect ad a b) xs \<longleftrightarrow> holds v a xs \<and> holds v b xs))
    \<and> sorted_conj (conj_Intersect ad a b)"
  using add_constraints_facts [OF assms(1,2), of ad "at_tuple v xs"] assms(3)
  by (auto simp: conj_Intersect_def holds_def)

text \<open>
  Without that proviso the constants of the second declaration are lost: intersecting the
  one-element tuples with the tuple \<open>[5]\<close> gives all one-element tuples. \<open>Restrict\<close> is the same.
\<close>

theorem conj_Intersect_constants:
  "let b = Conjunction_tdecl \<lparr>mSize = 1, mIsConst = [True], mConstVal = [5], mVarString = [''x'']\<rparr>;
       v = \<lparr>tvv = \<lambda>l. 0, symv = \<lambda>s. 4, ufv = \<lambda>f i xs. 0\<rparr>
   in holds v (conj_Intersect no_addr (Conjunction_new 1) b) [7] \<and> \<not> holds v b [7]"
  by (simp add: holds_def sat_constraints_def zeros_def nonnegs_def Conjunction_new_def Conjunction_tdecl_def
      admits_def TupleDecl_new_def elemIsConst_def elemConstVal_def conj_Intersect_def add_constraints_def)

lemma fold_max_perm:
  assumes "set m = int ` {0..<n}"
  shows "fold max m (-1) = int n - 1"
proof -
  have "fold max m (-1) \<in> insert (-1) (set m)"
  proof -
    have "fold max m a \<in> insert a (set m)" for a :: int and m
    proof (induction m arbitrary: a)
      case (Cons x m)
      from Cons.IH [of "max x a"] show ?case by (auto simp: max_def split: if_splits)
    qed simp
    then show ?thesis by blast
  qed
  then have le: "fold max m (-1) \<le> int n - 1" using assms by auto
  have ge: "l \<le> fold max m (-1)" if "l \<in> insert (-1) (set m)" for l
    using fold_max_ge [of "-1" m] that by blast
  have "int n - 1 \<le> fold max m (-1)"
  proof (cases n)
    case (Suc k)
    then have "int k \<in> set m" using assms by simp
    with ge [of "int k"] Suc show ?thesis by simp
  qed (use ge [of "-1"] in simp)
  with le show ?thesis by simp
qed

lemma nat_ints: "nat (int a + int b) = a + b" "nat (int a - int b) = a - b"
  by (simp_all add: nat_add_distrib nat_diff_distrib')

lemma swap_tuple:
  assumes "length xs = n" and "length ys = k"
  shows "map (\<lambda>i. (ys @ xs) ! nat (map int ([k..<k + n] @ [0..<k]) ! i)) [0..<n + k] = xs @ ys"
proof (rule nth_equalityI)
  fix i assume "i < length (map (\<lambda>i. (ys @ xs) ! nat (map int ([k..<k + n] @ [0..<k]) ! i)) [0..<n + k])"
  then have i: "i < n + k" by simp
  then show "map (\<lambda>i. (ys @ xs) ! nat (map int ([k..<k + n] @ [0..<k]) ! i)) [0..<n + k] ! i = (xs @ ys) ! i"
    using assms i by (cases "i < n"; cases "i - n < k") (simp_all add: nth_append nat_ints)
qed (simp add: assms)

lemma conj_Inverse_facts:
  assumes inv: "conj_Inverse c = Inr c'" and p: "plain_conj c"
    and lens: "int (length xs) = mInArity c" "length xs + length ys = conj_arity c"
  shows "plain_conj c' \<and> mInArity c' = int (length ys) \<and> conj_arity c' = conj_arity c
    \<and> (holds v c' (ys @ xs) \<longleftrightarrow> holds v c (xs @ ys))"
proof -
  let ?n = "length xs" and ?k = "length ys"
  let ?m = "map int ([?k..<?k + ?n] @ [0..<?k])" and ?c = "c\<lparr>mInArity := int ?k\<rparr>"
  have "int (tdecl_size (mTupleDecl c)) - mInArity c = int ?k"
    using lens by (simp add: conj_arity_def)
  moreover have "tdecl_size (mTupleDecl c) = ?k + ?n" using lens by (simp add: conj_arity_def)
  ultimately have remap: "conj_remapTupleVars ?m ?c = Inr c'"
    using inv lens(1) [symmetric] by (simp add: conj_Inverse_def Let_def nat_ints)
  have "{?k..<?k + ?n} \<union> {0..<?k} = {0..<?n + ?k}" by auto
  then have "set ?m = int ` {0..<?n + ?k}" by (simp flip: image_Un)
  then have max: "fold max ?m (-1) = int (?n + ?k) - 1" by (rule fold_max_perm)
  have d: "distinct ?m" by (simp add: distinct_map inj_on_def) auto
  have "plain_conj ?c" "conj_arity ?c = ?n + ?k"
    using p lens by (simp_all add: plain_conj_def conj_arity_def)
  have nn: "\<forall>l \<in> set ?m. 0 \<le> l" by auto
  note facts = conj_remap_facts [OF remap \<open>plain_conj ?c\<close> d nn]
  have arity': "conj_arity c' = ?n + ?k"
    using facts [of "replicate (conj_arity c') 0"] max \<open>conj_arity ?c = _\<close> by (auto simp: nat_ints)
  have "plain_conj c' \<and> mInArity c' = int ?k
      \<and> (holds v c' (ys @ xs) \<longleftrightarrow> holds v ?c (map (\<lambda>i. (ys @ xs) ! nat (?m ! i)) [0..<length ?m]))"
    using facts [of "ys @ xs" v] arity' \<open>conj_arity ?c = _\<close> by simp
  moreover have "map (\<lambda>i. (ys @ xs) ! nat (?m ! i)) [0..<length ?m] = xs @ ys"
    using swap_tuple [of xs ?n ys ?k] by (simp add: add.commute)
  moreover have "holds v ?c = holds v c" by (rule ext) (simp add: holds_def sat_constraints_def)
  ultimately show ?thesis using arity' lens by simp
qed

text \<open>
  C14. The inverse of a relation holds of the swapped tuples: of \<open>ys @ xs\<close> exactly if the
  relation holds of \<open>xs @ ys\<close>, where \<open>xs\<close> has the input arity.
\<close>

theorem conj_Inverse_holds:
  assumes "conj_Inverse c = Inr c'" and "plain_conj c"
    and "int (length xs) = mInArity c" and "length xs + length ys = conj_arity c"
  shows "mInArity c' = int (length ys) \<and> (holds v c' (ys @ xs) \<longleftrightarrow> holds v c (xs @ ys))"
  using conj_Inverse_facts [OF assms] by simp

theorem conj_Inverse_holds_witness:
  "let c = (Conjunction_rel 2 1)\<lparr>mEqualities := [Exp [TupleVarTerm 1 0, TupleVarTerm (-2) 1] Equality]\<rparr>;
       v = \<lparr>tvv = \<lambda>l. 0, symv = \<lambda>s. 4, ufv = \<lambda>f i xs. 0\<rparr>
   in \<exists>c'. conj_Inverse c = Inr c' \<and> holds v c' ([3] @ [6])"
proof -
  let ?c = "(Conjunction_rel 2 1)\<lparr>mEqualities := [Exp [TupleVarTerm 1 0, TupleVarTerm (-2) 1] Equality]\<rparr>"
  let ?v = "\<lparr>tvv = \<lambda>l. 0, symv = \<lambda>s. 4, ufv = \<lambda>f i xs. 0\<rparr>"
  have "isl (conj_Inverse ?c) = False" by code_simp
  then obtain c' where c': "conj_Inverse ?c = Inr c'" by (cases "conj_Inverse ?c") auto
  have "holds ?v ?c ([6] @ [3])"
    by (simp add: holds_def sat_constraints_def zeros_def nonnegs_def Conjunction_rel_def Conjunction_new_def
        Conjunction_tdecl_def admits_def TupleDecl_new_def elemIsConst_def at_tuple_def nth_Cons')
  then have "holds ?v c' ([3] @ [6])"
    using conj_Inverse_holds [OF c', of "[6]" "[3]" ?v]
    by (simp add: plain_conj_def Conjunction_rel_def Conjunction_new_def Conjunction_tdecl_def conj_arity_def
        tdecl_size_def TupleDecl_new_def)
  with c' show ?thesis by auto
qed

text \<open>
  Moving the constants of the declaration into equality constraints keeps the tuples and
  leaves a declaration without constants.
\<close>

lemma pushConstToConstraints_holds:
  assumes "pushConstToConstraints ad c = Inr c'" and "plain_conj c" and "wf_tdecl (mTupleDecl c)"
  shows "(holds v c' xs \<longleftrightarrow> holds v c xs) \<and> conj_arity c' = conj_arity c
    \<and> (\<forall>i < conj_arity c'. \<not> elemIsConst (mTupleDecl c') i)"
  using pushConstToConstraints_facts [OF assms] by simp

text \<open>
  The opposite move loses contradictions. Two equalities that give one tuple variable different
  constants are both removed and the last constant is kept: the conjunction
  \<open>x - 2 = 0 && x - 1 = 0\<close>, which no tuple satisfies, becomes the tuple \<open>[1]\<close>.
\<close>

theorem pushConstConstraints_contradiction:
  "let w = \<lparr>address_order = no_addr, key_address = (\<lambda>n. n), inverse_of = (\<lambda>f. []), range_arity = (\<lambda>f. Inr 1)\<rparr>;
       x = \<lambda>k. Exp [TupleVarTerm 1 0, Term k] Equality;
       c = (Conjunction_new 1)\<lparr>mEqualities := [x (-2), x (-1)]\<rparr>
   in sorted_wrt (<) (map ekey (mEqualities c))
      \<and> pushConstConstraintsToTupleDecl w c =
          Inr (Conjunction_tdecl \<lparr>mSize = 1, mIsConst = [True], mConstVal = [1], mVarString = [''tv0'']\<rparr>)"
proof -
  let ?w = "\<lparr>address_order = no_addr, key_address = (\<lambda>n. n), inverse_of = (\<lambda>f. []), range_arity = (\<lambda>f. Inr 1)\<rparr>"
  let ?x = "\<lambda>k. Exp [TupleVarTerm 1 0, Term k] Equality"
  have "pushConstConstraintsToTupleDecl ?w ((Conjunction_new 1)\<lparr>mEqualities := [?x (-2), ?x (-1)]\<rparr>) =
      Inr (Conjunction_tdecl \<lparr>mSize = 1, mIsConst = [True], mConstVal = [1], mVarString = [''tv0'']\<rparr>)"
    by code_simp
  then show ?thesis by (simp add: ekey_def tkey_def)
qed

text \<open>
  C27. \<open>isFunction\<close> and \<open>isFunctionInverse\<close> are right when they answer yes: the input
  elements determine the output elements, and the other way round. Here no function is declared
  to have an inverse.
\<close>

theorem isFunction_sound:
  assumes "plain_conj c" and "wf_tdecl (mTupleDecl c)" and "\<forall>f. inverse_of w f = []"
    and "holds v c (xs @ ys)" and "holds v c (xs' @ ys')" and "length xs = n" and "length xs' = n"
  shows "(isFunction w (int n) c = Inr True \<longrightarrow> xs = xs' \<longrightarrow> ys = ys')
    \<and> (isFunctionInverse w (int n) c = Inr True \<longrightarrow> ys = ys' \<longrightarrow> xs = xs')"
proof -
  have len: "n + length ys = conj_arity c" "n + length ys' = conj_arity c"
    using assms(4-7) by (simp_all add: holds_def admits_def conj_arity_def tdecl_size_def)
  have "ys = ys'" if f: "isFunction w (int n) c = Inr True" and x: "xs = xs'"
  proof (rule nth_equalityI)
    fix j assume j: "j < length ys"
    have "(xs @ ys) ! (n + j) = (xs' @ ys') ! (n + j)"
      by (rule all_functions_determined [OF f [unfolded isFunction_def] assms(3,1,2,4,5)])
        (use x j len assms(6,7) in \<open>auto simp: nth_append\<close>)
    then show "ys ! j = ys' ! j" using assms(6,7) by (simp add: nth_append)
  qed (use len in simp)
  moreover have "xs = xs'" if f: "isFunctionInverse w (int n) c = Inr True" and y: "ys = ys'"
  proof (rule nth_equalityI)
    fix j assume j: "j < length xs"
    have "(xs @ ys) ! j = (xs' @ ys') ! j"
      by (rule all_functions_determined [OF f [unfolded isFunctionInverse_def] assms(3,1,2,4,5)])
        (use y j len assms(6,7) in \<open>auto simp: nth_append\<close>)
    then show "xs ! j = xs' ! j" using assms(6,7) j by (simp add: nth_append)
  qed (use assms(6,7) in simp)
  ultimately show ?thesis by blast
qed

theorem isFunction_sound_witness:
  "let w = \<lparr>address_order = no_addr, key_address = (\<lambda>n. n), inverse_of = (\<lambda>f. []), range_arity = (\<lambda>f. Inr 1)\<rparr>;
       c = (Conjunction_rel 2 1)\<lparr>mEqualities := [Exp [TupleVarTerm 2 0, TupleVarTerm (-1) 1] Equality]\<rparr>;
       v = \<lparr>tvv = \<lambda>l. 0, symv = \<lambda>s. 4, ufv = \<lambda>f i xs. 0\<rparr>
   in isFunction w (int 1) c = Inr True \<and> holds v c ([3] @ [6]) \<and> ([3] = [3] \<longrightarrow> [6::int] = [6])"
proof -
  let ?w = "\<lparr>address_order = no_addr, key_address = (\<lambda>n. n), inverse_of = (\<lambda>f. []), range_arity = (\<lambda>f. Inr 1)\<rparr>"
  let ?c = "(Conjunction_rel 2 1)\<lparr>mEqualities := [Exp [TupleVarTerm 2 0, TupleVarTerm (-1) 1] Equality]\<rparr>"
  let ?v = "\<lparr>tvv = \<lambda>l. 0, symv = \<lambda>s. 4, ufv = \<lambda>f i xs. 0\<rparr>"
  have f: "isFunction ?w (int 1) ?c = Inr True" by code_simp
  have h: "holds ?v ?c ([3] @ [6])"
    by (simp add: holds_def sat_constraints_def zeros_def nonnegs_def Conjunction_rel_def Conjunction_new_def
        Conjunction_tdecl_def admits_def TupleDecl_new_def elemIsConst_def at_tuple_def nth_Cons')
  have "isFunction ?w (int 1) ?c = Inr True \<longrightarrow> [3::int] = [3] \<longrightarrow> [6::int] = [6]"
    using isFunction_sound [OF _ _ _ h h, of ?w 1]
    by (simp add: plain_conj_def wf_tdecl_def Conjunction_rel_def Conjunction_new_def Conjunction_tdecl_def
        TupleDecl_new_def)
  with f h show ?thesis by simp
qed

end
