(* ===== verification/IEG_Functions.thy ===== *)
theory IEG_Functions
  imports IEG_ConjProps
begin

text \<open>
  A function that \<open>isFunction\<close> finds in an operand of \<open>Compose\<close> or \<open>Apply\<close> is found again by \<open>findFunction\<close>
  among the constraints of both operands, after constants have become equalities and the tuple variables have
  been renumbered. So no missing function is ever stored in the substitution of the inner tuple.
\<close>

section \<open>Equalities that expose a tuple variable\<close>

text \<open>The equality has one term with the variable, its coefficient divides the others, and only tuple variables of \<open>L\<close>
  with a smaller location come in front of it; all other terms mention tuple variables of \<open>L\<close> only.\<close>

definition exposes :: "int \<Rightarrow> int set \<Rightarrow> exp \<Rightarrow> bool" where
  "exposes i L e \<longleftrightarrow> (\<exists>as c bs. mTerms e = as @ TupleVarTerm c i # bs \<and> c \<noteq> 0
     \<and> (\<forall>u \<in> set as. \<exists>d l. u = TupleVarTerm d l \<and> l < i)
     \<and> (\<forall>u \<in> set as \<union> set bs. c dvd coefficient u \<and> term_locs u \<subseteq> L))"

lemma exposesI:
  "mTerms e = as @ TupleVarTerm c i # bs \<Longrightarrow> c \<noteq> 0 \<Longrightarrow> (\<forall>u \<in> set as. \<exists>d l. u = TupleVarTerm d l \<and> l < i) \<Longrightarrow>
   (\<forall>u \<in> set as \<union> set bs. c dvd coefficient u \<and> term_locs u \<subseteq> L) \<Longrightarrow> exposes i L e"
  by (auto simp: exposes_def)

lemma exposes_mono: "exposes i L e \<Longrightarrow> L \<subseteq> L' \<Longrightarrow> exposes i L' e"
  unfolding exposes_def by (elim exE) (metis (no_types, lifting) subset_trans)

lemma exposes_terms: "mTerms e = mTerms e' \<Longrightarrow> exposes i L e = exposes i L e'"
  by (simp add: exposes_def)

lemma exposes_setEquality [simp]: "exposes i L (setEquality e) = exposes i L e"
  by (rule exposes_terms) (cases e; simp)

lemma exposes_not_zero: "exposes i L e \<Longrightarrow> \<not> equalsZero e"
  by (auto simp: exposes_def equalsZero_def)

lemma tuplevar_factorMatches: "factorMatches u (TupleVarTerm d i) \<longleftrightarrow> (\<exists>c. u = TupleVarTerm c i)"
  by (cases u) (auto simp: factorMatches_def term_factorMatches_def)

lemma tuplevar_before:
  "\<not> isTupleExp u \<Longrightarrow> \<not> factorMatches u (TupleVarTerm d i) \<Longrightarrow>
   \<not> trm_less ad (TupleVarTerm d i) u \<longleftrightarrow> (\<exists>c l. u = TupleVarTerm c l \<and> l < i)"
  by (cases u) (auto simp: trm_less_def factorMatches_def compareTermTypes_def less_termtype_def)

text \<open>Subtracting the term with the variable removes it, and nothing else, exactly if no term in front of it comes after
  the variable in the order of terms.\<close>

lemma addTerm_loop_cancel:
  "\<forall>u \<in> set as. \<exists>d l. u = TupleVarTerm d l \<and> l < i \<Longrightarrow>
   addTerm_loop (TupleVarTerm (- c) i) (as @ TupleVarTerm c i # bs) = as @ bs"
proof (induction as)
  case Nil
  then show ?case by (simp add: combine_eq tuplevar_factorMatches)
next
  case (Cons u as)
  then have "\<not> factorMatches u (TupleVarTerm (- c) i)" "\<not> isTupleExp u" by (auto simp: tuplevar_factorMatches)
  with Cons tuplevar_before [of u "- c" i no_addr] show ?case by (simp add: combine_eq)
qed

lemma addTerm_loop_cancelled:
  "addTerm_loop (TupleVarTerm (- c) i) ts = rs \<Longrightarrow> c \<noteq> 0 \<Longrightarrow> \<forall>u \<in> set ts. \<not> isTupleExp u \<Longrightarrow>
   \<forall>u \<in> set rs. i \<notin> term_locs u \<Longrightarrow>
   \<exists>as bs. ts = as @ TupleVarTerm c i # bs \<and> rs = as @ bs \<and> (\<forall>u \<in> set as. \<exists>d l. u = TupleVarTerm d l \<and> l < i)"
proof (induction ts arbitrary: rs)
  case (Cons u us)
  show ?case
  proof (cases "factorMatches u (TupleVarTerm (- c) i)")
    case True
    then obtain d where u: "u = TupleVarTerm d i" by (auto simp: tuplevar_factorMatches)
    with Cons.prems have "d = c" by (auto simp: combine_eq True split: if_splits)
    with u Cons.prems True show ?thesis by (intro exI [of _ "[]"] exI [of _ us]) (auto simp: combine_eq)
  next
    case False
    with Cons.prems have before: "\<not> trm_less no_addr (TupleVarTerm (- c) i) u" by (auto simp: combine_eq)
    then have rs: "rs = u # addTerm_loop (TupleVarTerm (- c) i) us"
      using Cons.prems False by (auto simp: combine_eq)
    then obtain as bs where "us = as @ TupleVarTerm c i # bs" "addTerm_loop (TupleVarTerm (- c) i) us = as @ bs"
      "\<forall>u \<in> set as. \<exists>d l. u = TupleVarTerm d l \<and> l < i"
      using Cons.IH [OF refl Cons.prems(2)] Cons.prems(3,4) by auto
    moreover have "\<exists>d l. u = TupleVarTerm d l \<and> l < i"
      using tuplevar_before [OF _ False, of no_addr] before Cons.prems(3) by simp
    ultimately show ?thesis using rs by (intro exI [of _ "u # as"] exI [of _ bs]) auto
  qed
qed auto

lemma term_locs_setCoefficient [simp]: "term_locs (setCoefficient c t) = term_locs t"
  by (cases t) simp_all

lemma tuple_locs_mTerms: "tuple_locs e = (\<Union>t \<in> set (mTerms e). term_locs t)"
  by (cases e) simp

text \<open>Solving for the variable finds a solution over \<open>L\<close> exactly in the equalities that expose it.\<close>

lemma solve_exposes:
  assumes s: "solveForFactor invOf e (TupleVarTerm 1 i) = Inr (Some s)" and inv: "\<forall>f. invOf f = []"
    and p: "plain_exp e" and L: "tuple_locs s \<subseteq> L" "i \<notin> L"
  shows "exposes i L e"
proof -
  let ?t = "TupleVarTerm 1 i"
  obtain name where "invertible_call_loop invOf ?t None [] (mTerms e) = Inr (None, name)"
    using invertible_call_loop_none [OF inv] by blast
  then have none: "invertFuncToExposeFactor invOf e ?t = Inr None" by (simp add: invertFuncToExposeFactor_def)
  obtain t where t: "findMatchingFactor e ?t = Inr (Some t)"
    using s none by (auto simp: solveForFactor_def bindr_eq_Inr split: option.splits)
  note f = findMatchingFactor_Some [OF t]
  obtain c where c: "t = TupleVarTerm c i" using f(3) by (auto simp: tuplevar_factorMatches)
  then have c0: "c \<noteq> 0" and dvd: "\<forall>u \<in> set (mTerms e). c dvd coefficient u" using f(4,5) by simp_all
  let ?rs = "addTerm_loop (TupleVarTerm (- c) i) (mTerms e)"
  have d: "divideBy (- c) (addTerm (TupleVarTerm (- c) i) e) = Inr s"
    using s solveForFactor_direct [OF t, of invOf] by (simp add: c term_multiplyBy_def bindr_eq_Inr)
  have rs: "mTerms (addTerm (TupleVarTerm (- c) i) e) = ?rs" using c0 by (simp add: addTerm_def)
  have "s = Exp (map (\<lambda>u. setCoefficient (coefficient u div (- c)) u) ?rs) (mExpType (addTerm (TupleVarTerm (- c) i) e))"
    using d divideBy_success [OF d] divideBy_Inr [of "- c" "addTerm (TupleVarTerm (- c) i) e"] c0 rs by simp
  then have locs: "(\<Union>u \<in> set ?rs. term_locs u) \<subseteq> L" using L(1) by auto
  obtain as bs where ab: "mTerms e = as @ TupleVarTerm c i # bs" "?rs = as @ bs"
    "\<forall>u \<in> set as. \<exists>d l. u = TupleVarTerm d l \<and> l < i"
    using addTerm_loop_cancelled [OF refl c0, of "mTerms e" i] locs L(2) plain_set_mTerms [OF p] plain_not_tuple by blast
  show ?thesis
    by (rule exposesI [OF ab(1) c0 ab(3)]) (use dvd locs ab(1,2) in auto)
qed

lemma exposes_solve:
  assumes e: "exposes i L e" and i: "i \<notin> L"
  shows "\<exists>s. solveForFactor invOf e (TupleVarTerm 1 i) = Inr (Some s) \<and> tuple_locs s \<subseteq> L"
proof -
  obtain as c bs where ts: "mTerms e = as @ TupleVarTerm c i # bs" and c0: "c \<noteq> 0"
    and as: "\<forall>u \<in> set as. \<exists>d l. u = TupleVarTerm d l \<and> l < i"
    and rest: "\<forall>u \<in> set as \<union> set bs. c dvd coefficient u \<and> term_locs u \<subseteq> L"
    using e by (auto simp: exposes_def)
  have div: "isDivisible c e = Inr True" using rest c0 by (auto simp: isDivisible_eq ts)
  have "find_factor_loop e (TupleVarTerm 1 i) (as @ TupleVarTerm c i # bs) = Inr (Some (TupleVarTerm c i))"
    using as by (induction as) (auto simp: tuplevar_factorMatches div)
  then have t: "findMatchingFactor e (TupleVarTerm 1 i) = Inr (Some (TupleVarTerm c i))"
    by (simp add: findMatchingFactor_def check_factor_def ts)
  let ?e = "addTerm (TupleVarTerm (- c) i) e"
  have rs: "mTerms ?e = as @ bs" using c0 addTerm_loop_cancel [OF as] by (simp add: addTerm_def ts)
  then have "divideBy (- c) ?e = Inr (Exp (map (\<lambda>u. setCoefficient (coefficient u div (- c)) u) (as @ bs)) (mExpType ?e))"
    using divideBy_Inr [of "- c" ?e] rest c0 by simp
  then show ?thesis
    using solveForFactor_direct [OF t, of invOf] rest by (auto simp: term_multiplyBy_def)
qed

section \<open>Normalizing and renumbering\<close>

lemma exposes_normalize:
  assumes "exposes i L e"
  shows "exposes i L (normalizeForEquality e)"
proof -
  obtain as c bs where ts: "mTerms e = as @ TupleVarTerm c i # bs" and c0: "c \<noteq> 0"
    and as: "\<forall>u \<in> set as. \<exists>d l. u = TupleVarTerm d l \<and> l < i"
    and rest: "\<forall>u \<in> set as \<union> set bs. c dvd coefficient u \<and> term_locs u \<subseteq> L"
    using assms by (auto simp: exposes_def)
  have neg: "exposes i L (multiplyBy (-1) e)"
    by (rule exposesI [where as = "map (term_multiplyBy (-1)) as" and c = "- c" and bs = "map (term_multiplyBy (-1)) bs"])
      (use ts c0 as rest in \<open>auto simp: multiplyBy_def term_multiplyBy_def ball_Un dest: bspec\<close>)
  have drop: "exposes i L (Exp (butlast (mTerms x)) ty)" if x: "exposes i L x" "coefficient (last (mTerms x)) = 0" for x ty
  proof -
    obtain as c bs where x': "mTerms x = as @ TupleVarTerm c i # bs" "c \<noteq> 0"
      "\<forall>u \<in> set as. \<exists>d l. u = TupleVarTerm d l \<and> l < i"
      "\<forall>u \<in> set as \<union> set bs. c dvd coefficient u \<and> term_locs u \<subseteq> L"
      using x(1) by (auto simp: exposes_def)
    then have "bs \<noteq> []" using x(2) by auto
    then have "butlast (mTerms x) = as @ TupleVarTerm c i # butlast bs" using x'(1) by (simp add: butlast_append)
    then show ?thesis using x' in_set_butlastD by (intro exposesI [of _ as c i "butlast bs"]) fastforce+
  qed
  show ?thesis using assms neg drop ts by (simp add: normalizeForEquality_def Let_def)
qed

lemma list_all2_locs:
  assumes "list_all2 R xs ys" and "\<And>x y. x \<in> set xs \<Longrightarrow> R x y \<Longrightarrow> A x \<and> f y = g ` h x"
  shows "(\<forall>x \<in> set xs. A x) \<and> (\<Union>y \<in> set ys. f y) = g ` (\<Union>x \<in> set xs. h x)"
  using assms
proof (induction rule: list_all2_induct)
  case (Cons x xs y ys)
  then have "A x" "f y = g ` h x" "(\<forall>x \<in> set xs. A x) \<and> (\<Union>y \<in> set ys. f y) = g ` (\<Union>x \<in> set xs. h x)" by auto
  then show ?case by (simp add: image_Un)
qed simp

lemma remap_locs:
  "remapTupleVars m e = Inr e' \<Longrightarrow> (\<forall>l \<in> tuple_locs e. remappable m l) \<and> tuple_locs e' = (\<lambda>l. m ! nat l) ` tuple_locs e"
  "term_remapTupleVars m t = Inr t' \<Longrightarrow> (\<forall>l \<in> term_locs t. remappable m l) \<and> term_locs t' = (\<lambda>l. m ! nat l) ` term_locs t"
proof (induction m e and m t arbitrary: e' and t' rule: remapTupleVars_term_remapTupleVars.induct)
  case (1 m ts ty)
  then obtain ts' where ts': "list_all2 (\<lambda>t t'. term_remapTupleVars m t = Inr t') ts ts'" "e' = Exp ts' ty" "newLocs_ok m"
    by (auto simp: bindr_eq_Inr mapr_eq_Inr split: if_splits)
  have "(\<forall>t \<in> set ts. \<forall>l \<in> term_locs t. remappable m l)
      \<and> (\<Union>t \<in> set ts'. term_locs t) = (\<lambda>l. m ! nat l) ` (\<Union>t \<in> set ts. term_locs t)"
    using 1 ts'(3) by (intro list_all2_locs [OF ts'(1)]) simp
  then show ?case by (simp add: ts'(2))
next
  case (3 m c f es i)
  then obtain es' where es': "list_all2 (\<lambda>e e'. remapTupleVars m e = Inr e') es es'" "t' = UFCallTerm c f es' i"
    by (auto simp: bindr_eq_Inr mapr_eq_Inr)
  have "(\<forall>e \<in> set es. \<forall>l \<in> tuple_locs e. remappable m l)
      \<and> (\<Union>e \<in> set es'. tuple_locs e) = (\<lambda>l. m ! nat l) ` (\<Union>e \<in> set es. tuple_locs e)"
    using 3 by (intro list_all2_locs [OF es'(1)]) simp
  then show ?case by (simp add: es'(2))
next
  case (4 m c es)
  then obtain es' where es': "list_all2 (\<lambda>e e'. remapTupleVars m e = Inr e') es es'" "t' = TupleExpTerm c es'"
    by (auto simp: bindr_eq_Inr mapr_eq_Inr)
  have "(\<forall>e \<in> set es. \<forall>l \<in> tuple_locs e. remappable m l)
      \<and> (\<Union>e \<in> set es'. tuple_locs e) = (\<lambda>l. m ! nat l) ` (\<Union>e \<in> set es. tuple_locs e)"
    using 4 by (intro list_all2_locs [OF es'(1)]) simp
  then show ?case by (simp add: es'(2))
qed (auto simp: bindr_eq_Inr remapLocation_Inr)

lemma exposes_remap:
  assumes e: "exposes i L e" and remap: "remapTupleVars m e = Inr e'"
    and L: "\<forall>l \<in> L. remappable m l \<longrightarrow> m ! nat l \<in> L' \<and> (l < i \<longrightarrow> m ! nat l < m ! nat i)"
  shows "exposes (m ! nat i) L' e'"
proof -
  obtain as c bs where ts: "mTerms e = as @ TupleVarTerm c i # bs" and c0: "c \<noteq> 0"
    and as: "\<forall>u \<in> set as. \<exists>d l. u = TupleVarTerm d l \<and> l < i"
    and rest: "\<forall>u \<in> set as \<union> set bs. c dvd coefficient u \<and> term_locs u \<subseteq> L"
    using e by (auto simp: exposes_def)
  obtain ts' where "list_all2 (\<lambda>t t'. term_remapTupleVars m t = Inr t') (mTerms e) ts'" "mTerms e' = ts'"
    using remap by (cases e) (auto simp: bindr_eq_Inr mapr_eq_Inr split: if_splits)
  then obtain as' t' bs' where ts': "mTerms e' = as' @ t' # bs'"
    and rel: "list_all2 (\<lambda>t t'. term_remapTupleVars m t = Inr t') as as'"
      "list_all2 (\<lambda>t t'. term_remapTupleVars m t = Inr t') bs bs'"
    and t': "term_remapTupleVars m (TupleVarTerm c i) = Inr t'"
    unfolding ts by (auto simp: list_all2_append1 list_all2_Cons1)
  have t: "t' = TupleVarTerm c (m ! nat i)" using t' by (auto simp: bindr_eq_Inr remapLocation_Inr)
  have image: "\<forall>u' \<in> set us'. \<exists>u \<in> set us. term_remapTupleVars m u = Inr u'"
    if "list_all2 (\<lambda>t t'. term_remapTupleVars m t = Inr t') us us'" for us us'
    using that by (auto simp: list_all2_conv_all_nth in_set_conv_nth [of _ us']) (metis nth_mem)
  have "c dvd coefficient u' \<and> term_locs u' \<subseteq> L'" if u': "u' \<in> set as' \<union> set bs'" for u'
  proof -
    obtain u where u: "u \<in> set as \<union> set bs" "term_remapTupleVars m u = Inr u'"
      using u' image [OF rel(1)] image [OF rel(2)] by auto
    have "coefficient u' = coefficient u" by (rule remap_value(2) [OF u(2), of undefined, THEN conjunct1])
    moreover have "c dvd coefficient u" "term_locs u \<subseteq> L" using u(1) rest by blast+
    moreover have "term_locs u' \<subseteq> L'" using remap_locs(2) [OF u(2)] calculation(3) L by auto
    ultimately show ?thesis by simp
  qed
  moreover have "\<exists>d l. u' = TupleVarTerm d l \<and> l < m ! nat i" if u': "u' \<in> set as'" for u'
  proof -
    obtain u where u: "u \<in> set as" "term_remapTupleVars m u = Inr u'" using u' image [OF rel(1)] by blast
    then obtain d l where l: "u = TupleVarTerm d l" "l < i" using as by blast
    moreover have "l \<in> L" using u(1) l(1) rest by force
    ultimately show ?thesis using u(2) L by (auto simp: bindr_eq_Inr remapLocation_Inr)
  qed
  ultimately show ?thesis using ts' t c0 by (intro exposesI [of e' as' c _ bs']) auto
qed

section \<open>Constants\<close>

lemma insert_unique_keeps: "set xs \<subseteq> set (insert_unique lt x xs)"
  by (induction xs) auto

text \<open>An equality that is dropped as a duplicate of a constant equality has the same terms.\<close>

lemma same_key:
  assumes "tkey u = tkey t" and "isConst t \<or> (\<exists>c l. t = TupleVarTerm c l)" and "\<not> isTupleExp u"
  shows "u = t"
  using assms by (cases u; cases t) (auto simp: tkey_def)

lemma insert_unique_exposes:
  assumes e: "exposes i L e" "\<forall>t \<in> set (mTerms e). isConst t \<or> (\<exists>c l. t = TupleVarTerm c l)"
    and p: "plain_exp e" "list_all plain_exp es"
  shows "\<exists>x \<in> set (insert_unique (exp_less ad) e es). exposes i L x"
proof -
  have "ekey e \<in> ekey ` set (insert_unique (exp_less ad) e es)"
    using exps.key_insert [of e es ad] p by (simp add: plain_no_tuple list_all_iff)
  then obtain x where x: "x \<in> set (insert_unique (exp_less ad) e es)" "ekey x = ekey e" by auto
  have "plain_exp x" using x(1) plain_insert_unique [OF p, of "exp_less ad"] by (simp add: list_all_iff)
  then have nt: "\<forall>u \<in> set (mTerms x). \<not> isTupleExp u" using plain_set_mTerms plain_not_tuple by blast
  have "map tkey (mTerms x) = map tkey (mTerms e)" using x(2) by (simp add: ekey_def)
  then have "list_all2 (\<lambda>u t. tkey u = tkey t) (mTerms x) (mTerms e)"
    by (simp add: list_all2_conv_all_nth list_eq_iff_nth_eq)
  then have "mTerms x = mTerms e"
    using same_key nt e(2) by (auto simp: list_all2_conv_all_nth list_eq_iff_nth_eq)
  then show ?thesis using x(1) e(1) exposes_terms by blast
qed

lemma normalize_terms:
  assumes e: "\<forall>t \<in> set (mTerms e). isConst t \<or> (\<exists>c l. t = TupleVarTerm c l)"
  shows "\<forall>t \<in> set (mTerms (normalizeForEquality e)). isConst t \<or> (\<exists>c l. t = TupleVarTerm c l)"
proof -
  have "isConst (term_multiplyBy k t) \<or> (\<exists>c l. term_multiplyBy k t = TupleVarTerm c l)"
    if "isConst t \<or> (\<exists>c l. t = TupleVarTerm c l)" for k t
    using that by (cases t) (auto simp: term_multiplyBy_def)
  with e have mult: "\<forall>t \<in> set (mTerms (multiplyBy (-1) e)). isConst t \<or> (\<exists>c l. t = TupleVarTerm c l)"
    by (auto simp: multiplyBy_def)
  have "\<forall>t \<in> set (mTerms (Exp (butlast (mTerms x)) ty)). isConst t \<or> (\<exists>c l. t = TupleVarTerm c l)"
    if "\<forall>t \<in> set (mTerms x). isConst t \<or> (\<exists>c l. t = TupleVarTerm c l)" for x ty
    using that in_set_butlastD by fastforce
  then show ?thesis using e mult by (simp only: normalizeForEquality_def Let_def split: if_split) blast
qed

lemma const_exposes:
  fixes k :: int
  shows "exposes i {} (addTerm (Term k) (addTerm (TupleVarTerm 1 i) Exp_new))"
    and "\<forall>t \<in> set (mTerms (addTerm (Term k) (addTerm (TupleVarTerm 1 i) Exp_new))). isConst t \<or> (\<exists>c l. t = TupleVarTerm c l)"
proof -
  have ts: "mTerms (addTerm (Term k) (addTerm (TupleVarTerm 1 i) Exp_new)) = TupleVarTerm 1 i # (if k = 0 then [] else [Term k])"
    by (simp add: addTerm_def Exp_new_def combine_eq factorMatches_def trm_less_def term_less_def less_termtype_def)
  show "exposes i {} (addTerm (Term k) (addTerm (TupleVarTerm 1 i) Exp_new))"
    by (rule exposesI [where as = "[]", unfolded append_Nil, OF ts]) auto
  show "\<forall>t \<in> set (mTerms (addTerm (Term k) (addTerm (TupleVarTerm 1 i) Exp_new))). isConst t \<or> (\<exists>c l. t = TupleVarTerm c l)"
    unfolding ts by auto
qed

lemma addEquality_exposes:
  assumes "exposes i L e" and "\<forall>t \<in> set (mTerms e). isConst t \<or> (\<exists>c l. t = TupleVarTerm c l)"
    and "plain_exp e" and "list_all plain_exp (mEqualities c)"
  shows "\<exists>x \<in> set (mEqualities (addEquality ad e c)). exposes i L x"
proof -
  let ?e = "setEquality (normalizeForEquality e)"
  have x: "exposes i L ?e" using exposes_normalize [OF assms(1)] by simp
  have "mTerms ?e = mTerms (normalizeForEquality e)" by (cases "normalizeForEquality e") simp
  then have "\<forall>t \<in> set (mTerms ?e). isConst t \<or> (\<exists>c l. t = TupleVarTerm c l)"
    using normalize_terms [OF assms(2)] by simp
  moreover have "plain_exp ?e" using assms(3) by (simp add: plain_intros)
  ultimately show ?thesis
    using insert_unique_exposes [OF x, of "mEqualities c" ad] assms(4) exposes_not_zero [OF exposes_normalize [OF assms(1)]]
    by (simp add: addEquality_def Let_def)
qed

lemma addEquality_keeps: "set (mEqualities c) \<subseteq> set (mEqualities (addEquality ad e c))"
  using insert_unique_keeps by (fastforce simp: addEquality_def Let_def)

lemma push_exposes:
  assumes push: "pushConstToConstraints ad c = Inr c'" and p: "plain_conj c" and wf: "wf_tdecl (mTupleDecl c)"
  shows "set (mEqualities c) \<subseteq> set (mEqualities c')
    \<and> (\<forall>i < conj_arity c. elemIsConst (mTupleDecl c) i \<longrightarrow> (\<exists>x \<in> set (mEqualities c'). exposes (int i) {} x))"
proof -
  have "foldm (push_const_step ad) [0..<n] c = Inr c' \<Longrightarrow> n \<le> conj_arity c \<Longrightarrow>
      set (mEqualities c) \<subseteq> set (mEqualities c') \<and> plain_conj c' \<and> wf_tdecl (mTupleDecl c')
      \<and> (\<forall>i < n. elemIsConst (mTupleDecl c) i \<longrightarrow> (\<exists>x \<in> set (mEqualities c'). exposes (int i) {} x))
      \<and> (\<forall>i. n \<le> i \<longrightarrow> elemIsConst (mTupleDecl c') i = elemIsConst (mTupleDecl c) i)" for n c'
  proof (induction n arbitrary: c')
    case (Suc n)
    then obtain d where d: "foldm (push_const_step ad) [0..<n] c = Inr d" "push_const_step ad n d = Inr c'"
      by (auto simp: foldm_append bindr_eq_Inr)
    from Suc.IH [OF d(1)] Suc.prems(2) have IH: "set (mEqualities c) \<subseteq> set (mEqualities d)" "plain_conj d" "wf_tdecl (mTupleDecl d)"
      "\<forall>i < n. elemIsConst (mTupleDecl c) i \<longrightarrow> (\<exists>x \<in> set (mEqualities d). exposes (int i) {} x)"
      "\<forall>i. n \<le> i \<longrightarrow> elemIsConst (mTupleDecl d) i = elemIsConst (mTupleDecl c) i" by auto
    show ?case
    proof (cases "elemIsConst (mTupleDecl d) n")
      case False
      with d(2) have "c' = d" by (simp add: push_const_step_def)
      with False IH show ?thesis by (auto simp: less_Suc_eq)
    next
      case True
      obtain td t where td: "setTupleElem_var n (''c_'' @ int_str (elemConstVal (mTupleDecl d) n)) (mTupleDecl d) = Inr td"
        and t: "elemCreateTerm td n n = Inr t"
        and c': "c' = addEquality ad (addTerm (Term (-1 * elemConstVal (mTupleDecl d) n)) (addTerm t Exp_new)) (d\<lparr>mTupleDecl := td\<rparr>)"
        using d(2) True by (auto simp: push_const_step_def bindr_eq_Inr Let_def)
      have n: "n < mSize td" and td': "td = (mTupleDecl d)\<lparr>mIsConst := (mIsConst (mTupleDecl d))[n := False],
          mVarString := (mVarString (mTupleDecl d))[n := ''c_'' @ int_str (elemConstVal (mTupleDecl d) n)]\<rparr>"
        using td by (auto simp: setTupleElem_var_def split: if_splits)
      have "\<not> mIsConst td ! n" using n IH(3) by (auto simp: td' wf_tdecl_def)
      then have t': "t = TupleVarTerm 1 (int n)" using t n by (simp add: elemCreateTerm_def)
      let ?e = "addTerm (Term (-1 * elemConstVal (mTupleDecl d) n)) (addTerm (TupleVarTerm 1 (int n)) Exp_new)"
      have pe: "plain_exp ?e" by (intro plain_intros) simp_all
      have "list_all plain_exp (mEqualities (d\<lparr>mTupleDecl := td\<rparr>))" using IH(2) by (simp add: plain_conj_def)
      then have new: "\<exists>x \<in> set (mEqualities c'). exposes (int n) {} x"
        unfolding c' t' by (intro addEquality_exposes const_exposes pe)
      have keep: "set (mEqualities d) \<subseteq> set (mEqualities c')"
        using addEquality_keeps [of "d\<lparr>mTupleDecl := td\<rparr>" ad ?e] by (simp add: c' t')
      have "plain_conj (d\<lparr>mTupleDecl := td\<rparr>)" using IH(2) by (simp add: plain_conj_def)
      then have pc: "plain_conj c'" using sat_addEquality [OF pe] by (simp add: c' t')
      have decl: "mTupleDecl c' = td" by (simp add: c' addEquality_def Let_def)
      have "wf_tdecl td" using IH(3) by (simp add: td' wf_tdecl_def)
      moreover have "elemIsConst td i = elemIsConst (mTupleDecl d) i" if "n < i" for i
        using that by (simp add: elemIsConst_def td')
      ultimately show ?thesis using new keep pc decl IH by (auto simp: less_Suc_eq) blast
    qed
  qed (use p wf in auto)
  from this [of "conj_arity c" c'] push show ?thesis by (simp add: pushConstToConstraints_def)
qed

section \<open>Finding the function again\<close>

lemma acceptable_iff: "acceptable n lo hi s \<longleftrightarrow> tuple_locs s \<subseteq> {l. 0 \<le> l \<and> l < int n \<longrightarrow> lo \<le> l \<and> l \<le> hi}"
proof -
  have "acceptable n lo hi s \<longleftrightarrow> (\<forall>j < n. int j \<in> tuple_locs s \<longrightarrow> lo \<le> int j \<and> int j \<le> hi)"
    by (auto simp: acceptable_def list_all_iff dependsOn_tuplevar)
  also have "\<dots> \<longleftrightarrow> (\<forall>l \<in> tuple_locs s. 0 \<le> l \<and> l < int n \<longrightarrow> lo \<le> l \<and> l \<le> hi)"
    by (metis nonneg_int_cases of_nat_0_le_iff of_nat_less_iff)
  finally show ?thesis by auto
qed

lemma function_search_None:
  "function_search invOf accept factor seen es = Inr None \<Longrightarrow> e \<in> set es \<Longrightarrow>
   \<not> (\<exists>s. solveForFactor invOf e factor = Inr (Some s) \<and> accept s)"
  by (induction es arbitrary: seen) (auto simp: bindr_eq_Inr split: option.splits if_splits)

lemma exposes_found:
  assumes "x \<in> set (mEqualities c)" and "exposes i L x" and "L \<subseteq> {l. 0 \<le> l \<and> l < int (conj_arity c) \<longrightarrow> lo \<le> l \<and> l \<le> hi}"
    and "i \<notin> L" and "\<not> elemIsConst (mTupleDecl c) (nat i)"
  shows "findFunction w i lo hi c \<noteq> Inr None"
proof
  assume "findFunction w i lo hi c = Inr None"
  then have "function_search (inverse_of w) (acceptable (conj_arity c) lo hi) (TupleVarTerm 1 i) [] (mEqualities c) = Inr None"
    using assms(5) by (auto simp: findFunction_def bindr_eq_Inr split: if_splits option.splits) (metis option.exhaust surj_pair)
  from function_search_None [OF this assms(1)] exposes_solve [OF assms(2,4), of "inverse_of w"] assms(3)
  show False by (auto simp: acceptable_iff)
qed

text \<open>What \<open>isFunction\<close> or \<open>isFunctionInverse\<close> found in the operand \<open>c\<close> is found in a conjunction that contains
  the renumbered equalities of \<open>c\<close>.\<close>

lemma function_kept:
  assumes all: "all_functions w lo hi c is = Inr True" and j: "int j \<in> set is" "\<not> (lo \<le> int j \<and> int j \<le> hi)"
    and inv: "\<forall>f. inverse_of w f = []" and p: "plain_conj c" and wf: "wf_tdecl (mTupleDecl c)"
    and push: "pushConstToConstraints ad c = Inr c0" and remap: "conj_remapTupleVars m (c0\<lparr>mInArity := n\<rparr>) = Inr c'"
    and m: "length m = conj_arity c" "distinct m" "\<forall>x \<in> set m. 0 \<le> x"
    and range: "\<And>l. l < conj_arity c \<Longrightarrow> lo \<le> int l \<Longrightarrow> int l \<le> hi \<Longrightarrow> lo' \<le> m ! l \<and> m ! l \<le> hi' \<and> (l < j \<longrightarrow> m ! l < m ! j)"
    and sub: "set (mEqualities c') \<subseteq> set (mEqualities r)" and nc: "\<not> elemIsConst (mTupleDecl r) (nat (m ! j))"
    and out: "\<not> (lo' \<le> m ! j \<and> m ! j \<le> hi')" "j < conj_arity c" "m ! j < int (conj_arity r)"
  shows "findFunction w (m ! j) lo' hi' r \<noteq> Inr None"
proof -
  let ?L = "{l. 0 \<le> l \<and> l < int (conj_arity c) \<longrightarrow> lo \<le> l \<and> l \<le> hi}"
  let ?L' = "{l. 0 \<le> l \<and> l < int (conj_arity r) \<longrightarrow> lo' \<le> l \<and> l \<le> hi'}"
  note push_facts = push_exposes [OF push p wf]
  obtain s where s: "findFunction w (int j) lo hi c = Inr (Some s)" using all_functions_True [OF all j(1)] by blast
  obtain x where x: "x \<in> set (mEqualities c0)" "exposes (int j) ?L x"
  proof (cases "elemIsConst (mTupleDecl c) j")
    case True
    then obtain x where "x \<in> set (mEqualities c0)" "exposes (int j) {} x" using push_facts out(2) by blast
    then show thesis using that exposes_mono by blast
  next
    case False
    then obtain rest where "function_search (inverse_of w) (acceptable (conj_arity c) lo hi)
        (TupleVarTerm 1 (int j)) [] (mEqualities c) = Inr (Some (s, rest))"
      using s by (auto simp: findFunction_def bindr_eq_Inr split: if_splits option.splits)
    then obtain e where e: "e \<in> set (mEqualities c)" "solveForFactor (inverse_of w) e (TupleVarTerm 1 (int j)) = Inr (Some s)"
      and acc: "acceptable (conj_arity c) lo hi s" using function_search_Some by blast
    have "exposes (int j) ?L e"
      by (rule solve_exposes [OF e(2) inv]) (use p e(1) acc j(2) out(2) in \<open>auto simp: plain_conj_def list_all_iff acceptable_iff\<close>)
    then show thesis using that e(1) push_facts by blast
  qed
  obtain eqs where eqs: "mapr (\<lambda>e. bindr (remapTupleVars m e) (\<lambda>e'. Inr (normalizeForEquality e'))) (mEqualities c0) = Inr eqs"
    "mEqualities c' = eqs"
    using remap by (auto simp: conj_remapTupleVars_def bindr_eq_Inr Let_def)
  obtain i where i: "i < length (mEqualities c0)" "x = mEqualities c0 ! i" using x(1) by (auto simp: in_set_conv_nth)
  then obtain x' where "remapTupleVars m x = Inr x'" "normalizeForEquality x' = eqs ! i"
    using eqs(1) by (auto simp: mapr_eq_Inr list_all2_conv_all_nth bindr_eq_Inr)
  moreover have "i < length eqs" using eqs(1) i(1) by (auto simp: mapr_eq_Inr list_all2_conv_all_nth)
  ultimately have x': "remapTupleVars m x = Inr x'" "normalizeForEquality x' \<in> set (mEqualities c')"
    using eqs(2) by auto
  have "exposes (m ! nat (int j)) ?L' x'"
  proof (rule exposes_remap [OF x(2) x'(1)], intro ballI impI)
    fix l assume l: "l \<in> ?L" "remappable m l"
    then have "nat l < conj_arity c" "lo \<le> int (nat l)" "int (nat l) \<le> hi" using m(1) by (auto simp: remappable_def)
    from range [OF this] l show "m ! nat l \<in> ?L' \<and> (l < int j \<longrightarrow> m ! nat l < m ! nat (int j))"
      by (auto simp: remappable_def nat_less_iff)
  qed
  then have ex: "exposes (m ! j) ?L' (normalizeForEquality x')" using exposes_normalize by simp
  have "0 \<le> m ! j" using m(1,3) out(2) by simp
  then show ?thesis
    using exposes_found [OF _ ex subset_refl, of w] x'(2) sub nc out by auto
qed

end
