(* ===== verification/IEG_Compose.thy ===== *)
theory IEG_Compose
  imports IEG_Functions
begin

text \<open>
  Composition and application eliminate the inner tuple: each of its elements is a function of
  the others by some equality, and that function is substituted for it. The lemmas show that
  this is the projection of the tuples that satisfy the constraints, and the theorems that
  \<open>Compose\<close> is relational composition and \<open>Apply\<close> the image of a set. Functions with a declared
  inverse are left out here: with them \<open>solveForFactor\<close> may return what is not a solution.
\<close>

section \<open>Declarations without constants\<close>

definition no_consts :: "tuple_decl \<Rightarrow> bool" where
  "no_consts td \<longleftrightarrow> wf_tdecl td \<and> True \<notin> set (mIsConst td)"

lemma no_consts_elem: "no_consts td \<Longrightarrow> i < mSize td \<Longrightarrow> \<not> elemIsConst td i"
  by (auto simp: no_consts_def elemIsConst_def wf_tdecl_def in_set_conv_nth)

lemma no_constsI: "wf_tdecl td \<Longrightarrow> (\<And>i. i < mSize td \<Longrightarrow> \<not> elemIsConst td i) \<Longrightarrow> no_consts td"
  by (auto simp: no_consts_def elemIsConst_def wf_tdecl_def in_set_conv_nth)

lemma admits_no_consts: "no_consts td \<Longrightarrow> admits td xs \<longleftrightarrow> length xs = mSize td"
  using no_consts_elem by (auto simp: admits_def)

lemma no_consts_new [simp]: "no_consts (TupleDecl_new n)"
  by (auto simp: no_consts_def wf_tdecl_def TupleDecl_new_def)

lemma mSize_new [simp]: "mSize (TupleDecl_new n) = n"
  by (simp add: TupleDecl_new_def)

lemma no_consts_copy:
  assumes "copyTupleElem other i j td = Inr td'" and "no_consts other" and "no_consts td"
  shows "no_consts td' \<and> mSize td' = mSize td"
proof -
  have i: "i < length (mIsConst other)" "\<not> mIsConst other ! i"
    using assms by (auto simp: copyTupleElem_def no_consts_def in_set_conv_nth split: if_splits)
  then show ?thesis
    using assms
    by (auto simp: copyTupleElem_def no_consts_def wf_tdecl_def split: if_splits dest!: set_update_subset_insert [THEN subsetD])
qed

lemma no_consts_set_var:
  assumes "setTupleElem_var i s td = Inr td'" and "no_consts td"
  shows "no_consts td' \<and> mSize td' = mSize td"
  using assms
  by (auto simp: setTupleElem_var_def no_consts_def wf_tdecl_def split: if_splits dest!: set_update_subset_insert [THEN subsetD])

lemma no_consts_push:
  assumes "pushConstToConstraints ad c = Inr c'" and "plain_conj c" and "wf_tdecl (mTupleDecl c)"
  shows "no_consts (mTupleDecl c')"
  using pushConstToConstraints_facts [OF assms] by (auto intro: no_constsI simp: conj_arity_def tdecl_size_def)

lemma no_consts_remap:
  assumes "conj_remapTupleVars m c = Inr c'" and "no_consts (mTupleDecl c)"
  shows "no_consts (mTupleDecl c')"
proof -
  obtain td where td: "foldm (copy_new_loc m (mTupleDecl c)) [0..<length m]
      (TupleDecl_new (nat (fold max m (-1) + 1))) = Inr td" "mTupleDecl c' = td"
    using assms(1) by (auto simp: conj_remapTupleVars_def bindr_eq_Inr Let_def)
  have "no_consts td"
    by (rule foldm_invariant [OF td(1)])
      (use assms(2) in \<open>auto simp: copy_new_loc_def split: if_splits dest: no_consts_copy\<close>)
  with td show ?thesis by simp
qed

lemma no_consts_names:
  "foldm (in_name_step d) is (td, taken) = Inr (td', taken') \<Longrightarrow> no_consts d \<Longrightarrow> no_consts td \<Longrightarrow>
   no_consts td' \<and> mSize td' = mSize td"
  "foldm (out_name_step d a) is (td, taken) = Inr (td', taken') \<Longrightarrow> no_consts td \<Longrightarrow>
   no_consts td' \<and> mSize td' = mSize td"
proof -
  show "foldm (in_name_step d) is (td, taken) = Inr (td', taken') \<Longrightarrow> no_consts d \<Longrightarrow> no_consts td \<Longrightarrow>
     no_consts td' \<and> mSize td' = mSize td"
    by (drule foldm_invariant [where P = "\<lambda>(t, _). no_consts t \<and> mSize t = mSize td"])
      (auto simp: in_name_step_def bindr_eq_Inr dest!: no_consts_copy)
  show "foldm (out_name_step d a) is (td, taken) = Inr (td', taken') \<Longrightarrow> no_consts td \<Longrightarrow>
     no_consts td' \<and> mSize td' = mSize td"
    by (drule foldm_invariant [where P = "\<lambda>(t, _). no_consts t \<and> mSize t = mSize td"])
      (auto simp: out_name_step_def bindr_eq_Inr split_beta dest!: no_consts_set_var)
qed

lemma no_consts_truncate:
  assumes "truncate_decl n td = Inr td'" and "no_consts td"
  shows "no_consts td' \<and> mSize td' = n"
  by (rule foldm_invariant [OF assms(1) [unfolded truncate_decl_def]])
    (use assms(2) in \<open>auto dest!: no_consts_copy\<close>)

lemma setTupleDecl_no_consts:
  assumes "setTupleDecl td c = Inr c'" and "no_consts (mTupleDecl c)"
  shows "c' = c\<lparr>mTupleDecl := td\<rparr>"
proof -
  obtain td' where td': "foldm (merge_decl (mTupleDecl c)) [0..<min (conj_arity c) (tdecl_size td)] td = Inr td'"
    and c': "c' = c\<lparr>mTupleDecl := td'\<rparr>"
    using assms(1) by (auto simp: setTupleDecl_def bindr_eq_Inr)
  have "td' = td"
    by (rule foldm_invariant [OF td'])
      (use no_consts_elem [OF assms(2)] in \<open>auto simp: merge_decl_def conj_arity_def tdecl_size_def\<close>)
  with c' show ?thesis by simp
qed

section \<open>Remapped constraints\<close>

lemma conj_remap_sat:
  assumes remap: "conj_remapTupleVars m c = Inr c'" and p: "plain_conj c"
    and m: "\<forall>l \<in> set m. 0 \<le> l \<and> nat l < length zs"
  shows "plain_conj c' \<and> mInArity c' = mInArity c \<and>
    (sat_constraints (at_tuple v zs) c' \<longleftrightarrow>
       sat_constraints (at_tuple v (map (\<lambda>i. zs ! nat (m ! i)) [0..<length m])) c)"
proof -
  let ?u = "at_tuple v zs" and ?u' = "at_tuple v (map (\<lambda>i. zs ! nat (m ! i)) [0..<length m])"
  obtain eqs ineqs where
    eqs: "mapr (\<lambda>e. bindr (remapTupleVars m e) (\<lambda>e'. Inr (normalizeForEquality e'))) (mEqualities c) = Inr eqs"
    and ineqs: "mapr (\<lambda>e. remapTupleVars m e) (mInequalities c) = Inr ineqs"
    and c': "mEqualities c' = eqs" "mInequalities c' = ineqs" "mInArity c' = mInArity c"
    using remap by (auto simp: conj_remapTupleVars_def bindr_eq_Inr Let_def)
  have step: "plain_exp (normalizeForEquality y) \<and> eval_exp ?u (normalizeForEquality y) = 0 \<longleftrightarrow> eval_exp ?u' x = 0"
    "plain_exp y \<and> eval_exp ?u y \<ge> 0 \<longleftrightarrow> eval_exp ?u' x \<ge> 0" "plain_exp y"
    if "remapTupleVars m x = Inr y" "plain_exp x" for x y
    using plain_remap(1) [OF that] remap_eval [OF that(1) m, of v] eval_normalizeForEquality [of ?u y]
    by (simp_all add: plain_intros)
  have "list_all2 (\<lambda>x y. plain_exp y \<and> (eval_exp ?u y = 0 \<longleftrightarrow> eval_exp ?u' x = 0)) (mEqualities c) eqs"
    by (rule list.rel_mono_strong [OF eqs [unfolded mapr_eq_Inr]])
      (use p step(1,3) in \<open>auto simp: bindr_eq_Inr plain_conj_def list_all_iff plain_intros\<close>)
  moreover have "list_all2 (\<lambda>x y. plain_exp y \<and> (eval_exp ?u y \<ge> 0 \<longleftrightarrow> eval_exp ?u' x \<ge> 0)) (mInequalities c) ineqs"
    by (rule list.rel_mono_strong [OF ineqs [unfolded mapr_eq_Inr]])
      (use p step(2,3) in \<open>auto simp: plain_conj_def list_all_iff\<close>)
  ultimately show ?thesis
    by (simp add: plain_conj_def sat_constraints_def zeros_def nonnegs_def c' list_all2_conv_all_nth
        list_all_length all_set_conv_all_nth)
qed

lemma sat_copyConstraintsFrom:
  "sat_constraints u (copyConstraintsFrom a c) \<longleftrightarrow> sat_constraints u c \<and> sat_constraints u a"
  "plain_conj c \<Longrightarrow> plain_conj a \<Longrightarrow> plain_conj (copyConstraintsFrom a c)"
  "mTupleDecl (copyConstraintsFrom a c) = mTupleDecl c" "mInArity (copyConstraintsFrom a c) = mInArity c"
  by (auto simp: copyConstraintsFrom_def sat_constraints_def zeros_def nonnegs_def plain_conj_def)

section \<open>The functions substituted for the inner tuple\<close>

lemma function_fold:
  assumes m: "foldm (function_step w lo hi r) [a..<a + k] SubMap_new = Inr m"
    and nc: "no_consts (mTupleDecl r)" and inj: "inj (key_address w)"
    and found: "\<forall>i \<in> {a..<a + k}. findFunction w (int i) lo hi r \<noteq> Inr None"
  shows "\<exists>F. (\<forall>i \<in> {a..<a + k}. findFunction w (int i) lo hi r = Inr (Some (F i)) \<and> i < conj_arity r)
    \<and> pairs_of m = (\<lambda>i. (TupleVarTerm 1 (int i), F i)) ` {a..<a + k}"
proof -
  have "foldm (function_step w lo hi r) [a..<a + k] SubMap_new = Inr m \<Longrightarrow>
    \<forall>i \<in> {a..<a + k}. findFunction w (int i) lo hi r \<noteq> Inr None \<Longrightarrow>
    fst ` set (mTerm2ExpMap m) = key_address w ` {a..<a + k}
    \<and> (\<exists>F. (\<forall>i \<in> {a..<a + k}. findFunction w (int i) lo hi r = Inr (Some (F i)) \<and> i < conj_arity r)
      \<and> pairs_of m = (\<lambda>i. (TupleVarTerm 1 (int i), F i)) ` {a..<a + k})" for m
  proof (induction k arbitrary: m)
    case 0
    then show ?case by (auto simp: SubMap_new_def pairs_of_def)
  next
    case (Suc k)
    then obtain m0 where m0: "foldm (function_step w lo hi r) [a..<a + k] SubMap_new = Inr m0"
      and step: "function_step w lo hi r (a + k) m0 = Inr m"
      by (auto simp: foldm_append bindr_eq_Inr)
    obtain F where addr: "fst ` set (mTerm2ExpMap m0) = key_address w ` {a..<a + k}"
      and F: "\<forall>i \<in> {a..<a + k}. findFunction w (int i) lo hi r = Inr (Some (F i)) \<and> i < conj_arity r"
        "pairs_of m0 = (\<lambda>i. (TupleVarTerm 1 (int i), F i)) ` {a..<a + k}"
      using Suc.IH [OF m0] Suc.prems(2) by auto
    obtain t e where t: "elemCreateTerm (mTupleDecl r) (a + k) (a + k) = Inr t"
      and e: "findFunction w (int (a + k)) lo hi r = Inr (Some e)"
      and m: "m = insertPair (key_address w (a + k)) t e m0"
    proof -
      have "findFunction w (int (a + k)) lo hi r \<noteq> Inr None" by (rule bspec [OF Suc.prems(2)]) simp
      with step that show thesis by (auto simp: function_step_def bindr_eq_Inr simp del: of_nat_add split: option.splits)
    qed
    have t': "t = TupleVarTerm 1 (int (a + k))" "a + k < conj_arity r"
      using t nc by (auto simp: elemCreateTerm_def no_consts_def wf_tdecl_def in_set_conv_nth conj_arity_def
          tdecl_size_def split: if_splits)
    have fresh: "key_address w (a + k) \<notin> fst ` set (mTerm2ExpMap m0)"
      by (simp add: addr inj_image_mem_iff [OF inj])
    have range: "{a..<a + Suc k} = insert (a + k) {a..<a + k}" by auto
    let ?F = "F(a + k := e)"
    have "(\<lambda>i. (TupleVarTerm 1 (int i), ?F i)) ` {a..<a + Suc k} = pairs_of m"
      using pairs_insertPair [OF fresh, of t e] F(2) by (auto simp: m t' range image_iff)
    moreover have "\<forall>i \<in> {a..<a + Suc k}. findFunction w (int i) lo hi r = Inr (Some (?F i)) \<and> i < conj_arity r"
      using F(1) e t' by (auto simp: range)
    moreover have "fst ` set (mTerm2ExpMap m) = key_address w ` {a..<a + Suc k}"
    proof -
      have "mTerm2ExpMap m = map_assign (key_address w (a + k)) (t, e) (mTerm2ExpMap m0)"
        by (simp add: m insertPair_def)
      then show ?thesis
        using set_map_assign [OF fresh, of "(t, e)"] by (simp only: range addr image_insert fst_conv)
    qed
    ultimately show ?case by metis
  qed
  from this [OF m found] show ?thesis by blast
qed

section \<open>Projection\<close>

lemma at_tuple_pad: "at_tuple v p = at_tuple v (p @ replicate k 0)"
  by (rule valuation.equality) (auto simp: at_tuple_def nth_append fun_eq_iff)

lemma subExp_inner:
  assumes "pairs_of m = (\<lambda>i. (TupleVarTerm 1 (int i), F i)) ` {a..<a + k}"
  shows "subExp m (TupleVarTerm 1 l) = (if int a \<le> l \<and> l < int (a + k) then Some (F (nat l)) else None)"
    and "subExp m (VarTerm 1 s) = None"
proof -
  have key: "\<exists>i \<in> {a..<a + k}. e = F i \<and> factorMatches t (TupleVarTerm 1 (int i))" if "subExp m t = Some e" for t e
    using submap.look_Some [OF that] assms by auto
  have none: "\<not> factorMatches t (TupleVarTerm 1 (int i))" if "subExp m t = None" "i \<in> {a..<a + k}" for t i
    using submap.look_None [OF that(1), of "TupleVarTerm 1 (int i)" "F i"] that(2) assms by auto
  show "subExp m (VarTerm 1 s) = None"
    using key [of "VarTerm 1 s"] by (cases "subExp m (VarTerm 1 s)") (auto simp: factorMatches_def)
  show "subExp m (TupleVarTerm 1 l) = (if int a \<le> l \<and> l < int (a + k) then Some (F (nat l)) else None)"
  proof (cases "subExp m (TupleVarTerm 1 l)")
    case None
    have "\<not> (int a \<le> l \<and> l < int (a + k))"
      using none [OF None, of "nat l"] by (auto simp: factorMatches_def le_nat_iff nat_less_iff)
    with None show ?thesis by simp
  next
    case (Some e)
    with key [OF Some] show ?thesis by (auto simp: factorMatches_def term_factorMatches_def)
  qed
qed

lemma project_inner:
  assumes m: "foldm (function_step w lo hi r) [a..<a + k] SubMap_new = Inr m"
    and nc: "no_consts (mTupleDecl r)" and ar: "conj_arity r = a + k" and p: "plain_conj r"
    and inj: "inj (key_address w)" and inv: "\<forall>f. inverse_of w f = []"
    and hi: "hi < int a" and len: "length xs = a"
    and found: "\<forall>i \<in> {a..<a + k}. findFunction w (int i) lo hi r \<noteq> Inr None"
  shows "plain_conj (substituted m r) \<and>
    (sat_constraints (at_tuple v xs) (substituted m r) \<longleftrightarrow>
       (\<exists>ys. length ys = k \<and> sat_constraints (at_tuple v (xs @ ys)) r))"
proof -
  obtain F where F: "\<forall>i \<in> {a..<a + k}. findFunction w (int i) lo hi r = Inr (Some (F i)) \<and> i < conj_arity r"
    and pairs: "pairs_of m = (\<lambda>i. (TupleVarTerm 1 (int i), F i)) ` {a..<a + k}"
    using function_fold [OF m nc inj found] by blast
  have wf: "wf_tdecl (mTupleDecl r)" using nc by (simp add: no_consts_def)
  note sound = findFunction_sound [OF _ inv p wf]
  define Y where "Y = map (\<lambda>i. eval_exp (at_tuple v xs) (F i)) [a..<a + k]"
  have val: "eval_exp (at_tuple v (xs @ ys)) (F i) = eval_exp (at_tuple v xs) (F i)"
    if "i \<in> {a..<a + k}" "length ys = k" for i ys
  proof (rule eval_agree(1))
    show "\<forall>l \<in> tuple_locs (F i). tvv (at_tuple v (xs @ ys)) l = tvv (at_tuple v xs) l"
    proof
      fix l assume "l \<in> tuple_locs (F i)"
      then have "0 \<le> l \<and> l < int (a + k) \<longrightarrow> l < int a"
        using sound [of "int i" lo hi "F i" v] F that hi ar by force
      then show "tvv (at_tuple v (xs @ ys)) l = tvv (at_tuple v xs) l"
        using len that by (auto simp: at_tuple_def nth_append)
    qed
  qed simp_all
  have sub: "valuation_sub (subExp m) (at_tuple v xs) = at_tuple v (xs @ Y)"
  proof (rule valuation.equality)
    show "tvv (valuation_sub (subExp m) (at_tuple v xs)) = tvv (at_tuple v (xs @ Y))"
    proof
      fix l show "tvv (valuation_sub (subExp m) (at_tuple v xs)) l = tvv (at_tuple v (xs @ Y)) l"
        using len by (auto simp: valuation_sub_def subExp_inner [OF pairs] at_tuple_def Y_def nth_append nat_less_iff nat_diff_distrib)
    qed
  qed (simp_all add: valuation_sub_def subExp_inner [OF pairs] at_tuple_def)
  have keys: "\<forall>(t, s) \<in> pairs_of m. termType t \<in> {TupleVar, SymConst} \<and> plain_exp s"
    using F sound by (fastforce simp: pairs)
  have eval: "eval_exp (at_tuple v xs) (substitute (subExp m) e) = eval_exp (at_tuple v (xs @ Y)) e"
    if "plain_exp e" for e
    using substitute_variables_value [OF keys that, of "at_tuple v xs"] sub by simp
  have "plain_exp (substitute (subExp m) e)" if "plain_exp e" for e
    using substitute_variables_value [OF keys that] by simp
  then have "plain_conj (substituted m r)"
    using p by (auto simp: plain_conj_def substituted_def list_all_iff)
  moreover have "sat_constraints (at_tuple v xs) (substituted m r) \<longleftrightarrow> sat_constraints (at_tuple v (xs @ Y)) r"
    using p eval by (auto simp: substituted_def sat_constraints_def zeros_def nonnegs_def plain_conj_def list_all_iff)
  moreover have "ys = Y" if "length ys = k" "sat_constraints (at_tuple v (xs @ ys)) r" for ys
  proof (rule nth_equalityI)
    show "length ys = length Y" using that by (simp add: Y_def)
    fix j assume j: "j < length ys"
    have "holds v r (xs @ ys)"
      using that len ar by (simp add: holds_def admits_no_consts [OF nc] conj_arity_def tdecl_size_def)
    moreover have "findFunction w (int (a + j)) lo hi r = Inr (Some (F (a + j)))"
      using bspec [OF F, of "a + j"] j that by simp
    ultimately have "(xs @ ys) ! (a + j) = eval_exp (at_tuple v (xs @ ys)) (F (a + j))"
      using sound [of "int (a + j)" lo hi "F (a + j)" v] by (simp add: nat_ints)
    with val [of "a + j" ys] j that len show "ys ! j = Y ! j" by (simp add: Y_def nth_append)
  qed
  moreover have "length Y = k" by (simp add: Y_def)
  ultimately show ?thesis by blast
qed

section \<open>Composition\<close>

lemma pick: "map (\<lambda>i. T ! nat (map int L ! i)) [0..<length (map int L)] = map ((!) T) L"
  by (rule nth_equalityI) simp_all

lemma pick_parts:
  "map ((!) (xs @ ys @ zs)) [0..<length xs] = xs"
  "map ((!) (xs @ ys @ zs)) [length xs..<length xs + length ys] = ys"
  "map ((!) (xs @ ys @ zs)) [length xs + length ys..<length xs + length ys + length zs] = zs"
  by (rule nth_equalityI; simp add: nth_append)+

text \<open>The constants of the copies are pushed into the constraints before they are remapped.\<close>

lemma push_remap:
  assumes push: "pushConstToConstraints ad c = Inr c0" and remap: "conj_remapTupleVars (map int L) c1 = Inr c'"
    and c1: "c1 = c0\<lparr>mInArity := n\<rparr>"
    and p: "plain_conj c" and wf: "wf_tdecl (mTupleDecl c)"
    and L: "\<forall>l \<in> set L. l < length T" "length L = conj_arity c"
  shows "plain_conj c' \<and> no_consts (mTupleDecl c')
    \<and> (sat_constraints (at_tuple v T) c' \<longleftrightarrow> holds v c (map ((!) T) L))"
proof -
  note facts = pushConstToConstraints_facts [OF push p wf, of v "map ((!) T) L"]
  have nc: "no_consts (mTupleDecl c0)" by (rule no_consts_push [OF push p wf])
  have "plain_conj c1" using facts by (simp add: plain_conj_def c1)
  from conj_remap_sat [OF remap this, of T v] L
  have "plain_conj c' \<and> (sat_constraints (at_tuple v T) c' \<longleftrightarrow>
      sat_constraints (at_tuple v (map ((!) T) L)) c1)"
    unfolding pick by simp
  moreover have "sat_constraints u c1 = sat_constraints u c0" for u
    by (simp add: sat_constraints_def c1)
  moreover have "holds v c0 (map ((!) T) L) \<longleftrightarrow> sat_constraints (at_tuple v (map ((!) T) L)) c0"
    using facts L by (simp add: holds_def admits_no_consts [OF nc] conj_arity_def tdecl_size_def)
  ultimately show ?thesis using facts no_consts_remap [OF remap] nc by (simp add: c1)
qed

lemma compose_setup_facts:
  assumes comp: "compose_setup w this rhs (length ys) = Inr r"
    and p: "plain_conj this" "plain_conj rhs"
    and wf: "wf_tdecl (mTupleDecl this)" "wf_tdecl (mTupleDecl rhs)"
    and len: "conj_arity rhs = length xs + length ys" "conj_arity this = length ys + length zs"
  shows "plain_conj r \<and> no_consts (mTupleDecl r) \<and> conj_arity r = length xs + length zs + length ys
    \<and> mInArity r = int (length xs)
    \<and> (sat_constraints (at_tuple v (xs @ zs @ ys)) r \<longleftrightarrow> holds v rhs (xs @ ys) \<and> holds v this (ys @ zs))"
proof -
  let ?n = "length xs" and ?m = "length zs" and ?k = "length ys" and ?T = "xs @ zs @ ys"
  let ?L = "[?n + ?m..<?n + ?m + ?k] @ [?n..<?n + ?m]" and ?R = "[0..<?n] @ [?n + ?m..<?n + ?m + ?k]"
  let ?r0 = "(Conjunction_new (?n + ?m + ?k))\<lparr>mInArity := int ?n\<rparr>"
  have nm: "conj_arity rhs - ?k = ?n" "conj_arity this - ?k = ?m" using len by simp_all
  obtain l0 l r0 r1 td1 taken1 td2 taken2 where
    l: "pushConstToConstraints (address_order w) this = Inr l0" "conj_remapTupleVars (map int ?L) l0 = Inr l"
    and r1: "pushConstToConstraints (address_order w) rhs = Inr r0" "conj_remapTupleVars (map int ?R) r0 = Inr r1"
    and td: "foldm (in_name_step (mTupleDecl r1)) [0..<?n] (TupleDecl_new (?n + ?m + ?k), []) = Inr (td1, taken1)"
      "foldm (out_name_step (mTupleDecl l) ?n) [0..<?m] (td1, taken1) = Inr (td2, taken2)"
    and r: "r = (copyConstraintsFrom l (copyConstraintsFrom r1 ?r0))\<lparr>mTupleDecl := td2\<rparr>"
    using comp unfolding compose_setup_def nm Let_def
    by (auto simp: bindr_eq_Inr sat_copyConstraintsFrom Conjunction_new_def Conjunction_tdecl_def)
  have L: "plain_conj l \<and> no_consts (mTupleDecl l)
      \<and> (sat_constraints (at_tuple v ?T) l \<longleftrightarrow> holds v this (map ((!) ?T) ?L))"
    by (rule push_remap [OF l _ p(1) wf(1), of "mInArity l0"]) (use len in auto)
  have R: "plain_conj r1 \<and> no_consts (mTupleDecl r1)
      \<and> (sat_constraints (at_tuple v ?T) r1 \<longleftrightarrow> holds v rhs (map ((!) ?T) ?R))"
    by (rule push_remap [OF r1 _ p(2) wf(2), of "mInArity r0"]) (use len in auto)
  have td2: "no_consts td2 \<and> mSize td2 = ?n + ?m + ?k"
    using no_consts_names(1) [OF td(1)] no_consts_names(2) [OF td(2)] R by simp
  have "sat_constraints u ?r0" "plain_conj ?r0" for u
    by (simp_all add: sat_constraints_def zeros_def nonnegs_def plain_conj_def Conjunction_new_def Conjunction_tdecl_def)
  then have sat: "plain_conj r \<and> (sat_constraints u r \<longleftrightarrow> sat_constraints u r1 \<and> sat_constraints u l)" for u
    using L R
    by (auto simp add: r sat_constraints_def zeros_def nonnegs_def plain_conj_def copyConstraintsFrom_def)
  moreover have "mTupleDecl r = td2" "mInArity r = int ?n"
    by (simp_all add: r copyConstraintsFrom_def)
  ultimately show ?thesis
    using L R td2 pick_parts [of xs zs ys] by (simp add: conj_arity_def tdecl_size_def)
qed

lemma nests_ok_none:
  assumes "\<forall>f. invOf f = []"
  shows "nests_ok invOf e" and "term_nests_ok invOf t"
  by (induction e and t) (use assms in \<open>auto simp: list_all_iff\<close>)

lemma inverts_none: "\<forall>f. invOf f = [] \<Longrightarrow> inverts invOf v"
  by (simp add: inverts_def)

lemma eliminate_inner:
  assumes m: "foldm (function_step w lo hi r) [a..<a + k] SubMap_new = Inr m"
    and s: "substituteInConstraints w m r = Inr r'"
    and nc: "no_consts (mTupleDecl r)" and ar: "conj_arity r = a + k" and p: "plain_conj r"
    and inj: "inj (key_address w)" and inv: "\<forall>f. inverse_of w f = []"
    and hi: "hi < int a" and len: "length xs = a"
    and found: "\<forall>i \<in> {a..<a + k}. findFunction w (int i) lo hi r \<noteq> Inr None"
  shows "plain_conj r' \<and> mTupleDecl r' = mTupleDecl r \<and> mInArity r' = mInArity r
    \<and> (sat_constraints (at_tuple v xs) r' \<longleftrightarrow>
         (\<exists>ys. length ys = k \<and> sat_constraints (at_tuple v (xs @ ys)) r))"
proof -
  note proj = project_inner [OF m nc ar p inj inv hi len found, of v]
  have "cleanUp w (substituted m r) = Inr r'"
    using s by (simp add: substituteInConstraints_def substituted_def)
  moreover have "nests_ok_conj (inverse_of w) (substituted m r)"
    using nests_ok_none(1) [OF inv] by (simp add: nests_ok_conj_def list_all_iff)
  ultimately show ?thesis
    using cleanUp_facts [of w "substituted m r" r' "at_tuple v xs"] proj inverts_none [OF inv]
    by (simp add: substituted_def)
qed

lemma holds_truncated:
  assumes "truncate_decl n td = Inr td'" and "no_consts td" and "length xs = n" and "mTupleDecl c = td'"
  shows "holds v c xs \<longleftrightarrow> sat_constraints (at_tuple v xs) c"
  using no_consts_truncate [OF assms(1,2)] assms(3,4) by (simp add: holds_def admits_no_consts)

text \<open>The equalities of the renumbered operands are among those of the whole.\<close>

lemma compose_setup_parts:
  assumes comp: "compose_setup w this rhs k = Inr r" and nm: "conj_arity rhs = n + k" "conj_arity this = k + m"
  shows "(\<exists>r0 r1. pushConstToConstraints (address_order w) rhs = Inr r0
      \<and> conj_remapTupleVars (map int ([0..<n] @ [n + m..<n + m + k])) r0 = Inr r1 \<and> set (mEqualities r1) \<subseteq> set (mEqualities r))
    \<and> (\<exists>l0 l1. pushConstToConstraints (address_order w) this = Inr l0
      \<and> conj_remapTupleVars (map int ([n + m..<n + m + k] @ [n..<n + m])) l0 = Inr l1 \<and> set (mEqualities l1) \<subseteq> set (mEqualities r))"
proof -
  have nm': "conj_arity rhs - k = n" "conj_arity this - k = m" using nm by simp_all
  obtain l0 l1 r0 r1 td where
    "pushConstToConstraints (address_order w) rhs = Inr r0"
    "conj_remapTupleVars (map int ([0..<n] @ [n + m..<n + m + k])) r0 = Inr r1"
    "pushConstToConstraints (address_order w) this = Inr l0"
    "conj_remapTupleVars (map int ([n + m..<n + m + k] @ [n..<n + m])) l0 = Inr l1"
    "r = (copyConstraintsFrom l1 (copyConstraintsFrom r1 ((Conjunction_new (n + m + k))\<lparr>mInArity := int n\<rparr>)))\<lparr>mTupleDecl := td\<rparr>"
    using comp unfolding compose_setup_def nm' Let_def by (auto simp: bindr_eq_Inr)
  moreover from this(5) have "set (mEqualities r1) \<subseteq> set (mEqualities r)" "set (mEqualities l1) \<subseteq> set (mEqualities r)"
    by (auto simp: copyConstraintsFrom_def)
  ultimately show ?thesis by blast
qed

lemma function_found:
  assumes r: "compose_setup w this rhs k = Inr r" and nc: "no_consts (mTupleDecl r)" and nm: "conj_arity rhs = n + k" "conj_arity this = k + m"
    and p: "plain_conj this" "plain_conj rhs" and wf: "wf_tdecl (mTupleDecl this)" "wf_tdecl (mTupleDecl rhs)"
    and inv: "\<forall>f. inverse_of w f = []" and ar: "conj_arity r = n + m + k" and i: "i \<in> {n + m..<n + m + k}"
  shows "isFunction w (int n) rhs = Inr True \<Longrightarrow> findFunction w (int i) 0 (int n - 1) r \<noteq> Inr None"
    and "isFunctionInverse w (int k) this = Inr True \<Longrightarrow> findFunction w (int i) (int n) (int (n + m) - 1) r \<noteq> Inr None"
proof -
  have free: "\<not> elemIsConst (mTupleDecl r) i" using no_consts_elem [OF nc] ar i by (simp add: conj_arity_def tdecl_size_def)
  obtain j where j: "i = n + m + j" "j < k" using i that [of "i - (n + m)"] by auto
  obtain r0 r1 l0 l1 where
    r1: "pushConstToConstraints (address_order w) rhs = Inr r0"
      "conj_remapTupleVars (map int ([0..<n] @ [n + m..<n + m + k])) (r0\<lparr>mInArity := mInArity r0\<rparr>) = Inr r1"
      "set (mEqualities r1) \<subseteq> set (mEqualities r)"
    and l1: "pushConstToConstraints (address_order w) this = Inr l0"
      "conj_remapTupleVars (map int ([n + m..<n + m + k] @ [n..<n + m])) (l0\<lparr>mInArity := mInArity l0\<rparr>) = Inr l1"
      "set (mEqualities l1) \<subseteq> set (mEqualities r)"
    using compose_setup_parts [OF r nm] by auto
  show "findFunction w (int i) 0 (int n - 1) r \<noteq> Inr None" if f: "isFunction w (int n) rhs = Inr True"
  proof -
    let ?m = "map int ([0..<n] @ [n + m..<n + m + k])"
    have "?m ! (n + j) = int i" using j by (simp add: nth_append)
    moreover have "findFunction w (?m ! (n + j)) 0 (int n - 1) r \<noteq> Inr None"
      by (rule function_kept [OF f [unfolded isFunction_def] _ _ inv p(2) wf(2) r1(1,2) _ _ _ _ r1(3)])
        (use j nm(1) ar free in \<open>auto simp: nth_append distinct_map inj_on_def nat_add_distrib\<close>)
    ultimately show ?thesis by simp
  qed
  show "findFunction w (int i) (int n) (int (n + m) - 1) r \<noteq> Inr None" if f: "isFunctionInverse w (int k) this = Inr True"
  proof -
    let ?m = "map int ([n + m..<n + m + k] @ [n..<n + m])"
    have "?m ! j = int i" using j by (simp add: nth_append)
    moreover have "findFunction w (?m ! j) (int n) (int (n + m) - 1) r \<noteq> Inr None"
      by (rule function_kept [OF f [unfolded isFunctionInverse_def] _ _ inv p(1) wf(1) l1(1,2) _ _ _ _ l1(3)])
        (use j nm(2) ar free in \<open>auto simp: nth_append distinct_map inj_on_def nat_add_distrib\<close>)
    ultimately show ?thesis by simp
  qed
qed

lemma compose_open_facts:
  assumes comp: "compose_open w this rhs k = Inr c"
    and p: "plain_conj this" "plain_conj rhs"
    and wf: "wf_tdecl (mTupleDecl this)" "wf_tdecl (mTupleDecl rhs)"
    and inj: "inj (key_address w)" and inv: "\<forall>f. inverse_of w f = []"
    and len: "conj_arity rhs = length xs + k" "conj_arity this = k + length zs"
  shows "plain_conj c \<and> wf_tdecl (mTupleDecl c) \<and> mInArity c = int (length xs)
    \<and> conj_arity c = length xs + length zs
    \<and> (holds v c (xs @ zs) \<longleftrightarrow> (\<exists>ys. length ys = k \<and> holds v rhs (xs @ ys) \<and> holds v this (ys @ zs)))"
proof -
  let ?n = "length xs" and ?m = "length zs"
  have nm: "conj_arity rhs - k = ?n" "conj_arity this - k = ?m" using len by simp_all
  obtain lf rf lfi rfi r m r' td where
    f: "isFunction w (int (conj_arity rhs) - int k) rhs = Inr rf" "isFunctionInverse w (int k) this = Inr lfi"
      "lf \<and> rf \<or> lfi \<and> rfi"
    and r: "compose_setup w this rhs k = Inr r"
    and b: "(if lf \<and> rf then foldm (function_step w 0 (int ?n - 1) r) [?n + ?m..<?n + ?m + k] SubMap_new
             else foldm (function_step w (int ?n) (int (?n + ?m) - 1) r) [?n + ?m..<?n + ?m + k] SubMap_new) = Inr m"
    and s: "substituteInConstraints w m r = Inr r'"
    and td: "truncate_decl (?n + ?m) (mTupleDecl r') = Inr td" and c: "setTupleDecl td r' = Inr c"
    using comp unfolding compose_open_def nm Let_def bindr_eq_Inr
    by (elim exE conjE) (split if_split_asm, simp, split if_split_asm, simp, simp only: bindr_eq_Inr not_not, blast)
  have facts: "plain_conj r \<and> no_consts (mTupleDecl r) \<and> conj_arity r = ?n + ?m + k \<and> mInArity r = int ?n
      \<and> (sat_constraints (at_tuple v (xs @ zs @ ys)) r \<longleftrightarrow> holds v rhs (xs @ ys) \<and> holds v this (ys @ zs))"
    if "length ys = k" for ys
    using compose_setup_facts [of w this rhs ys r xs zs v] r p wf len that by simp
  from facts [of "replicate k 0"] have r_ok: "plain_conj r" "no_consts (mTupleDecl r)" "conj_arity r = ?n + ?m + k"
    "mInArity r = int ?n" by simp_all
  have rin: "int (conj_arity rhs) - int k = int ?n" using len by simp
  note found = function_found [OF r r_ok(2) len p wf inv r_ok(3)]
  obtain lo hi where hi: "hi < int (?n + ?m)"
    and m: "foldm (function_step w lo hi r) [?n + ?m..<?n + ?m + k] SubMap_new = Inr m"
    and found: "\<forall>i \<in> {?n + ?m..<?n + ?m + k}. findFunction w (int i) lo hi r \<noteq> Inr None"
  proof (cases "lf \<and> rf")
    case True
    then have "isFunction w (int ?n) rhs = Inr True" using f(1) rin by simp
    from found(1) [OF _ this] have "\<forall>i \<in> {?n + ?m..<?n + ?m + k}. findFunction w (int i) 0 (int ?n - 1) r \<noteq> Inr None" by blast
    moreover have "foldm (function_step w 0 (int ?n - 1) r) [?n + ?m..<?n + ?m + k] SubMap_new = Inr m"
      using b True by (simp only: simp_thms if_True)
    ultimately show thesis by (intro that [of "int ?n - 1" 0]) simp_all
  next
    case False
    then have "isFunctionInverse w (int k) this = Inr True" using f(2,3) by auto
    from found(2) [OF _ this] have "\<forall>i \<in> {?n + ?m..<?n + ?m + k}. findFunction w (int i) (int ?n) (int (?n + ?m) - 1) r \<noteq> Inr None"
      by blast
    moreover have "foldm (function_step w (int ?n) (int (?n + ?m) - 1) r) [?n + ?m..<?n + ?m + k] SubMap_new = Inr m"
      using b False by (simp only: if_False)
    ultimately show thesis by (intro that [of "int (?n + ?m) - 1" "int ?n"]) simp_all
  qed
  have elim: "plain_conj r' \<and> mTupleDecl r' = mTupleDecl r \<and> mInArity r' = mInArity r
    \<and> (sat_constraints (at_tuple v (xs @ zs)) r' \<longleftrightarrow>
         (\<exists>ys. length ys = k \<and> sat_constraints (at_tuple v ((xs @ zs) @ ys)) r))"
    by (rule eliminate_inner [OF m s r_ok(2,3,1) inj inv hi _ found]) simp
  have "c = r'\<lparr>mTupleDecl := td\<rparr>" using setTupleDecl_no_consts [OF c] elim r_ok by simp
  moreover from this have "holds v c (xs @ zs) \<longleftrightarrow> sat_constraints (at_tuple v (xs @ zs)) c"
    using holds_truncated [OF td] elim r_ok by simp
  moreover have "no_consts td \<and> mSize td = ?n + ?m" using no_consts_truncate [OF td] elim r_ok by simp
  ultimately show ?thesis
    using elim facts r_ok by (auto simp: sat_constraints_def plain_conj_def no_consts_def conj_arity_def tdecl_size_def)
qed

section \<open>Application\<close>

lemma swapped_arity:
  assumes remap: "conj_remapTupleVars (map int ([f..<f + n] @ [0..<f])) c = Inr c'"
    and p: "plain_conj c" and len: "conj_arity c = n + f"
  shows "conj_arity c' = f + n"
proof -
  let ?m = "map int ([f..<f + n] @ [0..<f])"
  have "set ([f..<f + n] @ [0..<f]) = {0..<f + n}" by auto
  then have "set ?m = int ` {0..<f + n}" by (simp only: set_map)
  then have max: "fold max ?m (-1) = int (f + n) - 1" by (rule fold_max_perm)
  have "distinct ?m" by (simp add: distinct_map inj_on_def) auto
  moreover have "\<forall>l \<in> set ?m. 0 \<le> l" by auto
  moreover have "length ?m = conj_arity c" using len by simp
  ultimately show ?thesis
    using conj_remap_facts [OF remap p, of "replicate (conj_arity c') 0"] max by (auto simp: nat_ints)
qed

lemma apply_open_facts:
  assumes app: "apply_open w this rhs = Inr c"
    and p: "plain_conj this" "plain_conj rhs"
    and wf: "wf_tdecl (mTupleDecl this)" "wf_tdecl (mTupleDecl rhs)"
    and inj: "inj (key_address w)" and inv: "\<forall>f. inverse_of w f = []"
    and len: "conj_arity this = conj_arity rhs + length zs"
  shows "plain_conj c \<and> wf_tdecl (mTupleDecl c) \<and> mInArity c = 0 \<and> conj_arity c = length zs
    \<and> (holds v c zs \<longleftrightarrow> (\<exists>xs. holds v rhs xs \<and> holds v this (xs @ zs)))"
proof -
  let ?n = "conj_arity rhs" and ?f = "length zs"
  let ?L = "[?f..<?f + ?n] @ [0..<?f]" and ?R = "[?f..<?f + ?n]"
  have nm: "conj_arity this - ?n = ?f" using len by simp
  obtain l0 l r0 r1 m r' td where
    f: "isFunctionInverse w (int ?n) this = Inr True"
    and l: "pushConstToConstraints (address_order w) this = Inr l0"
      "conj_remapTupleVars (map int ?L) (l0\<lparr>mInArity := int ?f\<rparr>) = Inr l"
    and r1: "pushConstToConstraints (address_order w) rhs = Inr r0" "conj_remapTupleVars (map int ?R) r0 = Inr r1"
    and m: "foldm (function_step w 0 (int ?f - 1) (copyConstraintsFrom r1 l))
      [?f..<conj_arity (copyConstraintsFrom r1 l)] SubMap_new = Inr m"
    and s: "substituteInConstraints w m (copyConstraintsFrom r1 l) = Inr r'"
    and td: "truncate_decl ?f (mTupleDecl r') = Inr td"
    and c: "c = copyConstraintsFrom r' (Conjunction_tdecl td)"
    using app unfolding apply_open_def nm Let_def
    by (auto simp: bindr_eq_Inr split: if_splits)
  let ?r = "copyConstraintsFrom r1 l"
  have L: "plain_conj l \<and> no_consts (mTupleDecl l)
      \<and> (sat_constraints (at_tuple v (zs @ xs)) l \<longleftrightarrow> holds v this (map ((!) (zs @ xs)) ?L))"
    if "length xs = ?n" for xs
    by (rule push_remap [OF l refl p(1) wf(1)]) (use len that in auto)
  have R: "plain_conj r1 \<and> no_consts (mTupleDecl r1)
      \<and> (sat_constraints (at_tuple v (zs @ xs)) r1 \<longleftrightarrow> holds v rhs (map ((!) (zs @ xs)) ?R))"
    if "length xs = ?n" for xs
    by (rule push_remap [OF r1 _ p(2) wf(2), of "mInArity r0"]) (use that in auto)
  have sat: "sat_constraints (at_tuple v (zs @ xs)) ?r \<longleftrightarrow> holds v rhs xs \<and> holds v this (xs @ zs)"
    if "length xs = ?n" for xs
    using L [OF that] R [OF that] pick_parts [of zs xs "[]"] that
    by (auto simp add: sat_copyConstraintsFrom)
  note push = pushConstToConstraints_facts [OF l(1) p(1) wf(1), of undefined "[]"]
  have "conj_arity l = ?f + ?n"
    by (rule swapped_arity [OF l(2)]) (use push len in \<open>auto simp: plain_conj_def conj_arity_def\<close>)
  then have ar: "conj_arity ?r = ?f + ?n" by (simp add: conj_arity_def sat_copyConstraintsFrom)
  have r_ok: "no_consts (mTupleDecl ?r)" "plain_conj ?r"
    using L [of "replicate ?n 0"] R [of "replicate ?n 0"] by (simp_all add: sat_copyConstraintsFrom)
  have found: "findFunction w (int i) 0 (int ?f - 1) ?r \<noteq> Inr None" if i: "i \<in> {?f..<?f + ?n}" for i
  proof -
    obtain j where j: "i = ?f + j" "j < ?n" using i that [of "i - ?f"] by auto
    have free: "\<not> elemIsConst (mTupleDecl ?r) i"
      using no_consts_elem [OF r_ok(1)] ar i by (simp add: conj_arity_def tdecl_size_def)
    have "map int ?L ! j = int i" using j by (simp add: nth_append)
    moreover have "findFunction w (map int ?L ! j) 0 (int ?f - 1) ?r \<noteq> Inr None"
      by (rule function_kept [OF f [unfolded isFunctionInverse_def] _ _ inv p(1) wf(1) l])
        (use j len ar free in \<open>auto simp: nth_append distinct_map inj_on_def copyConstraintsFrom_def nat_add_distrib\<close>)
    ultimately show ?thesis by simp
  qed
  have elim: "plain_conj r' \<and> mTupleDecl r' = mTupleDecl ?r \<and> mInArity r' = mInArity ?r
    \<and> (sat_constraints (at_tuple v zs) r' \<longleftrightarrow>
         (\<exists>xs. length xs = ?n \<and> sat_constraints (at_tuple v (zs @ xs)) ?r))"
    by (rule eliminate_inner [OF m [unfolded ar] s r_ok(1) ar r_ok(2) inj inv]) (use found in simp_all)
  have c': "mTupleDecl c = td" "mInArity c = 0" "plain_conj c = plain_conj r'"
    "sat_constraints u c = sat_constraints u r'" for u
    by (simp_all add: c copyConstraintsFrom_def Conjunction_tdecl_def plain_conj_def sat_constraints_def)
  have nc: "no_consts (mTupleDecl r')" using elim r_ok by simp
  have "holds v rhs xs \<Longrightarrow> length xs = ?n" for xs
    by (simp add: holds_def admits_def conj_arity_def tdecl_size_def)
  then have "(\<exists>xs. length xs = ?n \<and> sat_constraints (at_tuple v (zs @ xs)) ?r) \<longleftrightarrow>
      (\<exists>xs. holds v rhs xs \<and> holds v this (xs @ zs))"
    using sat by blast
  then show ?thesis
    using holds_truncated [OF td nc refl c'(1), of v] no_consts_truncate [OF td nc] elim c'
    by (simp add: no_consts_def conj_arity_def tdecl_size_def)
qed

section \<open>Constants found among the equalities\<close>

definition const_by :: "world \<Rightarrow> exp \<Rightarrow> nat \<Rightarrow> int \<Rightarrow> bool" where
  "const_by w e i k \<longleftrightarrow> (\<exists>sol. solveForFactor (inverse_of w) e (TupleVarTerm 1 (int i)) = Inr sol
     \<and> const_solution sol = Some k)"

lemma isConst_val: "isConst t \<Longrightarrow> factor_val u t = 1"
  by (cases t) simp_all

lemma const_by_eval:
  assumes "const_by w e i k" and inv: "\<forall>f. inverse_of w f = []" and "plain_exp e"
  shows "eval_exp u e = 0 \<longleftrightarrow> tvv u (int i) = k"
proof -
  obtain s where s: "solveForFactor (inverse_of w) e (TupleVarTerm 1 (int i)) = Inr (Some s)"
    "const_solution (Some s) = Some k"
  proof -
    from assms(1) obtain sol where sol: "solveForFactor (inverse_of w) e (TupleVarTerm 1 (int i)) = Inr sol"
      "const_solution sol = Some k" by (auto simp: const_by_def)
    with that show thesis by (cases sol) (simp_all add: const_solution_def)
  qed
  have "eval_exp u s = k"
    using s(2) equalsZero_eval [of s u] isConst_val
    by (auto simp: const_solution_def getTerm_mTerms eval_exp_terms split: if_splits option.splits trm.splits)
  with solveForFactor_no_inverse [OF inv s(1)] assms(3) show ?thesis by simp
qed

lemma const_fold:
  assumes fold: "foldm (const_step w td) (List.product eqs [0..<n]) (Map.empty, []) = Inr (T, R)"
    and wf: "wf_tdecl td"
  shows "(\<forall>i k. T i = Some k \<longrightarrow> i < n \<and> \<not> elemIsConst td i \<and> (\<exists>e \<in> set eqs. const_by w e i k))
    \<and> (\<forall>e \<in> set R. e \<in> set eqs \<and> (\<exists>i k k'. const_by w e i k \<and> T i = Some k'))"
proof -
  have "case (T, R) of (T, R) \<Rightarrow>
      (\<forall>i k. T i = Some k \<longrightarrow> i < n \<and> \<not> elemIsConst td i \<and> (\<exists>e \<in> set eqs. const_by w e i k))
    \<and> (\<forall>e \<in> set R. e \<in> set eqs \<and> (\<exists>i k k'. const_by w e i k \<and> T i = Some k'))"
  proof (rule foldm_invariant [OF fold])
    fix x u u'
    assume x: "x \<in> set (List.product eqs [0..<n])"
      and P: "case u of (T, R) \<Rightarrow>
        (\<forall>i k. T i = Some k \<longrightarrow> i < n \<and> \<not> elemIsConst td i \<and> (\<exists>e \<in> set eqs. const_by w e i k))
        \<and> (\<forall>e \<in> set R. e \<in> set eqs \<and> (\<exists>i k k'. const_by w e i k \<and> T i = Some k'))"
      and step: "const_step w td x u = Inr u'"
    obtain e i S Q where xu: "x = (e, i)" "u = (S, Q)" by (cases x; cases u) auto
    with x have ei: "e \<in> set eqs" "i < n" by auto
    show "case u' of (T, R) \<Rightarrow>
        (\<forall>i k. T i = Some k \<longrightarrow> i < n \<and> \<not> elemIsConst td i \<and> (\<exists>e \<in> set eqs. const_by w e i k))
        \<and> (\<forall>e \<in> set R. e \<in> set eqs \<and> (\<exists>i k k'. const_by w e i k \<and> T i = Some k'))"
    proof (cases "elemIsConst td i")
      case True
      with step P xu show ?thesis by (simp add: const_step_def)
    next
      case False
      then obtain sol where sol: "solveForFactor (inverse_of w) e (TupleVarTerm 1 (int i)) = Inr sol"
        and u': "(case const_solution sol of None \<Rightarrow> Inr (S, Q) | Some k \<Rightarrow> Inr (S(i \<mapsto> k), Q @ [e])) = (Inr u' :: _ res)"
        using step xu by (auto simp: const_step_def bindr_eq_Inr elemCreateTerm_def elemIsConst_def split: if_splits)
      show ?thesis
      proof (cases "const_solution sol")
        case None
        with u' P xu show ?thesis by simp
      next
        case (Some k)
        then have k: "const_by w e i k" and u': "u' = (S(i \<mapsto> k), Q @ [e])" using sol u' by (auto simp: const_by_def)
        have "\<exists>j k'' k'. const_by w r j k'' \<and> (S(i \<mapsto> k)) j = Some k'" if "r \<in> set Q" for r
          using P xu that by (fastforce simp: fun_upd_apply)
        then show ?thesis using P xu u' k ei False by auto
      qed
    qed
  qed simp
  then show ?thesis by simp
qed

lemma set_const_fold:
  assumes "foldm (set_const_step T) [0..<k] td = Inr td'" and "wf_tdecl td" and "k \<le> mSize td"
  shows "wf_tdecl td' \<and> mSize td' = mSize td
    \<and> (\<forall>i. elemIsConst td' i = (elemIsConst td i \<or> (i < k \<and> T i \<noteq> None)))
    \<and> (\<forall>i. elemConstVal td' i = (if i < k \<and> T i \<noteq> None then the (T i) else elemConstVal td i))"
  using assms(1,3)
proof (induction k arbitrary: td')
  case (Suc k)
  then obtain t where t: "foldm (set_const_step T) [0..<k] td = Inr t" "set_const_step T k t = Inr td'"
    by (auto simp: foldm_append bindr_eq_Inr)
  note IH = Suc.IH [OF t(1)]
  show ?case
  proof (cases "T k")
    case None
    with t IH Suc.prems show ?thesis by (auto simp: set_const_step_def less_Suc_eq)
  next
    case (Some c)
    with t have "setTupleElem_const k c t = Inr td'" by (simp add: set_const_step_def)
    moreover have "wf_tdecl t" "mSize t = mSize td" "k < mSize td" using IH Suc.prems by simp_all
    ultimately have "wf_tdecl td'" "mSize td' = mSize t"
      and at: "\<And>i. elemIsConst td' i = (i = k \<or> elemIsConst t i)"
        "\<And>i. elemConstVal td' i = (if i = k then c else elemConstVal t i)"
      by (auto simp: setTupleElem_const_def elemIsConst_def elemConstVal_def wf_tdecl_def nth_list_update
          split: if_splits)
    with IH Some Suc.prems show ?thesis by (simp add: less_Suc_eq) blast
  qed
qed (use assms(2) in simp)

lemma push_const_constraints_facts:
  assumes push: "pushConstConstraintsToTupleDecl w c = Inr c'" and inv: "\<forall>f. inverse_of w f = []"
    and p: "plain_conj c" and wf: "wf_tdecl (mTupleDecl c)"
  shows "plain_conj c' \<and> wf_tdecl (mTupleDecl c') \<and> mInArity c' = mInArity c \<and> conj_arity c' = conj_arity c
    \<and> (holds v c xs \<longrightarrow> holds v c' xs) \<and> (holds v c ys \<longrightarrow> holds v c' xs \<longrightarrow> holds v c xs)"
proof -
  let ?td = "mTupleDecl c" and ?eqs = "mEqualities c"
  obtain T R td where
    TR: "foldm (const_step w ?td) (List.product ?eqs [0..<conj_arity c]) (Map.empty, []) = Inr (T, R)"
    and td: "foldm (set_const_step T) [0..<conj_arity c] ?td = Inr td"
    and c': "c' = c\<lparr>mTupleDecl := td, mEqualities := filter (\<lambda>e. \<not> list_ex (exp_eq (address_order w) e) R) ?eqs\<rparr>"
    using push by (auto simp: pushConstConstraintsToTupleDecl_def bindr_eq_Inr)
  note found = const_fold [OF TR wf]
  have td': "wf_tdecl td \<and> mSize td = mSize ?td
      \<and> (\<forall>i. elemIsConst td i = (elemIsConst ?td i \<or> T i \<noteq> None))
      \<and> (\<forall>i. elemConstVal td i = (if T i \<noteq> None then the (T i) else elemConstVal ?td i))"
  proof -
    have lt: "(i < conj_arity c \<and> T i \<noteq> None) = (T i \<noteq> None)" for i
      using conjunct1 [OF found, rule_format, of i] by (cases "T i") simp_all
    have "conj_arity c \<le> mSize ?td" by (simp add: conj_arity_def tdecl_size_def)
    from set_const_fold [OF td wf this] show ?thesis unfolding lt .
  qed
  have pe: "plain_exp e" if "e \<in> set ?eqs" for e using p that by (simp add: plain_conj_def list_all_iff)
  have at: "zs ! i = k" if h: "holds v c zs" and e: "e \<in> set ?eqs" "const_by w e i k" and i: "i < conj_arity c"
    for zs e i k
  proof -
    have "eval_exp (at_tuple v zs) e = 0" using h e(1) by (simp add: holds_def sat_constraints_def zeros_def)
    moreover have "i < length zs" using h i by (simp add: holds_def admits_def conj_arity_def tdecl_size_def)
    ultimately show ?thesis using const_by_eval [OF e(2) inv pe [OF e(1)], of "at_tuple v zs"] by simp
  qed
  have T_at: "zs ! i = k" if "holds v c zs" "T i = Some k" for zs i k
    using at [OF that(1)] found that(2) by blast
  have "holds v c' xs" if h: "holds v c xs"
  proof -
    have "admits ?td xs" "sat_constraints (at_tuple v xs) c" using h by (simp_all add: holds_def)
    moreover have "xs ! i = elemConstVal td i" if "i < mSize ?td" "elemIsConst td i" for i
      using td' T_at [OF h, of i] that \<open>admits ?td xs\<close> by (cases "T i") (simp_all add: admits_def)
    ultimately have "admits td xs" "sat_constraints (at_tuple v xs) c'"
      using td' by (simp_all add: admits_def c' sat_constraints_def zeros_def)
    then show ?thesis by (simp add: holds_def c')
  qed
  moreover have "holds v c xs" if h: "holds v c ys" and h': "holds v c' xs"
  proof -
    have adm: "admits td xs" and sat: "sat_constraints (at_tuple v xs) c'"
      using h' by (simp_all add: holds_def c')
    have "admits ?td xs"
    proof -
      have "xs ! i = elemConstVal ?td i" if "i < mSize ?td" "elemIsConst ?td i" for i
      proof -
        have "T i = None" using found that(2) by (cases "T i") auto
        with adm td' that show ?thesis by (simp add: admits_def)
      qed
      with adm td' show ?thesis by (simp add: admits_def)
    qed
    moreover have "eval_exp (at_tuple v xs) e = 0" if e: "e \<in> set ?eqs" for e
    proof (cases "list_ex (exp_eq (address_order w) e) R")
      case False
      with e sat show ?thesis by (auto simp: c' sat_constraints_def zeros_def)
    next
      case True
      then obtain r where r: "r \<in> set R" "exp_eq (address_order w) e r" by (auto simp: list_ex_iff)
      then obtain i k k' where i: "const_by w r i k" "T i = Some k'" "r \<in> set ?eqs" using found by blast
      then have ar: "i < conj_arity c" using found by blast
      have "k = k'" using at [OF h i(3,1) ar] T_at [OF h i(2)] by simp
      moreover have "xs ! i = k'"
        using adm td' i(2) ar by (auto simp: admits_def conj_arity_def tdecl_size_def)
      moreover have "i < length xs" using adm td' ar by (simp add: admits_def conj_arity_def tdecl_size_def)
      ultimately have "eval_exp (at_tuple v xs) r = 0" using const_by_eval [OF i(1) inv pe [OF i(3)]] by simp
      with exp_eq_val [OF r(2)] pe e i(3) show ?thesis by simp
    qed
    moreover have "nonnegs (at_tuple v xs) (mInequalities c)" using sat by (simp add: c' sat_constraints_def)
    ultimately show ?thesis by (simp add: holds_def sat_constraints_def zeros_def)
  qed
  moreover have "plain_conj c'" using p by (auto simp: c' plain_conj_def list_all_iff)
  ultimately show ?thesis using td' by (auto simp: c' conj_arity_def tdecl_size_def)
qed

section \<open>Properties\<close>

text \<open>
  Moving constant equalities into the declaration loses no tuple, and it adds none unless
  the conjunction is empty.
\<close>

lemma pushConstConstraints_holds:
  assumes "pushConstConstraintsToTupleDecl w c = Inr c'" and "plain_conj c" and "wf_tdecl (mTupleDecl c)"
    and "\<forall>f. inverse_of w f = []"
  shows "(holds v c xs \<longrightarrow> holds v c' xs) \<and> ((\<exists>ys. holds v c ys) \<longrightarrow> (holds v c' xs \<longleftrightarrow> holds v c xs))"
  using push_const_constraints_facts [OF assms(1,4,2,3), of v] by blast

lemma conj_Compose_facts:
  assumes "conj_Compose w this rhs k = Inr c"
    and "plain_conj this" and "plain_conj rhs" and "wf_tdecl (mTupleDecl this)" and "wf_tdecl (mTupleDecl rhs)"
    and "inj (key_address w)" and "\<forall>f. inverse_of w f = []"
    and "conj_arity rhs = length xs + k" and "conj_arity this = k + length zs"
  shows "((\<exists>ys. length ys = k \<and> holds v rhs (xs @ ys) \<and> holds v this (ys @ zs)) \<longrightarrow> holds v c (xs @ zs))
    \<and> ((\<exists>xs' ys' zs'. length xs' = length xs \<and> length ys' = k \<and> holds v rhs (xs' @ ys') \<and> holds v this (ys' @ zs')) \<longrightarrow>
        holds v c (xs @ zs) \<longrightarrow> (\<exists>ys. length ys = k \<and> holds v rhs (xs @ ys) \<and> holds v this (ys @ zs)))
    \<and> mInArity c = int (length xs) \<and> plain_conj c \<and> wf_tdecl (mTupleDecl c)"
proof -
  obtain opn where o: "compose_open w this rhs k = Inr opn" "pushConstConstraintsToTupleDecl w opn = Inr c"
    using assms(1) by (auto simp: conj_Compose_def bindr_eq_Inr)
  note open_facts = compose_open_facts [OF o(1) assms(2-7)]
  note facts = open_facts [OF assms(8,9), of v]
  note push = push_const_constraints_facts [OF o(2) assms(7), of v]
  have "holds v opn (xs' @ zs')"
    if "length xs' = length xs" "length ys' = k" "holds v rhs (xs' @ ys')" "holds v this (ys' @ zs')" for xs' ys' zs'
  proof -
    have "conj_arity this = k + length zs'"
      using that by (simp add: holds_def admits_def conj_arity_def tdecl_size_def)
    with open_facts [of xs' zs' v] that assms(8) show ?thesis by auto
  qed
  note nonempty = this
  have push1: "holds v opn (xs @ zs) \<longrightarrow> holds v c (xs @ zs)" and "mInArity c = int (length xs) \<and> plain_conj c \<and> wf_tdecl (mTupleDecl c)"
    using push facts by simp_all
  moreover have "holds v opn (xs @ zs)"
    if "length xs' = length xs" "length ys' = k" "holds v rhs (xs' @ ys')" "holds v this (ys' @ zs')"
      "holds v c (xs @ zs)" for xs' ys' zs'
    using push [OF conjunct1 [OF facts] conjunct1 [OF conjunct2 [OF facts]]] nonempty [OF that(1-4)] that(5) by blast
  ultimately show ?thesis using facts by (intro conjI impI) (blast, elim exE conjE, simp_all)
qed

text \<open>
  C1. \<open>Compose\<close> is relational composition: \<open>xs\<close> and \<open>zs\<close> are related by the result if \<open>rhs\<close>
  relates \<open>xs\<close> to some \<open>ys\<close> and \<open>this\<close> relates \<open>ys\<close> to \<open>zs\<close>, and only if, unless the
  composition is empty. Here no function is declared to have an inverse.
\<close>

theorem conj_Compose_holds:
  assumes "conj_Compose w this rhs k = Inr c"
    and "plain_conj this" and "plain_conj rhs" and "wf_tdecl (mTupleDecl this)" and "wf_tdecl (mTupleDecl rhs)"
    and "inj (key_address w)" and "\<forall>f. inverse_of w f = []"
    and "conj_arity rhs = length xs + k" and "conj_arity this = k + length zs"
  shows "((\<exists>ys. length ys = k \<and> holds v rhs (xs @ ys) \<and> holds v this (ys @ zs)) \<longrightarrow> holds v c (xs @ zs))
    \<and> ((\<exists>xs' ys' zs'. length xs' = length xs \<and> length ys' = k \<and> holds v rhs (xs' @ ys') \<and> holds v this (ys' @ zs')) \<longrightarrow>
        holds v c (xs @ zs) \<longrightarrow> (\<exists>ys. length ys = k \<and> holds v rhs (xs @ ys) \<and> holds v this (ys @ zs)))
    \<and> mInArity c = int (length xs)"
  using conj_Compose_facts [OF assms] by blast

theorem conj_Compose_holds_witness:
  "let w = \<lparr>address_order = no_addr, key_address = (\<lambda>n. n), inverse_of = (\<lambda>f. []), range_arity = (\<lambda>f. Inr 1)\<rparr>;
       lhs = (Conjunction_rel 2 1)\<lparr>mEqualities := [Exp [TupleVarTerm 1 0, TupleVarTerm (-1) 1, Term 1] Equality]\<rparr>;
       rhs = (Conjunction_rel 2 1)\<lparr>mEqualities := [Exp [TupleVarTerm 2 0, TupleVarTerm (-1) 1] Equality]\<rparr>;
       v = \<lparr>tvv = \<lambda>l. 0, symv = \<lambda>s. 4, ufv = \<lambda>f i xs. 0\<rparr>
   in \<exists>c. conj_Compose w lhs rhs 1 = Inr c \<and> holds v c ([3] @ [7])"
proof -
  let ?w = "\<lparr>address_order = no_addr, key_address = (\<lambda>n. n), inverse_of = (\<lambda>f. []), range_arity = (\<lambda>f. Inr 1)\<rparr>"
  let ?lhs = "(Conjunction_rel 2 1)\<lparr>mEqualities := [Exp [TupleVarTerm 1 0, TupleVarTerm (-1) 1, Term 1] Equality]\<rparr>"
  let ?rhs = "(Conjunction_rel 2 1)\<lparr>mEqualities := [Exp [TupleVarTerm 2 0, TupleVarTerm (-1) 1] Equality]\<rparr>"
  let ?v = "\<lparr>tvv = \<lambda>l. 0, symv = \<lambda>s. 4, ufv = \<lambda>f i xs. 0\<rparr>"
  have "isl (conj_Compose ?w ?lhs ?rhs 1) = False" by code_simp
  then obtain c where c: "conj_Compose ?w ?lhs ?rhs 1 = Inr c"
    by (cases "conj_Compose ?w ?lhs ?rhs 1") auto
  have "holds ?v ?rhs ([3] @ [6]) \<and> holds ?v ?lhs ([6] @ [7])"
    by (simp add: holds_def sat_constraints_def zeros_def nonnegs_def Conjunction_rel_def Conjunction_new_def
        Conjunction_tdecl_def admits_def TupleDecl_new_def elemIsConst_def at_tuple_def less_Suc_eq)
  then have "\<exists>ys. length ys = 1 \<and> holds ?v ?rhs ([3] @ ys) \<and> holds ?v ?lhs (ys @ [7])"
    by (intro exI [of _ "[6]"]) simp
  with conj_Compose_holds [OF c, of "[3]" "[7]" ?v] c show ?thesis
    by (simp add: plain_conj_def Conjunction_rel_def Conjunction_new_def Conjunction_tdecl_def conj_arity_def
        tdecl_size_def)
qed

lemma conj_Apply_facts:
  assumes "conj_Apply w this rhs = Inr c"
    and "plain_conj this" and "plain_conj rhs" and "wf_tdecl (mTupleDecl this)" and "wf_tdecl (mTupleDecl rhs)"
    and "inj (key_address w)" and "\<forall>f. inverse_of w f = []"
    and "conj_arity this = conj_arity rhs + length zs"
  shows "((\<exists>xs. holds v rhs xs \<and> holds v this (xs @ zs)) \<longrightarrow> holds v c zs)
    \<and> ((\<exists>xs' zs'. holds v rhs xs' \<and> holds v this (xs' @ zs')) \<longrightarrow>
        holds v c zs \<longrightarrow> (\<exists>xs. holds v rhs xs \<and> holds v this (xs @ zs)))
    \<and> plain_conj c \<and> wf_tdecl (mTupleDecl c)"
proof -
  obtain opn where o: "apply_open w this rhs = Inr opn" "pushConstConstraintsToTupleDecl w opn = Inr c"
    using assms(1) by (auto simp: conj_Apply_def bindr_eq_Inr)
  note open_facts = apply_open_facts [OF o(1) assms(2-7)]
  note facts = open_facts [OF assms(8), of v]
  note push = push_const_constraints_facts [OF o(2) assms(7), of v]
  have "holds v opn zs'" if "holds v rhs xs'" "holds v this (xs' @ zs')" for xs' zs'
  proof -
    have "conj_arity this = conj_arity rhs + length zs'"
      using that by (simp add: holds_def admits_def conj_arity_def tdecl_size_def)
    with open_facts [of zs' v] that show ?thesis by auto
  qed
  note nonempty = this
  have "holds v opn zs \<longrightarrow> holds v c zs" and "plain_conj c \<and> wf_tdecl (mTupleDecl c)"
    using push facts by simp_all
  moreover have "holds v opn zs"
    if "holds v rhs xs'" "holds v this (xs' @ zs')" "holds v c zs" for xs' zs'
    using push [OF conjunct1 [OF facts] conjunct1 [OF conjunct2 [OF facts]]] nonempty [OF that(1,2)] that(3) by blast
  ultimately show ?thesis using facts by (intro conjI impI) (blast, elim exE conjE, simp_all)
qed

text \<open>
  C2. \<open>Apply\<close> is the image of a set: the result holds of \<open>zs\<close> if some tuple of the set is
  related to \<open>zs\<close>, and only if, unless the image is empty. Here no function is declared to have an inverse.
\<close>

theorem conj_Apply_holds:
  assumes "conj_Apply w this rhs = Inr c"
    and "plain_conj this" and "plain_conj rhs" and "wf_tdecl (mTupleDecl this)" and "wf_tdecl (mTupleDecl rhs)"
    and "inj (key_address w)" and "\<forall>f. inverse_of w f = []"
    and "conj_arity this = conj_arity rhs + length zs"
  shows "((\<exists>xs. holds v rhs xs \<and> holds v this (xs @ zs)) \<longrightarrow> holds v c zs)
    \<and> ((\<exists>xs' zs'. holds v rhs xs' \<and> holds v this (xs' @ zs')) \<longrightarrow>
        holds v c zs \<longrightarrow> (\<exists>xs. holds v rhs xs \<and> holds v this (xs @ zs)))"
  using conj_Apply_facts [OF assms] by blast

theorem conj_Apply_holds_witness:
  "let w = \<lparr>address_order = no_addr, key_address = (\<lambda>n. n), inverse_of = (\<lambda>f. []), range_arity = (\<lambda>f. Inr 1)\<rparr>;
       lhs = (Conjunction_rel 2 1)\<lparr>mEqualities := [Exp [TupleVarTerm 1 0, TupleVarTerm (-1) 1, Term 1] Equality]\<rparr>;
       rhs = (Conjunction_new 1)\<lparr>mInequalities := [Exp [TupleVarTerm 1 0] Inequality]\<rparr>;
       v = \<lparr>tvv = \<lambda>l. 0, symv = \<lambda>s. 4, ufv = \<lambda>f i xs. 0\<rparr>
   in \<exists>c. conj_Apply w lhs rhs = Inr c \<and> holds v c [7]"
proof -
  let ?w = "\<lparr>address_order = no_addr, key_address = (\<lambda>n. n), inverse_of = (\<lambda>f. []), range_arity = (\<lambda>f. Inr 1)\<rparr>"
  let ?lhs = "(Conjunction_rel 2 1)\<lparr>mEqualities := [Exp [TupleVarTerm 1 0, TupleVarTerm (-1) 1, Term 1] Equality]\<rparr>"
  let ?rhs = "(Conjunction_new 1)\<lparr>mInequalities := [Exp [TupleVarTerm 1 0] Inequality]\<rparr>"
  let ?v = "\<lparr>tvv = \<lambda>l. 0, symv = \<lambda>s. 4, ufv = \<lambda>f i xs. 0\<rparr>"
  have "isl (conj_Apply ?w ?lhs ?rhs) = False" by code_simp
  then obtain c where c: "conj_Apply ?w ?lhs ?rhs = Inr c"
    by (cases "conj_Apply ?w ?lhs ?rhs") auto
  have "holds ?v ?rhs [6] \<and> holds ?v ?lhs ([6] @ [7])"
    by (simp add: holds_def sat_constraints_def zeros_def nonnegs_def Conjunction_rel_def Conjunction_new_def
        Conjunction_tdecl_def admits_def TupleDecl_new_def elemIsConst_def at_tuple_def less_Suc_eq)
  with conj_Apply_holds [OF c, of "[7]" ?v] c show ?thesis
    by (auto simp: plain_conj_def Conjunction_rel_def Conjunction_new_def Conjunction_tdecl_def conj_arity_def
        tdecl_size_def)
qed

end
