(* ===== verification/IEG_SetProps.thy ===== *)
theory IEG_SetProps
  imports IEG_Sparse IEG_Compose
begin

text \<open>
  What the operations of \<open>SparseConstraints\<close>, \<open>Set\<close> and \<open>Relation\<close> do to the tuples they
  denote: a union of conjunctions holds of a tuple if one of the conjunctions does.
\<close>

section \<open>The order of conjunctions\<close>

definition okc :: "conj \<Rightarrow> bool" where
  "okc c \<longleftrightarrow> plain_conj c \<and> wf_tdecl (mTupleDecl c)"

type_synonym exp_key = "nat \<times> (factor_key \<times> int) list"

definition ckey :: "conj \<Rightarrow> (nat \<times> int option list) \<times> nat \<times> nat \<times> exp_key list \<times> exp_key list" where
  "ckey c = (tdkey (mTupleDecl c), length (mEqualities c), length (mInequalities c),
     map ekey (mEqualities c), map ekey (mInequalities c))"

lemma okc_no_tuple: "okc c \<Longrightarrow> list_all no_tuple (mEqualities c) \<and> list_all no_tuple (mInequalities c)"
  by (auto simp: okc_def plain_conj_def list_all_iff plain_no_tuple)

interpretation conjs: keyed_order "conj_less ad" ckey okc for ad
proof unfold_locales
  fix x y assume ok: "okc x" "okc y"
  then have td: "tdecl_less (mTupleDecl x) (mTupleDecl y) \<longleftrightarrow> tdkey (mTupleDecl x) < tdkey (mTupleDecl y)"
    "tdecl_less (mTupleDecl y) (mTupleDecl x) \<longleftrightarrow> tdkey (mTupleDecl y) < tdkey (mTupleDecl x)"
    by (simp_all add: tdecls.lt_key okc_def)
  have scan: "scan_less (exp_less ad) as bs = (if map ekey as < map ekey bs then Some True
      else if map ekey bs < map ekey as then Some False else None)"
    if "length as = length bs" "list_all no_tuple as" "list_all no_tuple bs" for as bs
    by (rule exps.scan_less_key [OF that])
  note nt = okc_no_tuple [OF ok(1)] okc_no_tuple [OF ok(2)]
  show "conj_less ad x y \<longleftrightarrow> ckey x < ckey y"
  proof (cases "tdkey (mTupleDecl x)" "tdkey (mTupleDecl y)" rule: linorder_cases)
    case equal
    show ?thesis
    proof (cases "length (mEqualities x) = length (mEqualities y) \<and> length (mInequalities x) = length (mInequalities y)")
      case True
      then show ?thesis
        using equal nt by (simp add: conj_less_def td ckey_def scan) fastforce
    next
      case False
      then show ?thesis using equal unfolding conj_less_def td ckey_def by (simp add: less_prod_simp) linarith
    qed
  qed (auto simp: conj_less_def td ckey_def)
qed

lemma ekeys_eval:
  assumes "map ekey xs = map ekey ys" and "list_all plain_exp xs" and "list_all plain_exp ys"
  shows "map (eval_exp v) xs = map (eval_exp v) ys"
proof -
  have len: "length xs = length ys" using assms(1) map_eq_imp_length_eq by blast
  have "eval_exp v (xs ! i) = eval_exp v (ys ! i)" if "i < length xs" for i
  proof -
    have p: "plain_exp (xs ! i)" "plain_exp (ys ! i)" using assms that len by (simp_all add: list_all_length)
    have "ekey (xs ! i) = ekey (ys ! i)" using assms(1) that len by (metis nth_map)
    then have "exp_eq no_addr (xs ! i) (ys ! i)"
      unfolding exp_eq_def using p exps.equiv_key plain_no_tuple by blast
    with p show ?thesis using exp_eq_val by blast
  qed
  with len show ?thesis by (simp add: list_eq_iff_nth_eq)
qed

lemma ckey_holds:
  assumes "ckey a = ckey b" and "okc a" and "okc b"
  shows "holds v a xs \<longleftrightarrow> holds v b xs"
proof -
  have "map (eval_exp (at_tuple v xs)) (mEqualities a) = map (eval_exp (at_tuple v xs)) (mEqualities b)"
    "map (eval_exp (at_tuple v xs)) (mInequalities a) = map (eval_exp (at_tuple v xs)) (mInequalities b)"
    by (rule ekeys_eval; use assms in \<open>simp add: ckey_def okc_def plain_conj_def\<close>)+
  from all_map_eq [OF this(1), of "\<lambda>x. x = 0"] all_map_eq [OF this(2), of "\<lambda>x. x \<ge> 0"]
  have "sat_constraints (at_tuple v xs) a \<longleftrightarrow> sat_constraints (at_tuple v xs) b"
    by (simp add: sat_constraints_def zeros_def nonnegs_def)
  moreover have "admits (mTupleDecl a) xs \<longleftrightarrow> admits (mTupleDecl b) xs"
    using assms by (simp add: ckey_def tdkey_def okc_def admits_consts)
  ultimately show ?thesis by (simp add: holds_def)
qed

section \<open>Adding conjunctions\<close>

definition sparse_holds :: "valuation \<Rightarrow> sparse \<Rightarrow> int list \<Rightarrow> bool" where
  "sparse_holds v cs xs \<longleftrightarrow> (\<exists>c \<in> set cs. holds v c xs)"

definition sorted_sparse :: "sparse \<Rightarrow> bool" where
  "sorted_sparse cs \<longleftrightarrow> sorted_wrt (<) (map ckey cs)"

lemma sparse_holds_keys:
  assumes "ckey ` set cs = ckey ` set ds" and "list_all okc cs" and "list_all okc ds"
  shows "sparse_holds v cs xs \<longleftrightarrow> sparse_holds v ds xs"
proof -
  have "\<exists>d \<in> set ds. ckey c = ckey d" if "c \<in> set cs" for c
    using imageI [OF that, of ckey] unfolding assms(1) by (simp add: image_iff)
  moreover have "\<exists>c \<in> set cs. ckey d = ckey c" if "d \<in> set ds" for d
    using imageI [OF that, of ckey] unfolding assms(1) [symmetric] by (simp add: image_iff)
  ultimately show ?thesis using assms(2,3) ckey_holds unfolding sparse_holds_def list_all_iff by metis
qed

lemma drop_true_ok [simp]: "list_all okc cs \<Longrightarrow> list_all okc (drop_true cs)"
  by (simp add: drop_true_def)

lemma addConjunction_facts:
  assumes "okc c" and "list_all okc cs"
  shows "list_all okc (sparse_addConjunction ad c cs)
    \<and> (sparse_holds v (sparse_addConjunction ad c cs) xs \<longleftrightarrow> holds v c xs \<or> sparse_holds v (drop_true cs) xs)
    \<and> (sorted_sparse cs \<longrightarrow> sorted_sparse (sparse_addConjunction ad c cs))"
proof -
  let ?r = "sparse_addConjunction ad c cs"
  have ok: "list_all okc (drop_true cs)" using assms by simp
  have okr: "list_all okc ?r"
    unfolding sparse_addConjunction_def by (rule conjs.ok_insert [OF assms(1) ok])
  have "ckey ` set ?r = ckey ` set (c # drop_true cs)"
    using conjs.key_insert [OF assms(1) ok, of ad] by (simp add: sparse_addConjunction_def)
  then have "sparse_holds v ?r xs \<longleftrightarrow> sparse_holds v (c # drop_true cs) xs"
    by (rule sparse_holds_keys) (use okr ok assms in simp_all)
  moreover have "sorted_sparse ?r" if "sorted_sparse cs"
  proof -
    have "sorted_wrt (<) (map ckey (drop_true cs))" using that by (simp add: sorted_sparse_def drop_true_def)
    from conjs.sorted_insert [OF assms(1) ok this, of ad] show ?thesis
      by (simp add: sparse_addConjunction_def sorted_sparse_def)
  qed
  ultimately show ?thesis using okr by (auto simp: sparse_holds_def)
qed

lemma sparse_holds_simps [simp]:
  "\<not> sparse_holds v [] xs" "sparse_holds v (c # cs) xs \<longleftrightarrow> holds v c xs \<or> sparse_holds v cs xs"
  "sparse_holds v (cs @ ds) xs \<longleftrightarrow> sparse_holds v cs xs \<or> sparse_holds v ds xs"
  by (auto simp: sparse_holds_def)

text \<open>Conjunctions with constraints are never dropped.\<close>

lemma hasConstraints_insert:
  "hasConstraints c \<Longrightarrow> list_all hasConstraints cs \<Longrightarrow> list_all hasConstraints (insert_unique lt c cs)"
  using set_insert_unique [of lt c cs] by (auto simp: list_all_iff)

lemma drop_true_constrained: "list_all hasConstraints cs \<Longrightarrow> drop_true cs = cs"
  by (cases cs) (auto simp: drop_true_def)

lemma fold_add:
  assumes "list_all okc new" and "list_all hasConstraints new"
    and "list_all okc cs" and "list_all hasConstraints cs"
  shows "list_all okc (fold (sparse_addConjunction ad) new cs)
    \<and> list_all hasConstraints (fold (sparse_addConjunction ad) new cs)
    \<and> (sparse_holds v (fold (sparse_addConjunction ad) new cs) xs \<longleftrightarrow> sparse_holds v new xs \<or> sparse_holds v cs xs)
    \<and> (sorted_sparse cs \<longrightarrow> sorted_sparse (fold (sparse_addConjunction ad) new cs))"
  using assms
proof (induction new arbitrary: cs)
  case (Cons c new)
  let ?r = "sparse_addConjunction ad c cs"
  have "list_all okc ?r \<and> (sparse_holds v ?r xs \<longleftrightarrow> holds v c xs \<or> sparse_holds v cs xs)
      \<and> (sorted_sparse cs \<longrightarrow> sorted_sparse ?r)"
    using addConjunction_facts [of c cs ad v xs] Cons.prems drop_true_constrained by simp
  moreover have "list_all hasConstraints ?r"
    using Cons.prems by (simp add: sparse_addConjunction_def drop_true_constrained hasConstraints_insert)
  ultimately show ?case using Cons.IH [of ?r] Cons.prems by auto
qed simp

text \<open>Sorting a list keeps its elements.\<close>

lemma set_list_sort [simp]: "set (list_sort lt xs) = set xs"
proof -
  have "set (stable_insert lt x ys) = insert x (set ys)" for x ys by (induction ys) auto
  then show ?thesis by (induction xs) (simp_all add: list_sort_def)
qed

context keyed_order
begin

lemma sorted_list_sort:
  assumes "list_all ok xs"
  shows "sorted_wrt (\<le>) (map key (list_sort lt xs))"
proof -
  have ins: "sorted_wrt (\<le>) (map key (stable_insert lt x ys)) \<and> set (stable_insert lt x ys) = insert x (set ys)"
    if "ok x" "list_all ok ys" "sorted_wrt (\<le>) (map key ys)" for x ys
    using that
  proof (induction ys)
    case (Cons y ys)
    then show ?case by (auto simp: lt_key not_less)
  qed simp
  have "set (list_sort lt xs) = set xs \<and> sorted_wrt (\<le>) (map key (list_sort lt xs))"
    using assms
  proof (induction xs)
    case (Cons x xs)
    then have "list_all ok (list_sort lt xs)" by (simp add: list_all_iff)
    with Cons ins [of x "list_sort lt xs"] show ?case by (simp add: list_sort_def)
  qed (simp add: list_sort_def)
  then show ?thesis by simp
qed

end

section \<open>Cleaning up and copying\<close>

lemma plain_contradiction:
  assumes "isContradiction e"
  shows "eval_exp v e \<noteq> 0"
  using assms isConst_val [of "hd (mTerms e)" v]
  by (auto simp: isContradiction_def eval_exp_terms length_Suc_conv)

lemma unsatisfiable_holds: "\<not> satisfiable c \<Longrightarrow> \<not> holds v c xs"
  using plain_contradiction
  by (fastforce simp: satisfiable_def list_ex_iff holds_def sat_constraints_def zeros_def)

lemma sparse_cleanUp_facts:
  assumes clean: "sparse_cleanUp w cs = Inr cs'" and ok: "list_all okc cs"
    and n: "list_all (nests_ok_conj (inverse_of w)) cs" and v: "inverts (inverse_of w) v"
  shows "list_all okc cs' \<and> list_all satisfiable cs' \<and> list_all sorted_conj cs'
    \<and> sorted_wrt (\<le>) (map ckey cs') \<and> mInArity ` set cs' \<subseteq> mInArity ` set cs
    \<and> (sparse_holds v cs' xs \<longleftrightarrow> sparse_holds v cs xs)"
proof -
  obtain ds where ds: "mapr (cleanUp w) cs = Inr ds"
    and cs': "cs' = list_sort (conj_less (address_order w)) (filter satisfiable ds)"
    using clean by (auto simp: sparse_cleanUp_def bindr_eq_Inr)
  let ?P = "\<lambda>c d. okc d \<and> sorted_conj d \<and> mInArity d = mInArity c \<and> (holds v d xs \<longleftrightarrow> holds v c xs)"
  have "list_all2 (\<lambda>c d. cleanUp w c = Inr d) cs ds" using ds by (simp add: mapr_eq_Inr)
  then have all: "list_all2 ?P cs ds"
  proof (rule list.rel_mono_strong)
    fix c d assume c: "c \<in> set cs" and d: "cleanUp w c = Inr d"
    have "plain_conj c" "wf_tdecl (mTupleDecl c)" "nests_ok_conj (inverse_of w) c"
      using ok n c by (auto simp: list_all_iff okc_def)
    with cleanUp_facts [OF d, of "at_tuple v xs"] v show "?P c d" by (simp add: okc_def holds_def)
  qed
  then have "sparse_holds v ds xs \<longleftrightarrow> sparse_holds v cs xs"
    and "list_all okc ds \<and> list_all sorted_conj ds \<and> mInArity ` set ds \<subseteq> mInArity ` set cs"
    by (induction rule: list_all2_induct) auto
  moreover have "sparse_holds v (filter satisfiable ds) xs \<longleftrightarrow> sparse_holds v ds xs"
    using unsatisfiable_holds by (auto simp: sparse_holds_def)
  moreover from calculation(2) have "list_all okc (filter satisfiable ds)" by (auto simp: list_all_iff)
  from conjs.sorted_list_sort [OF this, of "address_order w"]
  have "sorted_wrt (\<le>) (map ckey cs')" by (simp add: cs')
  ultimately show ?thesis by (auto simp: cs' sparse_holds_def list_all_iff)
qed

text \<open>A list is proper if copying it conjunction by conjunction drops none.\<close>

definition proper :: "sparse \<Rightarrow> bool" where
  "proper cs \<longleftrightarrow> length cs \<le> 1 \<or> list_all hasConstraints cs"

lemma add_proper:
  assumes "list_all okc cs" and "proper cs"
  shows "list_all okc (fold (sparse_addConjunction ad) cs [])
    \<and> (sparse_holds v (fold (sparse_addConjunction ad) cs []) xs \<longleftrightarrow> sparse_holds v cs xs)
    \<and> set (fold (sparse_addConjunction ad) cs []) \<subseteq> set cs"
proof -
  have sub: "set (fold (sparse_addConjunction ad) cs ds) \<subseteq> set cs \<union> set ds" for ds
  proof (induction cs arbitrary: ds)
    case (Cons c cs)
    have "set (sparse_addConjunction ad c ds) \<subseteq> insert c (set ds)"
      using set_insert_unique [of "conj_less ad" c "drop_true ds"]
      by (auto simp: sparse_addConjunction_def drop_true_def split: if_splits)
    with Cons.IH [of "sparse_addConjunction ad c ds"] show ?case by auto
  qed simp
  show ?thesis
  proof (cases "length cs \<le> 1")
    case True
    then show ?thesis using assms(1) sub [of "[]"]
      by (cases cs) (auto simp: sparse_addConjunction_def drop_true_def)
  next
    case False
    with assms have "list_all hasConstraints cs" by (simp add: proper_def)
    from fold_add [OF assms(1) this, of "[]" ad v xs] sub [of "[]"] show ?thesis by simp
  qed
qed

lemma sparse_copy_holds:
  assumes cp: "sparse_copy w cs = Inr cs'" and ok: "list_all okc cs" and prp: "proper cs"
    and n: "list_all (nests_ok_conj (inverse_of w)) cs" and v: "inverts (inverse_of w) v"
  shows "list_all okc cs' \<and> (sparse_holds v cs' xs \<longleftrightarrow> sparse_holds v cs xs)"
proof -
  note add = add_proper [OF ok prp, of "address_order w" v xs]
  then have "list_all (nests_ok_conj (inverse_of w)) (fold (sparse_addConjunction (address_order w)) cs [])"
    using n by (auto simp: list_all_iff)
  with sparse_cleanUp_facts [OF cp [unfolded sparse_copy_def] _ _ v, of xs] add show ?thesis by simp
qed

lemma sparse_equal_holds:
  assumes "\<not> (sparse_less ad cs ds \<or> sparse_less ad ds cs)" and "list_all okc cs" and "list_all okc ds"
  shows "sparse_holds v cs xs \<longleftrightarrow> sparse_holds v ds xs"
proof -
  have len: "length cs = length ds" using assms(1) by (auto simp: sparse_less_def split: if_splits)
  with assms(1) have "map ckey cs = map ckey ds"
    using conjs.scan_less_key [OF len assms(2,3), of ad] conjs.scan_less_key [OF len [symmetric] assms(3,2), of ad]
    by (auto simp: sparse_less_def split: if_splits)
  then have "ckey ` set cs = ckey ` set ds" by (metis set_map)
  then show ?thesis by (rule sparse_holds_keys) (use assms in simp_all)
qed

lemma Set_new_true:
  assumes "Set_new ad n = Inr s"
  shows "drop_true (set_conjs s) = []" and "mArity s = n"
  using assms
  by (auto simp: Set_new_def bindr_eq_Inr sparse_addConjunction_def drop_true_def hasConstraints_def
      Conjunction_tdecl_def)

text \<open>Loops that compute conjunctions and add them.\<close>

lemma rel_add_loop:
  assumes "foldm (\<lambda>x r. bindr (f x) (\<lambda>c. rel_addConjunction ad c r)) xs r = Inr r'"
  shows "\<exists>cs. mapr f xs = Inr cs \<and> list_all (\<lambda>c. mInArity c = inArity r) cs
    \<and> inArity r' = inArity r \<and> outArity r' = outArity r
    \<and> rel_conjs r' = fold (sparse_addConjunction ad) cs (rel_conjs r)"
  using assms
proof (induction xs arbitrary: r)
  case (Cons x xs)
  then obtain c r1 where c: "f x = Inr c" "rel_addConjunction ad c r = Inr r1"
    and "foldm (\<lambda>x r. bindr (f x) (\<lambda>c. rel_addConjunction ad c r)) xs r1 = Inr r'"
    by (auto simp: bindr_eq_Inr)
  from Cons.IH [OF this(3)] c show ?case
    by (auto simp: rel_addConjunction_def bindr_eq_Inr split: if_splits)
qed simp

lemma fold_pairs: "fold (\<lambda>(i, j). g (f i j)) ps r = fold g (map (\<lambda>(i, j). f i j) ps) r"
  by (induction ps arbitrary: r) auto

lemma mapr_all:
  "mapr f xs = Inr ys \<Longrightarrow> (\<forall>y \<in> set ys. \<exists>x \<in> set xs. f x = Inr y) \<and> (\<forall>x \<in> set xs. \<exists>y \<in> set ys. f x = Inr y)"
  unfolding mapr_eq_Inr by (induction rule: list_all2_induct) auto

lemma fold_add_constrained:
  assumes "list_all okc new" and "list_all hasConstraints new"
  shows "list_all okc (fold (sparse_addConjunction ad) new [])
    \<and> (sparse_holds v (fold (sparse_addConjunction ad) new []) xs \<longleftrightarrow> sparse_holds v new xs)
    \<and> sorted_sparse (fold (sparse_addConjunction ad) new [])"
  using fold_add [OF assms, of "[]" ad v xs] by (simp add: sorted_sparse_def)

lemma hasConstraints_Intersect: "hasConstraints a \<Longrightarrow> hasConstraints (conj_Intersect ad a b)"
proof -
  have ne: "insert_unique lt x ys \<noteq> []" for lt :: "'a \<Rightarrow> 'a \<Rightarrow> bool" and x ys by (cases ys) auto
  have e: "mEqualities c \<noteq> [] \<Longrightarrow> mEqualities (fold (addEquality ad) es c) \<noteq> []" for es c
    by (induction es arbitrary: c) (auto simp: addEquality_def Let_def ne)
  have i: "mInequalities c \<noteq> [] \<Longrightarrow> mInequalities (fold (addInequality ad) es c) \<noteq> []" for es c
    by (induction es arbitrary: c) (auto simp: addInequality_def ne)
  assume "hasConstraints a"
  then show ?thesis
    using e [of a "mEqualities b"] i [of "fold (addEquality ad) (mEqualities b) a" "mInequalities b"]
    by (auto simp: hasConstraints_def conj_Intersect_def add_constraints_def)
qed

section \<open>Properties of unions of conjunctions\<close>

text \<open>
  Adding a conjunction adds its tuples and keeps the list sorted and free of duplicates; but
  if the list was the single conjunction without constraints, the tuples of that one are gone.
\<close>

lemma addConjunction_holds:
  assumes "okc c" and "list_all okc cs" and "sorted_sparse cs"
  shows "(sparse_holds v (sparse_addConjunction ad c cs) xs \<longleftrightarrow>
      holds v c xs \<or> \<not> (length cs = 1 \<and> \<not> hasConstraints (hd cs)) \<and> sparse_holds v cs xs)
    \<and> sorted_sparse (sparse_addConjunction ad c cs)"
  using addConjunction_facts [OF assms(1,2), of ad v xs] assms(3) by (auto simp: drop_true_def)

text \<open>
  The drop is wrong when the single conjunction is a constant tuple: its constants are in the
  declaration, so it has no constraints. The union of \<open>{[5]}\<close> and \<open>{[6]}\<close> is \<open>{[6]}\<close>.
\<close>

lemma Set_Union_constants:
  "let w = \<lparr>address_order = no_addr, key_address = (\<lambda>n. n), inverse_of = (\<lambda>f. []), range_arity = (\<lambda>f. Inr 1)\<rparr>;
       c = \<lambda>k. Conjunction_tdecl \<lparr>mSize = 1, mIsConst = [True], mConstVal = [k], mVarString = [''x'']\<rparr>
   in Set_Union w \<lparr>mArity = 1, set_conjs = [c 5]\<rparr> \<lparr>mArity = 1, set_conjs = [c 6]\<rparr> = Inr \<lparr>mArity = 1, set_conjs = [c 6]\<rparr>"
  by code_simp

text \<open>
  \<open>SparseConstraints::cleanUp\<close> keeps the tuples, leaves no conjunction with a contradictory
  equality, and sorts the conjunctions and the constraints in each of them.
\<close>

lemma sparse_cleanUp_holds:
  assumes "sparse_cleanUp w cs = Inr cs'" and "list_all okc cs"
    and "list_all (nests_ok_conj (inverse_of w)) cs" and "inverts (inverse_of w) v"
  shows "(sparse_holds v cs' xs \<longleftrightarrow> sparse_holds v cs xs) \<and> list_all satisfiable cs'
    \<and> list_all sorted_conj cs' \<and> sorted_wrt (\<le>) (map ckey cs')"
  using sparse_cleanUp_facts [OF assms] by simp

text \<open>
  C15. The union of two sets holds of the tuples of either, if all conjunctions have constraints.
\<close>

theorem Set_Union_holds:
  assumes "Set_Union w a b = Inr s" and "list_all okc (set_conjs a @ set_conjs b)"
    and "list_all hasConstraints (set_conjs a @ set_conjs b)"
  shows "(sparse_holds v (set_conjs s) xs \<longleftrightarrow> sparse_holds v (set_conjs a) xs \<or> sparse_holds v (set_conjs b) xs)
    \<and> sorted_sparse (set_conjs s) \<and> mArity s = mArity a"
proof -
  obtain r where r: "Set_new (address_order w) (mArity a) = Inr r"
    and s: "s = r\<lparr>set_conjs := fold (sparse_addConjunction (address_order w)) (set_conjs a @ set_conjs b) []\<rparr>"
    using assms(1) by (auto simp: Set_Union_def bindr_eq_Inr Let_def Set_new_true split: if_splits)
  from fold_add_constrained [OF assms(2,3), of "address_order w" v xs] Set_new_true [OF r] show ?thesis
    by (simp add: s del: fold_append)
qed

theorem Set_Union_holds_witness:
  "let w = \<lparr>address_order = no_addr, key_address = (\<lambda>n. n), inverse_of = (\<lambda>f. []), range_arity = (\<lambda>f. Inr 1)\<rparr>;
       c = \<lambda>k. (Conjunction_new 1)\<lparr>mEqualities := [Exp [TupleVarTerm 1 0, Term k] Equality]\<rparr>;
       v = \<lparr>tvv = \<lambda>l. 0, symv = \<lambda>s. 4, ufv = \<lambda>f i xs. 0\<rparr>
   in \<exists>s. Set_Union w \<lparr>mArity = 1, set_conjs = [c (-5)]\<rparr> \<lparr>mArity = 1, set_conjs = [c (-6)]\<rparr> = Inr s
       \<and> sparse_holds v (set_conjs s) [5]"
proof -
  let ?w = "\<lparr>address_order = no_addr, key_address = (\<lambda>n. n), inverse_of = (\<lambda>f. []), range_arity = (\<lambda>f. Inr 1)\<rparr>"
  let ?c = "\<lambda>k. (Conjunction_new 1)\<lparr>mEqualities := [Exp [TupleVarTerm 1 0, Term k] Equality]\<rparr>"
  let ?v = "\<lparr>tvv = \<lambda>l. 0, symv = \<lambda>s. 4, ufv = \<lambda>f i xs. 0\<rparr>"
  let ?u = "Set_Union ?w \<lparr>mArity = 1, set_conjs = [?c (-5)]\<rparr> \<lparr>mArity = 1, set_conjs = [?c (-6)]\<rparr>"
  have "isl ?u = False" by code_simp
  then obtain s where s: "?u = Inr s" by (cases ?u) auto
  have "holds ?v (?c (-5)) [5]"
    by (simp add: holds_def sat_constraints_def zeros_def nonnegs_def Conjunction_new_def
        Conjunction_tdecl_def admits_def TupleDecl_new_def elemIsConst_def at_tuple_def)
  with Set_Union_holds [OF s, of ?v "[5]"] s show ?thesis
    by (simp add: okc_def plain_conj_def Conjunction_new_def Conjunction_tdecl_def hasConstraints_def)
qed

text \<open>
  C28. The intersection of two sets with conjunctions, all with constraints, holds of the tuples
  of both, if the constants of the right-hand declarations are those of the left-hand ones.
\<close>

theorem Set_Intersect_holds:
  assumes "Set_Intersect w a b = Inr s" and "list_all okc (set_conjs a @ set_conjs b)"
    and "list_all sorted_conj (set_conjs a)" and "list_all hasConstraints (set_conjs a)"
    and "set_conjs a \<noteq> []" and "set_conjs b \<noteq> []"
    and "\<forall>i \<in> set (set_conjs a). \<forall>j \<in> set (set_conjs b). admits (mTupleDecl i) xs \<longrightarrow> admits (mTupleDecl j) xs"
  shows "sparse_holds v (set_conjs s) xs \<longleftrightarrow> sparse_holds v (set_conjs a) xs \<and> sparse_holds v (set_conjs b) xs"
proof -
  let ?ad = "address_order w"
  let ?cs = "map (\<lambda>(i, j). conj_Intersect ?ad i j) (List.product (set_conjs a) (set_conjs b))"
  obtain r where r: "Set_new ?ad (mArity a) = Inr r"
    and s: "set_conjs s = fold (sparse_addConjunction ?ad) ?cs (set_conjs r)"
    using assms(1) by (auto simp: Set_Intersect_def bindr_eq_Inr fold_pairs split: if_splits)
  obtain c cs where cs: "?cs = c # cs" using assms(5,6) by (cases "set_conjs a"; cases "set_conjs b") auto
  have "set_conjs s = fold (sparse_addConjunction ?ad) ?cs []"
    unfolding s cs using Set_new_true [OF r] by (simp add: sparse_addConjunction_def drop_true_def)
  moreover have "list_all okc ?cs"
    using assms(2) add_constraints_facts
    by (fastforce simp: list_all_iff okc_def conj_Intersect_def)
  moreover have "list_all hasConstraints ?cs"
    using assms(4) hasConstraints_Intersect by (fastforce simp: list_all_iff)
  ultimately have "sparse_holds v (set_conjs s) xs \<longleftrightarrow> sparse_holds v ?cs xs"
    using fold_add_constrained [of ?cs ?ad v xs] by simp
  moreover have "holds v (conj_Intersect ?ad i j) xs \<longleftrightarrow> holds v i xs \<and> holds v j xs"
    if "i \<in> set (set_conjs a)" "j \<in> set (set_conjs b)" for i j
  proof -
    have "plain_conj i" "plain_conj j" using assms(2) that by (auto simp: list_all_iff okc_def)
    with add_constraints_facts [of i j ?ad "at_tuple v xs"] assms(7) that show ?thesis
      by (auto simp: conj_Intersect_def holds_def)
  qed
  ultimately show ?thesis by (auto simp: sparse_holds_def)
qed

theorem Set_Intersect_holds_witness:
  "let w = \<lparr>address_order = no_addr, key_address = (\<lambda>n. n), inverse_of = (\<lambda>f. []), range_arity = (\<lambda>f. Inr 1)\<rparr>;
       c = \<lambda>k. (Conjunction_new 1)\<lparr>mInequalities := [Exp [TupleVarTerm 1 0, Term k] Inequality]\<rparr>;
       v = \<lparr>tvv = \<lambda>l. 0, symv = \<lambda>s. 4, ufv = \<lambda>f i xs. 0\<rparr>
   in \<exists>s. Set_Intersect w \<lparr>mArity = 1, set_conjs = [c (-5)]\<rparr> \<lparr>mArity = 1, set_conjs = [c (-6)]\<rparr> = Inr s
       \<and> sparse_holds v (set_conjs s) [6]"
proof -
  let ?w = "\<lparr>address_order = no_addr, key_address = (\<lambda>n. n), inverse_of = (\<lambda>f. []), range_arity = (\<lambda>f. Inr 1)\<rparr>"
  let ?c = "\<lambda>k. (Conjunction_new 1)\<lparr>mInequalities := [Exp [TupleVarTerm 1 0, Term k] Inequality]\<rparr>"
  let ?v = "\<lparr>tvv = \<lambda>l. 0, symv = \<lambda>s. 4, ufv = \<lambda>f i xs. 0\<rparr>"
  let ?u = "Set_Intersect ?w \<lparr>mArity = 1, set_conjs = [?c (-5)]\<rparr> \<lparr>mArity = 1, set_conjs = [?c (-6)]\<rparr>"
  have "isl ?u = False" by code_simp
  then obtain s where s: "?u = Inr s" by (cases ?u) auto
  have "holds ?v (?c (-5)) [6] \<and> holds ?v (?c (-6)) [6]"
    by (simp add: holds_def sat_constraints_def zeros_def nonnegs_def Conjunction_new_def
        Conjunction_tdecl_def admits_def TupleDecl_new_def elemIsConst_def at_tuple_def)
  with Set_Intersect_holds [OF s, of "[6]" ?v] s show ?thesis
    by (simp add: okc_def plain_conj_def Conjunction_new_def Conjunction_tdecl_def hasConstraints_def
        sorted_conj_def sorted_exps_def no_tuple_def)
qed

text \<open>
  The result starts as the set of all tuples and keeps that when there is nothing to intersect:
  the intersection with the empty set is everything.
\<close>

lemma Set_Intersect_empty:
  "let w = \<lparr>address_order = no_addr, key_address = (\<lambda>n. n), inverse_of = (\<lambda>f. []), range_arity = (\<lambda>f. Inr 1)\<rparr>;
       c = (Conjunction_new 1)\<lparr>mInequalities := [Exp [TupleVarTerm 1 0] Inequality]\<rparr>
   in Set_Intersect w \<lparr>mArity = 1, set_conjs = [c]\<rparr> \<lparr>mArity = 1, set_conjs = []\<rparr>
      = Inr \<lparr>mArity = 1, set_conjs = [Conjunction_new 1]\<rparr>"
  by code_simp

text \<open>
  C29. Sets that \<open>Set::operator==\<close> calls equal hold of the same tuples. The comparison works
  on copies, so the sets are to be such that copying drops no conjunction (\<open>proper\<close>).
\<close>

theorem Set_eq_sound:
  assumes "Set_eq w a b = Inr True" and "list_all okc (set_conjs a @ set_conjs b)"
    and "proper (set_conjs a)" and "proper (set_conjs b)"
    and "list_all (nests_ok_conj (inverse_of w)) (set_conjs a @ set_conjs b)" and "inverts (inverse_of w) v"
  shows "mArity a = mArity b \<and> (sparse_holds v (set_conjs a) xs \<longleftrightarrow> sparse_holds v (set_conjs b) xs)"
proof -
  have ar: "mArity a = mArity b" and less: "Set_less w a b = Inr False" "Set_less w b a = Inr False"
    using assms(1) by (auto simp: Set_eq_def Set_less_def bindr_eq_Inr split: if_splits)
  obtain as' bs' where cp: "sparse_copy w (set_conjs a) = Inr as'" "sparse_copy w (set_conjs b) = Inr bs'"
    and eq: "\<not> (sparse_less (address_order w) as' bs' \<or> sparse_less (address_order w) bs' as')"
    using less ar by (auto simp: Set_less_def bindr_eq_Inr split: if_splits)
  have "list_all okc as' \<and> (sparse_holds v as' xs \<longleftrightarrow> sparse_holds v (set_conjs a) xs)"
    "list_all okc bs' \<and> (sparse_holds v bs' xs \<longleftrightarrow> sparse_holds v (set_conjs b) xs)"
    by (rule sparse_copy_holds [OF cp(1)], use assms in simp_all) (rule sparse_copy_holds [OF cp(2)], use assms in simp_all)
  with sparse_equal_holds [OF eq, of v xs] ar show ?thesis by simp
qed

theorem Set_eq_sound_witness:
  "let w = \<lparr>address_order = no_addr, key_address = (\<lambda>n. n), inverse_of = (\<lambda>f. []), range_arity = (\<lambda>f. Inr 1)\<rparr>;
       c = \<lambda>k. (Conjunction_new 1)\<lparr>mEqualities := [Exp [TupleVarTerm k 0, Term (-5 * k)] Equality]\<rparr>;
       s = \<lambda>k. \<lparr>mArity = 1, set_conjs = [c k]\<rparr>;
       v = \<lparr>tvv = \<lambda>l. 0, symv = \<lambda>s. 4, ufv = \<lambda>f i xs. 0\<rparr>
   in Set_eq w (s 1) (s (-1)) = Inr True
      \<and> (sparse_holds v (set_conjs (s 1)) [5] \<longleftrightarrow> sparse_holds v (set_conjs (s (-1))) [5])"
proof -
  let ?w = "\<lparr>address_order = no_addr, key_address = (\<lambda>n. n), inverse_of = (\<lambda>f. []), range_arity = (\<lambda>f. Inr 1)\<rparr>"
  let ?c = "\<lambda>k. (Conjunction_new 1)\<lparr>mEqualities := [Exp [TupleVarTerm k 0, Term (-5 * k)] Equality]\<rparr>"
  let ?s = "\<lambda>k. \<lparr>mArity = 1, set_conjs = [?c k]\<rparr>"
  let ?v = "\<lparr>tvv = \<lambda>l. 0, symv = \<lambda>s. 4, ufv = \<lambda>f i xs. 0\<rparr>"
  have eq: "Set_eq ?w (?s 1) (?s (-1)) = Inr True" by code_simp
  have "sparse_holds ?v (set_conjs (?s 1)) [5] \<longleftrightarrow> sparse_holds ?v (set_conjs (?s (-1))) [5]"
    by (rule Set_eq_sound [OF eq, THEN conjunct2])
      (simp_all add: okc_def plain_conj_def Conjunction_new_def Conjunction_tdecl_def proper_def nests_ok_conj_def
        inverts_def)
  with eq show ?thesis by simp
qed

section \<open>Properties of relations\<close>

definition rel_holds :: "valuation \<Rightarrow> irel \<Rightarrow> int list \<Rightarrow> int list \<Rightarrow> bool" where
  "rel_holds v r xs ys \<longleftrightarrow> sparse_holds v (rel_conjs r) (xs @ ys)"

text \<open>The conjunctions of a relation are over its input and output elements.\<close>

definition rel_ok :: "irel \<Rightarrow> bool" where
  "rel_ok r \<longleftrightarrow> inArity r \<ge> 0 \<and> outArity r \<ge> 0
     \<and> (\<forall>c \<in> set (rel_conjs r). okc c \<and> mInArity c = inArity r \<and> int (conj_arity c) = inArity r + outArity r)"

lemma remap_frame:
  assumes "conj_remapTupleVars m c = Inr c'"
  shows "wf_tdecl (mTupleDecl c')" and "hasConstraints c' = hasConstraints c"
proof -
  obtain eqs ineqs td where
    "mapr (\<lambda>e. bindr (remapTupleVars m e) (\<lambda>e'. Inr (normalizeForEquality e'))) (mEqualities c) = Inr eqs"
    "mapr (\<lambda>e. remapTupleVars m e) (mInequalities c) = Inr ineqs"
    and td: "foldm (copy_new_loc m (mTupleDecl c)) [0..<length m] (TupleDecl_new (nat (fold max m (-1) + 1))) = Inr td"
    and c': "c' = c\<lparr>mEqualities := eqs, mInequalities := ineqs, mTupleDecl := td\<rparr>"
    using assms by (auto simp: conj_remapTupleVars_def bindr_eq_Inr Let_def)
  then show "hasConstraints c' = hasConstraints c" by (auto simp: hasConstraints_def dest!: mapr_Inr_nth)
  have "wf_tdecl td"
    by (rule foldm_invariant [OF td]) (auto simp: copy_new_loc_def wf_copyTupleElem split: if_splits)
  with c' show "wf_tdecl (mTupleDecl c')" by simp
qed

lemma Inverse_frame:
  assumes "conj_Inverse c = Inr c'"
  shows "wf_tdecl (mTupleDecl c')" and "hasConstraints c' = hasConstraints c"
proof -
  obtain m n where "conj_remapTupleVars m (c\<lparr>mInArity := n\<rparr>) = Inr c'"
    using assms unfolding conj_Inverse_def Let_def by (metis Inl_Inr_False)
  from remap_frame [OF this] show "wf_tdecl (mTupleDecl c')" "hasConstraints c' = hasConstraints c"
    by (simp_all add: hasConstraints_def)
qed

lemma rel_cleanUp_holds:
  assumes "rel_cleanUp w r = Inr r'" and "list_all okc (rel_conjs r)" and inv: "\<forall>f. inverse_of w f = []"
  shows "inArity r' = inArity r \<and> outArity r' = outArity r
    \<and> (sparse_holds v (rel_conjs r') xs \<longleftrightarrow> sparse_holds v (rel_conjs r) xs)"
proof -
  obtain cs where cs: "sparse_cleanUp w (rel_conjs r) = Inr cs" "r' = r\<lparr>rel_conjs := cs\<rparr>"
    using assms(1) by (auto simp: rel_cleanUp_def bindr_eq_Inr)
  have "list_all (nests_ok_conj (inverse_of w)) (rel_conjs r)"
    using nests_ok_none(1) [OF inv] by (simp add: list_all_iff nests_ok_conj_def)
  from sparse_cleanUp_facts [OF cs(1) assms(2) this inverts_none [OF inv], of v xs] cs(2) show ?thesis by simp
qed

text \<open>
  The inverse of a relation whose conjunctions have constraints relates \<open>ys\<close> to \<open>xs\<close> exactly
  if the relation relates \<open>xs\<close> to \<open>ys\<close>.
\<close>

lemma Relation_Inverse_holds:
  assumes "Relation_Inverse w r = Inr r'" and "rel_ok r" and "list_all hasConstraints (rel_conjs r)"
    and "\<forall>f. inverse_of w f = []" and "int (length xs) = inArity r" and "int (length ys) = outArity r"
  shows "(rel_holds v r' ys xs \<longleftrightarrow> rel_holds v r xs ys) \<and> inArity r' = outArity r \<and> outArity r' = inArity r"
proof -
  let ?ad = "address_order w"
  obtain r1 where r1: "foldm (\<lambda>i result. bindr (conj_Inverse i) (\<lambda>c. rel_addConjunction ?ad c result))
      (rel_conjs r) (Relation_new (outArity r) (inArity r)) = Inr r1" "rel_cleanUp w r1 = Inr r'"
    using assms(1) by (auto simp: Relation_Inverse_def bindr_eq_Inr)
  obtain cs where cs: "mapr conj_Inverse (rel_conjs r) = Inr cs" "rel_conjs r1 = fold (sparse_addConjunction ?ad) cs []"
    and ar: "inArity r1 = outArity r" "outArity r1 = inArity r"
    using rel_add_loop [OF r1(1)] by (auto simp: Relation_new_def)
  have inv: "okc c' \<and> hasConstraints c' \<and> (holds v c' (ys @ xs) \<longleftrightarrow> holds v c (xs @ ys))"
    if "c \<in> set (rel_conjs r)" "conj_Inverse c = Inr c'" for c c'
  proof -
    have "plain_conj c" "int (length xs) = mInArity c" "length xs + length ys = conj_arity c"
      using assms(2,5,6) that(1) by (auto simp: rel_ok_def okc_def)
    with conj_Inverse_facts [OF that(2), of xs ys v] Inverse_frame [OF that(2)]
      assms(3) that(1) show ?thesis by (auto simp: okc_def list_all_iff)
  qed
  note all = mapr_all [OF cs(1)]
  have "list_all okc cs" "list_all hasConstraints cs" using all inv by (auto simp: list_all_iff)
  note add = fold_add_constrained [OF this, of ?ad v "ys @ xs"]
  have "sparse_holds v cs (ys @ xs) \<longleftrightarrow> sparse_holds v (rel_conjs r) (xs @ ys)"
    unfolding sparse_holds_def using all inv by metis
  with add rel_cleanUp_holds [OF r1(2) _ assms(4), of v "ys @ xs"] cs(2) ar show ?thesis
    by (simp add: rel_holds_def)
qed

text \<open>
  C13. Composing relations loses nothing: what is related through some \<open>ys\<close> is related by the
  result, if the compositions of the conjunctions have constraints. If moreover no composition of
  two conjunctions is empty, the result relates nothing else. Here no function is declared to
  have an inverse.
\<close>

theorem Relation_Compose_holds:
  assumes "Relation_Compose w this rhs = Inr r" and "rel_ok this" and "rel_ok rhs"
    and "inj (key_address w)" and "\<forall>f. inverse_of w f = []"
    and "\<forall>a \<in> set (rel_conjs this). \<forall>b \<in> set (rel_conjs rhs). \<forall>c.
      conj_Compose w a b (nat (outArity rhs)) = Inr c \<longrightarrow> hasConstraints c"
    and "int (length xs) = inArity rhs" and "int (length zs) = outArity this"
  shows "((\<exists>ys. rel_holds v rhs xs ys \<and> rel_holds v this ys zs \<and> int (length ys) = outArity rhs) \<longrightarrow> rel_holds v r xs zs)
    \<and> ((\<forall>a \<in> set (rel_conjs this). \<forall>b \<in> set (rel_conjs rhs). \<exists>xs' ys zs'. length xs' = length xs
          \<and> int (length ys) = outArity rhs \<and> holds v b (xs' @ ys) \<and> holds v a (ys @ zs')) \<longrightarrow> rel_holds v r xs zs \<longrightarrow>
        (\<exists>ys. rel_holds v rhs xs ys \<and> rel_holds v this ys zs \<and> int (length ys) = outArity rhs))"
proof -
  let ?ad = "address_order w" and ?k = "nat (outArity rhs)"
  let ?ps = "List.product (rel_conjs this) (rel_conjs rhs)"
  obtain r1 where fold: "foldm (\<lambda>p result. bindr (conj_Compose w (fst p) (snd p) ?k) (\<lambda>c. rel_addConjunction ?ad c result))
      ?ps (Relation_new (inArity rhs) (outArity this)) = Inr r1" and clean: "rel_cleanUp w r1 = Inr r"
    and ar: "outArity rhs = inArity this"
    using assms(1) by (auto simp: Relation_Compose_def bindr_eq_Inr case_prod_unfold split: if_splits)
  obtain cs where cs: "mapr (\<lambda>p. conj_Compose w (fst p) (snd p) ?k) ?ps = Inr cs"
    "rel_conjs r1 = fold (sparse_addConjunction ?ad) cs []"
    using rel_add_loop [OF fold] by (auto simp: Relation_new_def)
  define rel where "rel a b = (\<exists>ys. length ys = ?k \<and> holds v b (xs @ ys) \<and> holds v a (ys @ zs))" for a b
  define nonempty where "nonempty a b = (\<exists>xs' ys zs'. length xs' = length xs \<and> length ys = ?k
    \<and> holds v b (xs' @ ys) \<and> holds v a (ys @ zs'))" for a b
  have comp: "okc c \<and> hasConstraints c \<and> (rel a b \<longrightarrow> holds v c (xs @ zs))
      \<and> (nonempty a b \<longrightarrow> holds v c (xs @ zs) \<longrightarrow> rel a b)"
    if "a \<in> set (rel_conjs this)" "b \<in> set (rel_conjs rhs)" "conj_Compose w a b ?k = Inr c" for a b c
  proof -
    have ab: "okc a" "okc b" "conj_arity b = length xs + ?k" "conj_arity a = ?k + length zs"
      using assms(2,3,7,8) that ar by (auto simp: rel_ok_def)
    from conj_Compose_facts [OF that(3) _ _ _ _ assms(4,5) ab(3,4), of v] ab assms(6) that show ?thesis
      by (auto simp: okc_def rel_def nonempty_def)
  qed
  note all = mapr_all [OF cs(1)]
  have "list_all okc cs" "list_all hasConstraints cs" using all comp by (auto simp: list_all_iff)
  note add = fold_add_constrained [OF this, of ?ad v "xs @ zs"]
  have res: "rel_holds v r xs zs \<longleftrightarrow> sparse_holds v cs (xs @ zs)"
    using add rel_cleanUp_holds [OF clean _ assms(5), of v "xs @ zs"] cs(2) by (simp add: rel_holds_def)
  have len: "int (length ys) = outArity rhs \<longleftrightarrow> length ys = ?k" for ys :: "int list"
    using assms(3) by (auto simp: rel_ok_def)
  have through: "(\<exists>ys. rel_holds v rhs xs ys \<and> rel_holds v this ys zs \<and> int (length ys) = outArity rhs) \<longleftrightarrow>
      (\<exists>a \<in> set (rel_conjs this). \<exists>b \<in> set (rel_conjs rhs). rel a b)"
    unfolding len rel_holds_def sparse_holds_def rel_def by blast
  have pairs: "(\<forall>c \<in> set cs. \<exists>a \<in> set (rel_conjs this). \<exists>b \<in> set (rel_conjs rhs). conj_Compose w a b ?k = Inr c)
    \<and> (\<forall>a \<in> set (rel_conjs this). \<forall>b \<in> set (rel_conjs rhs). \<exists>c \<in> set cs. conj_Compose w a b ?k = Inr c)"
    using all by fastforce
  have "(\<exists>a \<in> set (rel_conjs this). \<exists>b \<in> set (rel_conjs rhs). rel a b) \<longrightarrow> sparse_holds v cs (xs @ zs)"
    using pairs comp unfolding sparse_holds_def by blast
  moreover have "(\<forall>a \<in> set (rel_conjs this). \<forall>b \<in> set (rel_conjs rhs). nonempty a b) \<longrightarrow> sparse_holds v cs (xs @ zs) \<longrightarrow>
      (\<exists>a \<in> set (rel_conjs this). \<exists>b \<in> set (rel_conjs rhs). rel a b)"
    using pairs comp unfolding sparse_holds_def by blast
  ultimately show ?thesis unfolding through res by (simp add: nonempty_def len)
qed

theorem Relation_Compose_holds_witness:
  "let w = \<lparr>address_order = no_addr, key_address = (\<lambda>n. n), inverse_of = (\<lambda>f. []), range_arity = (\<lambda>f. Inr 1)\<rparr>;
       rel = \<lambda>e. \<lparr>inArity = 1, outArity = 1, rel_conjs = [(Conjunction_rel 2 1)\<lparr>mEqualities := [e]\<rparr>]\<rparr>;
       inc = Exp [TupleVarTerm 1 0, TupleVarTerm (-1) 1, Term 1] Equality;
       dbl = Exp [TupleVarTerm 2 0, TupleVarTerm (-1) 1] Equality;
       v = \<lparr>tvv = \<lambda>l. 0, symv = \<lambda>s. 4, ufv = \<lambda>f i xs. 0\<rparr>
   in \<exists>r. Relation_Compose w (rel inc) (rel dbl) = Inr r \<and> rel_holds v r [3] [7]"
proof -
  let ?w = "\<lparr>address_order = no_addr, key_address = (\<lambda>n. n), inverse_of = (\<lambda>f. []), range_arity = (\<lambda>f. Inr 1)\<rparr>"
  let ?rel = "\<lambda>e. \<lparr>inArity = 1, outArity = 1, rel_conjs = [(Conjunction_rel 2 1)\<lparr>mEqualities := [e]\<rparr>]\<rparr>"
  let ?inc = "Exp [TupleVarTerm 1 0, TupleVarTerm (-1) 1, Term 1] Equality"
  let ?dbl = "Exp [TupleVarTerm 2 0, TupleVarTerm (-1) 1] Equality"
  let ?v = "\<lparr>tvv = \<lambda>l. 0, symv = \<lambda>s. 4, ufv = \<lambda>f i xs. 0\<rparr>"
  let ?one = "conj_Compose ?w ((Conjunction_rel 2 1)\<lparr>mEqualities := [?inc]\<rparr>)
    ((Conjunction_rel 2 1)\<lparr>mEqualities := [?dbl]\<rparr>) (nat 1)"
  have "isl (Relation_Compose ?w (?rel ?inc) (?rel ?dbl)) = False" by code_simp
  then obtain r where r: "Relation_Compose ?w (?rel ?inc) (?rel ?dbl) = Inr r"
    by (cases "Relation_Compose ?w (?rel ?inc) (?rel ?dbl)") auto
  have "case ?one of Inr c \<Rightarrow> hasConstraints c | Inl _ \<Rightarrow> True" by code_simp
  then have con: "hasConstraints c" if "?one = Inr c" for c unfolding that by simp
  have ok: "rel_ok (?rel ?inc)" "rel_ok (?rel ?dbl)"
    by (simp_all add: rel_ok_def okc_def plain_conj_def Conjunction_rel_def Conjunction_new_def Conjunction_tdecl_def
        conj_arity_def tdecl_size_def)
  have "rel_holds ?v (?rel ?dbl) [3] [6]" "rel_holds ?v (?rel ?inc) [6] [7]"
    by (simp_all add: rel_holds_def holds_def sat_constraints_def zeros_def nonnegs_def Conjunction_rel_def
        Conjunction_new_def Conjunction_tdecl_def admits_def TupleDecl_new_def elemIsConst_def at_tuple_def less_Suc_eq)
  then have "\<exists>ys. rel_holds ?v (?rel ?dbl) [3] ys \<and> rel_holds ?v (?rel ?inc) ys [7]
      \<and> int (length ys) = outArity (?rel ?dbl)"
    by (intro exI [of _ "[6]"]) simp
  moreover note Relation_Compose_holds [OF r ok, of "[3]" "[7]" ?v]
  ultimately have "rel_holds ?v r [3] [7]" using con by simp
  with r show ?thesis unfolding Let_def by blast
qed

end
