(* ===== verification/IEG_UnionFind.thy ===== *)
theory IEG_UnionFind
  imports IEG_Prelude
begin

text \<open>
  The union-find universe of \<open>util/UnionFindUniverse.cc\<close>: an array of elements, each with the
  parent pointer of the tree it is in, and, for the root of a tree, the number of its members
  and the name of the set; \<open>root\<close> leads from the name of a set back to the root of its tree.
  An access outside the array is \<open>OutOfBounds\<close>. \<open>do_FIND\<close> follows the parent pointers and does
  not return when they form a cycle; then it is the value \<open>None\<close>.
\<close>

section \<open>The universe\<close>

definition UF_NIL :: int where
  "UF_NIL = -1"

record uf_element =
  uf_parent :: int
  uf_name :: int
  uf_count :: int
  uf_root :: int

type_synonym universe = "uf_element list"

definition Element_Init :: "int \<Rightarrow> uf_element" where
  "Element_Init i = \<lparr>uf_parent = UF_NIL, uf_name = i, uf_count = 1, uf_root = i\<rparr>"

definition Universe_new :: "nat \<Rightarrow> universe" where
  "Universe_new highWaterMark = map (\<lambda>i. Element_Init (int i)) [0..<highWaterMark]"

definition element :: "universe \<Rightarrow> int \<Rightarrow> uf_element res" where
  "element e i = (if 0 \<le> i \<and> i < int (length e) then Inr (e ! nat i) else Inl OutOfBounds)"

definition update_element :: "int \<Rightarrow> (uf_element \<Rightarrow> uf_element) \<Rightarrow> universe \<Rightarrow> universe res" where
  "update_element i f e = bindr (element e i) (\<lambda>x. Inr (e[nat i := f x]))"

abbreviation set_parent :: "int \<Rightarrow> int \<Rightarrow> universe \<Rightarrow> universe res" where
  "set_parent v p \<equiv> update_element v (\<lambda>x. x\<lparr>uf_parent := p\<rparr>)"

partial_function (option) do_FIND :: "int \<Rightarrow> universe \<Rightarrow> (int \<times> universe) res option" where
  "do_FIND v e =
     (case element e v of
        Inl x \<Rightarrow> Some (Inl x)
      | Inr el \<Rightarrow>
          if uf_parent el = UF_NIL then Some (Inr (v, e))
          else Option.bind (do_FIND (uf_parent el) e)
                 (\<lambda>res. Some (bindr res (\<lambda>(r, e'). bindr (set_parent v r e') (\<lambda>e''. Inr (r, e''))))))"

definition UF_Find :: "int \<Rightarrow> universe \<Rightarrow> (int \<times> universe) res option" where
  "UF_Find v e =
     (case element e v of
        Inl x \<Rightarrow> Some (Inl x)
      | Inr el \<Rightarrow>
          if uf_parent el = UF_NIL then Some (Inr (uf_name el, e))
          else Option.bind (do_FIND (uf_parent el) e)
                 (\<lambda>res. Some (bindr res (\<lambda>(r, e'). bindr (set_parent v r e') (\<lambda>e''.
                    bindr (element e'' r) (\<lambda>x. Inr (uf_name x, e'')))))))"

definition UF_Union :: "int \<Rightarrow> int \<Rightarrow> int \<Rightarrow> universe \<Rightarrow> universe res" where
  "UF_Union i j k e =
     (if i = j \<and> j = k then Inr e
      else
        bindr (element e i) (\<lambda>ei. bindr (element e j) (\<lambda>ej.
        bindr (element e (uf_root ei)) (\<lambda>ri. bindr (element e (uf_root ej)) (\<lambda>rj.
        let (large, small) = (if uf_count ri > uf_count rj then (uf_root ei, uf_root ej)
                              else (uf_root ej, uf_root ei)) in
        bindr (set_parent small large e) (\<lambda>e1.
        bindr (element e1 small) (\<lambda>s.
        bindr (update_element large (\<lambda>x. x\<lparr>uf_count := uf_count x + uf_count s\<rparr>) e1) (\<lambda>e2.
        bindr (update_element large (\<lambda>x. x\<lparr>uf_name := k\<rparr>) e2) (\<lambda>e3.
        update_element k (\<lambda>x. x\<lparr>uf_root := large\<rparr>) e3)))))))))"

lemma length_Universe_new [simp]: "length (Universe_new n) = n"
  by (simp add: Universe_new_def)

section \<open>Paths to the root\<close>

text \<open>\<open>path e v r d\<close>: the root of the tree of \<open>v\<close> is \<open>r\<close>, \<open>d\<close> steps up.\<close>

inductive path :: "universe \<Rightarrow> nat \<Rightarrow> nat \<Rightarrow> nat \<Rightarrow> bool" for e where
  path_root: "v < length e \<Longrightarrow> uf_parent (e ! v) = UF_NIL \<Longrightarrow> path e v v 0"
| path_step: "v < length e \<Longrightarrow> uf_parent (e ! v) = int p \<Longrightarrow> path e p r d \<Longrightarrow> path e v r (Suc d)"

inductive_simps path_from: "path e v r d"
inductive_cases path_zeroE: "path e v r 0"
inductive_cases path_SucE: "path e v r (Suc d)"

lemma UF_NIL_not_int [simp]: "UF_NIL \<noteq> int p" "int p \<noteq> UF_NIL"
  by (simp_all add: UF_NIL_def)

lemma path_bounds: "path e v r d \<Longrightarrow> v < length e \<and> r < length e \<and> uf_parent (e ! r) = UF_NIL"
  by (induction rule: path.induct) simp_all

lemma path_unique: "path e v r d \<Longrightarrow> path e v r' d' \<Longrightarrow> r' = r \<and> d' = d"
proof (induction arbitrary: d' rule: path.induct)
  case (path_root v)
  then show ?case by (auto simp: path_from [of e v])
next
  case (path_step v p r d)
  then show ?case by (subst (asm) path_from) auto
qed

lemma element_in [simp]: "v < length e \<Longrightarrow> element e (int v) = Inr (e ! v)"
  by (simp add: element_def)

lemma update_element_in [simp]: "v < length e \<Longrightarrow> update_element (int v) f e = Inr (e[v := f (e ! v)])"
  by (simp add: update_element_def)

text \<open>What a \<open>Find\<close> may do to the universe: paths get shorter, the rest stays.\<close>

definition compressed :: "universe \<Rightarrow> universe \<Rightarrow> bool" where
  "compressed e e' \<longleftrightarrow> length e' = length e
     \<and> (\<forall>v < length e. uf_parent (e' ! v) = UF_NIL \<longleftrightarrow> uf_parent (e ! v) = UF_NIL)
     \<and> (\<forall>v < length e. uf_name (e' ! v) = uf_name (e ! v) \<and> uf_count (e' ! v) = uf_count (e ! v)
           \<and> uf_root (e' ! v) = uf_root (e ! v))
     \<and> (\<forall>u r d. path e u r d \<longrightarrow> (\<exists>d' \<le> d. path e' u r d'))"

lemma compressed_refl [simp]: "compressed e e"
  by (auto simp: compressed_def)

lemma compressed_trans:
  assumes "compressed e e'" and "compressed e' e''"
  shows "compressed e e''"
proof -
  have "\<exists>d'' \<le> d. path e'' u r d''" if "path e u r d" for u r d
    using assms that unfolding compressed_def by (meson order_trans)
  with assms show ?thesis unfolding compressed_def by metis
qed

lemma compress_step:
  assumes v: "path e v r d" "uf_parent (e ! v) \<noteq> UF_NIL"
  shows "compressed e (e[v := (e ! v)\<lparr>uf_parent := int r\<rparr>])"
proof -
  let ?e = "e[v := (e ! v)\<lparr>uf_parent := int r\<rparr>]"
  note b = path_bounds [OF v(1)]
  have "r \<noteq> v" using b v(2) by auto
  then have root: "path ?e r r 0" using b by (intro path.path_root) simp_all
  have "\<exists>d' \<le> d. path ?e u s d'" if "path e u s d" for u s d
    using that
  proof (induction rule: path.induct)
    case (path_root u)
    then have "u \<noteq> v" using v(2) by auto
    with path_root have "path ?e u u 0" by (intro path.path_root) simp_all
    then show ?case by blast
  next
    case (path_step u p s d)
    then obtain d' where d': "d' \<le> d" "path ?e p s d'" by blast
    show ?case
    proof (cases "u = v")
      case True
      then have "s = r" using path_unique [OF v(1)] path.path_step [OF path_step(1-3)] by blast
      then show ?thesis using True b root path.path_step [of v ?e r r 0] by (intro exI [of _ 1]) simp
    next
      case False
      with path_step have "path ?e u s (Suc d')" by (intro path.path_step [OF _ _ d'(2)]) simp_all
      with d'(1) show ?thesis by (meson Suc_le_mono)
    qed
  qed
  then show ?thesis using v(2) b by (simp add: compressed_def nth_list_update)
qed

lemma compressed_path: "compressed e e' \<Longrightarrow> path e v r d \<Longrightarrow> \<exists>d' \<le> d. path e' v r d'"
  by (simp add: compressed_def)

text \<open>\<open>do_FIND\<close> returns on every path, with its root.\<close>

lemma do_FIND_path:
  "path e v r d \<Longrightarrow> \<exists>e'. do_FIND (int v) e = Some (Inr (int r, e')) \<and> compressed e e'"
proof (induction rule: path.induct)
  case (path_root v)
  then show ?case by (subst do_FIND.simps) simp
next
  case (path_step v p r d)
  then obtain e' where e': "do_FIND (int p) e = Some (Inr (int r, e'))" "compressed e e'" by blast
  have "path e v r (Suc d)" using path_step by (blast intro: path.path_step)
  then obtain d' where "path e' v r d'" using compressed_path [OF e'(2)] by blast
  moreover have "uf_parent (e' ! v) \<noteq> UF_NIL" "v < length e'"
    using e'(2) path_step by (simp_all add: compressed_def)
  ultimately have "compressed e' (e'[v := (e' ! v)\<lparr>uf_parent := int r\<rparr>])" by (blast intro: compress_step)
  with e' path_step \<open>v < length e'\<close> show ?case
    by (subst do_FIND.simps) (auto intro: compressed_trans)
qed

text \<open>And it returns on nothing else.\<close>

lemma do_FIND_returns:
  "do_FIND v e = Some res \<Longrightarrow> res = Inr (x, e') \<Longrightarrow> 0 \<le> v \<and> (\<exists>r d. path e (nat v) r d)"
proof (induction arbitrary: x e' rule: do_FIND.raw_induct [rotated, consumes 1, case_names step])
  case (step do_FIND v e res)
  show ?case
  proof (cases "0 \<le> v \<and> v < int (length e)")
    case False
    with step show ?thesis by (auto simp: element_def)
  next
    case True
    then obtain n where v: "v = int n" "n < length e" by (metis nonneg_int_cases of_nat_less_iff)
    show ?thesis
    proof (cases "uf_parent (e ! n) = UF_NIL")
      case True
      with v show ?thesis by (auto intro: path_root)
    next
      case False
      then obtain res' where r: "do_FIND (uf_parent (e ! n)) e = Some res'"
        "res = bindr res' (\<lambda>(r, e'). bindr (set_parent v r e') (\<lambda>e''. Inr (r, e'')))"
        using step(2) v by (auto simp: bind_eq_Some_conv)
      then obtain y e1 where y: "res' = Inr (y, e1)" using step(3) by (cases res') auto
      from step(1) [OF r(1) y] obtain s d where
        "uf_parent (e ! n) = int (nat (uf_parent (e ! n)))" "path e (nat (uf_parent (e ! n))) s d" by auto
      from path_step [OF v(2) this] v(1) show ?thesis by auto
    qed
  qed
qed

section \<open>The invariant\<close>

definition members :: "universe \<Rightarrow> nat \<Rightarrow> nat set" where
  "members e r = {u. \<exists>d. path e u r d}"

definition uf_ok :: "universe \<Rightarrow> bool" where
  "uf_ok e \<longleftrightarrow> (\<forall>v < length e. \<exists>r d. path e v r d)
     \<and> (\<forall>v r d. path e v r d \<longrightarrow> 2 ^ d \<le> uf_count (e ! r))
     \<and> (\<forall>r < length e. uf_parent (e ! r) = UF_NIL \<longrightarrow>
          uf_count (e ! r) = int (card (members e r))
          \<and> (\<exists>m < length e. uf_name (e ! r) = int m \<and> uf_root (e ! m) = int r))"

lemma uf_okD:
  assumes "uf_ok e"
  shows "v < length e \<Longrightarrow> \<exists>r d. path e v r d" and "path e v r d \<Longrightarrow> 2 ^ d \<le> uf_count (e ! r)"
    and "path e v r d \<Longrightarrow> uf_count (e ! r) = int (card (members e r))
      \<and> (\<exists>m < length e. uf_name (e ! r) = int m \<and> uf_root (e ! m) = int r)"
  using assms path_bounds by (auto simp: uf_ok_def)

lemma members_subset: "members e r \<subseteq> {..<length e}"
  using path_bounds by (auto simp: members_def)


lemma members_compressed:
  assumes "uf_ok e" and "compressed e e'"
  shows "members e' r = members e r"
proof -
  have "\<exists>d. path e u r d" if "path e' u r d" for u d
  proof -
    have "u < length e" using path_bounds [OF that] assms(2) by (simp add: compressed_def)
    then obtain s f where f: "path e u s f" using uf_okD(1) [OF assms(1)] by blast
    then obtain f' where "path e' u s f'" using compressed_path [OF assms(2)] by blast
    with f show ?thesis using path_unique [OF that] by blast
  qed
  then show ?thesis using compressed_path [OF assms(2)] by (fastforce simp: members_def)
qed

lemma compressed_back:
  assumes "uf_ok e" and "compressed e e'" and "path e' v r d"
  shows "\<exists>d' \<ge> d. path e v r d'"
proof -
  have "v \<in> members e' r" using assms(3) by (auto simp: members_def)
  then have "v \<in> members e r" by (simp add: members_compressed [OF assms(1,2)])
  then obtain d' where "path e v r d'" by (auto simp: members_def)
  then show ?thesis
    using compressed_path [OF assms(2)] path_unique [OF assms(3)] by blast
qed

lemma uf_ok_compressed:
  assumes "uf_ok e" and "compressed e e'"
  shows "uf_ok e'"
proof -
  have "2 ^ d \<le> uf_count (e' ! r)" if p: "path e' v r d" for v r d
  proof -
    obtain d' where d': "d \<le> d'" "path e v r d'" using compressed_back [OF assms p] by blast
    then have "(2::int) ^ d \<le> 2 ^ d'" by simp
    also have "\<dots> \<le> uf_count (e ! r)" by (rule uf_okD(2) [OF assms(1) d'(2)])
    finally show ?thesis using assms(2) path_bounds [OF p] by (simp add: compressed_def)
  qed
  moreover have "\<exists>r d. path e' v r d" if "v < length e" for v
    using uf_okD(1) [OF assms(1) that] compressed_path [OF assms(2)] by blast
  moreover have "uf_count (e' ! r) = int (card (members e' r))
      \<and> (\<exists>m < length e'. uf_name (e' ! r) = int m \<and> uf_root (e' ! m) = int r)"
    if r: "r < length e'" "uf_parent (e' ! r) = UF_NIL" for r
  proof -
    have "r < length e" "uf_parent (e ! r) = UF_NIL"
      using r assms(2) by (simp_all add: compressed_def)
    then show ?thesis
      using uf_okD(3) [OF assms(1) path_root, of r] members_compressed [OF assms] assms(2)
      by (auto simp: compressed_def)
  qed
  ultimately show ?thesis using assms(2) by (simp add: uf_ok_def compressed_def)
qed

lemma path_new: "path (Universe_new n) v r d \<longleftrightarrow> v < n \<and> r = v \<and> d = 0"
  by (subst path_from) (auto simp: Universe_new_def Element_Init_def)

lemma uf_ok_new: "uf_ok (Universe_new n)"
proof -
  have "members (Universe_new n) r = (if r < n then {r} else {})" for r
    by (auto simp: members_def path_new)
  then show ?thesis
    by (auto simp: uf_ok_def path_new) (auto simp: Universe_new_def Element_Init_def)
qed

text \<open>Linking the root \<open>s\<close> under the root \<open>l\<close> and giving the set the name \<open>k\<close>.\<close>

definition linked :: "universe \<Rightarrow> nat \<Rightarrow> nat \<Rightarrow> nat \<Rightarrow> universe \<Rightarrow> bool" where
  "linked e s l k e' \<longleftrightarrow> length e' = length e \<and> (\<forall>u < length e. e' ! u =
     \<lparr>uf_parent = if u = s then int l else uf_parent (e ! u),
      uf_name = if u = l then int k else uf_name (e ! u),
      uf_count = if u = l then uf_count (e ! l) + uf_count (e ! s) else uf_count (e ! u),
      uf_root = if u = k then int l else uf_root (e ! u)\<rparr>)"

lemma linked_path:
  assumes link: "linked e s l k e'" and "s \<noteq> l"
    and "l < length e" and "uf_parent (e ! l) = UF_NIL" and "uf_parent (e ! s) = UF_NIL"
    and "path e u r d"
  shows "if r = s then path e' u l (Suc d) else path e' u r d"
  using assms(6)
proof (induction rule: path.induct)
  case (path_root u)
  have "path e' l l 0" using assms by (intro path.path_root) (simp_all add: linked_def)
  with path_root show ?case
    using assms(1,2) path.path_step [of s e' l l 0] path.path_root [of u e']
    by (auto simp: linked_def)
next
  case (path_step u p r d)
  then have "u \<noteq> s" using assms(5) by auto
  with path_step assms(1) show ?case
    by (auto simp: linked_def intro: path.path_step)
qed

lemma linked_path_iff:
  assumes "linked e s l k e'" and "s \<noteq> l" and "l < length e"
    and "uf_parent (e ! l) = UF_NIL" and "uf_parent (e ! s) = UF_NIL" and "uf_ok e"
  shows "path e' u r d \<longleftrightarrow> r \<noteq> s \<and> path e u r d \<or> r = l \<and> (\<exists>f. path e u s f \<and> d = Suc f)"
proof
  assume p: "path e' u r d"
  then have "u < length e" using path_bounds assms(1) by (fastforce simp: linked_def)
  then obtain r' d' where r': "path e u r' d'" using uf_okD(1) [OF assms(6)] by blast
  then show "r \<noteq> s \<and> path e u r d \<or> r = l \<and> (\<exists>f. path e u s f \<and> d = Suc f)"
    using linked_path [OF assms(1-5) r'] path_unique [OF p] by (auto split: if_splits)
next
  assume "r \<noteq> s \<and> path e u r d \<or> r = l \<and> (\<exists>f. path e u s f \<and> d = Suc f)"
  then show "path e' u r d" using linked_path [OF assms(1-5)] by fastforce
qed

lemma members_linked:
  assumes "linked e s l k e'" and "s \<noteq> l" and "l < length e"
    and "uf_parent (e ! l) = UF_NIL" and "uf_parent (e ! s) = UF_NIL" and "uf_ok e"
  shows "r \<noteq> s \<Longrightarrow> members e' r = (if r = l then members e l \<union> members e s else members e r)"
    and "members e l \<inter> members e s = {}"
proof -
  show "members e' r = (if r = l then members e l \<union> members e s else members e r)" if "r \<noteq> s"
    using that by (auto simp: members_def linked_path_iff [OF assms])
  show "members e l \<inter> members e s = {}"
    using path_unique assms(2) by (fastforce simp: members_def)
qed

lemma uf_ok_linked:
  assumes link: "linked e s l k e'" and "s \<noteq> l" and "s < length e" and "l < length e"
    and roots: "uf_parent (e ! l) = UF_NIL" "uf_parent (e ! s) = UF_NIL" and ok: "uf_ok e"
    and weight: "uf_count (e ! s) \<le> uf_count (e ! l)" and "k < length e"
    and name: "\<forall>r < length e. uf_parent (e ! r) = UF_NIL \<longrightarrow> uf_name (e ! r) = int k \<longrightarrow> r = s \<or> r = l"
  shows "uf_ok e'"
proof -
  note iff = linked_path_iff [OF link assms(2,4) roots ok]
  have "2 ^ d \<le> uf_count (e' ! r)" if p: "path e' v r d" for v r d
  proof -
    consider "r \<noteq> s" "path e v r d" | f where "r = l" "path e v s f" "d = Suc f" using iff p by blast
    then show ?thesis
    proof cases
      case 1
      then have "0 \<le> uf_count (e ! s)" using uf_okD(3) [OF ok path_root] assms(3) roots by fastforce
      moreover have "r < length e" using path_bounds [OF 1(2)] by simp
      ultimately show ?thesis using uf_okD(2) [OF ok 1(2)] link by (auto simp: linked_def)
    next
      case 2
      then show ?thesis using uf_okD(2) [OF ok 2(2)] link weight assms(4) by (auto simp: linked_def)
    qed
  qed
  moreover have "\<exists>r d. path e' v r d" if v: "v < length e" for v
  proof -
    obtain r d where "path e v r d" using uf_okD(1) [OF ok v] by blast
    then show ?thesis using linked_path [OF link assms(2,4) roots] by metis
  qed
  moreover have "uf_count (e' ! r) = int (card (members e' r))
      \<and> (\<exists>m < length e'. uf_name (e' ! r) = int m \<and> uf_root (e' ! m) = int r)"
    if r: "r < length e'" "uf_parent (e' ! r) = UF_NIL" for r
  proof -
    have 1: "r < length e" "r \<noteq> s" "uf_parent (e ! r) = UF_NIL"
      using r link by (auto simp: linked_def split: if_splits)
    note old = uf_okD(3) [OF ok path_root [OF 1(1,3)]] members_linked [OF link assms(2,4) roots ok]
    note count = uf_okD(3) [OF ok path_root [OF 1(1,3)], THEN conjunct1]
      uf_okD(3) [OF ok path_root [OF assms(3) roots(2)], THEN conjunct1]
    have fin: "finite (members e u)" for u
      using finite_subset [OF members_subset] by blast
    show ?thesis
    proof (cases "r = l")
      case True
      have "card (members e' l) = card (members e l) + card (members e s)"
        using old(2) [OF 1(2)] old(3) True by (simp add: card_Un_disjoint fin)
      moreover have "uf_count (e' ! l) = uf_count (e ! l) + uf_count (e ! s)"
        using link assms(4) by (simp add: linked_def)
      ultimately have "uf_count (e' ! l) = int (card (members e' l))" using count True by simp
      moreover have "uf_name (e' ! l) = int k \<and> uf_root (e' ! k) = int l"
        using link assms(4,9) by (simp add: linked_def)
      ultimately show ?thesis using True assms(9) link by (auto simp: linked_def)
    next
      case False
      then have "uf_name (e ! r) \<noteq> int k" using name 1 by blast
      moreover obtain m where m: "m < length e" "uf_name (e ! r) = int m" "uf_root (e ! m) = int r"
        using old(1) by blast
      ultimately have "m \<noteq> k" by simp
      with m link have "uf_root (e' ! m) = int r" by (simp add: linked_def)
      then have "\<exists>m < length e'. uf_name (e' ! r) = int m \<and> uf_root (e' ! m) = int r"
        using m False link 1(1) by (auto simp: linked_def)
      then show ?thesis using count(1) old(2) [OF 1(2)] False link 1 by (simp add: linked_def)
    qed
  qed
  ultimately show ?thesis using link by (simp add: uf_ok_def linked_def)
qed

section \<open>The abstract specification\<close>

text \<open>A universe stands for the function that gives every element the name of its set.\<close>

definition names_match :: "universe \<Rightarrow> (int \<Rightarrow> int) \<Rightarrow> bool" where
  "names_match e A \<longleftrightarrow> uf_ok e \<and> (\<forall>v r d. path e v r d \<longrightarrow> uf_name (e ! r) = A (int v))"

definition merge_names :: "int \<Rightarrow> int \<Rightarrow> int \<Rightarrow> (int \<Rightarrow> int) \<Rightarrow> int \<Rightarrow> int" where
  "merge_names i j k A = (\<lambda>v. if A v = i \<or> A v = j then k else A v)"

definition live :: "nat \<Rightarrow> (int \<Rightarrow> int) \<Rightarrow> int \<Rightarrow> bool" where
  "live n A k \<longleftrightarrow> k \<in> A ` {0..<int n}"

text \<open>The calls of \<open>Union\<close> the class is made for: \<open>i\<close> and \<open>j\<close> name two sets, and the new name
  is one of the two or that of no set.\<close>

definition may_union :: "nat \<Rightarrow> (int \<Rightarrow> int) \<Rightarrow> int \<Rightarrow> int \<Rightarrow> int \<Rightarrow> bool" where
  "may_union n A i j k \<longleftrightarrow> live n A i \<and> live n A j \<and> 0 \<le> k \<and> k < int n \<and> (i = j \<longrightarrow> j = k)
     \<and> (k = i \<or> k = j \<or> \<not> live n A k)"

lemma live_root:
  assumes "names_match e A" and "live (length e) A k"
  obtains r m where "k = int m" "m < length e" "r < length e" "uf_root (e ! m) = int r"
    "uf_parent (e ! r) = UF_NIL" "uf_name (e ! r) = k"
proof -
  obtain v where v: "k = A v" "0 \<le> v" "v < int (length e)" using assms(2) by (auto simp: live_def)
  have ok: "uf_ok e" using assms(1) by (simp add: names_match_def)
  obtain n where n: "v = int n" "n < length e" using v(2,3) by (metis nonneg_int_cases of_nat_less_iff)
  then obtain r d where p: "path e n r d" using uf_okD(1) [OF ok] by blast
  obtain m where m: "m < length e" "uf_name (e ! r) = int m" "uf_root (e ! m) = int r"
    using uf_okD(3) [OF ok p] by blast
  have k: "uf_name (e ! r) = k" using assms(1) p v(1) n(1) unfolding names_match_def by blast
  from that [of m r] m k path_bounds [OF p] show thesis by simp
qed

lemma names_match_linked:
  assumes link: "linked e s l k e'" and match: "names_match e A" and "s \<noteq> l"
    and "s < length e" and "l < length e" and "uf_parent (e ! l) = UF_NIL" and "uf_parent (e ! s) = UF_NIL"
    and "uf_count (e ! s) \<le> uf_count (e ! l)" and "k < length e"
    and "\<forall>r < length e. uf_parent (e ! r) = UF_NIL \<longrightarrow> uf_name (e ! r) = int k \<longrightarrow> r = s \<or> r = l"
    and distinct: "\<forall>r < length e. uf_parent (e ! r) = UF_NIL \<longrightarrow>
      uf_name (e ! r) = uf_name (e ! s) \<or> uf_name (e ! r) = uf_name (e ! l) \<longrightarrow> r = s \<or> r = l"
  shows "names_match e' (merge_names (uf_name (e ! s)) (uf_name (e ! l)) (int k) A)"
proof -
  have ok: "uf_ok e" using match by (simp add: names_match_def)
  have "uf_name (e' ! r) = merge_names (uf_name (e ! s)) (uf_name (e ! l)) (int k) A (int v)"
    if p: "path e' v r d" for v r d
  proof -
    consider "r \<noteq> s" "path e v r d" | f where "r = l" "path e v s f"
      using linked_path_iff [OF link assms(3,5-7) ok] p by blast
    then show ?thesis
    proof cases
      case 1
      then have A: "A (int v) = uf_name (e ! r)" using match unfolding names_match_def by metis
      have "r < length e" "uf_parent (e ! r) = UF_NIL" using path_bounds [OF 1(2)] by simp_all
      then show ?thesis using 1(1) A distinct link
        by (cases "r = l") (auto simp: merge_names_def linked_def)
    next
      case 2
      then have "A (int v) = uf_name (e ! s)" using match unfolding names_match_def by metis
      then show ?thesis using 2(1) link assms(5) by (simp add: merge_names_def linked_def)
    qed
  qed
  then show ?thesis using uf_ok_linked [OF link assms(3-7) ok assms(8-10)] by (simp add: names_match_def)
qed

section \<open>The operations against the specification\<close>

lemma UF_new_match: "names_match (Universe_new n) (\<lambda>v. v)"
proof -
  have "uf_name (Universe_new n ! v) = int v" if "v < n" for v
    using that by (simp add: Universe_new_def Element_Init_def)
  then show ?thesis by (auto simp: names_match_def uf_ok_new path_new)
qed

lemma UF_Find_match:
  assumes "names_match e A" and "0 \<le> v" and "v < int (length e)"
  shows "\<exists>e'. UF_Find v e = Some (Inr (A v, e')) \<and> names_match e' A \<and> length e' = length e"
proof -
  have ok: "uf_ok e" using assms(1) by (simp add: names_match_def)
  obtain n where n: "v = int n" "n < length e" using assms(2,3) by (metis nonneg_int_cases of_nat_less_iff)
  obtain r d where p: "path e n r d" using uf_okD(1) [OF ok n(2)] by blast
  then have A: "uf_name (e ! r) = A v" using assms(1) n(1) by (simp add: names_match_def) blast
  have "\<exists>e'. UF_Find v e = Some (Inr (A v, e')) \<and> compressed e e'"
    using p
  proof cases
    case path_root
    with A n show ?thesis by (simp add: UF_Find_def)
  next
    case (path_step q d')
    then obtain e' where e': "do_FIND (int q) e = Some (Inr (int r, e'))" "compressed e e'"
      using do_FIND_path by blast
    obtain f where f: "path e' n r f" using compressed_path [OF e'(2) p] by blast
    have b: "n < length e'" "uf_parent (e' ! n) \<noteq> UF_NIL" "r < length e'" "uf_name (e' ! r) = A v"
      using e'(2) path_step n A path_bounds [OF p] by (simp_all add: compressed_def)
    let ?e = "e'[n := (e' ! n)\<lparr>uf_parent := int r\<rparr>]"
    have "compressed e ?e" using compressed_trans [OF e'(2) compress_step [OF f b(2)]] .
    moreover have "uf_name (?e ! r) = A v" using b by (cases "n = r") simp_all
    ultimately show ?thesis using path_step e' n b by (auto simp: UF_Find_def)
  qed
  then obtain e' where e': "UF_Find v e = Some (Inr (A v, e'))" "compressed e e'" by blast
  have "uf_name (e' ! r) = A (int u)" if p': "path e' u r d" for u r d
  proof -
    obtain d' where "path e u r d'" using compressed_back [OF ok e'(2) p'] by blast
    then have "uf_name (e ! r) = A (int u)" "r < length e"
      using assms(1) path_bounds unfolding names_match_def by blast+
    then show ?thesis using e'(2) by (simp add: compressed_def)
  qed
  then have "names_match e' A" using uf_ok_compressed [OF ok e'(2)] by (simp add: names_match_def)
  with e' show ?thesis by (auto simp: compressed_def)
qed

lemma UF_Union_linked:
  assumes "i < length e" and "j < length e" and "k < length e" and "\<not> (i = j \<and> j = k)"
    and "uf_root (e ! i) = int ri" and "uf_root (e ! j) = int rj" and "ri < length e" and "rj < length e"
    and "ri \<noteq> rj"
  shows "\<exists>e'. UF_Union (int i) (int j) (int k) e = Inr e'
    \<and> (if uf_count (e ! ri) > uf_count (e ! rj) then linked e rj ri k e' else linked e ri rj k e')"
  using assms by (auto simp: UF_Union_def linked_def nth_list_update)

lemma UF_Union_match:
  assumes "names_match e A" and "may_union (length e) A i j k"
  shows "\<exists>e'. UF_Union i j k e = Inr e' \<and> names_match e' (merge_names i j k A) \<and> length e' = length e"
proof (cases "i = j")
  case True
  then have "merge_names i j k A = A" "UF_Union i j k e = Inr e"
    using assms(2) by (auto simp: may_union_def merge_names_def UF_Union_def)
  with assms(1) show ?thesis by simp
next
  case False
  obtain ri i' where i: "i = int i'" "i' < length e" "ri < length e" "uf_root (e ! i') = int ri"
    "uf_parent (e ! ri) = UF_NIL" "uf_name (e ! ri) = i"
    by (rule live_root [OF assms(1), of i]) (use assms(2) in \<open>simp_all add: may_union_def\<close>)
  obtain rj j' where j: "j = int j'" "j' < length e" "rj < length e" "uf_root (e ! j') = int rj"
    "uf_parent (e ! rj) = UF_NIL" "uf_name (e ! rj) = j"
    by (rule live_root [OF assms(1), of j]) (use assms(2) in \<open>simp_all add: may_union_def\<close>)
  obtain k' where k: "k = int k'" "k' < length e"
    using assms(2) unfolding may_union_def by (metis nonneg_int_cases of_nat_less_iff)
  have ok: "uf_ok e" using assms(1) by (simp add: names_match_def)
  have "ri \<noteq> rj" using False i j by auto
  have same: "r = r'" if "r < length e" "r' < length e" "uf_parent (e ! r) = UF_NIL"
    "uf_parent (e ! r') = UF_NIL" "uf_name (e ! r) = uf_name (e ! r')" for r r'
    using uf_okD(3) [OF ok path_root, of r] uf_okD(3) [OF ok path_root, of r'] that by auto
  have fresh: "r = ri \<or> r = rj" if "r < length e" "uf_parent (e ! r) = UF_NIL" "uf_name (e ! r) = k" for r
  proof -
    have "A (int r) = k" using assms(1) path_root [OF that(1,2)] that(3) unfolding names_match_def by metis
    then have "live (length e) A k" using that(1) by (force simp: live_def)
    then have "k = i \<or> k = j" using assms(2) by (simp add: may_union_def)
    then show ?thesis using same [of r ri] same [of r rj] i j that by auto
  qed
  have fresh': "\<forall>r < length e. uf_parent (e ! r) = UF_NIL \<longrightarrow> uf_name (e ! r) = int k' \<longrightarrow> r = ri \<or> r = rj"
    "\<forall>r < length e. uf_parent (e ! r) = UF_NIL \<longrightarrow>
      uf_name (e ! r) = uf_name (e ! ri) \<or> uf_name (e ! r) = uf_name (e ! rj) \<longrightarrow> r = ri \<or> r = rj"
    using fresh same i j k by blast+
  obtain e' where e': "UF_Union i j k e = Inr e'"
    "if uf_count (e ! ri) > uf_count (e ! rj) then linked e rj ri k' e' else linked e ri rj k' e'"
    using UF_Union_linked [of i' e j' k' ri rj] i j k False \<open>ri \<noteq> rj\<close> by auto
  have comm: "merge_names j i k A = merge_names i j k A" by (auto simp: merge_names_def)
  show ?thesis
  proof (cases "uf_count (e ! ri) > uf_count (e ! rj)")
    case True
    with e' have link: "linked e rj ri k' e'" by simp
    have "names_match e' (merge_names (uf_name (e ! rj)) (uf_name (e ! ri)) (int k') A)"
      using True i(2-5) j(2-5) k fresh' \<open>ri \<noteq> rj\<close>
      by (intro names_match_linked [OF link assms(1)]) auto
    with e' link i j k comm show ?thesis by (simp add: linked_def)
  next
    case False
    with e' have link: "linked e ri rj k' e'" by simp
    have "names_match e' (merge_names (uf_name (e ! ri)) (uf_name (e ! rj)) (int k') A)"
      using False i(2-5) j(2-5) k fresh' \<open>ri \<noteq> rj\<close>
      by (intro names_match_linked [OF link assms(1)]) auto
    with e' link i j k show ?thesis by (simp add: linked_def)
  qed
qed

section \<open>Clients\<close>

text \<open>
  The use the header of the class shows: \<open>Union(Find(a), Find(b), Find(b))\<close>. It is stated over
  any implementation of the two operations, and so is the interface its correctness rests on.
\<close>

definition bindo :: "'a res option \<Rightarrow> ('a \<Rightarrow> 'b res option) \<Rightarrow> 'b res option" where
  "bindo m f = Option.bind m (\<lambda>r. case r of Inl x \<Rightarrow> Some (Inl x) | Inr y \<Rightarrow> f y)"

lemma bindo_simps [simp]: "bindo (Some (Inr y)) f = f y" "bindo (Some (Inl x)) f = Some (Inl x)"
    "bindo None f = None"
  by (simp_all add: bindo_def)

definition merge_sets ::
  "(int \<Rightarrow> 's \<Rightarrow> (int \<times> 's) res option) \<Rightarrow> (int \<Rightarrow> int \<Rightarrow> int \<Rightarrow> 's \<Rightarrow> 's res) \<Rightarrow> int \<Rightarrow> int \<Rightarrow> 's \<Rightarrow> 's res option" where
  "merge_sets fnd unn a b s =
     bindo (fnd a s) (\<lambda>(i, s). bindo (fnd b s) (\<lambda>(j, s). bindo (fnd b s) (\<lambda>(k, s). Some (unn i j k s))))"

fun merge_all ::
  "(int \<Rightarrow> 's \<Rightarrow> (int \<times> 's) res option) \<Rightarrow> (int \<Rightarrow> int \<Rightarrow> int \<Rightarrow> 's \<Rightarrow> 's res) \<Rightarrow> (int \<times> int) list \<Rightarrow> 's \<Rightarrow> 's res option" where
  "merge_all fnd unn [] s = Some (Inr s)"
| "merge_all fnd unn ((a, b) # ps) s = bindo (merge_sets fnd unn a b s) (merge_all fnd unn ps)"

abbreviation merge_pair :: "int \<times> int \<Rightarrow> (int \<Rightarrow> int) \<Rightarrow> int \<Rightarrow> int" where
  "merge_pair \<equiv> \<lambda>(a, b) A. merge_names (A a) (A b) (A b) A"

definition in_range :: "nat \<Rightarrow> (int \<times> int) list \<Rightarrow> bool" where
  "in_range n ps \<longleftrightarrow> (\<forall>(a, b) \<in> set ps. a \<in> {0..<int n} \<and> b \<in> {0..<int n})"

locale named_sets =
  fixes match :: "'s \<Rightarrow> (int \<Rightarrow> int) \<Rightarrow> bool" and sz :: "'s \<Rightarrow> nat"
    and fnd :: "int \<Rightarrow> 's \<Rightarrow> (int \<times> 's) res option" and unn :: "int \<Rightarrow> int \<Rightarrow> int \<Rightarrow> 's \<Rightarrow> 's res"
  assumes find_law: "match s A \<Longrightarrow> 0 \<le> v \<Longrightarrow> v < int (sz s) \<Longrightarrow>
      \<exists>s'. fnd v s = Some (Inr (A v, s')) \<and> match s' A \<and> sz s' = sz s"
    and union_law: "match s A \<Longrightarrow> may_union (sz s) A i j k \<Longrightarrow>
      \<exists>s'. unn i j k s = Inr s' \<and> match s' (merge_names i j k A) \<and> sz s' = sz s"
    and names_in_range: "match s A \<Longrightarrow> 0 \<le> v \<Longrightarrow> v < int (sz s) \<Longrightarrow> 0 \<le> A v \<and> A v < int (sz s)"
begin

lemma merge_law:
  assumes "match s A" and "a \<in> {0..<int (sz s)}" and "b \<in> {0..<int (sz s)}"
  shows "\<exists>s'. merge_sets fnd unn a b s = Some (Inr s') \<and> match s' (merge_pair (a, b) A) \<and> sz s' = sz s"
proof -
  have a: "0 \<le> a" "a < int (sz s)" and b: "0 \<le> b" "b < int (sz s)" using assms(2,3) by simp_all
  obtain s1 where 1: "fnd a s = Some (Inr (A a, s1))" "match s1 A" "sz s1 = sz s"
    using find_law [OF assms(1) a] by blast
  obtain s2 where 2: "fnd b s1 = Some (Inr (A b, s2))" "match s2 A" "sz s2 = sz s"
    using find_law [OF 1(2), of b] b 1(3) by auto
  obtain s3 where 3: "fnd b s2 = Some (Inr (A b, s3))" "match s3 A" "sz s3 = sz s"
    using find_law [OF 2(2), of b] b 2(3) by auto
  have "may_union (sz s3) A (A a) (A b) (A b)"
    using assms names_in_range [OF assms(1)] 3(3) by (auto simp: may_union_def live_def)
  from union_law [OF 3(2) this] show ?thesis using 1 2 3 by (auto simp: merge_sets_def)
qed

lemma merge_all_law:
  "match s A \<Longrightarrow> in_range (sz s) ps \<Longrightarrow>
   \<exists>s'. merge_all fnd unn ps s = Some (Inr s') \<and> match s' (fold merge_pair ps A) \<and> sz s' = sz s"
proof (induction ps arbitrary: s A)
  case (Cons p ps)
  obtain a b where p: "p = (a, b)" by force
  obtain s1 where s1: "merge_sets fnd unn a b s = Some (Inr s1)" "match s1 (merge_pair (a, b) A)" "sz s1 = sz s"
    using merge_law [OF Cons(2), of a b] Cons(3) p by (auto simp: in_range_def)
  moreover have "in_range (sz s1) ps" using Cons(3) s1(3) by (simp add: in_range_def)
  ultimately show ?case using Cons(1) p by fastforce
qed simp

end

interpretation uf: named_sets names_match length UF_Find UF_Union
proof
  fix e :: universe and A and v :: int
  assume match: "names_match e A" and v: "0 \<le> v" "v < int (length e)"
  show "\<exists>e'. UF_Find v e = Some (Inr (A v, e')) \<and> names_match e' A \<and> length e' = length e"
    by (rule UF_Find_match [OF match v])
  obtain n where n: "v = int n" "n < length e" using v by (metis nonneg_int_cases of_nat_less_iff)
  have ok: "uf_ok e" using match by (simp add: names_match_def)
  obtain r d where p: "path e n r d" using uf_okD(1) [OF ok n(2)] by blast
  then have "uf_name (e ! r) = A v" using match n(1) unfolding names_match_def by blast
  then show "0 \<le> A v \<and> A v < int (length e)" using uf_okD(3) [OF ok p] by auto
qed (rule UF_Union_match)

lemma merge_pair_eq:
  "merge_names (A a) (A b) (A b) A x = merge_names (A a) (A b) (A b) A y
   \<longleftrightarrow> A x = A y \<or> A x = A a \<and> A y = A b \<or> A x = A b \<and> A y = A a"
  by (auto simp: merge_names_def)

text \<open>What the merges amount to: the least equivalence that contains the pairs.\<close>

lemma merged_names:
  "fold merge_pair ps (\<lambda>v. v) x = fold merge_pair ps (\<lambda>v. v) y \<longleftrightarrow> (x, y) \<in> (set ps \<union> (set ps)\<inverse>)\<^sup>*"
proof (induction ps arbitrary: x y rule: rev_induct)
  case (snoc p ps)
  obtain a b where p: "p = (a, b)" by force
  let ?A = "fold merge_pair ps (\<lambda>v. v)" and ?A' = "fold merge_pair (ps @ [p]) (\<lambda>v. v)"
  let ?R = "set ps \<union> (set ps)\<inverse>" and ?R' = "set (ps @ [p]) \<union> (set (ps @ [p]))\<inverse>"
  have A': "?A' = merge_names (?A a) (?A b) (?A b) ?A" by (simp add: p)
  have keep: "?A' u = ?A' v" if "?A u = ?A v" for u v using that unfolding A' merge_pair_eq by blast
  have old: "?R\<^sup>* \<subseteq> ?R'\<^sup>*" by (rule rtrancl_mono) auto
  have ab: "(a, b) \<in> ?R'\<^sup>*" "(b, a) \<in> ?R'\<^sup>*" using p by auto
  have IH: "(u, v) \<in> ?R'\<^sup>*" if "?A u = ?A v" for u v using that snoc old by blast
  show ?case
  proof
    assume eq: "?A' x = ?A' y"
    consider "?A x = ?A y" | "?A x = ?A a" "?A y = ?A b" | "?A x = ?A b" "?A y = ?A a"
      using eq unfolding A' merge_pair_eq by blast
    then show "(x, y) \<in> ?R'\<^sup>*"
    proof cases
      case 2
      then show ?thesis by (intro rtrancl_trans [OF rtrancl_trans [OF IH ab(1)] IH]) simp_all
    next
      case 3
      then show ?thesis by (intro rtrancl_trans [OF rtrancl_trans [OF IH ab(2)] IH]) simp_all
    qed (rule IH)
  next
    assume "(x, y) \<in> ?R'\<^sup>*"
    then show "?A' x = ?A' y"
    proof (induction rule: rtrancl_induct)
      case (step u v)
      have "?A u = ?A v \<or> {u, v} = {a, b}"
        using step(2) snoc [THEN iffD2, OF r_into_rtrancl, of u v] p by auto
      then have "?A' u = ?A' v"
      proof
        assume "{u, v} = {a, b}"
        then show ?thesis unfolding A' merge_pair_eq by (auto simp: doubleton_eq_iff)
      qed (rule keep)
      with step show ?case by simp
    qed simp
  qed
qed simp

section \<open>The universes that are reached\<close>




section \<open>Properties\<close>

text \<open>
  C18. \<open>Find\<close> and \<open>Union\<close> refine the function that maps every element to the name of its set:
  \<open>Find\<close> returns its value and changes nothing of it, and \<open>Union(i, j, k)\<close> renames the
  elements of \<open>i\<close> and \<open>j\<close> to \<open>k\<close>.
\<close>

theorem UF_operations_refine:
  assumes "names_match e A"
  shows "(\<forall>v. 0 \<le> v \<and> v < int (length e) \<longrightarrow>
       (\<exists>e'. UF_Find v e = Some (Inr (A v, e')) \<and> names_match e' A \<and> length e' = length e))
     \<and> (\<forall>i j k. may_union (length e) A i j k \<longrightarrow>
       (\<exists>e'. UF_Union i j k e = Inr e' \<and> names_match e' (merge_names i j k A) \<and> length e' = length e))"
  using uf.find_law [OF assms] uf.union_law [OF assms] by blast

theorem UF_operations_refine_witness:
  "\<exists>e'. UF_Union 0 2 2 (Universe_new 3) = Inr e' \<and> names_match e' (merge_names 0 2 2 (\<lambda>v. v))"
  using UF_operations_refine [OF UF_new_match [of 3], THEN conjunct2, rule_format, of 0 2 2]
  by (auto simp: may_union_def live_def Universe_new_def)

text \<open>
  After any sequence of \<open>Union(Find(a), Find(b), Find(b))\<close> on a new universe, two elements
  have the same \<open>Find\<close> if and only if the merged pairs connect them, and no call fails or
  runs forever.
\<close>

lemma UF_merges_connect:
  assumes "in_range n ps" and "x \<in> {0..<int n}" and "y \<in> {0..<int n}"
  shows "\<exists>e i j e' e''. merge_all UF_Find UF_Union ps (Universe_new n) = Some (Inr e)
     \<and> UF_Find x e = Some (Inr (i, e')) \<and> UF_Find y e' = Some (Inr (j, e''))
     \<and> (i = j \<longleftrightarrow> (x, y) \<in> (set ps \<union> (set ps)\<inverse>)\<^sup>*)"
proof -
  let ?A = "fold merge_pair ps (\<lambda>v. v)"
  obtain e where e: "merge_all UF_Find UF_Union ps (Universe_new n) = Some (Inr e)" "names_match e ?A" "length e = n"
    using uf.merge_all_law [OF UF_new_match [of n]] assms(1) by auto
  obtain e' where e': "UF_Find x e = Some (Inr (?A x, e'))" "names_match e' ?A" "length e' = n"
    using uf.find_law [OF e(2), of x] assms(2) e(3) by auto
  obtain e'' where e'': "UF_Find y e' = Some (Inr (?A y, e''))"
    using uf.find_law [OF e'(2), of y] assms(3) e'(3) by auto
  show ?thesis
    by (intro exI conjI) (rule e(1), rule e'(1), rule e'', rule merged_names)
qed

text \<open>
  C30. \<open>do_FIND\<close> returns exactly on the elements from which the parent pointers lead to a root,
  and then it returns that root.
\<close>

theorem do_FIND_terminates:
  "(\<exists>e'. do_FIND v e = Some (Inr (x, e'))) \<longleftrightarrow> 0 \<le> v \<and> (\<exists>r d. path e (nat v) r d \<and> x = int r)"
proof
  assume "\<exists>e'. do_FIND v e = Some (Inr (x, e'))"
  then obtain e' where e': "do_FIND v e = Some (Inr (x, e'))" by blast
  then obtain r d where p: "0 \<le> v" "path e (nat v) r d" using do_FIND_returns [OF e' refl] by blast
  then show "0 \<le> v \<and> (\<exists>r d. path e (nat v) r d \<and> x = int r)"
    using do_FIND_path [OF p(2)] e' by auto
next
  assume "0 \<le> v \<and> (\<exists>r d. path e (nat v) r d \<and> x = int r)"
  then show "\<exists>e'. do_FIND v e = Some (Inr (x, e'))" using do_FIND_path by fastforce
qed







text \<open>
  Renaming a set through \<open>Union(i, i, k)\<close> links its root to itself: the test at the start of
  \<open>Union\<close> requires \<open>k\<close> to be the old name as well. No later \<open>Find\<close> in the set returns.
\<close>

lemma do_FIND_self:
  "do_FIND v e = Some res \<Longrightarrow> \<not> (0 \<le> v \<and> v < int (length e) \<and> uf_parent (e ! nat v) = v)"
proof (induction rule: do_FIND.raw_induct [rotated, consumes 1, case_names step])
  case (step do_FIND v e res)
  show ?case
  proof
    assume self: "0 \<le> v \<and> v < int (length e) \<and> uf_parent (e ! nat v) = v"
    then obtain res' where "do_FIND v e = Some res'"
      using step(2) by (auto simp: element_def UF_NIL_def bind_eq_Some_conv)
    from step(1) [OF this] self show False by blast
  qed
qed

lemma UF_Union_rename:
  "\<exists>e. UF_Union 0 0 1 (Universe_new 2) = Inr e \<and> UF_Find 0 e = None"
proof -
  let ?e = "[\<lparr>uf_parent = 0, uf_name = 1, uf_count = 2, uf_root = 0\<rparr>,
             \<lparr>uf_parent = UF_NIL, uf_name = 1, uf_count = 1, uf_root = 0\<rparr>]"
  have "UF_Union 0 0 1 (Universe_new 2) = Inr ?e" by code_simp
  moreover have "do_FIND 0 ?e = None" using do_FIND_self [of 0 ?e] by (cases "do_FIND 0 ?e") auto
  then have "UF_Find 0 ?e = None" by (simp add: UF_Find_def element_def UF_NIL_def)
  ultimately show ?thesis by blast
qed

end
