(* ===== verification/IEG_IslStr.thy ===== *)
theory IEG_IslStr
  imports IEG_Sparse
begin

text \<open>
  The string functions that undo what the ISL library does to tuple declarations, and those
  that turn the string of a set into that of a relation and back
  (\<open>isl_str_manipulation.cc\<close>), with the functions of \<open>set_relation.cc\<close> that pass a set or a
  relation through ISL. ISL itself and the generated parser are parameters.

  Positions are C++ \<open>int\<close>s: \<open>npos\<close> becomes -1 when it is stored in one, and a negative
  position or length is a huge \<open>size_t\<close> when it is passed on. \<open>substr\<close> throws \<open>out_of_range\<close>
  when it starts behind the end.
\<close>

section \<open>Searching and cutting\<close>

definition is_space :: "char \<Rightarrow> bool" where
  "is_space c \<longleftrightarrow> (9 \<le> (of_char c :: nat) \<and> (of_char c :: nat) \<le> 13) \<or> (of_char c :: nat) = 32"

definition trim :: "string \<Rightarrow> string" where
  "trim s = rev (dropWhile is_space (rev (dropWhile is_space s)))"

definition find_first_of :: "char \<Rightarrow> int \<Rightarrow> string \<Rightarrow> int" where
  "find_first_of c st s =
     (if st < 0 \<or> st > int (length s) then -1
      else let k = nat st + length (takeWhile (\<lambda>x. x \<noteq> c) (drop (nat st) s)) in
        if k < length s then int k else -1)"

definition substr :: "int \<Rightarrow> int \<Rightarrow> string \<Rightarrow> string res" where
  "substr pos n s =
     (if pos < 0 \<or> pos > int (length s) then Inl OutOfBounds
      else Inr (if n < 0 then drop (nat pos) s else take (nat n) (drop (nat pos) s)))"

fun split_vars :: "nat \<Rightarrow> int \<Rightarrow> string \<Rightarrow> string list res" where
  "split_vars 0 tst str = Inr []"
| "split_vars (Suc n) tst str =
     (let tend = find_first_of CHR '','' tst str in
      bindr (substr tst (tend - tst) str) (\<lambda>x.
      bindr (split_vars n (tend + 1) str) (\<lambda>xs. Inr (trim x # xs))))"

definition extract_part :: "int \<Rightarrow> int \<Rightarrow> string \<Rightarrow> (string list \<times> int) res" where
  "extract_part arity st tupDecl =
     (let st = find_first_of CHR ''['' st tupDecl; end = find_first_of CHR '']'' st tupDecl in
      bindr (substr (st + 1) (end - st - 1) tupDecl) (\<lambda>str.
      bindr (split_vars (nat arity) 0 str) (\<lambda>vs. Inr (vs, end + 1))))"

definition tupVarsExtract :: "string \<Rightarrow> int \<Rightarrow> int \<Rightarrow> string list res" where
  "tupVarsExtract tupDecl inAr outAr =
     (if outAr \<noteq> 0
      then bindr (extract_part inAr 0 tupDecl) (\<lambda>(vs, st).
           bindr (extract_part outAr st tupDecl) (\<lambda>(vs', _). Inr (vs @ vs')))
      else bindr (extract_part inAr 0 tupDecl) (\<lambda>(vs, _). Inr vs))"

section \<open>Parts of a string\<close>

record srParts =
  symVars :: string
  sC :: string
  tupDecl :: string
  sepC :: string
  constraints :: string
  eC :: string

definition srParts_new :: srParts where
  "srParts_new = \<lparr>symVars = [], sC = ''{'', tupDecl = [], sepC = '':'', constraints = [], eC = ''}''\<rparr>"

definition getPartsFromStr :: "string \<Rightarrow> srParts res" where
  "getPartsFromStr str =
     (let l1 = find_first_of CHR ''{'' 0 str; l2 = find_first_of CHR '':'' l1 str in
      if l2 < 0 then
        bindr (substr 0 l1 str) (\<lambda>sv.
        let l3 = find_first_of CHR ''}'' l1 str in
        bindr (substr (l1 + 1) (l3 - (l1 + 1) - 1) str) (\<lambda>td.
        Inr (srParts_new\<lparr>symVars := sv, tupDecl := td\<rparr>)))
      else
        let l3 = find_first_of CHR ''}'' l2 str in
        bindr (substr 0 l1 str) (\<lambda>sv.
        bindr (substr (l1 + 1) (l2 - (l1 + 1)) str) (\<lambda>td.
        bindr (substr (l2 + 1) (l3 - (l2 + 1)) str) (\<lambda>cs.
        Inr (srParts_new\<lparr>symVars := sv, tupDecl := td, constraints := cs\<rparr>)))))"

definition getFullStrFromParts :: "srParts \<Rightarrow> string" where
  "getFullStrFromParts parts =
     (if symVars parts \<noteq> [] then symVars parts @ '' -> '' else [])
     @ sC parts @ tupDecl parts @ sepC parts @ constraints parts @ eC parts"

definition strAddConstraints :: "string \<Rightarrow> string \<Rightarrow> string res" where
  "strAddConstraints dest src =
     bindr (getPartsFromStr dest) (\<lambda>destParts.
     bindr (getPartsFromStr src) (\<lambda>srcParts.
     Inr (getFullStrFromParts (destParts\<lparr>constraints := constraints srcParts @ '' && '' @ constraints destParts\<rparr>))))"

section \<open>Undoing what ISL does to declarations\<close>

fun missing_loop :: "bool \<Rightarrow> (string \<times> string) list \<Rightarrow> string" where
  "missing_loop firstEq [] = []"
| "missing_loop firstEq ((orig, now) # vs) =
     (if orig \<noteq> now
      then (if firstEq then '' '' else '' and '') @ orig @ '' = '' @ now @ missing_loop False vs
      else missing_loop firstEq vs)"

definition missingEqs :: "string \<Rightarrow> string \<Rightarrow> int \<Rightarrow> int \<Rightarrow> string res" where
  "missingEqs origTupDecl islTupDecl inAr outAr =
     bindr (tupVarsExtract origTupDecl inAr outAr) (\<lambda>origTupVars.
     bindr (tupVarsExtract islTupDecl inAr outAr) (\<lambda>islTupVars.
     Inr (missing_loop True (zip origTupVars islTupVars))))"

definition revertISLTupDeclToOrig :: "string \<Rightarrow> string \<Rightarrow> int \<Rightarrow> int \<Rightarrow> string res" where
  "revertISLTupDeclToOrig origStr islStr inAr outAr =
     bindr (getPartsFromStr origStr) (\<lambda>origParts.
     bindr (getPartsFromStr islStr) (\<lambda>islParts.
     bindr (missingEqs (tupDecl origParts) (tupDecl islParts) inAr outAr) (\<lambda>eqsStr.
     Inr (symVars islParts @ sC islParts @ tupDecl origParts @ sepC islParts
       @ (if length (constraints islParts) = 0 then eqsStr
          else if length eqsStr = 0 then constraints islParts
          else constraints islParts @ '' and '' @ eqsStr)
       @ eC islParts))))"

fun project_loop :: "int \<Rightarrow> int \<Rightarrow> int \<Rightarrow> int \<Rightarrow> string list \<Rightarrow> string" where
  "project_loop poTv inAr outAr i [] = []"
| "project_loop poTv inAr outAr i (orig # vs) =
     (let arity = inAr + outAr in
      (if i = inAr \<and> outAr \<noteq> 0 then ''] -> ['' else [])
      @ (if i \<noteq> poTv
         then orig
           @ (if i \<noteq> arity - 1 \<and> i \<noteq> inAr - 1
                 \<and> \<not> (i = arity - 2 \<and> poTv = arity - 1 \<or> i = inAr - 2 \<and> poTv = inAr - 1)
              then '', '' else [])
         else [])
      @ project_loop poTv inAr outAr (i + 1) vs)"

definition projectOutStrCorrection :: "string \<Rightarrow> int \<Rightarrow> int \<Rightarrow> int \<Rightarrow> string res" where
  "projectOutStrCorrection str poTv inAr outAr =
     bindr (getPartsFromStr str) (\<lambda>parts.
     bindr (tupVarsExtract (tupDecl parts) inAr outAr) (\<lambda>origTupVars.
     let newTupDecl = ''['' @ project_loop poTv inAr outAr 0 origTupVars @ ''] '' in
     Inr (symVars parts @ sC parts @ newTupDecl
       @ (if length (constraints parts) = 0 then [] else sepC parts @ constraints parts) @ eC parts)))"

section \<open>Sets as relations and back\<close>

text \<open>\<open>split = None\<close> for the loop of \<open>relationStr2SetStr\<close>, which only writes commas.\<close>

fun join_vars :: "int option \<Rightarrow> int \<Rightarrow> string list \<Rightarrow> string" where
  "join_vars split i [] = []"
| "join_vars split i (iter # iters) =
     (if split = Some i then ''] -> ['' else if i \<noteq> 0 then '','' else []) @ iter
     @ join_vars split (i + 1) iters"

definition setStr2RelationStr :: "string \<Rightarrow> int \<Rightarrow> int \<Rightarrow> string res" where
  "setStr2RelationStr set_str inAr outAr =
     bindr (getPartsFromStr set_str) (\<lambda>setParts.
     bindr (tupVarsExtract (tupDecl setParts) (inAr + outAr) 0) (\<lambda>iters.
     Inr (getFullStrFromParts (setParts\<lparr>tupDecl := ''['' @ join_vars (Some inAr) 0 iters @ '']''\<rparr>))))"

definition relationStr2SetStr :: "string \<Rightarrow> int \<Rightarrow> int \<Rightarrow> string res" where
  "relationStr2SetStr relation inAr outAr =
     bindr (getPartsFromStr relation) (\<lambda>relationParts.
     bindr (tupVarsExtract (tupDecl relationParts) inAr outAr) (\<lambda>iters.
     Inr (getFullStrFromParts (relationParts\<lparr>tupDecl := ''['' @ join_vars None 0 iters @ '']''\<rparr>))))"

section \<open>Passing through ISL\<close>

text \<open>
  \<open>thru_isl\<close> is what reading a string into ISL and printing it back gives, \<open>isl_project\<close> the same
  with one dimension projected out; \<open>parse_set\<close> and \<open>parse_rel\<close> are the constructors from a
  string. \<open>toISLString\<close> without an argument prints with the split 0, for a relation too.
\<close>

definition passSetThruISL :: "world \<Rightarrow> (string \<Rightarrow> string) \<Rightarrow> (string \<Rightarrow> iset res) \<Rightarrow> iset \<Rightarrow> iset res" where
  "passSetThruISL w thru_isl parse_set s =
     bindr (sparse_toISLString w (mArity s) 0 (set_conjs s)) (\<lambda>sstr.
     bindr (revertISLTupDeclToOrig sstr (thru_isl sstr) (int (mArity s)) 0) parse_set)"

definition passRelationThruISL :: "world \<Rightarrow> (string \<Rightarrow> string) \<Rightarrow> (string \<Rightarrow> irel res) \<Rightarrow> irel \<Rightarrow> irel res" where
  "passRelationThruISL w thru_isl parse_rel r =
     bindr (sparse_toISLString w (nat (rel_arity r)) 0 (rel_conjs r)) (\<lambda>rstr.
     bindr (revertISLTupDeclToOrig rstr (thru_isl rstr) (inArity r) (outArity r)) parse_rel)"

definition islSetProjectOut ::
  "world \<Rightarrow> (nat \<Rightarrow> string \<Rightarrow> string) \<Rightarrow> (string \<Rightarrow> iset res) \<Rightarrow> iset \<Rightarrow> nat \<Rightarrow> iset res" where
  "islSetProjectOut w isl_project parse_set s pos =
     bindr (sparse_toISLString w (mArity s) 0 (set_conjs s)) (\<lambda>sstr.
     bindr (projectOutStrCorrection sstr (int pos) (int (mArity s)) 0) (\<lambda>projected.
     bindr (revertISLTupDeclToOrig projected (isl_project pos sstr) (int (mArity s)) 0) parse_set))"

section \<open>Facts about positions\<close>

lemma takeWhile_until: "c \<notin> set x \<Longrightarrow> takeWhile (\<lambda>y. y \<noteq> c) (x @ c # s) = x"
  by (induction x) auto

lemma find_at:
  "c \<notin> set x \<Longrightarrow> p = int (length pre) \<Longrightarrow> find_first_of c p (pre @ x @ c # s) = int (length pre + length x)"
  by (simp add: find_first_of_def Let_def takeWhile_until)

lemma find_none: "c \<notin> set x \<Longrightarrow> p = int (length pre) \<Longrightarrow> find_first_of c p (pre @ x) = -1"
proof -
  assume "c \<notin> set x" "p = int (length pre)"
  moreover from this have "length (takeWhile (\<lambda>y. y \<noteq> c) x) = length x" by (induction x) auto
  ultimately show ?thesis unfolding find_first_of_def by simp
qed

lemma substr_at: "p = int (length pre) \<Longrightarrow> n = int (length x) \<Longrightarrow> substr p n (pre @ x @ s) = Inr x"
  by (simp add: substr_def)

lemma substr_rest: "p = int (length pre) \<Longrightarrow> n < 0 \<Longrightarrow> substr p n (pre @ x) = Inr x"
  by (simp add: substr_def)

text \<open>A name that survives: no separators in it and no blanks around it.\<close>

definition plain_var :: "string \<Rightarrow> bool" where
  "plain_var v \<longleftrightarrow> trim v = v \<and> list_all (\<lambda>c. c \<notin> set '',[]{}:'') v"

fun commas :: "string list \<Rightarrow> string" where
  "commas [] = []"
| "commas [v] = v"
| "commas (v # vs) = v @ '','' @ commas vs"

lemma commas_Cons: "vs \<noteq> [] \<Longrightarrow> commas (v # vs) = v @ '','' @ commas vs"
  by (cases vs) simp_all

lemma commas_plain:
  "list_all plain_var vs \<Longrightarrow> c \<in> set ''[]{}:'' \<Longrightarrow> c \<notin> set (commas vs)"
  by (induction vs rule: commas.induct) (auto simp: plain_var_def list_all_iff)

lemma split_vars_commas:
  "vs \<noteq> [] \<Longrightarrow> list_all plain_var vs \<Longrightarrow> p = int (length pre) \<Longrightarrow> split_vars (length vs) p (pre @ commas vs) = Inr vs"
proof (induction vs arbitrary: pre p)
  case (Cons v vs)
  have v: "CHR '','' \<notin> set v" "trim v = v" using Cons.prems(2) by (auto simp: plain_var_def list_all_iff)
  show ?case
  proof (cases "vs = []")
    case True
    with v Cons.prems(3) show ?thesis by (simp add: Let_def find_none substr_rest)
  next
    case False
    then have c: "commas (v # vs) = v @ CHR '','' # commas vs" by (simp add: commas_Cons)
    have "split_vars (length vs) (int (length pre + length v) + 1) ((pre @ v @ '','') @ commas vs) = Inr vs"
      using Cons.prems(2) False by (intro Cons.IH) simp_all
    with v Cons.prems(3) show ?thesis
      by (simp add: Let_def c find_at substr_at)
  qed
qed simp

lemma extract_part_at:
  assumes "vs \<noteq> []" and "list_all plain_var vs" and "CHR ''['' \<notin> set gap" and "p = int (length pre)"
  shows "extract_part (int (length vs)) p (pre @ gap @ ''['' @ commas vs @ '']'' @ s) =
    Inr (vs, int (length pre + length gap + length (commas vs)) + 2)"
proof -
  let ?str = "pre @ gap @ ''['' @ commas vs @ '']'' @ s"
  have 1: "find_first_of CHR ''['' p ?str = int (length pre + length gap)"
    using find_at [of "CHR ''[''" gap p pre "commas vs @ '']'' @ s"] assms(3,4) by simp
  have "CHR '']'' \<notin> set (CHR ''['' # commas vs)"
    using commas_plain [OF assms(2), of "CHR '']''"] by simp
  then have 2: "find_first_of CHR '']'' (int (length pre + length gap)) ?str
      = int (length pre + length gap + length (commas vs)) + 1"
    using find_at [of "CHR '']''" "CHR ''['' # commas vs" "int (length pre + length gap)" "pre @ gap" s] by simp
  have "substr (int (length pre + length gap) + 1) (int (length (commas vs))) ?str = Inr (commas vs)"
    using substr_at [of _ "pre @ gap @ ''[''" _ "commas vs" "'']'' @ s"] by (simp add: add.commute)
  moreover have "split_vars (length vs) 0 (commas vs) = Inr vs"
    using split_vars_commas [OF assms(1,2), of 0 "[]"] by simp
  ultimately show ?thesis using 1 2 by (simp add: extract_part_def Let_def)
qed

lemma extract_set:
  "vs \<noteq> [] \<Longrightarrow> list_all plain_var vs \<Longrightarrow>
   tupVarsExtract (''['' @ commas vs @ '']'') (int (length vs)) 0 = Inr vs"
  using extract_part_at [of vs "[]" 0 "[]" "[]"] by (simp add: tupVarsExtract_def)

lemma extract_rel:
  assumes "vs \<noteq> []" and "us \<noteq> []" and "list_all plain_var vs" and "list_all plain_var us"
  shows "tupVarsExtract (''['' @ commas vs @ ''] -> ['' @ commas us @ '']'')
    (int (length vs)) (int (length us)) = Inr (vs @ us)"
  using extract_part_at [OF assms(1,3), of "[]" 0 "[]" "'' -> ['' @ commas us @ '']''"]
    extract_part_at [OF assms(2,4), of "'' -> ''" _ "''['' @ commas vs @ '']''" "[]"] assms(2)
  by (simp add: tupVarsExtract_def add.commute)

lemma parts_at:
  assumes "CHR '':'' \<notin> set td" and "CHR ''}'' \<notin> set cs"
  shows "getPartsFromStr (''{'' @ td @ '':'' @ cs @ ''}'') = Inr (srParts_new\<lparr>tupDecl := td, constraints := cs\<rparr>)"
proof -
  let ?s = "''{'' @ td @ '':'' @ cs @ ''}''"
  have "find_first_of CHR ''{'' 0 ?s = 0" using find_at [of _ "[]" 0 "[]"] by simp
  moreover have "find_first_of CHR '':'' 0 ?s = int (length td) + 1"
    using find_at [of "CHR '':''" "CHR ''{'' # td" 0 "[]"] assms(1) by simp
  moreover have "find_first_of CHR ''}'' (int (length td) + 1) ?s = int (length td + length cs) + 2"
    using find_at [of "CHR ''}''" "CHR '':'' # cs" _ "CHR ''{'' # td" "[]"] assms(2) by (simp add: add.commute)
  moreover have "substr 0 0 ?s = Inr []" using substr_at [of 0 "[]" 0 "[]"] by simp
  moreover have "substr 1 (int (length td)) ?s = Inr td"
    using substr_at [of 1 "''{''" _ td "'':'' @ cs @ ''}''"] by simp
  moreover have "substr (int (length td) + 2) (int (length cs)) ?s = Inr cs"
    using substr_at [of _ "''{'' @ td @ '':''" _ cs "''}''"] by (simp add: add.commute)
  ultimately show ?thesis
    by (simp add: getPartsFromStr_def Let_def srParts_new_def algebra_simps del: append.simps)
qed

lemma join_vars_commas: "i > 0 \<Longrightarrow> \<forall>k. split = Some k \<longrightarrow> k < i \<Longrightarrow>
    join_vars split i vs = (if vs = [] then [] else '','' @ commas vs)"
proof (induction vs arbitrary: i)
  case (Cons v vs)
  have "join_vars split (i + 1) vs = (if vs = [] then [] else '','' @ commas vs)"
    using Cons.prems by (intro Cons.IH) auto
  then show ?case using Cons.prems by (auto simp: commas_Cons)
qed simp

lemma join_vars_set: "join_vars None 0 vs = commas vs"
  using join_vars_commas [of 1 None] by (cases vs) (auto simp: commas_Cons)

lemma join_vars_rel:
  "0 \<le> i \<Longrightarrow> vs \<noteq> [] \<Longrightarrow> us \<noteq> [] \<Longrightarrow> join_vars (Some (i + int (length vs))) i (vs @ us)
   = (if i = 0 then [] else '','') @ commas vs @ ''] -> ['' @ commas us"
proof (induction vs arbitrary: i)
  case (Cons v vs)
  show ?case
  proof (cases "vs = []")
    case True
    obtain u us' where us: "us = u # us'" using Cons.prems(3) by (cases us) auto
    have "join_vars (Some (i + 1)) (2 + i) us' = (if us' = [] then [] else '','' @ commas us')"
      using Cons.prems(1) by (intro join_vars_commas) auto
    then show ?thesis using True us by (auto simp: commas_Cons)
  next
    case False
    then show ?thesis using Cons.IH [of "i + 1"] Cons.prems by (simp add: commas_Cons algebra_simps)
  qed
qed simp

section \<open>Properties\<close>

text \<open>
  C32. Turning the string of a set into that of a relation splits the tuple where it is told to,
  and turning it back gives the original string.
\<close>

theorem relation_set_roundtrip:
  assumes "vs \<noteq> []" and "us \<noteq> []" and "list_all plain_var (vs @ us)" and "CHR ''}'' \<notin> set cs"
  shows "setStr2RelationStr (''{['' @ commas (vs @ us) @ '']:'' @ cs @ ''}'') (int (length vs)) (int (length us))
      = Inr (''{['' @ commas vs @ ''] -> ['' @ commas us @ '']:'' @ cs @ ''}'')
    \<and> relationStr2SetStr (''{['' @ commas vs @ ''] -> ['' @ commas us @ '']:'' @ cs @ ''}'')
        (int (length vs)) (int (length us))
      = Inr (''{['' @ commas (vs @ us) @ '']:'' @ cs @ ''}'')"
proof -
  have v: "list_all plain_var vs" "list_all plain_var us" using assms(3) by simp_all
  let ?s = "''['' @ commas (vs @ us) @ '']''" and ?r = "''['' @ commas vs @ ''] -> ['' @ commas us @ '']''"
  have "getPartsFromStr (''{'' @ ?s @ '':'' @ cs @ ''}'') = Inr (srParts_new\<lparr>tupDecl := ?s, constraints := cs\<rparr>)"
    using commas_plain [OF assms(3), of "CHR '':''"] assms(4) by (intro parts_at) simp_all
  moreover have "getPartsFromStr (''{'' @ ?r @ '':'' @ cs @ ''}'') = Inr (srParts_new\<lparr>tupDecl := ?r, constraints := cs\<rparr>)"
    using commas_plain [OF v(1), of "CHR '':''"] commas_plain [OF v(2), of "CHR '':''"] assms(4)
    by (intro parts_at) simp_all
  ultimately show ?thesis
    using extract_set [of "vs @ us"] extract_rel [OF assms(1,2) v] join_vars_rel [of 0 vs us] assms
    by (simp add: setStr2RelationStr_def relationStr2SetStr_def getFullStrFromParts_def srParts_new_def join_vars_set)
qed

theorem relation_set_roundtrip_witness:
  "relationStr2SetStr ''{[i] -> [j,k]: i = j}'' 1 2 = Inr ''{[i,j,k]: i = j}''"
  using relation_set_roundtrip [of "[''i'']" "[''j'', ''k'']" "'' i = j''", THEN conjunct2]
  by (simp add: plain_var_def trim_def is_space_def)

text \<open>
  \<open>getPartsFromStr\<close> leaves the arrow in \<open>symVars\<close>, as its comment says, and
  \<open>getFullStrFromParts\<close> adds another one: a string with symbolic constants does not survive.
\<close>

lemma symVars_arrow_doubled:
  "strAddConstraints ''[n] -> {[i]:i < n}'' ''{[i]:0 < i}'' = Inr ''[n] ->  -> {[i]:0 < i && i < n}''"
  by code_simp

text \<open>Without a colon the character in front of the closing brace is taken for a blank.\<close>

lemma getParts_drops_bracket:
  "getPartsFromStr ''{[i]}'' = Inr (srParts_new\<lparr>tupDecl := ''[i''\<rparr>)"
  by code_simp

text \<open>
  \<open>revertISLTupDeclToOrig\<close> puts the replaced variable back and keeps what ISL found as an equality.
\<close>

lemma revert_example:
  "revertISLTupDeclToOrig ''[n] -> { [i] : i = n and i <= 10 }'' ''[n] -> { [n] : n <= 10 }'' 1 0
   = Inr ''[n] -> { [i] : n <= 10  and  i = n}''"
  by code_simp

end
