(* ===== verification/IEG_Environment.thy ===== *)
theory IEG_Environment
  imports IEG_IslStr IEG_SetProps
begin

text \<open>
  The environment of declared uninterpreted functions (\<open>environment.cc\<close>, \<open>UninterpFunc.cc\<close>):
  what is known of each function, the table of inverses that solving and composing rely on, and
  the universally quantified rules. The operations on the global \<open>currentEnv\<close> take it and return
  it; after an exception it is what the statements before it have left.

  Copying a set cleans it up, and that asks the environment for inverses; so the copies are made
  in the \<open>world\<close> whose inverses are those of the environment. The parser of rules is a parameter.
\<close>

section \<open>Uninterpreted functions\<close>

datatype MonotonicType =
  Monotonic_NONE | Monotonic_Nondecreasing | Monotonic_Increasing | Monotonic_Nonincreasing
  | Monotonic_Decreasing

fun MonotonicType_value :: "MonotonicType \<Rightarrow> nat" where
  "MonotonicType_value Monotonic_NONE = 0"
| "MonotonicType_value Monotonic_Nondecreasing = 1"
| "MonotonicType_value Monotonic_Increasing = 2"
| "MonotonicType_value Monotonic_Nonincreasing = 3"
| "MonotonicType_value Monotonic_Decreasing = 4"

record uninterp_func =
  mFuncName :: string
  mDomain :: iset
  mRange :: iset
  mIsBijective :: bool
  mMonoType :: MonotonicType

definition UninterpFunc_copy :: "world \<Rightarrow> uninterp_func \<Rightarrow> uninterp_func res" where
  "UninterpFunc_copy w other =
     bindr (Set_copy w (mDomain other)) (\<lambda>d.
     bindr (Set_copy w (mRange other)) (\<lambda>r. Inr (other\<lparr>mDomain := d, mRange := r\<rparr>)))"

definition UninterpFunc_toString :: "uninterp_func \<Rightarrow> string res" where
  "UninterpFunc_toString f =
     bindr (sparse_toString (mArity (mDomain f)) 0 (set_conjs (mDomain f))) (\<lambda>d.
     bindr (sparse_toString (mArity (mRange f)) 0 (set_conjs (mRange f))) (\<lambda>r.
     Inr (''UninterpFunc(mName='' @ mFuncName f @ '', mDomain='' @ d @ '', mRange='' @ r
       @ '', mIsBijective='' @ (if mIsBijective f then ''1'' else ''0'')
       @ '', mIsBijective='' @ nat_str (MonotonicType_value (mMonoType f)) @ '')'')))"

section \<open>Rules\<close>

datatype uq_type = Monotonicity | CoMonotonicity | Triangularity | DomainRange | FuncConsistency | TheOthers

record uq_rule =
  mUniQuantRuleType :: uq_type
  mLeftSide :: iset
  mRightSide :: iset

definition UniQuantRule_new ::
  "(string \<Rightarrow> iset res) \<Rightarrow> string \<Rightarrow> string \<Rightarrow> string \<Rightarrow> string \<Rightarrow> uq_rule res" where
  "UniQuantRule_new parse type_str tuple_str leftSide rightSide =
     bindr (parse (''{'' @ tuple_str @ '' : '' @ leftSide @ '' }'')) (\<lambda>l.
     bindr (parse (''{'' @ tuple_str @ '' : '' @ rightSide @ '' }'')) (\<lambda>r.
     Inr \<lparr>mUniQuantRuleType =
             if type_str = ''Monotonicity'' then Monotonicity
             else if type_str = ''CoMonotonicity'' then CoMonotonicity
             else if type_str = ''Triangularity'' then Triangularity
             else if type_str = ''FuncConsistency'' then FuncConsistency
             else TheOthers,
          mLeftSide = l, mRightSide = r\<rparr>))"

definition UniQuantRule_copy :: "world \<Rightarrow> uq_rule \<Rightarrow> uq_rule res" where
  "UniQuantRule_copy w other =
     bindr (Set_copy w (mLeftSide other)) (\<lambda>l. bindr (Set_copy w (mRightSide other)) (\<lambda>r.
     Inr (other\<lparr>mLeftSide := l, mRightSide := r\<rparr>)))"

definition UniQuantRule_toString :: "world \<Rightarrow> uq_rule \<Rightarrow> string res" where
  "UniQuantRule_toString w rule =
     bindr (bindr (sparse_prettyPrint w (mArity (mLeftSide rule)) 0 (set_conjs (mLeftSide rule))) getPartsFromStr) (\<lambda>l.
     bindr (bindr (sparse_prettyPrint w (mArity (mRightSide rule)) 0 (set_conjs (mRightSide rule))) getPartsFromStr) (\<lambda>r.
     bindr (sparse_getTupleDecl (set_conjs (mLeftSide rule))) (\<lambda>td.
     Inr (''Forall '' @ tdecl_toString td False 0 False @ ''  '' @ constraints l @ '' => '' @ constraints r))))"

text \<open>What \<open>appendCurrEnv\<close> writes for a function that is monotonic: pairs of a left and a right
  side, over the tuple \<open>[e1,e2]\<close>.\<close>

definition monotonicity_rules :: "string \<Rightarrow> MonotonicType \<Rightarrow> (string \<times> string) list" where
  "monotonicity_rules funcName monoType =
     (let f1 = funcName @ ''(e1)''; f2 = funcName @ ''(e2)'' in
      case monoType of
        Monotonic_Increasing \<Rightarrow>
          [(''e1 < e2'', f1 @ '' < '' @ f2), (f1 @ '' < '' @ f2, ''e1 < e2'')]
      | Monotonic_Nondecreasing \<Rightarrow> [(''e1 < e2'', f1 @ '' <= '' @ f2)]
      | Monotonic_Decreasing \<Rightarrow>
          [(''e1 < e2'', f1 @ '' > '' @ f2), (f1 @ '' < '' @ f2, ''e1 > e2'')]
      | Monotonic_Nonincreasing \<Rightarrow> [(''e1 < e2'', f1 @ '' >= '' @ f2)]
      | Monotonic_NONE \<Rightarrow> [])"

section \<open>The environment\<close>

record environment =
  mUninterpFuncMap :: "(string \<times> uninterp_func) list"
  mInverseMap :: "(string \<times> string) list"
  uniQuantRules :: "uq_rule list"

definition Environment_new :: environment where
  "Environment_new = \<lparr>mUninterpFuncMap = [], mInverseMap = [], uniQuantRules = []\<rparr>"

definition assign_key :: "string \<Rightarrow> 'v \<Rightarrow> (string \<times> 'v) list \<Rightarrow> (string \<times> 'v) list" where
  "assign_key k v = map_update (<) k (\<lambda>_. v)"

definition insert_key :: "string \<Rightarrow> 'v \<Rightarrow> (string \<times> 'v) list \<Rightarrow> (string \<times> 'v) list" where
  "insert_key k v = map_update (<) k (\<lambda>old. case old of None \<Rightarrow> v | Some v' \<Rightarrow> v')"

definition setInverse :: "string \<Rightarrow> string \<Rightarrow> environment \<Rightarrow> environment" where
  "setInverse funcName inverseName env =
     env\<lparr>mInverseMap := assign_key inverseName funcName (assign_key funcName inverseName (mInverseMap env))\<rparr>"

definition funcInverse :: "environment \<Rightarrow> string \<Rightarrow> string" where
  "funcInverse env funcName = (case map_of (mInverseMap env) funcName of None \<Rightarrow> [] | Some g \<Rightarrow> g)"

definition hasInverse :: "environment \<Rightarrow> string \<Rightarrow> bool" where
  "hasInverse env funcName \<longleftrightarrow> funcInverse env funcName \<noteq> []"

definition copy_world :: "world \<Rightarrow> environment \<Rightarrow> world" where
  "copy_world w env = w\<lparr>inverse_of := funcInverse env\<rparr>"

text \<open>\<open>None\<close> is the null pointer.\<close>

definition funcDomain :: "world \<Rightarrow> environment \<Rightarrow> string \<Rightarrow> iset option res" where
  "funcDomain w env funcName =
     (case map_of (mUninterpFuncMap env) funcName of
        None \<Rightarrow> Inr None | Some f \<Rightarrow> bindr (Set_copy (copy_world w env) (mDomain f)) (\<lambda>s. Inr (Some s)))"

definition funcRange :: "world \<Rightarrow> environment \<Rightarrow> string \<Rightarrow> iset option res" where
  "funcRange w env funcName =
     (case map_of (mUninterpFuncMap env) funcName of
        None \<Rightarrow> Inr None | Some f \<Rightarrow> bindr (Set_copy (copy_world w env) (mRange f)) (\<lambda>s. Inr (Some s)))"

definition funcMonoType :: "environment \<Rightarrow> string \<Rightarrow> MonotonicType" where
  "funcMonoType env funcName =
     (case map_of (mUninterpFuncMap env) funcName of None \<Rightarrow> Monotonic_NONE | Some f \<Rightarrow> mMonoType f)"

definition Environment_of :: "world \<Rightarrow> uninterp_func \<Rightarrow> environment res" where
  "Environment_of w symfunc =
     (let name = mFuncName symfunc; env = Environment_new\<lparr>mUninterpFuncMap := [(name, symfunc)]\<rparr> in
      if mIsBijective symfunc then
        let inv_name = name @ ''_inv'' in
        if map_of (mUninterpFuncMap env) inv_name = None then
          bindr (Set_copy w (mRange symfunc)) (\<lambda>d. bindr (Set_copy w (mDomain symfunc)) (\<lambda>r.
          Inr (env\<lparr>mUninterpFuncMap := assign_key inv_name
                     \<lparr>mFuncName = inv_name, mDomain = d, mRange = r, mIsBijective = True, mMonoType = Monotonic_NONE\<rparr>
                     (mUninterpFuncMap env),
                   mInverseMap := assign_key inv_name name (assign_key name inv_name [])\<rparr>)))
        else Inl (Assert ''Environment::Environment: UninterpFunc of same name already exists for automatically created inverse'')
      else Inr env)"

fun append_funcs :: "world \<Rightarrow> (string \<times> uninterp_func) list \<Rightarrow> environment \<Rightarrow> unit res \<times> environment" where
  "append_funcs w [] env = (Inr (), env)"
| "append_funcs w ((name, f) # fs) env =
     (if map_of (mUninterpFuncMap env) name \<noteq> None
      then (Inl (Assert ''Environment::append: attempting to append duplicate UFs.''), env)
      else case UninterpFunc_copy (copy_world w env) f of
             Inl e \<Rightarrow> (Inl e, env)
           | Inr f' \<Rightarrow> append_funcs w fs (env\<lparr>mUninterpFuncMap := assign_key name f' (mUninterpFuncMap env)\<rparr>))"

definition Environment_append :: "world \<Rightarrow> environment \<Rightarrow> environment \<Rightarrow> unit res \<times> environment" where
  "Environment_append w other env =
     append_funcs w (mUninterpFuncMap other)
       (env\<lparr>mInverseMap := fold (\<lambda>(k, v). insert_key k v) (mInverseMap other) (mInverseMap env)\<rparr>)"

text \<open>The assignment copies nothing but the inverses.\<close>

definition Environment_assign :: "environment \<Rightarrow> environment \<Rightarrow> environment" where
  "Environment_assign other env =
     env\<lparr>mInverseMap := fold (\<lambda>(k, v). assign_key k v) (mInverseMap other) (mInverseMap env)\<rparr>"

definition Environment_reset :: "environment \<Rightarrow> environment" where
  "Environment_reset env = env\<lparr>mUninterpFuncMap := [], mInverseMap := []\<rparr>"

definition Environment_toString :: "environment \<Rightarrow> string" where
  "Environment_toString env =
     ''Environment:'' @ endl @ concat (map (\<lambda>(f, g). ''    '' @ f @ '' ==> '' @ g @ endl) (mInverseMap env))"

definition addUniQuantRule :: "uq_rule \<Rightarrow> environment \<Rightarrow> environment" where
  "addUniQuantRule uqRule env = env\<lparr>uniQuantRules := uniQuantRules env @ [uqRule]\<rparr>"

definition getNoUniQuantRules :: "environment \<Rightarrow> nat" where
  "getNoUniQuantRules env = length (uniQuantRules env)"

definition getUniQuantRule :: "environment \<Rightarrow> int \<Rightarrow> uq_rule res" where
  "getUniQuantRule env idx =
     (if 0 \<le> idx \<and> idx < int (length (uniQuantRules env)) then Inr (uniQuantRules env ! nat idx) else Inl OutOfBounds)"

section \<open>The current environment\<close>

fun add_rules :: "(string \<Rightarrow> iset res) \<Rightarrow> (string \<times> string) list \<Rightarrow> environment \<Rightarrow> unit res \<times> environment" where
  "add_rules parse [] env = (Inr (), env)"
| "add_rules parse ((leftSide, rightSide) # rules) env =
     (case UniQuantRule_new parse ''Monotonicity'' ''[e1,e2]'' leftSide rightSide of
        Inl e \<Rightarrow> (Inl e, env)
      | Inr uqRule \<Rightarrow> add_rules parse rules (addUniQuantRule uqRule env))"

text \<open>
  \<open>append\<close> deletes the environment it is given, and with it the two sets of the declaration.
  \<open>appendCurrEnv\<close> then asks these deleted sets for their arity; what it reads is \<open>freed\<close>.
\<close>

definition appendCurrEnv ::
  "world \<Rightarrow> (string \<Rightarrow> iset res) \<Rightarrow> (iset \<Rightarrow> nat) \<Rightarrow> string \<Rightarrow> iset \<Rightarrow> iset \<Rightarrow> bool \<Rightarrow> MonotonicType
   \<Rightarrow> environment \<Rightarrow> unit res \<times> environment" where
  "appendCurrEnv w parse freed funcName dom_set ran_set bijective monoType env =
     (case Environment_of (copy_world w env)
             \<lparr>mFuncName = funcName, mDomain = dom_set, mRange = ran_set, mIsBijective = bijective, mMonoType = monoType\<rparr> of
        Inl e \<Rightarrow> (Inl e, env)
      | Inr other \<Rightarrow>
          (case Environment_append w other env of
             (Inl e, env') \<Rightarrow> (Inl e, env')
           | (Inr _, env') \<Rightarrow>
               if freed dom_set = 1 \<and> freed ran_set = 1
               then add_rules parse (monotonicity_rules funcName monoType) env' else (Inr (), env')))"

definition setCurrEnv_empty :: "environment \<Rightarrow> environment" where
  "setCurrEnv_empty env = Environment_reset env"

definition setCurrEnv ::
  "world \<Rightarrow> (string \<Rightarrow> iset res) \<Rightarrow> (iset \<Rightarrow> nat) \<Rightarrow> string \<Rightarrow> iset \<Rightarrow> iset \<Rightarrow> bool \<Rightarrow> MonotonicType
   \<Rightarrow> environment \<Rightarrow> unit res \<times> environment" where
  "setCurrEnv w parse freed funcName dom_set ran_set bijective monoType env =
     appendCurrEnv w parse freed funcName dom_set ran_set bijective monoType (Environment_reset env)"

definition not_declared :: "string \<Rightarrow> string \<Rightarrow> err" where
  "not_declared caller funcName =
     Assert (caller @ '': the function '' @ funcName @ '' has not been declared in the current environment.'')"

definition queryDomainCurrEnv :: "world \<Rightarrow> environment \<Rightarrow> string \<Rightarrow> iset res" where
  "queryDomainCurrEnv w env funcName =
     bindr (funcDomain w env funcName) (\<lambda>r.
     case r of None \<Rightarrow> Inl (not_declared ''queryDomainCurrEnv'' funcName) | Some s \<Rightarrow> Inr s)"

definition queryRangeCurrEnv :: "world \<Rightarrow> environment \<Rightarrow> string \<Rightarrow> iset res" where
  "queryRangeCurrEnv w env funcName =
     bindr (funcRange w env funcName) (\<lambda>r.
     case r of None \<Rightarrow> Inl (not_declared ''queryRangeCurrEnv'' funcName) | Some s \<Rightarrow> Inr s)"

definition queryRangeArityCurrEnv :: "world \<Rightarrow> environment \<Rightarrow> string \<Rightarrow> nat res" where
  "queryRangeArityCurrEnv w env funcName = bindr (queryRangeCurrEnv w env funcName) (\<lambda>s. Inr (mArity s))"

definition queryDomainArityCurrEnv :: "world \<Rightarrow> environment \<Rightarrow> string \<Rightarrow> nat res" where
  "queryDomainArityCurrEnv w env funcName = bindr (queryDomainCurrEnv w env funcName) (\<lambda>s. Inr (mArity s))"

text \<open>The world of the operations on conjunctions, sets and relations. Copying a set does not
  ask for arities, so it does not matter what \<open>range_arity\<close> of \<open>copy_world\<close> is.\<close>

definition env_world :: "world \<Rightarrow> environment \<Rightarrow> world" where
  "env_world w env =
     (copy_world w env)\<lparr>range_arity := queryRangeArityCurrEnv w env\<rparr>"

section \<open>Facts\<close>

lemma Set_copy_range_arity: "Set_copy (w\<lparr>range_arity := x\<rparr>) s = Set_copy w s"
proof -
  have "cleanUp (w\<lparr>range_arity := x\<rparr>) = cleanUp w" by (simp add: fun_eq_iff cleanUp_def)
  then show ?thesis by (simp add: Set_copy_def sparse_copy_def sparse_cleanUp_def)
qed

lemma Set_copy_arity: "Set_copy w s = Inr s' \<Longrightarrow> mArity s' = mArity s"
  by (auto simp: Set_copy_def bindr_eq_Inr)

lemma map_update_keys: "fst ` set (map_update (<) k g m) = insert (k :: 'a :: linorder) (fst ` set m)"
proof (induction m)
  case (Cons p m)
  then show ?case by (cases p) (simp add: insert_commute)
qed simp

lemma sorted_map_update:
  "sorted_wrt (<) (map fst m) \<Longrightarrow> sorted_wrt (<) (map fst (map_update (<) (k :: 'a :: linorder) g m))"
proof (induction m)
  case (Cons p m)
  have "\<forall>y \<in> fst ` set (map_update (<) k g m). fst p < y" if "fst p < k"
    using Cons(2) that unfolding map_update_keys by auto
  then show ?case using Cons by (cases p) auto
qed simp

lemma map_of_update:
  "sorted_wrt (<) (map fst m) \<Longrightarrow>
   map_of (map_update (<) (k :: 'a :: linorder) g m) = (map_of m)(k \<mapsto> g (map_of m k))"
proof (induction m)
  case (Cons p m)
  have "map_of m k = None" if "k < fst p" using Cons(2) that by (fastforce simp: map_of_eq_None_iff)
  then show ?case using Cons by (cases p) (auto simp: fun_eq_iff)
qed simp

lemma assign_key_facts:
  assumes "sorted_wrt (<) (map fst m)"
  shows "sorted_wrt (<) (map fst (assign_key k v m))" and "map_of (assign_key k v m) = (map_of m)(k \<mapsto> v)"
  using assms by (simp_all add: assign_key_def sorted_map_update map_of_update)

lemma insert_keys_facts:
  "sorted_wrt (<) (map fst m) \<Longrightarrow> sorted_wrt (<) (map fst (fold (\<lambda>(k, v). insert_key k v) xs m))
   \<and> map_of (fold (\<lambda>(k, v). insert_key k v) xs m) = map_of xs ++ map_of m"
proof (induction xs arbitrary: m)
  case (Cons x xs)
  obtain k v where x: "x = (k, v)" by force
  have "sorted_wrt (<) (map fst (insert_key k v m))"
    using Cons(2) by (simp add: insert_key_def sorted_map_update)
  moreover have "map_of (insert_key k v m) = (map_of m)(k \<mapsto> (case map_of m k of None \<Rightarrow> v | Some v' \<Rightarrow> v'))"
    using Cons(2) by (simp add: insert_key_def map_of_update)
  ultimately show ?case using Cons(1) x
    by (auto simp: fun_eq_iff map_add_def split: option.splits)
qed simp

text \<open>
  The invariant: both maps are sorted, a function is filed under its name, exactly the bijective
  functions have an inverse, the inverse of the inverse is the function, both are declared and
  domain and range are swapped.
\<close>

definition inverse_pair :: "environment \<Rightarrow> string \<Rightarrow> string \<Rightarrow> bool" where
  "inverse_pair env f g \<longleftrightarrow> f \<noteq> g \<and> map_of (mInverseMap env) g = Some f
     \<and> (\<exists>F G. map_of (mUninterpFuncMap env) f = Some F \<and> map_of (mUninterpFuncMap env) g = Some G
          \<and> mArity (mDomain G) = mArity (mRange F) \<and> mArity (mRange G) = mArity (mDomain F))"

definition env_ok :: "environment \<Rightarrow> bool" where
  "env_ok env \<longleftrightarrow> sorted_wrt (<) (map fst (mUninterpFuncMap env)) \<and> sorted_wrt (<) (map fst (mInverseMap env))
     \<and> (\<forall>n F. map_of (mUninterpFuncMap env) n = Some F \<longrightarrow>
          mFuncName F = n \<and> (mIsBijective F \<longleftrightarrow> map_of (mInverseMap env) n \<noteq> None))
     \<and> (\<forall>f g. map_of (mInverseMap env) f = Some g \<longrightarrow> inverse_pair env f g)"

lemma env_okD:
  assumes "env_ok env"
  shows "map_of (mUninterpFuncMap env) n = Some F \<Longrightarrow>
      mFuncName F = n \<and> (mIsBijective F \<longleftrightarrow> map_of (mInverseMap env) n \<noteq> None)"
    and "map_of (mInverseMap env) f = Some g \<Longrightarrow> inverse_pair env f g"
    and "map_of (mUninterpFuncMap env) f = None \<Longrightarrow> map_of (mInverseMap env) f = None"
proof -
  show pair: "inverse_pair env f g" if "map_of (mInverseMap env) f = Some g" for f g
    using assms that unfolding env_ok_def by blast
  show "mFuncName F = n \<and> (mIsBijective F \<longleftrightarrow> map_of (mInverseMap env) n \<noteq> None)"
    if "map_of (mUninterpFuncMap env) n = Some F"
    using assms that unfolding env_ok_def by blast
  show "map_of (mInverseMap env) f = None" if "map_of (mUninterpFuncMap env) f = None"
    using pair [of f] that by (cases "map_of (mInverseMap env) f") (auto simp: inverse_pair_def)
qed

lemma UninterpFunc_copy_facts:
  assumes "UninterpFunc_copy w F = Inr F'"
  shows "mFuncName F' = mFuncName F \<and> mIsBijective F' = mIsBijective F \<and> mArity (mDomain F') = mArity (mDomain F)
    \<and> mArity (mRange F') = mArity (mRange F)"
  using assms Set_copy_arity by (auto simp: UninterpFunc_copy_def bindr_eq_Inr)

lemma append_funcs_facts:
  assumes "append_funcs w fs env = (Inr (), env')" and "sorted_wrt (<) (map fst (mUninterpFuncMap env))"
    and "distinct (map fst fs)"
  shows "mInverseMap env' = mInverseMap env \<and> sorted_wrt (<) (map fst (mUninterpFuncMap env'))
    \<and> (\<forall>n. map_of fs n = None \<longrightarrow> map_of (mUninterpFuncMap env') n = map_of (mUninterpFuncMap env) n)
    \<and> (\<forall>n F. map_of fs n = Some F \<longrightarrow> map_of (mUninterpFuncMap env) n = None
          \<and> (\<exists>F'. map_of (mUninterpFuncMap env') n = Some F' \<and> UninterpFunc_copy (copy_world w env) F = Inr F'))"
  using assms
proof (induction w fs env rule: append_funcs.induct)
  case (2 w name F fs env)
  then have new: "map_of (mUninterpFuncMap env) name = None" by (auto split: if_splits)
  then obtain F' where F': "UninterpFunc_copy (copy_world w env) F = Inr F'"
    "append_funcs w fs (env\<lparr>mUninterpFuncMap := assign_key name F' (mUninterpFuncMap env)\<rparr>) = (Inr (), env')"
    using 2(2) by (auto split: sum.splits)
  let ?env = "env\<lparr>mUninterpFuncMap := assign_key name F' (mUninterpFuncMap env)\<rparr>"
  have w: "copy_world w ?env = copy_world w env" by (simp add: copy_world_def funcInverse_def fun_eq_iff)
  have "map_of fs name = None" using 2(4) by (auto simp: map_of_eq_None_iff)
  have "sorted_wrt (<) (map fst (mUninterpFuncMap ?env))"
    and env: "map_of (mUninterpFuncMap ?env) = (map_of (mUninterpFuncMap env))(name \<mapsto> F')"
    using 2(3) by (simp_all add: assign_key_facts)
  then have IH: "mInverseMap env' = mInverseMap env" "sorted_wrt (<) (map fst (mUninterpFuncMap env'))"
    "\<And>n. map_of fs n = None \<Longrightarrow> map_of (mUninterpFuncMap env') n = map_of (mUninterpFuncMap ?env) n"
    "\<And>n G. map_of fs n = Some G \<Longrightarrow> map_of (mUninterpFuncMap ?env) n = None
       \<and> (\<exists>F'. map_of (mUninterpFuncMap env') n = Some F' \<and> UninterpFunc_copy (copy_world w env) G = Inr F')"
    using 2(1) [OF _ F'(1,2)] new 2(4) unfolding w by auto
  have "map_of (mUninterpFuncMap env) n = None \<and> (\<exists>F'. map_of (mUninterpFuncMap env') n = Some F'
      \<and> UninterpFunc_copy (copy_world w env) G = Inr F')" if "map_of ((name, F) # fs) n = Some G" for n G
  proof (cases "n = name")
    case True
    then show ?thesis using that new F'(1) IH(3) [OF \<open>map_of fs name = None\<close>] env by simp
  next
    case False
    then show ?thesis using that IH(4) [of n G] env by simp
  qed
  moreover have "map_of (mUninterpFuncMap env') n = map_of (mUninterpFuncMap env) n"
    if "map_of ((name, F) # fs) n = None" for n
    using that IH(3) [of n] env by (auto split: if_splits)
  ultimately show ?case using IH(1,2) by blast
qed auto

lemma Environment_append_ok:
  assumes "Environment_append w other env = (Inr (), env')" and ok: "env_ok env" and ok': "env_ok other"
  shows "env_ok env'"
proof -
  let ?I = "mInverseMap env" and ?I' = "mInverseMap other" and ?M = "mUninterpFuncMap env"
    and ?M' = "mUninterpFuncMap other"
  let ?e = "env\<lparr>mInverseMap := fold (\<lambda>(k, v). insert_key k v) ?I' ?I\<rparr>"
  have app: "append_funcs w ?M' ?e = (Inr (), env')" using assms(1) by (simp add: Environment_append_def)
  have "distinct (map fst ?M')" using ok' by (simp add: env_ok_def strict_sorted_iff)
  note F = append_funcs_facts [OF app _ this]
  have inv: "mInverseMap env' = fold (\<lambda>(k, v). insert_key k v) ?I' ?I"
    and sorted: "sorted_wrt (<) (map fst (mUninterpFuncMap env'))"
    and old: "\<And>n. map_of ?M' n = None \<Longrightarrow> map_of (mUninterpFuncMap env') n = map_of ?M n"
    and new: "\<And>n F. map_of ?M' n = Some F \<Longrightarrow> map_of ?M n = None \<and>
      (\<exists>F'. map_of (mUninterpFuncMap env') n = Some F' \<and> UninterpFunc_copy (copy_world w ?e) F = Inr F')"
    using F ok by (simp_all add: env_ok_def)
  have map: "map_of (mInverseMap env') = map_of ?I' ++ map_of ?I" "sorted_wrt (<) (map fst (mInverseMap env'))"
    using insert_keys_facts [of ?I ?I'] ok unfolding inv by (simp_all add: env_ok_def)
  note dom = env_okD(3) [OF ok] and dom' = env_okD(3) [OF ok']
  have either: "map_of ?M' n = None \<or> map_of ?M n = None" for n
    using new by (cases "map_of ?M' n") auto
  have func: "mFuncName F = n \<and> (mIsBijective F \<longleftrightarrow> map_of (mInverseMap env') n \<noteq> None)"
    if "map_of (mUninterpFuncMap env') n = Some F" for n F
  proof (cases "map_of ?M' n")
    case None
    then have "map_of (mInverseMap env') n = map_of ?I n" using dom' map by (simp add: map_add_def split: option.splits)
    then show ?thesis using that None old env_okD(1) [OF ok] by simp
  next
    case (Some G)
    then have "map_of (mInverseMap env') n = map_of ?I' n" using dom new map by (simp add: map_add_def)
    moreover have "UninterpFunc_copy (copy_world w ?e) G = Inr F" using new [OF Some] that by auto
    ultimately show ?thesis using UninterpFunc_copy_facts [of _ G F] env_okD(1) [OF ok' Some] by simp
  qed
  have "inverse_pair env' f g" if "map_of (mInverseMap env') f = Some g" for f g
  proof (cases "map_of ?I f")
    case (Some h)
    then have h: "h = g" "inverse_pair env f g" using that map env_okD(2) [OF ok Some] by (simp_all add: map_add_def)
    then have "map_of ?M' f = None" "map_of ?M' g = None" "map_of ?I g = Some f"
      using either [of f] either [of g] by (auto simp: inverse_pair_def)
    then show ?thesis using h(2) old map by (auto simp: inverse_pair_def map_add_def)
  next
    case None
    then have "map_of ?I' f = Some g" using that map by (simp add: map_add_def)
    then have p: "inverse_pair other f g" by (rule env_okD(2) [OF ok'])
    then obtain F G where FG: "map_of ?M' f = Some F" "map_of ?M' g = Some G"
      "mArity (mDomain G) = mArity (mRange F)" "mArity (mRange G) = mArity (mDomain F)"
      by (auto simp: inverse_pair_def)
    obtain F' where F': "map_of (mUninterpFuncMap env') f = Some F'" "UninterpFunc_copy (copy_world w ?e) F = Inr F'"
      using new [OF FG(1)] by blast
    obtain G' where G': "map_of (mUninterpFuncMap env') g = Some G'" "UninterpFunc_copy (copy_world w ?e) G = Inr G'"
      using new [OF FG(2)] by blast
    have "map_of ?I g = None" using dom new [OF FG(2)] by blast
    then have "map_of (mInverseMap env') g = Some f" using map p by (simp add: inverse_pair_def map_add_def)
    then show ?thesis
      using p F' G' FG UninterpFunc_copy_facts [OF F'(2)] UninterpFunc_copy_facts [OF G'(2)]
      by (simp add: inverse_pair_def)
  qed
  then show ?thesis using map(2) sorted func by (simp add: env_ok_def)
qed

lemma Environment_of_ok:
  assumes "Environment_of w F = Inr env"
  shows "env_ok env"
proof (cases "mIsBijective F")
  case False
  with assms show ?thesis by (auto simp: Environment_of_def Environment_new_def env_ok_def Let_def split: if_splits)
next
  case True
  let ?n = "mFuncName F" and ?i = "mFuncName F @ ''_inv''"
  have ne: "?n \<noteq> ?i" by simp
  obtain d r where dr: "Set_copy w (mRange F) = Inr d" "Set_copy w (mDomain F) = Inr r" and
    env: "env = Environment_new\<lparr>mUninterpFuncMap := assign_key ?i \<lparr>mFuncName = ?i, mDomain = d,
        mRange = r, mIsBijective = True, mMonoType = Monotonic_NONE\<rparr> [(?n, F)],
      mInverseMap := assign_key ?i ?n (assign_key ?n ?i [])\<rparr>"
    using assms True by (auto simp: Environment_of_def Let_def bindr_eq_Inr Environment_new_def split: if_splits)
  have funcs: "map_of (mUninterpFuncMap env) = [?n \<mapsto> F, ?i \<mapsto> \<lparr>mFuncName = ?i, mDomain = d,
        mRange = r, mIsBijective = True, mMonoType = Monotonic_NONE\<rparr>]"
      "sorted_wrt (<) (map fst (mUninterpFuncMap env))"
    unfolding env by (simp_all add: assign_key_facts)
  have invs: "map_of (mInverseMap env) = [?n \<mapsto> ?i, ?i \<mapsto> ?n]" "sorted_wrt (<) (map fst (mInverseMap env))"
    unfolding env by (simp_all add: assign_key_facts)
  show ?thesis
    unfolding env_ok_def funcs(1) invs(1) inverse_pair_def
    using funcs(2) invs(2) True ne Set_copy_arity [OF dr(1)] Set_copy_arity [OF dr(2)]
    by (auto split: if_splits)
qed

lemma add_rules_facts:
  "mUninterpFuncMap (snd (add_rules parse rules env)) = mUninterpFuncMap env
   \<and> mInverseMap (snd (add_rules parse rules env)) = mInverseMap env"
  by (induction parse rules env rule: add_rules.induct) (auto split: sum.splits simp: addUniQuantRule_def)

lemma env_ok_cong:
  "mUninterpFuncMap env' = mUninterpFuncMap env \<Longrightarrow> mInverseMap env' = mInverseMap env \<Longrightarrow> env_ok env' \<longleftrightarrow> env_ok env"
  by (simp add: env_ok_def inverse_pair_def)

lemma env_ok_new: "env_ok Environment_new" "env_ok (Environment_reset env)"
  by (simp_all add: env_ok_def Environment_new_def Environment_reset_def)

lemma appendCurrEnv_ok:
  assumes "appendCurrEnv w parse freed name d r bi mt env = (Inr (), env')" and "env_ok env"
  shows "env_ok env'"
proof -
  let ?F = "\<lparr>mFuncName = name, mDomain = d, mRange = r, mIsBijective = bi, mMonoType = mt\<rparr>"
  obtain other env1 where o: "Environment_of (copy_world w env) ?F = Inr other"
    "Environment_append w other env = (Inr (), env1)"
    and e: "env' = env1 \<or> env' = snd (add_rules parse (monotonicity_rules name mt) env1)"
    using assms(1)
    by (fastforce simp: appendCurrEnv_def split: sum.splits prod.splits if_splits)
  have "env_ok env1" by (rule Environment_append_ok [OF o(2) assms(2) Environment_of_ok [OF o(1)]])
  then show ?thesis using e add_rules_facts env_ok_cong by metis
qed

section \<open>Reachable environments\<close>

text \<open>What a program that does not go on after a failed declaration can make of \<open>currentEnv\<close>.\<close>

inductive env_reachable :: "world \<Rightarrow> (string \<Rightarrow> iset res) \<Rightarrow> (iset \<Rightarrow> nat) \<Rightarrow> environment \<Rightarrow> bool"
  for w parse freed where
  start: "env_reachable w parse freed Environment_new"
| clear: "env_reachable w parse freed env \<Longrightarrow> env_reachable w parse freed (setCurrEnv_empty env)"
| set_env: "env_reachable w parse freed env \<Longrightarrow>
    setCurrEnv w parse freed name d r bi mt env = (Inr (), env') \<Longrightarrow> env_reachable w parse freed env'"
| append_env: "env_reachable w parse freed env \<Longrightarrow>
    appendCurrEnv w parse freed name d r bi mt env = (Inr (), env') \<Longrightarrow> env_reachable w parse freed env'"
| rule_env: "env_reachable w parse freed env \<Longrightarrow> env_reachable w parse freed (addUniQuantRule rule env)"

lemma reachable_ok: "env_reachable w parse freed env \<Longrightarrow> env_ok env"
proof (induction rule: env_reachable.induct)
  case (set_env env name d r bi mt env')
  show ?case by (rule appendCurrEnv_ok [OF set_env(2) [unfolded setCurrEnv_def] env_ok_new(2)])
next
  case (append_env env name d r bi mt env')
  then show ?case using appendCurrEnv_ok by blast
next
  case (rule_env env rule)
  then show ?case using env_ok_cong [of "addUniQuantRule rule env" env] by (simp add: addUniQuantRule_def)
qed (simp_all add: env_ok_new setCurrEnv_empty_def)

section \<open>What the monotonicity rules say\<close>

definition cmp_text :: "string \<Rightarrow> bool \<Rightarrow> string \<Rightarrow> string" where
  "cmp_text name applied oper =
     (let at = (\<lambda>i. if applied then name @ ''(e'' @ i @ '')'' else ''e'' @ i) in
      at ''1'' @ '' '' @ oper @ '' '' @ at ''2'')"

definition cmp_rel :: "string \<Rightarrow> int \<Rightarrow> int \<Rightarrow> bool" where
  "cmp_rel oper x y =
     (if oper = ''<'' then x < y else if oper = ''<='' then x \<le> y
      else if oper = ''>'' then x > y else x \<ge> y)"

definition cmp_val :: "valuation \<Rightarrow> string \<Rightarrow> bool \<Rightarrow> int \<Rightarrow> int" where
  "cmp_val v name applied x = (if applied then ufv v name 0 [x] else x)"

text \<open>The parser gives a comparison of \<open>e1\<close> with \<open>e2\<close>, or of \<open>f(e1)\<close> with \<open>f(e2)\<close>, its meaning.\<close>

definition reads_comparisons :: "(string \<Rightarrow> iset res) \<Rightarrow> valuation \<Rightarrow> string \<Rightarrow> bool" where
  "reads_comparisons parse v name \<longleftrightarrow>
     (\<forall>applied. \<forall>oper \<in> {''<'', ''<='', ''>'', ''>=''}. \<exists>s.
        parse (''{[e1,e2] : '' @ cmp_text name applied oper @ '' }'') = Inr s
        \<and> (\<forall>x y. sparse_holds v (set_conjs s) [x, y] \<longleftrightarrow>
              cmp_rel oper (cmp_val v name applied x) (cmp_val v name applied y)))"

definition monotonic :: "(int \<Rightarrow> int) \<Rightarrow> MonotonicType \<Rightarrow> bool" where
  "monotonic f monoType \<longleftrightarrow>
     (\<forall>x y. x < y \<longrightarrow> (case monoType of
        Monotonic_NONE \<Rightarrow> True
      | Monotonic_Nondecreasing \<Rightarrow> f x \<le> f y
      | Monotonic_Increasing \<Rightarrow> f x < f y
      | Monotonic_Nonincreasing \<Rightarrow> f x \<ge> f y
      | Monotonic_Decreasing \<Rightarrow> f x > f y))"

definition rule_valid :: "valuation \<Rightarrow> uq_rule \<Rightarrow> bool" where
  "rule_valid v rule \<longleftrightarrow> (\<forall>x y. sparse_holds v (set_conjs (mLeftSide rule)) [x, y] \<longrightarrow>
     sparse_holds v (set_conjs (mRightSide rule)) [x, y])"

text \<open>Each rule as two comparisons of which the first implies the second.\<close>

definition implies_cmp :: "(int \<Rightarrow> int) \<Rightarrow> bool \<times> string \<Rightarrow> bool \<times> string \<Rightarrow> bool" where
  "implies_cmp f = (\<lambda>(a, p) (b, q). \<forall>x y.
     cmp_rel p (if a then f x else x) (if a then f y else y) \<longrightarrow>
     cmp_rel q (if b then f x else x) (if b then f y else y))"

lemma monotonicity_rules_cmp:
  assumes "(l, r) \<in> set (monotonicity_rules name mt)" and "monotonic f mt"
  shows "\<exists>a p b q. l = cmp_text name a p \<and> r = cmp_text name b q \<and> implies_cmp f (a, p) (b, q)
    \<and> p \<in> {''<'', ''<='', ''>'', ''>=''} \<and> q \<in> {''<'', ''<='', ''>'', ''>=''}"
proof -
  have txt_eq: "cmp_text name False p = ''e1 '' @ p @ '' e2''"
    "cmp_text name True p = name @ ''(e1) '' @ p @ '' '' @ name @ ''(e2)''" for p
    by (simp_all add: cmp_text_def Let_def)
  have strict: "f x < f y \<Longrightarrow> x < y" if "mt = Monotonic_Increasing" for x y
    using assms(2) that by (simp add: monotonic_def) (metis less_asym linorder_neqE)
  have strict': "f x < f y \<Longrightarrow> y < x" if "mt = Monotonic_Decreasing" for x y
    using assms(2) that by (simp add: monotonic_def) (metis less_asym linorder_neqE)
  consider "mt = Monotonic_Increasing" "l = cmp_text name False ''<''" "r = cmp_text name True ''<''"
    | "mt = Monotonic_Increasing" "l = cmp_text name True ''<''" "r = cmp_text name False ''<''"
    | "mt = Monotonic_Nondecreasing" "l = cmp_text name False ''<''" "r = cmp_text name True ''<=''"
    | "mt = Monotonic_Decreasing" "l = cmp_text name False ''<''" "r = cmp_text name True ''>''"
    | "mt = Monotonic_Decreasing" "l = cmp_text name True ''<''" "r = cmp_text name False ''>''"
    | "mt = Monotonic_Nonincreasing" "l = cmp_text name False ''<''" "r = cmp_text name True ''>=''"
    using assms(1) by (cases mt) (auto simp: monotonicity_rules_def txt_eq Let_def)
  then show ?thesis
  proof cases
    case 1
    with assms(2) show ?thesis
      by (intro exI [of _ False] exI [of _ "''<''"] exI [of _ True]) (auto simp: implies_cmp_def cmp_rel_def monotonic_def)
  next
    case 2
    with strict show ?thesis
      by (intro exI [of _ True] exI [of _ "''<''"] exI [of _ False]) (auto simp: implies_cmp_def cmp_rel_def)
  next
    case 3
    with assms(2) show ?thesis
      by (intro exI [of _ False] exI [of _ "''<''"] exI [of _ True] exI [of _ "''<=''"])
        (auto simp: implies_cmp_def cmp_rel_def monotonic_def)
  next
    case 4
    with assms(2) show ?thesis
      by (intro exI [of _ False] exI [of _ "''<''"] exI [of _ True] exI [of _ "''>''"])
        (auto simp: implies_cmp_def cmp_rel_def monotonic_def)
  next
    case 5
    with strict' show ?thesis
      by (intro exI [of _ True] exI [of _ "''<''"] exI [of _ False] exI [of _ "''>''"])
        (auto simp: implies_cmp_def cmp_rel_def)
  next
    case 6
    with assms(2) show ?thesis
      by (intro exI [of _ False] exI [of _ "''<''"] exI [of _ True] exI [of _ "''>=''"])
        (auto simp: implies_cmp_def cmp_rel_def monotonic_def)
  qed
qed

lemma new_rule_valid:
  assumes "(l, r) \<in> set (monotonicity_rules name mt)" and "monotonic (\<lambda>x. ufv v name 0 [x]) mt"
    and reads: "reads_comparisons parse v name" and "UniQuantRule_new parse t ''[e1,e2]'' l r = Inr rule"
  shows "rule_valid v rule"
proof -
  obtain a p b q where cmp: "l = cmp_text name a p" "r = cmp_text name b q"
    "implies_cmp (\<lambda>x. ufv v name 0 [x]) (a, p) (b, q)"
    and pq: "p \<in> {''<'', ''<='', ''>'', ''>=''}" "q \<in> {''<'', ''<='', ''>'', ''>=''}"
    using monotonicity_rules_cmp [OF assms(1,2)] by blast
  have "sparse_holds v (set_conjs (mLeftSide rule)) [x, y] \<longleftrightarrow> cmp_rel p (cmp_val v name a x) (cmp_val v name a y)"
    and "sparse_holds v (set_conjs (mRightSide rule)) [x, y] \<longleftrightarrow> cmp_rel q (cmp_val v name b x) (cmp_val v name b y)"
    for x y
    using reads [unfolded reads_comparisons_def, rule_format, OF pq(1), of a]
      reads [unfolded reads_comparisons_def, rule_format, OF pq(2), of b] assms(4)
    unfolding cmp(1,2) by (auto simp: UniQuantRule_new_def bindr_eq_Inr)
  then show ?thesis using cmp(3) by (simp add: rule_valid_def implies_cmp_def cmp_val_def)
qed

lemma add_rules_valid:
  "add_rules parse rules env = (res, env') \<Longrightarrow>
   (\<And>l r rule. (l, r) \<in> set rules \<Longrightarrow> UniQuantRule_new parse ''Monotonicity'' ''[e1,e2]'' l r = Inr rule \<Longrightarrow> rule_valid v rule)
   \<Longrightarrow> \<exists>new. uniQuantRules env' = uniQuantRules env @ new \<and> list_all (rule_valid v) new"
proof (induction parse rules env rule: add_rules.induct)
  case (2 parse l r rules env)
  show ?case
  proof (cases "UniQuantRule_new parse ''Monotonicity'' ''[e1,e2]'' l r")
    case (Inl e)
    with 2(2) show ?thesis by (intro exI [of _ "[]"]) auto
  next
    case (Inr rule)
    then obtain new where "uniQuantRules env' = uniQuantRules (addUniQuantRule rule env) @ new" "list_all (rule_valid v) new"
      using 2(1) [OF Inr] 2(2,3) by auto
    then show ?thesis using 2(3) [of l r rule] Inr by (intro exI [of _ "rule # new"]) (simp add: addUniQuantRule_def)
  qed
qed simp

lemma append_funcs_rules: "uniQuantRules (snd (append_funcs w fs env)) = uniQuantRules env"
  by (induction w fs env rule: append_funcs.induct) (auto split: sum.splits)

section \<open>Properties\<close>

text \<open>
  C19. In every environment that successful declarations lead to, the table of inverses is an
  involution without fixed points between declared functions: a function has an inverse if and
  only if it was declared bijective, the inverse of its inverse is the function itself, and the
  domain of the one has the arity of the range of the other.
\<close>

theorem reachable_inverses:
  assumes "env_reachable w parse freed env" and "map_of (mUninterpFuncMap env) f = Some F"
  shows "(mIsBijective F \<longleftrightarrow> map_of (mInverseMap env) f \<noteq> None)
    \<and> (\<forall>g. map_of (mInverseMap env) f = Some g \<longrightarrow> g \<noteq> f \<and> funcInverse env g = f
        \<and> (\<exists>G. map_of (mUninterpFuncMap env) g = Some G
            \<and> mArity (mDomain G) = mArity (mRange F) \<and> mArity (mRange G) = mArity (mDomain F)))"
proof -
  note ok = reachable_ok [OF assms(1)]
  show ?thesis using env_okD(1) [OF ok assms(2)] env_okD(2) [OF ok, of f] assms(2)
    by (auto simp: inverse_pair_def funcInverse_def)
qed

theorem reachable_inverses_witness:
  "let s = \<lparr>mArity = 1, set_conjs = [Conjunction_new 1]\<rparr>;
       w = \<lparr>address_order = no_addr, key_address = (\<lambda>n. n), inverse_of = (\<lambda>f. []), range_arity = (\<lambda>f. Inr 1)\<rparr>;
       env = snd (appendCurrEnv w (\<lambda>t. Inl NullDeref) mArity ''f'' s s True Monotonic_NONE Environment_new)
   in map_of (mInverseMap env) ''f'' \<noteq> None"
proof -
  let ?s = "\<lparr>mArity = 1, set_conjs = [Conjunction_new 1]\<rparr>"
  let ?w = "\<lparr>address_order = no_addr, key_address = (\<lambda>n. n), inverse_of = (\<lambda>f. []), range_arity = (\<lambda>f. Inr 1)\<rparr>"
  let ?a = "appendCurrEnv ?w (\<lambda>t. Inl NullDeref) mArity ''f'' ?s ?s True Monotonic_NONE Environment_new"
  have "fst ?a = Inr ()" by code_simp
  then have r: "env_reachable ?w (\<lambda>t. Inl NullDeref) mArity (snd ?a)"
    by (intro append_env [OF start]) (simp add: prod_eq_iff)
  have "(case map_of (mUninterpFuncMap (snd ?a)) ''f'' of None \<Rightarrow> False | Some F \<Rightarrow> mIsBijective F) = True"
    by code_simp
  then obtain F where "map_of (mUninterpFuncMap (snd ?a)) ''f'' = Some F" "mIsBijective F"
    by (cases "map_of (mUninterpFuncMap (snd ?a)) ''f''") auto
  then show ?thesis using reachable_inverses [OF r, of "''f''" F] by (simp add: Let_def)
qed

text \<open>
  A valuation respects the declarations of an environment if every function that has an inverse maps the tuples of its
  domain into its range, and the inverse gives back the argument.
\<close>

definition respects_inverses :: "environment \<Rightarrow> valuation \<Rightarrow> bool" where
  "respects_inverses env v \<longleftrightarrow>
     (\<forall>f F g. map_of (mUninterpFuncMap env) f = Some F \<longrightarrow> map_of (mInverseMap env) f = Some g \<longrightarrow>
        (\<forall>xs. sparse_holds v (set_conjs (mDomain F)) xs \<longrightarrow>
           (let ys = map (\<lambda>j. ufv v f (int j) xs) [0..<mArity (mRange F)]
            in sparse_holds v (set_conjs (mRange F)) ys \<and> (\<forall>k < length xs. ufv v g (int k) ys = xs ! k))))"

definition declared_domain :: "environment \<Rightarrow> valuation \<Rightarrow> string \<Rightarrow> int list set" where
  "declared_domain env v f =
     (case map_of (mUninterpFuncMap env) f of None \<Rightarrow> {} | Some F \<Rightarrow> {xs. sparse_holds v (set_conjs (mDomain F)) xs})"

definition range_size :: "environment \<Rightarrow> string \<Rightarrow> nat" where
  "range_size env f = (case map_of (mUninterpFuncMap env) f of None \<Rightarrow> 0 | Some F \<Rightarrow> mArity (mRange F))"

lemma respects_inverses:
  "respects_inverses env v \<Longrightarrow> inverses (funcInverse env) (range_size env) (declared_domain env v) v"
  by (fastforce simp: respects_inverses_def inverses_def funcInverse_def declared_domain_def range_size_def Let_def
      split: option.splits)

text \<open>
  C33. Solving through a declared inverse: when the factor is exposed by inverting the only invertible call that depends
  on it, \<open>solveForFactor\<close> returns an expression, and it equals the factor in every solution of \<open>e = 0\<close> under a
  valuation that respects the declarations and puts the arguments of the call in the declared domain. The call is to be
  one of a function with a single result, and the divisibility is what the code should test but tests on the wrong expression.
\<close>

theorem solveForFactor_inverse:
  assumes "findMatchingFactor e factor = Inr None"
    and "invertFuncToExposeFactor (funcInverse env) e factor = Inr (Some x)"
    and "findMatchingFactor x factor = Inr (Some t)"
    and "\<forall>u \<in> set (mTerms e). coefficient t dvd coefficient u"
    and "calls_invertible (funcInverse env) (range_size env) factor e" and "plain_exp e" and "plain_term factor"
  shows "\<exists>r. solveForFactor (funcInverse env) e factor = Inr (Some r)
    \<and> (\<forall>v. respects_inverses env v \<longrightarrow> calls_inside (declared_domain env v) factor e v \<longrightarrow>
         eval_exp v e = 0 \<longrightarrow> factor_val v factor = eval_exp v r)"
proof -
  note solve = solve_by_inverse [OF assms]
  obtain r where r: "solveForFactor (funcInverse env) e factor = Inr (Some r)" using solve by blast
  have "factor_val v factor = eval_exp v r"
    if "respects_inverses env v" "calls_inside (declared_domain env v) factor e v" "eval_exp v e = 0" for v
    using solve [where D = "declared_domain env v"] r respects_inverses [OF that(1)] that(2,3) by auto
  with r show ?thesis by blast
qed

text \<open>Declaring \<open>f\<close> bijective and solving \<open>x = f(y)\<close> for \<open>y\<close>: with \<open>f(i) = i + 1\<close>, which respects the
  declaration, \<open>y\<close> is \<open>f_inv(x)\<close>.\<close>

definition inv_env :: environment where
  "inv_env = (let s = \<lparr>mArity = 1, set_conjs = [Conjunction_new 1]\<rparr>;
       w = \<lparr>address_order = no_addr, key_address = (\<lambda>n. n), inverse_of = (\<lambda>f. []), range_arity = (\<lambda>f. Inr 1)\<rparr>
     in snd (appendCurrEnv w (\<lambda>t. Inl NullDeref) mArity ''f'' s s True Monotonic_NONE Environment_new))"

definition inv_valuation :: "int \<Rightarrow> valuation" where
  "inv_valuation y = \<lparr>tvv = (\<lambda>l. if l = 0 then y + 1 else y), symv = (\<lambda>s. 0),
     ufv = (\<lambda>f k xs. if f = ''f'' then hd xs + 1 else hd xs - 1)\<rparr>"

lemma inv_env_funcs:
  "mUninterpFuncMap inv_env =
     (let s = \<lparr>mArity = 1, set_conjs = [Conjunction_new 1]\<rparr>;
          F = (\<lambda>f. \<lparr>mFuncName = f, mDomain = s, mRange = s, mIsBijective = True, mMonoType = Monotonic_NONE\<rparr>)
      in [(''f'', F ''f''), (''f_inv'', F ''f_inv'')])"
  "mInverseMap inv_env = [(''f'', ''f_inv''), (''f_inv'', ''f'')]"
  by code_simp+

lemma one_tuples: "holds v (Conjunction_new (Suc 0)) xs \<longleftrightarrow> (\<exists>z. xs = [z])"
  by (auto simp: holds_def admits_def sat_constraints_def zeros_def nonnegs_def length_Suc_conv
      Conjunction_new_def Conjunction_tdecl_def TupleDecl_new_def elemIsConst_def)

lemma inv_env_respected: "respects_inverses inv_env (inv_valuation y)"
  unfolding respects_inverses_def inv_env_funcs Let_def
  by (auto simp: one_tuples inv_valuation_def split: if_splits)

theorem solveForFactor_inverse_witness:
  "let e = Exp [TupleVarTerm 1 0, UFCallTerm (-1) ''f'' [Exp [TupleVarTerm 1 1] Expression] (-1)] Equality;
       t = TupleVarTerm 1 1; v = inv_valuation 4 in
   respects_inverses inv_env v \<and> eval_exp v e = 0
   \<and> (\<exists>r. solveForFactor (funcInverse inv_env) e t = Inr (Some r) \<and> eval_exp v r = 4)"
proof -
  let ?e = "Exp [TupleVarTerm 1 0, UFCallTerm (-1) ''f'' [Exp [TupleVarTerm 1 1] Expression] (-1)] Equality"
  let ?x = "Exp [TupleVarTerm 1 1, UFCallTerm (-1) ''f_inv'' [Exp [TupleVarTerm 1 0] Equality] (-1)] Expression"
  let ?t = "TupleVarTerm 1 1" and ?v = "inv_valuation 4"
  have 1: "findMatchingFactor ?e ?t = Inr None"
    and 2: "invertFuncToExposeFactor (funcInverse inv_env) ?e ?t = Inr (Some ?x)"
    and 3: "findMatchingFactor ?x ?t = Inr (Some ?t)"
    by code_simp+
  have 4: "calls_invertible (funcInverse inv_env) (range_size inv_env) ?t ?e"
    by (simp add: calls_invertible_def funcInverse_def range_size_def inv_env_funcs Let_def
        wf_name_def is_ident_def is_digit_def tupleIndex_def isIndexed_def)
  have in_dom: "calls_inside (declared_domain inv_env ?v) ?t ?e ?v"
    by (simp add: calls_inside_def declared_domain_def inv_env_funcs Let_def one_tuples)
  have z: "eval_exp ?v ?e = 0" by (simp add: inv_valuation_def tupleIndex_def isIndexed_def)
  have dvd: "\<forall>u \<in> set (mTerms ?e). coefficient ?t dvd coefficient u" and pl: "plain_exp ?e" "plain_term ?t"
    by (simp_all add: wf_name_def is_ident_def is_digit_def tupleIndex_def isIndexed_def)
  obtain r where r: "solveForFactor (funcInverse inv_env) ?e ?t = Inr (Some r)"
    "\<And>v. respects_inverses inv_env v \<Longrightarrow> calls_inside (declared_domain inv_env v) ?t ?e v \<Longrightarrow>
       eval_exp v ?e = 0 \<Longrightarrow> factor_val v ?t = eval_exp v r"
    using solveForFactor_inverse [OF 1 2 3 dvd 4 pl] by blast
  have "eval_exp ?v r = 4" using r(2) [OF inv_env_respected in_dom z] by (simp add: inv_valuation_def)
  with r(1) z inv_env_respected show ?thesis by (auto simp: Let_def)
qed

text \<open>
  Whatever a declaration adds to the list of rules holds under every valuation in which the
  declared function is monotonic in the declared way, if the parser reads comparisons correctly.
\<close>

lemma declared_rules_valid:
  assumes "appendCurrEnv w parse freed name d r bi mt env = (res, env')"
    and "reads_comparisons parse v name" and "monotonic (\<lambda>x. ufv v name 0 [x]) mt"
  shows "\<exists>new. uniQuantRules env' = uniQuantRules env @ new \<and> list_all (rule_valid v) new"
proof -
  let ?F = "\<lparr>mFuncName = name, mDomain = d, mRange = r, mIsBijective = bi, mMonoType = mt\<rparr>"
  show ?thesis
  proof (cases "Environment_of (copy_world w env) ?F")
    case (Inl e)
    with assms(1) show ?thesis by (intro exI [of _ "[]"]) (simp add: appendCurrEnv_def)
  next
    case (Inr other)
    obtain q env1 where q: "Environment_append w other env = (q, env1)" by force
    have 1: "uniQuantRules env1 = uniQuantRules env"
      using append_funcs_rules q by (metis Environment_append_def environment.select_convs(3) environment.surjective environment.update_convs(2) snd_conv)
    consider "env' = env1" | "add_rules parse (monotonicity_rules name mt) env1 = (res, env')"
      using assms(1) Inr q by (auto simp: appendCurrEnv_def split: sum.splits if_splits)
    then show ?thesis
    proof cases
      case 2
      then show ?thesis
        using add_rules_valid [OF 2, of v] new_rule_valid [OF _ assms(3,2)] 1 by auto
    qed (simp add: 1)
  qed
qed

text \<open>A parser for comparisons with the identity as the function.\<close>

definition cmp_set :: "string \<Rightarrow> iset" where
  "cmp_set s =
     (let lt = CHR ''<'' \<in> set s; le = CHR ''='' \<in> set s; a = (if lt then -1 else 1) in
      \<lparr>mArity = 2, set_conjs = [(Conjunction_new 2)\<lparr>mInequalities :=
         [Exp [TupleVarTerm a 0, TupleVarTerm (- a) 1, Term (if le then 0 else -1)] Inequality]\<rparr>]\<rparr>)"

lemma cmp_set_holds:
  "sparse_holds v (set_conjs (cmp_set s)) [x, y] \<longleftrightarrow>
   (if CHR ''<'' \<in> set s then (if CHR ''='' \<in> set s then x \<le> y else x < y)
    else if CHR ''='' \<in> set s then x \<ge> y else x > y)"
  by (auto simp: cmp_set_def Let_def sparse_holds_def holds_def sat_constraints_def zeros_def nonnegs_def
      Conjunction_new_def Conjunction_tdecl_def admits_def TupleDecl_new_def elemIsConst_def at_tuple_def nth_Cons')

section \<open>What goes wrong\<close>

text \<open>
  A declaration that fails leaves its entries in the table of inverses: they are inserted before
  the names are checked. With an unrelated function \<open>f_inv\<close> declared, the attempt to declare a
  bijective \<open>f\<close> throws, and afterwards the unrelated function counts as the inverse of \<open>f\<close>.
\<close>

lemma failed_append_keeps_inverse:
  "let s = \<lparr>mArity = 1, set_conjs = [Conjunction_new 1]\<rparr>;
       w = \<lparr>address_order = no_addr, key_address = (\<lambda>n. n), inverse_of = (\<lambda>f. []), range_arity = (\<lambda>f. Inr 1)\<rparr>;
       env1 = snd (appendCurrEnv w (\<lambda>t. Inl NullDeref) mArity ''f_inv'' s s False Monotonic_NONE Environment_new);
       (r, env2) = appendCurrEnv w (\<lambda>t. Inl NullDeref) mArity ''f'' s s True Monotonic_NONE env1
   in isl r \<and> funcInverse env2 ''f'' = ''f_inv'' \<and> \<not> mIsBijective (the (map_of (mUninterpFuncMap env2) ''f_inv''))"
  by code_simp

text \<open>\<open>reset\<close> and \<open>setCurrEnv\<close> keep the rules of the functions they forget.\<close>

lemma reset_keeps_rules: "uniQuantRules (setCurrEnv_empty env) = uniQuantRules env"
  by (simp add: setCurrEnv_empty_def Environment_reset_def)

text \<open>The assignment operator, which the copy constructor uses, copies no function.\<close>

lemma assign_copies_no_function: "mUninterpFuncMap (Environment_assign other Environment_new) = []"
  by (simp add: Environment_assign_def Environment_new_def)

text \<open>A rule of the type \<open>DomainRange\<close> is filed under \<open>TheOthers\<close>.\<close>

lemma domain_range_type:
  "UniQuantRule_new parse ''DomainRange'' d l r = Inr rule \<Longrightarrow> mUniQuantRuleType rule = TheOthers"
  by (auto simp: UniQuantRule_new_def bindr_eq_Inr)

end
