(* ===== verification/IEG_Visitor.thy ===== *)
theory IEG_Visitor
  imports IEG_Sparse
begin

text \<open>
  The traversal of sets, relations, conjunctions, expressions and terms by a visitor
  (\<open>Visitor.h\<close>, the \<open>acceptVisitor\<close> methods), as the sequence of the calls it makes, and the
  visitor behind \<open>isUFCallParam\<close>. A visitor that does not change what it visits is a function of
  these calls on its own state. The elements of a tuple expression are not visited, and a
  constant is the only term that reaches \<open>preVisitTerm\<close>.
\<close>

section \<open>Traversal\<close>

datatype visit =
  PreTerm trm | PostTerm trm | PreUFCall trm | PostUFCall trm | PreTupleVar trm | PostTupleVar trm
  | PreVar trm | PostVar trm | PreTupleExp trm | PostTupleExp trm | PreExp exp | PostExp exp
  | PreConjunction conj | PostConjunction conj | PreSparse sparse | PostSparse sparse
  | PreSet iset | PostSet iset | PreRelation irel | PostRelation irel

fun term_acceptVisitor :: "trm \<Rightarrow> visit list"
and exp_acceptVisitor :: "exp \<Rightarrow> visit list" where
  "term_acceptVisitor (Term c) = [PreTerm (Term c), PostTerm (Term c)]"
| "term_acceptVisitor (UFCallTerm c f es i) =
     PreUFCall (UFCallTerm c f es i) # concat (map exp_acceptVisitor es) @ [PostUFCall (UFCallTerm c f es i)]"
| "term_acceptVisitor (TupleVarTerm c l) = [PreTupleVar (TupleVarTerm c l), PostTupleVar (TupleVarTerm c l)]"
| "term_acceptVisitor (VarTerm c s) = [PreVar (VarTerm c s), PostVar (VarTerm c s)]"
| "term_acceptVisitor (TupleExpTerm c es) = [PreTupleExp (TupleExpTerm c es), PostTupleExp (TupleExpTerm c es)]"
| "exp_acceptVisitor (Exp ts ty) =
     PreExp (Exp ts ty) # concat (map term_acceptVisitor ts) @ [PostExp (Exp ts ty)]"

definition conj_acceptVisitor :: "conj \<Rightarrow> visit list" where
  "conj_acceptVisitor c =
     PreConjunction c # concat (map exp_acceptVisitor (mEqualities c))
     @ concat (map exp_acceptVisitor (mInequalities c)) @ [PostConjunction c]"

definition sparse_acceptVisitor :: "sparse \<Rightarrow> visit list" where
  "sparse_acceptVisitor cs = PreSparse cs # concat (map conj_acceptVisitor cs) @ [PostSparse cs]"

definition Set_acceptVisitor :: "iset \<Rightarrow> visit list" where
  "Set_acceptVisitor s = PreSet s # sparse_acceptVisitor (set_conjs s) @ [PostSet s]"

definition Relation_acceptVisitor :: "irel \<Rightarrow> visit list" where
  "Relation_acceptVisitor r = PreRelation r # sparse_acceptVisitor (rel_conjs r) @ [PostRelation r]"

section \<open>Parameters of calls\<close>

record is_param_visitor =
  mResult :: bool
  mSeenTupleVar :: bool
  prevSeen :: bool

fun is_param_visit :: "int \<Rightarrow> visit \<Rightarrow> is_param_visitor \<Rightarrow> is_param_visitor" where
  "is_param_visit mTupleID (PreTupleVar (TupleVarTerm c l)) v =
     (if l = mTupleID then v\<lparr>mSeenTupleVar := True\<rparr> else v)"
| "is_param_visit mTupleID (PreExp e) v = v\<lparr>prevSeen := mSeenTupleVar v, mSeenTupleVar := False\<rparr>"
| "is_param_visit mTupleID (PostExp e) v =
     v\<lparr>mResult := (isExpression e \<and> mSeenTupleVar v \<or> mResult v), mSeenTupleVar := prevSeen v\<rparr>"
| "is_param_visit mTupleID _ v = v"

definition isUFCallParam :: "int \<Rightarrow> sparse \<Rightarrow> bool" where
  "isUFCallParam tupleID cs =
     mResult (fold (is_param_visit tupleID) (sparse_acceptVisitor cs)
       \<lparr>mResult = False, mSeenTupleVar = False, prevSeen = False\<rparr>)"

section \<open>Facts\<close>

text \<open>The arguments of the calls in an expression, at any depth.\<close>

fun term_args :: "trm \<Rightarrow> exp list"
and exp_args :: "exp \<Rightarrow> exp list" where
  "term_args (UFCallTerm c f es i) = es @ concat (map exp_args es)"
| "term_args (Term c) = []"
| "term_args (TupleVarTerm c l) = []"
| "term_args (VarTerm c s) = []"
| "term_args (TupleExpTerm c es) = []"
| "exp_args (Exp ts ty) = concat (map term_args ts)"

definition direct_tv :: "int \<Rightarrow> exp \<Rightarrow> bool" where
  "direct_tv l e \<longleftrightarrow> (\<exists>c. TupleVarTerm c l \<in> set (mTerms e))"

definition args_typed :: "exp \<Rightarrow> bool" where
  "args_typed e \<longleftrightarrow> (\<forall>a \<in> set (exp_args e). isExpression a)"

definition conj_exps :: "conj \<Rightarrow> exp list" where
  "conj_exps c = mEqualities c @ mInequalities c"

lemma fold_concat: "fold f (concat xss) s = fold (\<lambda>xs. fold f xs) xss s"
  by (induction xss arbitrary: s) simp_all

text \<open>What calls leave behind when no argument in them has the variable directly.\<close>

definition quiet :: "is_param_visitor \<Rightarrow> is_param_visitor \<Rightarrow> bool" where
  "quiet v v' \<longleftrightarrow> mResult v' = mResult v \<and> (\<not> mSeenTupleVar v \<longrightarrow> \<not> mSeenTupleVar v' \<and> (prevSeen v' \<longrightarrow> prevSeen v))"

lemma quiet_refl [simp]: "quiet v v"
  by (simp add: quiet_def)

lemma quiet_trans: "quiet u v \<Longrightarrow> quiet v w \<Longrightarrow> quiet u w"
  by (auto simp: quiet_def)

lemma quiet_fold: "(\<And>x v. x \<in> set xs \<Longrightarrow> quiet v (f x v)) \<Longrightarrow> quiet v (fold f xs v)"
proof (induction xs arbitrary: v)
  case (Cons x xs)
  then have "quiet v (f x v)" "quiet (f x v) (fold f xs (f x v))" by simp_all
  then show ?case by (simp add: quiet_trans)
qed simp

definition no_param :: "int \<Rightarrow> exp list \<Rightarrow> bool" where
  "no_param l as \<longleftrightarrow> (\<forall>a \<in> set as. isExpression a \<and> \<not> direct_tv l a)"

lemma is_param_quiet:
  "no_param l (term_args t) \<Longrightarrow> (\<forall>c. t \<noteq> TupleVarTerm c l) \<Longrightarrow>
     quiet v (fold (is_param_visit l) (term_acceptVisitor t) v)"
  "no_param l (exp_args e) \<Longrightarrow> isExpression e \<Longrightarrow> \<not> direct_tv l e \<Longrightarrow>
     quiet v (fold (is_param_visit l) (exp_acceptVisitor e) v)"
proof (induction t and e arbitrary: v and v rule: term_acceptVisitor_exp_acceptVisitor.induct)
  case (2 c f es i)
  have "quiet u (fold (is_param_visit l) (exp_acceptVisitor a) u)" if "a \<in> set es" for a u
    using 2 that by (auto simp: no_param_def)
  then show ?case by (simp add: fold_concat fold_map quiet_fold)
next
  case (6 ts ty)
  let ?v = "v\<lparr>prevSeen := mSeenTupleVar v, mSeenTupleVar := False\<rparr>"
  have "quiet u (fold (is_param_visit l) (term_acceptVisitor t) u)" if "t \<in> set ts" for t u
  proof -
    have "\<forall>c. t \<noteq> TupleVarTerm c l" using 6(4) that by (auto simp: direct_tv_def)
    moreover have "no_param l (term_args t)" using 6(2) that by (auto simp: no_param_def)
    ultimately show ?thesis using 6(1) [OF that] by blast
  qed
  then have "quiet ?v (fold (\<lambda>t. fold (is_param_visit l) (term_acceptVisitor t)) ts ?v)"
    by (rule quiet_fold)
  then show ?case using 6(3) by (auto simp: fold_concat fold_map quiet_def comp_def)
qed simp_all

lemma is_param_top:
  assumes "no_param l (exp_args e)" and "\<not> isExpression e"
  shows "mResult (fold (is_param_visit l) (exp_acceptVisitor e) v) = mResult v"
proof -
  obtain ts ty where e: "e = Exp ts ty" by (cases e) auto
  have "mResult (fold (is_param_visit l) (term_acceptVisitor t) u) = mResult u" if "t \<in> set ts" for t u
  proof (cases "\<exists>c. t = TupleVarTerm c l")
    case False
    then show ?thesis using is_param_quiet(1) [of l t u] assms(1) that
      by (auto simp: e no_param_def quiet_def)
  qed auto
  then have "mResult (fold (\<lambda>t. fold (is_param_visit l) (term_acceptVisitor t)) ts u) = mResult u" for u
    by (induction ts arbitrary: u) simp_all
  then show ?thesis using assms(2) by (simp add: e fold_concat fold_map comp_def)
qed

lemma is_param_visit_other:
  "(\<forall>e. x \<noteq> PostExp e) \<Longrightarrow> mResult (is_param_visit l x v) = mResult v"
  by (cases "(l, x, v)" rule: is_param_visit.cases) auto

lemma is_param_keeps: "mResult v \<Longrightarrow> mResult (fold (is_param_visit l) xs v)"
proof (induction xs arbitrary: v)
  case (Cons x xs)
  then have "mResult (is_param_visit l x v)" by (cases "(l, x, v)" rule: is_param_visit.cases) auto
  with Cons show ?case by simp
qed simp

text \<open>An argument with the variable whose own calls are nested no deeper is found.\<close>

lemma leaf_keeps_seen:
  assumes "exp_args a = []"
  shows "mSeenTupleVar (fold (is_param_visit l) (exp_acceptVisitor a) v) = mSeenTupleVar v"
proof -
  obtain ts ty where a: "a = Exp ts ty" by (cases a) auto
  have "prevSeen (fold (is_param_visit l) (term_acceptVisitor t) u) = prevSeen u" if "t \<in> set ts" for t u
  proof -
    have "term_args t = []" using assms a that by simp
    then show ?thesis by (cases t) auto
  qed
  then have "prevSeen (fold (\<lambda>t. fold (is_param_visit l) (term_acceptVisitor t)) ts u) = prevSeen u" for u
    by (induction ts arbitrary: u) simp_all
  then show ?thesis by (simp add: a fold_concat fold_map comp_def)
qed

lemma is_param_found:
  assumes "direct_tv l a" and "isExpression a" and "\<forall>b \<in> set (exp_args a). exp_args b = []"
  shows "mResult (fold (is_param_visit l) (exp_acceptVisitor a) v)"
proof -
  obtain ts ty where a: "a = Exp ts ty" by (cases a) auto
  have "mSeenTupleVar (fold (is_param_visit l) (term_acceptVisitor t) u) \<longleftrightarrow>
      mSeenTupleVar u \<or> (\<exists>c. t = TupleVarTerm c l)" if "t \<in> set ts" for t u
  proof (cases t)
    case (UFCallTerm c f es i)
    have "\<forall>b \<in> set es. exp_args b = []" using assms(3) that UFCallTerm by (auto simp: a)
    then have "mSeenTupleVar (fold (\<lambda>b. fold (is_param_visit l) (exp_acceptVisitor b)) es u) = mSeenTupleVar u" for u
      by (induction es arbitrary: u) (simp_all add: leaf_keeps_seen)
    then show ?thesis by (simp add: UFCallTerm fold_concat fold_map comp_def)
  qed auto
  then have "mSeenTupleVar (fold (\<lambda>t. fold (is_param_visit l) (term_acceptVisitor t)) ts u) \<longleftrightarrow>
      mSeenTupleVar u \<or> (\<exists>c. TupleVarTerm c l \<in> set ts)" for u
    by (induction ts arbitrary: u) auto
  then show ?thesis using assms(1,2) by (simp add: a fold_concat fold_map comp_def direct_tv_def)
qed

lemma sublist_within: "sublist xs ys \<Longrightarrow> sublist xs (ps @ ys @ ss)"
  by (meson sublist_appendI sublist_order.order_trans)

lemma sublist_concat: "x \<in> set xs \<Longrightarrow> sublist (f x) (concat (map f xs))"
  by (auto simp: in_set_conv_decomp)

lemma args_visited:
  "a \<in> set (term_args t) \<Longrightarrow> sublist (exp_acceptVisitor a) (term_acceptVisitor t)"
  "a \<in> set (exp_args e) \<Longrightarrow> sublist (exp_acceptVisitor a) (exp_acceptVisitor e)"
proof (induction t and e rule: term_args_exp_args.induct)
  case (1 c f es i)
  then obtain b where b: "b \<in> set es" "sublist (exp_acceptVisitor a) (exp_acceptVisitor b)" by auto
  then have "sublist (exp_acceptVisitor a) (concat (map exp_acceptVisitor es))"
    using sublist_concat [OF b(1), of exp_acceptVisitor] sublist_order.order_trans by blast
  from sublist_within [OF this, of "[_]"] show ?case by simp
next
  case (6 ts ty)
  then obtain t where t: "t \<in> set ts" "sublist (exp_acceptVisitor a) (term_acceptVisitor t)" by auto
  then have "sublist (exp_acceptVisitor a) (concat (map term_acceptVisitor ts))"
    using sublist_concat [OF t(1), of term_acceptVisitor] sublist_order.order_trans by blast
  from sublist_within [OF this, of "[_]"] show ?case by simp
qed simp_all

lemma constraint_visited:
  assumes "c \<in> set cs" and "e \<in> set (conj_exps c)"
  shows "sublist (exp_acceptVisitor e) (sparse_acceptVisitor cs)"
proof -
  have "conj_acceptVisitor c = [PreConjunction c] @ concat (map exp_acceptVisitor (conj_exps c)) @ [PostConjunction c]"
    by (simp add: conj_acceptVisitor_def conj_exps_def)
  then have 1: "sublist (exp_acceptVisitor e) (conj_acceptVisitor c)"
    using sublist_within [OF sublist_concat [OF assms(2), of exp_acceptVisitor]] by metis
  have "sparse_acceptVisitor cs = [PreSparse cs] @ concat (map conj_acceptVisitor cs) @ [PostSparse cs]"
    by (simp add: sparse_acceptVisitor_def)
  then have "sublist (conj_acceptVisitor c) (sparse_acceptVisitor cs)"
    using sublist_within [OF sublist_concat [OF assms(1), of conj_acceptVisitor]] by metis
  with 1 show ?thesis by (rule sublist_order.order_trans)
qed

section \<open>Properties\<close>

definition is_param :: "int \<Rightarrow> sparse \<Rightarrow> bool" where
  "is_param l cs \<longleftrightarrow> (\<exists>c \<in> set cs. \<exists>e \<in> set (conj_exps c). \<exists>a \<in> set (exp_args e). direct_tv l a)"

text \<open>Constraints have the type of an equality or an inequality, arguments that of an expression.\<close>

definition typed_sparse :: "sparse \<Rightarrow> bool" where
  "typed_sparse cs \<longleftrightarrow> (\<forall>c \<in> set cs. \<forall>e \<in> set (conj_exps c). \<not> isExpression e \<and> args_typed e)"

text \<open>Calls are nested at most two deep below the argument.\<close>

definition shallow :: "exp \<Rightarrow> bool" where
  "shallow e \<longleftrightarrow> (\<forall>a \<in> set (exp_args e). \<forall>b \<in> set (exp_args a). exp_args b = [])"

text \<open>
  \<open>isUFCallParam\<close> says yes only if the tuple variable occurs in an argument of a call, and it
  does say yes then if no argument nests calls more than one deep.
\<close>

lemma isUFCallParam_correct:
  assumes "typed_sparse cs"
  shows "(isUFCallParam l cs \<longrightarrow> is_param l cs)
    \<and> ((\<forall>c \<in> set cs. \<forall>e \<in> set (conj_exps c). shallow e) \<longrightarrow> (isUFCallParam l cs \<longleftrightarrow> is_param l cs))"
proof -
  let ?f = "is_param_visit l"
  have no: "\<not> isUFCallParam l cs" if "\<not> is_param l cs"
  proof -
    have e: "mResult (fold ?f (exp_acceptVisitor e) v) = mResult v" if "c \<in> set cs" "e \<in> set (conj_exps c)" for c e v
      using \<open>\<not> is_param l cs\<close> assms that
      by (intro is_param_top) (auto simp: is_param_def typed_sparse_def no_param_def args_typed_def)
    have es: "mResult (fold (\<lambda>e. fold ?f (exp_acceptVisitor e)) es v) = mResult v"
      if "c \<in> set cs" "set es \<subseteq> set (conj_exps c)" for c es v
      using that(2) by (induction es arbitrary: v) (simp_all add: e [OF that(1)])
    have c: "mResult (fold ?f (conj_acceptVisitor c) v) = mResult v" if "c \<in> set cs" for c v
      using es [OF that, of "mEqualities c"] es [OF that, of "mInequalities c"]
      by (simp add: conj_acceptVisitor_def fold_concat fold_map comp_def conj_exps_def)
    have "mResult (fold (\<lambda>c. fold ?f (conj_acceptVisitor c)) ds v) = mResult v" if "set ds \<subseteq> set cs" for ds v
      using that by (induction ds arbitrary: v) (simp_all add: c)
    then show ?thesis
      by (simp add: isUFCallParam_def sparse_acceptVisitor_def fold_concat fold_map comp_def)
  qed
  have yes: "isUFCallParam l cs" if sh: "\<forall>c \<in> set cs. \<forall>e \<in> set (conj_exps c). shallow e" and "is_param l cs"
  proof -
    obtain c e a where a: "c \<in> set cs" "e \<in> set (conj_exps c)" "a \<in> set (exp_args e)" "direct_tv l a"
      using \<open>is_param l cs\<close> by (auto simp: is_param_def)
    have "args_typed e" "shallow e" using assms sh a(1,2) by (auto simp: typed_sparse_def)
    then have "isExpression a" "\<forall>b \<in> set (exp_args a). exp_args b = []"
      using a(3) unfolding args_typed_def shallow_def by blast+
    note found = is_param_found [OF a(4) this]
    have "sublist (exp_acceptVisitor a) (sparse_acceptVisitor cs)"
      using args_visited(2) [OF a(3)] constraint_visited [OF a(1,2)] sublist_order.order_trans by blast
    then obtain ps ss where "sparse_acceptVisitor cs = ps @ exp_acceptVisitor a @ ss" by (auto simp: sublist_def)
    then show ?thesis using found is_param_keeps by (simp add: isUFCallParam_def)
  qed
  show ?thesis using no yes by blast
qed

text \<open>
  The visitor has one \<open>prevSeen\<close> for all levels: in \<open>f(x + g(h(n)))\<close> the visit of \<open>h\<close>'s argument
  overwrites what was recorded for \<open>g\<close>'s, and the variable in \<open>f\<close>'s argument is forgotten.
\<close>

lemma isUFCallParam_forgets:
  "let call = \<lambda>f e. UFCallTerm 1 f [e] (-1); exp = \<lambda>ts. Exp ts Expression;
       cs = [(Conjunction_new 1)\<lparr>mEqualities := [Exp [VarTerm 1 ''m'',
         call ''f'' (exp [TupleVarTerm 1 0, call ''g'' (exp [call ''h'' (exp [VarTerm 1 ''n''])])])] Equality]\<rparr>]
   in \<not> isUFCallParam 0 cs"
  by code_simp

end
