(* ===== verification/IEG_UFCallMap.thy ===== *)
theory IEG_UFCallMap
  imports IEG_SetProps
begin

text \<open>
  The map between calls of uninterpreted functions and the symbolic constants that stand for
  them in affine sets (\<open>UFCallMap.cc\<close>). The two \<open>std::map\<close>s are association lists in the order
  of the virtual \<open>operator<\<close>; \<open>ad\<close> is the order of addresses it may ask for (it does not for
  calls and symbols).
\<close>

section \<open>Sorted association lists\<close>

fun map_find :: "('k \<Rightarrow> 'k \<Rightarrow> bool) \<Rightarrow> 'k \<Rightarrow> ('k \<times> 'v) list \<Rightarrow> 'v option" where
  "map_find lt k [] = None"
| "map_find lt k ((k', v) # m) = (if lt k' k then map_find lt k m else if lt k k' then None else Some v)"

context keyed_order
begin

lemma map_find_key:
  assumes "ok k" and "\<forall>k' \<in> fst ` set m. ok k'" and "sorted_wrt (<) (map (key \<circ> fst) m)"
  shows "map_find lt k m = Some v \<longleftrightarrow> (\<exists>k'. (k', v) \<in> set m \<and> key k' = key k)"
  using assms
proof (induction m)
  case (Cons p m)
  then show ?case by (cases p) (force simp: lt_key)
qed simp

lemma map_find_None:
  assumes "ok k" and "\<forall>k' \<in> fst ` set m. ok k'" and "sorted_wrt (<) (map (key \<circ> fst) m)"
  shows "map_find lt k m = None \<longleftrightarrow> key k \<notin> (key \<circ> fst) ` set m"
  using map_find_key [OF assms] by (cases "map_find lt k m") force+

lemma map_update_absent:
  assumes "ok k" and "\<forall>k' \<in> fst ` set m. ok k'" and "sorted_wrt (<) (map (key \<circ> fst) m)"
    and "key k \<notin> (key \<circ> fst) ` set m"
  shows "set (map_update lt k f m) = insert (k, f None) (set m)
    \<and> sorted_wrt (<) (map (key \<circ> fst) (map_update lt k f m))"
  using assms
proof (induction m)
  case (Cons p m)
  obtain k' v where p: "p = (k', v)" by force
  consider "key k < key k'" | "key k' < key k" using Cons.prems(4) p by force
  then show ?case
  proof cases
    case 1
    then show ?thesis using Cons.prems p by (auto simp: lt_key)
  next
    case 2
    then show ?thesis using Cons p by (auto simp: lt_key)
  qed
qed simp

end

section \<open>The map\<close>

record ufcall_map =
  ucm_tupleDecl :: "tuple_decl option"
  mUFC2VarParam :: "(trm \<times> trm) list"
  mVarParam2UFC :: "(trm \<times> trm) list"

definition UFCallMap_new :: ufcall_map where
  "UFCallMap_new = \<lparr>ucm_tupleDecl = None, mUFC2VarParam = [], mVarParam2UFC = []\<rparr>"

definition UFCallMap_decl :: "tuple_decl \<Rightarrow> ufcall_map" where
  "UFCallMap_decl aTupleDecl = \<lparr>ucm_tupleDecl = Some aTupleDecl, mUFC2VarParam = [], mVarParam2UFC = []\<rparr>"

text \<open>The assignment, which the copy constructor uses, does not copy the declaration.\<close>

definition UFCallMap_assign :: "ufcall_map \<Rightarrow> ufcall_map \<Rightarrow> ufcall_map" where
  "UFCallMap_assign other this =
     this\<lparr>mUFC2VarParam := mUFC2VarParam other, mVarParam2UFC := mVarParam2UFC other\<rparr>"

definition symUFC :: "string \<Rightarrow> string" where
  "symUFC ufcName = concat (map (\<lambda>c.
     if c \<noteq> CHR '' '' \<and> c \<noteq> CHR '','' then
       (if c = CHR ''('' \<or> c = CHR '')'' then ''_''
        else if c = CHR ''['' \<or> c = CHR '']'' then ''B''
        else if c = CHR ''+'' then ''P''
        else if c = CHR ''-'' then ''M'' else [c])
     else []) ufcName)"

definition ucm_find_var :: "addr_order \<Rightarrow> trm \<Rightarrow> ufcall_map \<Rightarrow> trm option" where
  "ucm_find_var ad vt m = map_find (trm_less ad) (setCoefficient 1 vt) (mVarParam2UFC m)"

definition call_symbol :: "trm \<Rightarrow> ufcall_map \<Rightarrow> string res" where
  "call_symbol ufcterm m =
     bindr (case ucm_tupleDecl m of
              Some td \<Rightarrow> term_prettyPrint td False ufcterm | None \<Rightarrow> Inr (term_toString False False ufcterm))
       (\<lambda>symCons. Inr (symUFC symCons))"

definition keep_old :: "'v \<Rightarrow> 'v option \<Rightarrow> 'v" where
  "keep_old v old = (case old of None \<Rightarrow> v | Some v' \<Rightarrow> v')"

definition ucm_insert :: "addr_order \<Rightarrow> trm \<Rightarrow> ufcall_map \<Rightarrow> (trm \<times> ufcall_map) res" where
  "ucm_insert ad ufc m =
     (let ufcterm = setCoefficient 1 ufc in
      bindr (call_symbol ufcterm m) (\<lambda>symCons.
      let vt = VarTerm 1 symCons in
      if ucm_find_var ad vt m \<noteq> None then Inr (vt, m)
      else Inr (vt, m\<lparr>mUFC2VarParam := map_update (trm_less ad) ufcterm (keep_old vt) (mUFC2VarParam m),
                      mVarParam2UFC := map_update (trm_less ad) vt (keep_old ufcterm) (mVarParam2UFC m)\<rparr>)))"

definition ucm_find_call :: "addr_order \<Rightarrow> trm \<Rightarrow> ufcall_map \<Rightarrow> (trm \<times> ufcall_map) res" where
  "ucm_find_call ad ufc m =
     (let ufcterm = setCoefficient 1 ufc in
      case map_find (trm_less ad) ufcterm (mUFC2VarParam m) of
        None \<Rightarrow> ucm_insert ad ufcterm m
      | Some vt \<Rightarrow> Inr (vt, m))"

definition ucm_toString :: "ufcall_map \<Rightarrow> string" where
  "ucm_toString m =
     ''UFCallMap:'' @ endl @ concat (map (\<lambda>(u, vt).
        [char_of (9 :: nat)] @ ''UFC = '' @ term_toString False False u @ ''  ,  sym = '' @ term_toString False False vt @ endl)
        (mUFC2VarParam m))"

fun var_list :: "bool \<Rightarrow> (trm \<times> trm) list \<Rightarrow> string" where
  "var_list first [] = []"
| "var_list first ((u, vt) # m) = (if \<not> first then '', '' else []) @ term_toString False False vt @ var_list False m"

definition varTermStrList :: "ufcall_map \<Rightarrow> string" where
  "varTermStrList m = var_list True (mUFC2VarParam m)"

section \<open>Facts\<close>

definition is_call :: "trm \<Rightarrow> bool" where
  "is_call t \<longleftrightarrow> (case t of UFCallTerm _ _ _ _ \<Rightarrow> True | _ \<Rightarrow> False)"

text \<open>
  The two maps are inverse to each other, every symbol is the one of its call, calls are kept
  with coefficient one.
\<close>

definition ucm_ok :: "ufcall_map \<Rightarrow> bool" where
  "ucm_ok m \<longleftrightarrow>
     sorted_wrt (<) (map (tkey \<circ> fst) (mUFC2VarParam m)) \<and> sorted_wrt (<) (map (tkey \<circ> fst) (mVarParam2UFC m))
     \<and> (\<forall>u vt. (u, vt) \<in> set (mUFC2VarParam m) \<longleftrightarrow> (vt, u) \<in> set (mVarParam2UFC m))
     \<and> (\<forall>(u, vt) \<in> set (mUFC2VarParam m). is_call u \<and> coefficient u = 1
          \<and> (\<exists>s. vt = VarTerm 1 s \<and> call_symbol u m = Inr s))"

lemma is_call_not_tuple: "is_call u \<Longrightarrow> \<not> isTupleExp u"
  by (cases u) (simp_all add: is_call_def)

lemma ucm_okD:
  assumes "ucm_ok m"
  shows "sorted_wrt (<) (map (tkey \<circ> fst) (mUFC2VarParam m))" "sorted_wrt (<) (map (tkey \<circ> fst) (mVarParam2UFC m))"
    "(u, vt) \<in> set (mUFC2VarParam m) \<longleftrightarrow> (vt, u) \<in> set (mVarParam2UFC m)"
    "(u, vt) \<in> set (mUFC2VarParam m) \<Longrightarrow> is_call u \<and> coefficient u = 1
       \<and> (\<exists>s. vt = VarTerm 1 s \<and> call_symbol u m = Inr s)"
    "\<forall>k \<in> fst ` set (mUFC2VarParam m). \<not> isTupleExp k" "\<forall>k \<in> fst ` set (mVarParam2UFC m). \<not> isTupleExp k"
proof -
  show A: "is_call u \<and> coefficient u = 1 \<and> (\<exists>s. vt = VarTerm 1 s \<and> call_symbol u m = Inr s)"
    if "(u, vt) \<in> set (mUFC2VarParam m)" for u vt
    using assms that unfolding ucm_ok_def by blast
  show B: "(u, vt) \<in> set (mUFC2VarParam m) \<longleftrightarrow> (vt, u) \<in> set (mVarParam2UFC m)" for u vt
    using assms unfolding ucm_ok_def by blast
  show "\<forall>k \<in> fst ` set (mUFC2VarParam m). \<not> isTupleExp k"
  proof (clarify)
    fix k u vt assume "(u, vt) \<in> set (mUFC2VarParam m)" "isTupleExp (fst (u, vt))"
    then show False using A [of u vt] is_call_not_tuple [of u] by simp
  qed
  show "\<forall>k \<in> fst ` set (mVarParam2UFC m). \<not> isTupleExp k"
  proof (clarify)
    fix vt u assume "(vt, u) \<in> set (mVarParam2UFC m)" "isTupleExp (fst (vt, u))"
    then show False using A [of u vt] B [of u vt] by auto
  qed
qed (use assms in \<open>simp_all add: ucm_ok_def\<close>)

lemma ucm_ok_new: "ucm_ok UFCallMap_new" "ucm_ok (UFCallMap_decl td)"
  by (simp_all add: ucm_ok_def UFCallMap_new_def UFCallMap_decl_def)

text \<open>A symbol leads to at most one call.\<close>

lemma ucm_find_var_iff:
  assumes "ucm_ok m"
  shows "ucm_find_var ad (VarTerm c s) m = Some u \<longleftrightarrow> (u, VarTerm 1 s) \<in> set (mUFC2VarParam m)"
proof -
  have "ucm_find_var ad (VarTerm c s) m = Some u \<longleftrightarrow>
      (\<exists>k. (k, u) \<in> set (mVarParam2UFC m) \<and> tkey k = tkey (VarTerm 1 s))"
    unfolding ucm_find_var_def using ucm_okD(2,6) [OF assms] by (subst terms.map_find_key) auto
  also have "\<dots> \<longleftrightarrow> (u, VarTerm 1 s) \<in> set (mUFC2VarParam m)"
  proof
    assume "\<exists>k. (k, u) \<in> set (mVarParam2UFC m) \<and> tkey k = tkey (VarTerm 1 s)"
    then obtain k where k: "(u, k) \<in> set (mUFC2VarParam m)" "tkey k = tkey (VarTerm 1 s)"
      using ucm_okD(3) [OF assms] by blast
    then show "(u, VarTerm 1 s) \<in> set (mUFC2VarParam m)"
      using ucm_okD(4) [OF assms k(1)] by (auto simp: tkey_def)
  qed (use ucm_okD(3) [OF assms] in blast)
  finally show ?thesis .
qed

text \<open>
  Two calls are the same for the map if they agree in name, index and printed arguments.
\<close>

definition same_call :: "trm \<Rightarrow> trm \<Rightarrow> bool" where
  "same_call u u' \<longleftrightarrow> fkey u = fkey u'"

lemma setCoefficient_same: "coefficient u = c \<Longrightarrow> setCoefficient c u = u"
  by (cases u) auto

lemma call_symbol_cong: "ucm_tupleDecl m' = ucm_tupleDecl m \<Longrightarrow> call_symbol u m' = call_symbol u m"
  by (simp add: call_symbol_def)

lemma map_find_call:
  assumes "ucm_ok m" and "is_call u"
  shows "map_find (trm_less ad) u (mUFC2VarParam m) = Some vt \<longleftrightarrow>
    (\<exists>k. (k, vt) \<in> set (mUFC2VarParam m) \<and> tkey k = tkey u)"
  using ucm_okD(1,5) [OF assms(1)] is_call_not_tuple [OF assms(2)] by (subst terms.map_find_key) auto

lemma is_call_set [simp]: "is_call (setCoefficient c u) = is_call u"
  by (cases u) (simp_all add: is_call_def)

lemma coefficient_set_call [simp]: "is_call u \<Longrightarrow> coefficient (setCoefficient c u) = c"
  by (cases u) (simp_all add: is_call_def)

lemma ucm_insert_new:
  assumes ok: "ucm_ok m" and u: "is_call u" "coefficient u = 1" and "call_symbol u m = Inr s"
    and absent: "map_find (trm_less ad) u (mUFC2VarParam m) = None" and "ucm_find_var ad (VarTerm 1 s) m = None"
    and m': "m' = m\<lparr>mUFC2VarParam := map_update (trm_less ad) u (keep_old (VarTerm 1 s)) (mUFC2VarParam m),
        mVarParam2UFC := map_update (trm_less ad) (VarTerm 1 s) (keep_old u) (mVarParam2UFC m)\<rparr>"
  shows "ucm_ok m' \<and> set (mUFC2VarParam m') = insert (u, VarTerm 1 s) (set (mUFC2VarParam m))"
proof -
  have "tkey u \<notin> (tkey \<circ> fst) ` set (mUFC2VarParam m)"
    using absent is_call_not_tuple [OF u(1)] ucm_okD(1,5) [OF ok] by (subst (asm) terms.map_find_None) auto
  then have A: "set (mUFC2VarParam m') = insert (u, VarTerm 1 s) (set (mUFC2VarParam m))"
    "sorted_wrt (<) (map (tkey \<circ> fst) (mUFC2VarParam m'))"
    using terms.map_update_absent [of u "mUFC2VarParam m" ad] is_call_not_tuple [OF u(1)] ucm_okD(1,5) [OF ok]
    by (simp_all add: m' keep_old_def)
  have "tkey (VarTerm 1 s) \<notin> (tkey \<circ> fst) ` set (mVarParam2UFC m)"
    using assms(6) ucm_okD(2,6) [OF ok] unfolding ucm_find_var_def
    by (subst (asm) terms.map_find_None) auto
  then have B: "set (mVarParam2UFC m') = insert (VarTerm 1 s, u) (set (mVarParam2UFC m))"
    "sorted_wrt (<) (map (tkey \<circ> fst) (mVarParam2UFC m'))"
    using terms.map_update_absent [of "VarTerm 1 s" "mVarParam2UFC m" ad] ucm_okD(2,6) [OF ok]
    by (simp_all add: m' keep_old_def)
  have sym: "call_symbol x m' = call_symbol x m" for x by (simp add: call_symbol_def m')
  have "is_call x \<and> coefficient x = 1 \<and> (\<exists>r. vt = VarTerm 1 r \<and> call_symbol x m' = Inr r)"
    if "(x, vt) \<in> set (mUFC2VarParam m')" for x vt
    using that assms(2-4) ucm_okD(4) [OF ok, of x vt] unfolding A(1) sym by blast
  moreover have "(x, vt) \<in> set (mUFC2VarParam m') \<longleftrightarrow> (vt, x) \<in> set (mVarParam2UFC m')" for x vt
    unfolding A(1) B(1) using ucm_okD(3) [OF ok] by auto
  ultimately have "ucm_ok m'" unfolding ucm_ok_def using A(2) B(2) by blast
  then show ?thesis using A(1) by blast
qed

lemma ucm_find_call_facts:
  assumes find: "ucm_find_call ad u m = Inr (vt, m')" and ok: "ucm_ok m" and "is_call u"
  shows "ucm_ok m'" and "ucm_tupleDecl m' = ucm_tupleDecl m"
    and "set (mUFC2VarParam m) \<subseteq> set (mUFC2VarParam m')"
    and "set (mUFC2VarParam m') \<subseteq> insert (setCoefficient 1 u, vt) (set (mUFC2VarParam m))"
    and "\<exists>u'. (u', vt) \<in> set (mUFC2VarParam m') \<and>
      (same_call u' u \<or> (u', vt) \<in> set (mUFC2VarParam m) \<and> call_symbol u' m = call_symbol (setCoefficient 1 u) m)"
proof -
  let ?u = "setCoefficient 1 u"
  have "ucm_ok m' \<and> ucm_tupleDecl m' = ucm_tupleDecl m
    \<and> set (mUFC2VarParam m) \<subseteq> set (mUFC2VarParam m')
    \<and> set (mUFC2VarParam m') \<subseteq> insert (?u, vt) (set (mUFC2VarParam m))
    \<and> (\<exists>u'. (u', vt) \<in> set (mUFC2VarParam m') \<and> (same_call u' u \<or> (u', vt) \<in> set (mUFC2VarParam m)
         \<and> call_symbol u' m = call_symbol ?u m))"
  proof (cases "map_find (trm_less ad) ?u (mUFC2VarParam m)")
    case (Some vt')
    then obtain k where "(k, vt') \<in> set (mUFC2VarParam m)" "tkey k = tkey ?u"
      using map_find_call [OF ok, of ?u ad vt'] assms(3) by auto
    then show ?thesis using find Some ok by (auto simp: ucm_find_call_def tkey_def same_call_def)
  next
    case None
    have ins: "ucm_insert ad ?u m = Inr (vt, m')" using find None by (simp add: ucm_find_call_def)
    obtain s where s: "call_symbol ?u m = Inr s" using ins by (auto simp: ucm_insert_def bindr_eq_Inr Let_def setCoefficient_same assms(3))
    show ?thesis
    proof (cases "ucm_find_var ad (VarTerm 1 s) m")
      case (Some u')
      then have "vt = VarTerm 1 s" "m' = m" "(u', vt) \<in> set (mUFC2VarParam m)"
        using ins s Some ucm_find_var_iff [OF ok, of ad 1 s u']
        by (simp_all add: ucm_insert_def Let_def setCoefficient_same assms(3))
      moreover from this have "call_symbol u' m = call_symbol ?u m" using ucm_okD(4) [OF ok] s by fastforce
      ultimately show ?thesis using ok by blast
    next
      case vNone: None
      then have vt: "vt = VarTerm 1 s" and m': "m' = m\<lparr>mUFC2VarParam := map_update (trm_less ad) ?u (keep_old (VarTerm 1 s)) (mUFC2VarParam m),
        mVarParam2UFC := map_update (trm_less ad) (VarTerm 1 s) (keep_old ?u) (mVarParam2UFC m)\<rparr>"
        using ins s by (auto simp: ucm_insert_def Let_def setCoefficient_same assms(3))
      note new = ucm_insert_new [OF ok _ _ s None vNone m']
      show ?thesis using new assms(3) m' by (auto simp: vt same_call_def)
    qed
  qed
  then show "ucm_ok m'" "ucm_tupleDecl m' = ucm_tupleDecl m" "set (mUFC2VarParam m) \<subseteq> set (mUFC2VarParam m')"
    "set (mUFC2VarParam m') \<subseteq> insert (?u, vt) (set (mUFC2VarParam m))"
    "\<exists>u'. (u', vt) \<in> set (mUFC2VarParam m') \<and> (same_call u' u \<or> (u', vt) \<in> set (mUFC2VarParam m)
         \<and> call_symbol u' m = call_symbol ?u m)"
    by blast+
qed

section \<open>Properties\<close>

text \<open>
  C34. The symbol that \<open>find\<close> returns for a call leads back to this call, and to the same symbol
  when the call is looked up again, provided no other call in the map has the same symbol.
\<close>

theorem UFCallMap_roundtrip:
  assumes "ucm_ok m" and "is_call u" and "ucm_find_call ad u m = Inr (vt, m')"
    and "\<forall>u' \<in> fst ` set (mUFC2VarParam m). call_symbol u' m = call_symbol (setCoefficient 1 u) m \<longrightarrow> same_call u' u"
  shows "ucm_ok m' \<and> (\<exists>u'. ucm_find_var ad vt m' = Some u' \<and> same_call u' u \<and> coefficient u' = 1)
    \<and> ucm_find_call ad u m' = Inr (vt, m')"
proof -
  note find = ucm_find_call_facts [OF assms(3,1,2)]
  obtain u' where u': "(u', vt) \<in> set (mUFC2VarParam m')" "same_call u' u"
    using find(5) assms(4) by force
  note A = ucm_okD(4) [OF find(1) u'(1)]
  obtain s where s: "vt = VarTerm 1 s" using A by blast
  have "ucm_find_var ad vt m' = Some u'" using ucm_find_var_iff [OF find(1)] u'(1) s by simp
  moreover have "tkey u' = tkey (setCoefficient 1 u)"
    using u'(2) A assms(2) by (simp add: tkey_def same_call_def)
  then have "map_find (trm_less ad) (setCoefficient 1 u) (mUFC2VarParam m') = Some vt"
    using map_find_call [OF find(1), of "setCoefficient 1 u" ad vt] u'(1) assms(2) by auto
  then have "ucm_find_call ad u m' = Inr (vt, m')" by (simp add: ucm_find_call_def)
  ultimately show ?thesis using find(1) A u'(2) by blast
qed

theorem UFCallMap_roundtrip_witness:
  "\<exists>vt m' u'. ucm_find_call no_addr (UFCallTerm 3 ''row'' [Exp [TupleVarTerm 1 0, Term 1] Expression] (-1)) UFCallMap_new
     = Inr (vt, m') \<and> ucm_find_var no_addr vt m' = Some u' \<and> vt = VarTerm 1 ''row___tv0P1_''"
proof -
  let ?u = "UFCallTerm 3 ''row'' [Exp [TupleVarTerm 1 0, Term 1] Expression] (-1)"
  let ?m = "snd (projr (ucm_find_call no_addr ?u UFCallMap_new))"
  have "(case ucm_find_call no_addr ?u UFCallMap_new of Inl e \<Rightarrow> False | Inr (vt, m) \<Rightarrow> vt = VarTerm 1 ''row___tv0P1_'') = True"
    by code_simp
  then have f: "ucm_find_call no_addr ?u UFCallMap_new = Inr (VarTerm 1 ''row___tv0P1_'', ?m)"
    by (cases "ucm_find_call no_addr ?u UFCallMap_new") auto
  then show ?thesis
    using UFCallMap_roundtrip [OF ucm_ok_new(1) _ f] by (auto simp: is_call_def UFCallMap_new_def)
qed

text \<open>
  Blanks and commas leave no trace in a symbol: \<open>f(i - 1)\<close> and \<open>f(i, -1)\<close> get the same one, so
  the second call is given the symbol of the first, which leads back to the first.
\<close>

lemma UFCallMap_collision:
  "let u = UFCallTerm 1 ''f'' [Exp [VarTerm 1 ''i'', Term (-1)] Expression] (-1);
       u' = UFCallTerm 1 ''f'' [Exp [VarTerm 1 ''i''] Expression, Exp [Term (-1)] Expression] (-1);
       m = snd (projr (ucm_find_call no_addr u UFCallMap_new));
       vt = fst (projr (ucm_find_call no_addr u' m))
   in ucm_find_var no_addr vt m = Some u"
  by code_simp

text \<open>A copy of a map with a declaration goes on without it.\<close>

lemma UFCallMap_copy_drops_decl: "ucm_tupleDecl (UFCallMap_assign (UFCallMap_decl td) UFCallMap_new) = None"
  by (simp add: UFCallMap_assign_def UFCallMap_new_def)

end
