(* ===== verification/IEG_SuperAffine.thy ===== *)
theory IEG_SuperAffine
  imports IEG_Visitor IEG_UFCallMap IEG_Environment
begin

text \<open>
  Normalization of sets and relations with calls of uninterpreted functions (\<open>set_relation.cc\<close>):
  indexing tuple arguments, bounding calls by the domains and ranges of their functions, replacing
  calls by symbolic constants to get an affine superset, passing that through ISL, and putting
  the calls back. The visitors are functions of the calls they receive; what they would read
  before it is set is \<open>None\<close>.
\<close>

section \<open>Indexing tuple arguments\<close>

definition index_call :: "world \<Rightarrow> environment \<Rightarrow> int \<Rightarrow> string \<Rightarrow> exp list \<Rightarrow> int \<Rightarrow> trm res" where
  "index_call w env c f es i =
     bindr (queryDomainCurrEnv w env f) (\<lambda>s.
     if length es = 1 \<and> mArity s > 1 then
       (case getTerm (hd es) of
          Some (UFCallTerm c' f' es' i') \<Rightarrow>
            Inr (UFCallTerm c f
              (map (\<lambda>k. addTerm (setTupleIndex (int k) (UFCallTerm c' f' es' i')) Exp_new) [0..<mArity s]) (-1))
        | _ \<Rightarrow> Inl (Assert ''VisitorIndexUFC: Null or non UFC tuple argument''))
     else Inr (UFCallTerm c f es i))"

fun term_indexUFCs :: "world \<Rightarrow> environment \<Rightarrow> trm \<Rightarrow> trm res"
and exp_indexUFCs :: "world \<Rightarrow> environment \<Rightarrow> exp \<Rightarrow> exp res" where
  "term_indexUFCs w env (UFCallTerm c f es i) =
     bindr (mapr (\<lambda>e. exp_indexUFCs w env e) es) (\<lambda>es'. index_call w env c f es' i)"
| "term_indexUFCs w env (Term c) = Inr (Term c)"
| "term_indexUFCs w env (TupleVarTerm c l) = Inr (TupleVarTerm c l)"
| "term_indexUFCs w env (VarTerm c s) = Inr (VarTerm c s)"
| "term_indexUFCs w env (TupleExpTerm c es) = Inr (TupleExpTerm c es)"
| "exp_indexUFCs w env (Exp ts ty) = bindr (mapr (\<lambda>t. term_indexUFCs w env t) ts) (\<lambda>ts'. Inr (Exp ts' ty))"

definition conj_indexUFCs :: "world \<Rightarrow> environment \<Rightarrow> conj \<Rightarrow> conj res" where
  "conj_indexUFCs w env c =
     bindr (mapr (exp_indexUFCs w env) (mEqualities c)) (\<lambda>eqs.
     bindr (mapr (exp_indexUFCs w env) (mInequalities c)) (\<lambda>ineqs.
     Inr (c\<lparr>mEqualities := eqs, mInequalities := ineqs\<rparr>)))"

definition sparse_indexUFCs :: "world \<Rightarrow> environment \<Rightarrow> sparse \<Rightarrow> sparse res" where
  "sparse_indexUFCs w env cs = mapr (conj_indexUFCs w env) cs"

section \<open>Bounding calls by domain and range\<close>

record bound_visitor =
  addedConstSet :: "iset option"
  in_ar :: int
  bounded_conjs :: sparse

definition add_bound :: "world \<Rightarrow> iset \<Rightarrow> exp list \<Rightarrow> iset \<Rightarrow> iset res" where
  "add_bound w bound tuple_exp added =
     bindr (Set_boundTupleExp w tuple_exp bound) (\<lambda>constraintSet.
     bindr (sparse_getTupleDecl (set_conjs added)) (\<lambda>td.
     bindr (Set_setTupleDecl td constraintSet) (\<lambda>constraintSet.
     Set_Intersect w added constraintSet)))"

definition call_range_exps :: "nat \<Rightarrow> trm \<Rightarrow> exp list" where
  "call_range_exps out_arity uf_call =
     map (\<lambda>i. addTerm (if out_arity = 1 then uf_call else setTupleIndex (int i) uf_call) Exp_new) [0..<out_arity]"

definition bound_call :: "world \<Rightarrow> environment \<Rightarrow> trm \<Rightarrow> iset \<Rightarrow> iset res" where
  "bound_call w env t added =
     (case setCoefficient 1 t of
        UFCallTerm c f es i \<Rightarrow>
          bindr (queryDomainCurrEnv w env f) (\<lambda>dom_set.
          bindr (add_bound (env_world w env) dom_set es added) (\<lambda>added.
          bindr (queryRangeCurrEnv w env f) (\<lambda>ran_set.
          bindr (queryRangeArityCurrEnv w env f) (\<lambda>sz.
          if \<not> isIndexed i \<and> mArity ran_set \<noteq> sz
          then Inl (Assert ''Set::boundDomainRange: ufcall returning fewer dimensions than declared range'')
          else add_bound (env_world w env) ran_set (call_range_exps (mArity ran_set) (UFCallTerm c f es i)) added))))
      | _ \<Rightarrow> Inr added)"

fun bound_visit :: "world \<Rightarrow> environment \<Rightarrow> visit \<Rightarrow> bound_visitor \<Rightarrow> bound_visitor res" where
  "bound_visit w env (PreUFCall t) v =
     (case addedConstSet v of
        None \<Rightarrow> Inl NullDeref
      | Some added \<Rightarrow> bindr (bound_call w env t added) (\<lambda>added'. Inr (v\<lparr>addedConstSet := Some added'\<rparr>)))"
| "bound_visit w env (PreConjunction c) v =
     Inr (v\<lparr>in_ar := mInArity c, addedConstSet := Some (Set_tdecl (address_order w) (getTupleDecl c))\<rparr>)"
| "bound_visit w env (PostConjunction c) v =
     (case addedConstSet v of
        None \<Rightarrow> Inl NullDeref
      | Some added \<Rightarrow>
          (case set_conjs added of
             [] \<Rightarrow> Inl NullDeref
           | front # _ \<Rightarrow>
               bindr (setInArity (in_ar v) (conj_Intersect (address_order w) c front)) (\<lambda>c'.
               Inr (v\<lparr>addedConstSet := None, bounded_conjs := bounded_conjs v @ [c']\<rparr>))))"
| "bound_visit w env _ v = Inr v"

definition bound_run :: "world \<Rightarrow> environment \<Rightarrow> visit list \<Rightarrow> sparse res" where
  "bound_run w env visits =
     bindr (foldm (bound_visit w env) visits \<lparr>addedConstSet = None, in_ar = 0, bounded_conjs = []\<rparr>)
       (\<lambda>v. Inr (bounded_conjs v))"

definition Set_boundDomainRange :: "world \<Rightarrow> environment \<Rightarrow> iset \<Rightarrow> iset res" where
  "Set_boundDomainRange w env this =
     bindr (Set_copy (env_world w env) this) (\<lambda>s.
     bindr (bound_run w env (Set_acceptVisitor s)) (\<lambda>cs. Inr (s\<lparr>set_conjs := cs\<rparr>)))"

definition Relation_boundDomainRange :: "world \<Rightarrow> environment \<Rightarrow> irel \<Rightarrow> irel res" where
  "Relation_boundDomainRange w env this =
     bindr (Relation_copy (env_world w env) this) (\<lambda>r.
     bindr (bound_run w env (Relation_acceptVisitor r)) (\<lambda>cs. Inr (r\<lparr>rel_conjs := cs\<rparr>)))"

section \<open>Replacing calls by symbols\<close>

record affine_visitor =
  ufcmap :: ufcall_map
  affineSet :: "iset option"
  affineRelation :: "irel option"
  affineConj :: "conj option"
  maffineConj :: sparse
  affineExp :: "exp option"
  ufcDepth :: "int option"

definition affine_visitor_new :: "ufcall_map \<Rightarrow> affine_visitor" where
  "affine_visitor_new imap =
     \<lparr>ufcmap = imap, affineSet = None, affineRelation = None, affineConj = None, maffineConj = [],
      affineExp = None, ufcDepth = None\<rparr>"

definition add_affine :: "trm \<Rightarrow> affine_visitor \<Rightarrow> affine_visitor res" where
  "add_affine t v =
     (case affineExp v of None \<Rightarrow> Inl NullDeref | Some e \<Rightarrow> Inr (v\<lparr>affineExp := Some (addTerm t e)\<rparr>))"

definition at_depth0 :: "(affine_visitor \<Rightarrow> affine_visitor res) \<Rightarrow> affine_visitor \<Rightarrow> affine_visitor res" where
  "at_depth0 f v = (case ufcDepth v of None \<Rightarrow> Inl NullDeref | Some d \<Rightarrow> if d = 0 then f v else Inr v)"

definition finish_exp :: "addr_order \<Rightarrow> exp \<Rightarrow> affine_visitor \<Rightarrow> affine_visitor res" where
  "finish_exp ad e v =
     (case (affineExp v, affineConj v) of
        (Some a, Some c) \<Rightarrow>
          Inr (v\<lparr>affineConj := Some (if isInequality e then addInequality ad a c else addEquality ad a c),
                 affineExp := None\<rparr>)
      | _ \<Rightarrow> Inl NullDeref)"

text \<open>The calls that the two visitors treat alike: \<open>preVisitConjunction\<close>, \<open>postVisitConjunction\<close>,
  \<open>postVisitSet\<close>, \<open>postVisitRelation\<close>.\<close>

fun collect_visit :: "addr_order \<Rightarrow> visit \<Rightarrow> affine_visitor \<Rightarrow> affine_visitor res" where
  "collect_visit ad (PreConjunction c) v =
     bindr (setInArity (mInArity c) (Conjunction_tdecl (getTupleDecl c))) (\<lambda>a. Inr (v\<lparr>affineConj := Some a\<rparr>))"
| "collect_visit ad (PostConjunction c) v =
     (case affineConj v of
        None \<Rightarrow> Inl NullDeref
      | Some a \<Rightarrow> Inr (v\<lparr>affineConj := None, maffineConj := maffineConj v @ [a]\<rparr>))"
| "collect_visit ad (PostSet s) v =
     bindr (Set_new ad (mArity s)) (\<lambda>r.
     Inr (v\<lparr>affineSet := Some (r\<lparr>set_conjs := fold (sparse_addConjunction ad) (maffineConj v) (set_conjs r)\<rparr>)\<rparr>))"
| "collect_visit ad (PostRelation r) v =
     bindr (foldm (rel_addConjunction ad) (maffineConj v) (Relation_new (inArity r) (outArity r))) (\<lambda>r'.
     Inr (v\<lparr>affineRelation := Some r'\<rparr>))"
| "collect_visit ad _ v = Inr v"

fun super_affine_visit :: "addr_order \<Rightarrow> visit \<Rightarrow> affine_visitor \<Rightarrow> affine_visitor res" where
  "super_affine_visit ad (PreTerm t) v = at_depth0 (add_affine t) v"
| "super_affine_visit ad (PreUFCall t) v =
     at_depth0 (\<lambda>v. bindr (ucm_find_call ad t (ufcmap v)) (\<lambda>(vt, m).
       add_affine (setCoefficient (coefficient t) vt) (v\<lparr>ufcmap := m\<rparr>))) v"
| "super_affine_visit ad (PreTupleVar t) v = at_depth0 (add_affine t) v"
| "super_affine_visit ad (PreVar t) v = at_depth0 (add_affine t) v"
| "super_affine_visit ad (PreTupleExp t) v = at_depth0 (add_affine t) v"
| "super_affine_visit ad (PreExp e) v =
     (if isExpression e then Inr (v\<lparr>ufcDepth := map_option (\<lambda>d. d + 1) (ufcDepth v)\<rparr>)
      else Inr (v\<lparr>ufcDepth := Some 0, affineExp := Some Exp_new\<rparr>))"
| "super_affine_visit ad (PostExp e) v =
     (if isExpression e then Inr (v\<lparr>ufcDepth := map_option (\<lambda>d. d - 1) (ufcDepth v)\<rparr>)
      else finish_exp ad e v)"
| "super_affine_visit ad x v = collect_visit ad x v"

definition super_affine_run :: "addr_order \<Rightarrow> visit list \<Rightarrow> ufcall_map \<Rightarrow> affine_visitor res" where
  "super_affine_run ad visits imap = foldm (super_affine_visit ad) visits (affine_visitor_new imap)"

definition Set_superAffineSet ::
  "world \<Rightarrow> environment \<Rightarrow> ufcall_map \<Rightarrow> bool \<Rightarrow> iset \<Rightarrow> (iset \<times> ufcall_map) res" where
  "Set_superAffineSet w env m boundUFCs this =
     bindr (Set_copy (env_world w env) this) (\<lambda>result.
     if length (set_conjs result) = 0 then Inr (result, m)
     else
       bindr (if boundUFCs then Set_boundDomainRange w env this else Set_copy (env_world w env) this) (\<lambda>copySet.
       bindr (super_affine_run (address_order w) (Set_acceptVisitor copySet) m) (\<lambda>v.
       case affineSet v of None \<Rightarrow> Inl NullDeref | Some s \<Rightarrow> Inr (s, ufcmap v))))"

definition Relation_superAffineRelation ::
  "world \<Rightarrow> environment \<Rightarrow> ufcall_map \<Rightarrow> bool \<Rightarrow> irel \<Rightarrow> (irel \<times> ufcall_map) res" where
  "Relation_superAffineRelation w env m boundUFCs this =
     (if length (rel_conjs this) = 0
      then bindr (Relation_copy (env_world w env) this) (\<lambda>result. Inr (result, m))
      else
        bindr (if boundUFCs then Relation_boundDomainRange w env this else Relation_copy (env_world w env) this) (\<lambda>copyRelation.
        bindr (super_affine_run (address_order w) (Relation_acceptVisitor copyRelation) m) (\<lambda>v.
        case affineRelation v of None \<Rightarrow> Inl NullDeref | Some r \<Rightarrow> Inr (r, ufcmap v))))"

definition Relation_superAffineRelation_new :: "world \<Rightarrow> environment \<Rightarrow> irel \<Rightarrow> irel res" where
  "Relation_superAffineRelation_new w env this =
     bindr (Relation_superAffineRelation w env UFCallMap_new True this) (\<lambda>(r, m). Inr r)"

section \<open>Putting the calls back\<close>

text \<open>The same record: \<open>ufcDepth\<close> is \<open>Some 0\<close> for the flag \<open>visit\<close>, \<open>Some 1\<close> for its negation.\<close>

fun reverse_affine_visit :: "addr_order \<Rightarrow> visit \<Rightarrow> affine_visitor \<Rightarrow> affine_visitor res" where
  "reverse_affine_visit ad (PreTerm t) v = at_depth0 (add_affine t) v"
| "reverse_affine_visit ad (PreUFCall t) v =
     Inl (Assert ''VisitorReverseAffineSubstitution:                              An UFCall term found in affine set!'')"
| "reverse_affine_visit ad (PreTupleVar t) v = at_depth0 (add_affine t) v"
| "reverse_affine_visit ad (PreVar t) v =
     at_depth0 (\<lambda>v. case ucm_find_var ad t (ufcmap v) of
       None \<Rightarrow> add_affine t v
     | Some ufc \<Rightarrow> add_affine (setCoefficient (coefficient t) ufc) v) v"
| "reverse_affine_visit ad (PreTupleExp t) v = at_depth0 (add_affine t) v"
| "reverse_affine_visit ad (PreExp e) v =
     (if isExpression e then Inr (v\<lparr>ufcDepth := Some 1\<rparr>)
      else Inr (v\<lparr>ufcDepth := Some 0, affineExp := Some Exp_new\<rparr>))"
| "reverse_affine_visit ad (PostExp e) v =
     (if isExpression e then Inr (v\<lparr>ufcDepth := Some 0\<rparr>) else finish_exp ad e v)"
| "reverse_affine_visit ad x v = collect_visit ad x v"

definition Set_reverseAffineSubstitution :: "addr_order \<Rightarrow> ufcall_map \<Rightarrow> iset \<Rightarrow> iset res" where
  "Set_reverseAffineSubstitution ad m this =
     bindr (foldm (reverse_affine_visit ad) (Set_acceptVisitor this) (affine_visitor_new m)) (\<lambda>v.
     case affineSet v of None \<Rightarrow> Inl NullDeref | Some s \<Rightarrow> Inr s)"

definition Relation_reverseAffineSubstitution :: "addr_order \<Rightarrow> ufcall_map \<Rightarrow> irel \<Rightarrow> irel res" where
  "Relation_reverseAffineSubstitution ad m this =
     bindr (foldm (reverse_affine_visit ad) (Relation_acceptVisitor this) (affine_visitor_new m)) (\<lambda>v.
     case affineRelation v of None \<Rightarrow> Inl NullDeref | Some r \<Rightarrow> Inr r)"

section \<open>Normalization\<close>

definition Set_normalize ::
  "world \<Rightarrow> environment \<Rightarrow> (string \<Rightarrow> string) \<Rightarrow> (string \<Rightarrow> iset res) \<Rightarrow> bool \<Rightarrow> iset \<Rightarrow> iset res" where
  "Set_normalize w env thru_isl parse_set bdr this =
     bindr (sparse_indexUFCs w env (set_conjs this)) (\<lambda>cs.
     bindr (Set_superAffineSet w env UFCallMap_new bdr (this\<lparr>set_conjs := cs\<rparr>)) (\<lambda>(superset_copy, uf_call_map).
     bindr (passSetThruISL (env_world w env) thru_isl parse_set superset_copy) (\<lambda>superset_normalized.
     bindr (Set_reverseAffineSubstitution (address_order w) uf_call_map superset_normalized) (\<lambda>normalized_copy.
     Set_copy (env_world w env) normalized_copy))))"

definition Relation_normalize ::
  "world \<Rightarrow> environment \<Rightarrow> (string \<Rightarrow> string) \<Rightarrow> (string \<Rightarrow> irel res) \<Rightarrow> bool \<Rightarrow> irel \<Rightarrow> irel res" where
  "Relation_normalize w env thru_isl parse_rel bdr this =
     bindr (sparse_indexUFCs w env (rel_conjs this)) (\<lambda>cs.
     bindr (Relation_superAffineRelation w env UFCallMap_new bdr (this\<lparr>rel_conjs := cs\<rparr>)) (\<lambda>(superset_copy, uf_call_map).
     bindr (passRelationThruISL (env_world w env) thru_isl parse_rel superset_copy) (\<lambda>superset_normalized.
     bindr (Relation_reverseAffineSubstitution (address_order w) uf_call_map superset_normalized) (\<lambda>normalized_copy.
     Relation_copy (env_world w env) normalized_copy))))"

end
