(* ===== verification/IEG_Projection.thy ===== *)
theory IEG_Projection
  imports IEG_SuperAffine
begin

text \<open>
  Projecting out tuple variables, removing expensive constraints, and the simplification for
  partial parallelism built on them (\<open>set_relation.cc\<close>). ISL projects a single affine
  conjunction; it is the argument \<open>isl_project\<close>, the parser the argument \<open>parse_set\<close>.
\<close>

section \<open>Projecting each conjunction\<close>

record project_visitor =
  mNewConj :: sparse
  newSet :: "iset option"
  newRelation :: "irel option"

definition project_visitor_new :: project_visitor where
  "project_visitor_new = \<lparr>mNewConj = [], newSet = None, newRelation = None\<rparr>"

text \<open>The input arity after the projection, as the constructor computes it.\<close>

definition adjusted_arity :: "nat \<Rightarrow> int \<Rightarrow> int" where
  "adjusted_arity tvar ia = (if int tvar < ia \<and> ia \<noteq> 0 then ia - 1 else ia)"

definition project_conj ::
  "world \<Rightarrow> (nat \<Rightarrow> string \<Rightarrow> string) \<Rightarrow> (string \<Rightarrow> iset res) \<Rightarrow> nat \<Rightarrow> int \<Rightarrow> conj \<Rightarrow> conj option res" where
  "project_conj w isl_project parse_set tvar ia c =
     bindr (setInArity 0 c) (\<lambda>cc.
     bindr (Set_new (address_order w) (conj_arity cc)) (\<lambda>cs.
     bindr (islSetProjectOut w isl_project parse_set
       (cs\<lparr>set_conjs := sparse_addConjunction (address_order w) cc (set_conjs cs)\<rparr>) tvar) (\<lambda>islSet.
     case set_conjs islSet of
       [] \<Rightarrow> Inr None
     | front # _ \<Rightarrow> bindr (setInArity ia front) (\<lambda>crc. Inr (Some crc)))))"

text \<open>A set of arity zero would give a declaration of size minus one, whose elements are then accessed.\<close>

fun project_visit ::
  "world \<Rightarrow> (nat \<Rightarrow> string \<Rightarrow> string) \<Rightarrow> (string \<Rightarrow> iset res) \<Rightarrow> nat \<Rightarrow> int \<Rightarrow> visit \<Rightarrow> project_visitor \<Rightarrow> project_visitor res" where
  "project_visit w isl_project parse_set tvar ia (PostConjunction c) v =
     bindr (project_conj w isl_project parse_set tvar ia c) (\<lambda>r.
     Inr (case r of None \<Rightarrow> v | Some crc \<Rightarrow> v\<lparr>mNewConj := mNewConj v @ [crc]\<rparr>))"
| "project_visit w isl_project parse_set tvar ia (PostSet s) v =
     (if mArity s = 0 then Inl OutOfBounds
      else bindr (Set_new (address_order w) (mArity s - 1)) (\<lambda>r.
        Inr (v\<lparr>newSet := Some (r\<lparr>set_conjs := fold (sparse_addConjunction (address_order w)) (mNewConj v) (set_conjs r)\<rparr>)\<rparr>)))"
| "project_visit w isl_project parse_set tvar ia (PostRelation r) v =
     (let (i, out) = (if int tvar < inArity r then (inArity r - 1, outArity r) else (inArity r, outArity r - 1)) in
      bindr (foldm (rel_addConjunction (address_order w)) (mNewConj v) (Relation_new i out)) (\<lambda>r'.
      Inr (v\<lparr>newRelation := Some r'\<rparr>)))"
| "project_visit w isl_project parse_set tvar ia _ v = Inr v"

section \<open>Renumbering the tuple variables in calls\<close>

text \<open>The calls come from the map, where they still have the tuple variables from before.\<close>

fun shift_term :: "int \<Rightarrow> bool \<Rightarrow> trm \<Rightarrow> trm"
and shift_exp :: "int \<Rightarrow> bool \<Rightarrow> exp \<Rightarrow> exp" where
  "shift_term tvar in_call (TupleVarTerm c l) = (if in_call \<and> l > tvar then TupleVarTerm c (l - 1) else TupleVarTerm c l)"
| "shift_term tvar in_call (UFCallTerm c f es i) = UFCallTerm c f (map (shift_exp tvar True) es) i"
| "shift_term tvar in_call (Term c) = Term c"
| "shift_term tvar in_call (VarTerm c s) = VarTerm c s"
| "shift_term tvar in_call (TupleExpTerm c es) = TupleExpTerm c es"
| "shift_exp tvar in_call (Exp ts ty) = Exp (map (shift_term tvar in_call) ts) ty"

definition conj_shift :: "int \<Rightarrow> conj \<Rightarrow> conj" where
  "conj_shift tvar c =
     c\<lparr>mEqualities := map (shift_exp tvar False) (mEqualities c),
       mInequalities := map (shift_exp tvar False) (mInequalities c)\<rparr>"

section \<open>projectOut\<close>

definition Set_projectOut ::
  "world \<Rightarrow> environment \<Rightarrow> (nat \<Rightarrow> string \<Rightarrow> string) \<Rightarrow> (string \<Rightarrow> iset res) \<Rightarrow> nat \<Rightarrow> iset \<Rightarrow> iset option res" where
  "Set_projectOut w env isl_project parse_set tvar this =
     (if isUFCallParam (int tvar) (set_conjs this) then Inr None
      else
        bindr (Set_superAffineSet w env UFCallMap_new False this) (\<lambda>(sup_s, ufcmap).
        bindr (foldm (project_visit (env_world w env) isl_project parse_set tvar (adjusted_arity tvar 0))
          (Set_acceptVisitor sup_s) project_visitor_new) (\<lambda>pv.
        case newSet pv of
          None \<Rightarrow> Inl NullDeref
        | Some sup_s \<Rightarrow>
            bindr (Set_reverseAffineSubstitution (address_order w) ufcmap sup_s) (\<lambda>result.
            Inr (Some (result\<lparr>set_conjs := map (conj_shift (int tvar)) (set_conjs result)\<rparr>))))))"

definition Relation_projectOut ::
  "world \<Rightarrow> environment \<Rightarrow> (nat \<Rightarrow> string \<Rightarrow> string) \<Rightarrow> (string \<Rightarrow> iset res) \<Rightarrow> nat \<Rightarrow> irel \<Rightarrow> irel option res" where
  "Relation_projectOut w env isl_project parse_set tvar this =
     (if isUFCallParam (int tvar) (rel_conjs this) then Inr None
      else
        bindr (Relation_superAffineRelation w env UFCallMap_new False this) (\<lambda>(sup_r, ufcmap).
        bindr (foldm (project_visit (env_world w env) isl_project parse_set tvar (adjusted_arity tvar (inArity sup_r)))
          (Relation_acceptVisitor sup_r) project_visitor_new) (\<lambda>pv.
        case newRelation pv of
          None \<Rightarrow> Inl NullDeref
        | Some sup_r \<Rightarrow>
            bindr (Relation_reverseAffineSubstitution (address_order w) ufcmap sup_r) (\<lambda>result.
            Inr (Some (result\<lparr>rel_conjs := map (conj_shift (int tvar)) (rel_conjs result)\<rparr>))))))"

section \<open>Constraints with a tuple variable in a call\<close>

record arg_visitor =
  seenTupleVar :: bool
  UFCLevel :: int

text \<open>What the two visitors have in common: \<open>preVisitTupleVarTerm\<close>, \<open>preVisitExp\<close> and the change
  of level in \<open>postVisitExp\<close>.\<close>

fun arg_visit :: "int \<Rightarrow> visit \<Rightarrow> 'a arg_visitor_scheme \<Rightarrow> 'a arg_visitor_scheme" where
  "arg_visit mTupleID (PreTupleVar (TupleVarTerm c l)) v =
     (if UFCLevel v > 0 \<and> l = mTupleID then v\<lparr>seenTupleVar := True\<rparr> else v)"
| "arg_visit mTupleID (PreExp e) v =
     (if isEquality e \<or> isInequality e then v\<lparr>UFCLevel := 0, seenTupleVar := False\<rparr>
      else if isExpression e then v\<lparr>UFCLevel := UFCLevel v + 1\<rparr> else v)"
| "arg_visit mTupleID (PostExp e) v = (if isExpression e then v\<lparr>UFCLevel := UFCLevel v - 1\<rparr> else v)"
| "arg_visit mTupleID _ v = v"

record count_visitor = arg_visitor +
  num_consts :: nat

definition set_mem :: "('a \<Rightarrow> 'a \<Rightarrow> bool) \<Rightarrow> 'a \<Rightarrow> 'a list \<Rightarrow> bool" where
  "set_mem lt x xs \<longleftrightarrow> list_ex (\<lambda>y. \<not> lt x y \<and> \<not> lt y x) xs"

fun count_visit :: "addr_order \<Rightarrow> int \<Rightarrow> exp list \<Rightarrow> visit \<Rightarrow> count_visitor \<Rightarrow> count_visitor" where
  "count_visit ad mTupleID ignore (PostExp e) v =
     (if \<not> isExpression e \<and> seenTupleVar v \<and> \<not> set_mem (exp_less ad) e ignore
      then v\<lparr>num_consts := num_consts v + 1\<rparr> else arg_visit mTupleID (PostExp e) v)"
| "count_visit ad mTupleID ignore x v = arg_visit mTupleID x v"

definition numUFCallConstsMustRemove :: "addr_order \<Rightarrow> int \<Rightarrow> exp list \<Rightarrow> sparse \<Rightarrow> nat" where
  "numUFCallConstsMustRemove ad i ignore cs =
     num_consts (fold (count_visit ad i ignore) (sparse_acceptVisitor cs)
       \<lparr>seenTupleVar = False, UFCLevel = 0, num_consts = 0\<rparr>)"

record remove_visitor = arg_visitor +
  redSparseConstraints :: "sparse option"
  redConj :: "conj option"
  mRedConj :: sparse

definition keep_constraint :: "addr_order \<Rightarrow> exp \<Rightarrow> remove_visitor \<Rightarrow> remove_visitor res" where
  "keep_constraint ad e v =
     (case redConj v of
        None \<Rightarrow> Inl NullDeref
      | Some c \<Rightarrow> Inr (v\<lparr>redConj := Some (if isInequality e then addInequality ad e c else addEquality ad e c)\<rparr>))"

fun remove_visit :: "addr_order \<Rightarrow> int \<Rightarrow> visit \<Rightarrow> remove_visitor \<Rightarrow> remove_visitor res" where
  "remove_visit ad mTupleID (PostExp e) v =
     (if \<not> isExpression e \<and> \<not> seenTupleVar v then keep_constraint ad e v
      else Inr (arg_visit mTupleID (PostExp e) v))"
| "remove_visit ad mTupleID (PreConjunction c) v =
     bindr (setInArity (mInArity c) (Conjunction_tdecl (getTupleDecl c))) (\<lambda>r. Inr (v\<lparr>redConj := Some r\<rparr>))"
| "remove_visit ad mTupleID (PostConjunction c) v =
     (case redConj v of
        None \<Rightarrow> Inl NullDeref
      | Some r \<Rightarrow> Inr (v\<lparr>redConj := None, mRedConj := mRedConj v @ [r]\<rparr>))"
| "remove_visit ad mTupleID (PostSparse cs) v =
     Inr (v\<lparr>redSparseConstraints := Some (fold (sparse_addConjunction ad) (mRedConj v) [])\<rparr>)"
| "remove_visit ad mTupleID x v = Inr (arg_visit mTupleID x v)"

definition remove_visitor_new :: remove_visitor where
  "remove_visitor_new =
     \<lparr>seenTupleVar = False, UFCLevel = 0, redSparseConstraints = None, redConj = None, mRedConj = []\<rparr>"

definition removeUFCallConsts :: "world \<Rightarrow> int \<Rightarrow> sparse \<Rightarrow> sparse res" where
  "removeUFCallConsts w i this =
     bindr (foldm (remove_visit (address_order w) i) (sparse_acceptVisitor this) remove_visitor_new) (\<lambda>v.
     case redSparseConstraints v of None \<Rightarrow> Inl NullDeref | Some result \<Rightarrow> sparse_copy w result)"

fun expensive_loop :: "world \<Rightarrow> int set \<Rightarrow> exp list \<Rightarrow> int list \<Rightarrow> int \<Rightarrow> sparse \<Rightarrow> sparse res" where
  "expensive_loop w parallelTvs ignore [] mNumConstsToRemove this = Inr this"
| "expensive_loop w parallelTvs ignore (i # is) mNumConstsToRemove this =
     (if i \<in> parallelTvs then expensive_loop w parallelTvs ignore is mNumConstsToRemove this
      else
        let nConstsToRemove = int (numUFCallConstsMustRemove (address_order w) i ignore this) in
        if nConstsToRemove > mNumConstsToRemove then expensive_loop w parallelTvs ignore is mNumConstsToRemove this
        else bindr (removeUFCallConsts w i this) (\<lambda>this.
          expensive_loop w parallelTvs ignore is (mNumConstsToRemove - nConstsToRemove) this))"

definition down_from :: "nat \<Rightarrow> int list" where
  "down_from n = map int (rev [0..<n])"

text \<open>The arity is a virtual method of the object.\<close>

definition removeExpensiveConstraints :: "world \<Rightarrow> nat \<Rightarrow> int set \<Rightarrow> int \<Rightarrow> exp list \<Rightarrow> sparse \<Rightarrow> sparse res" where
  "removeExpensiveConstraints w arity parallelTvs mNumConstsToRemove ignore this =
     expensive_loop w parallelTvs ignore (down_from arity) mNumConstsToRemove this"

section \<open>Simplification for partial parallelism\<close>

fun simplify_loop ::
  "(nat \<Rightarrow> 'a \<Rightarrow> 'a option res) \<Rightarrow> ('a \<Rightarrow> bool res) \<Rightarrow> int set \<Rightarrow> int list \<Rightarrow> 'a \<Rightarrow> 'a option res" where
  "simplify_loop projectOut isDef parallelTvs [] result = Inr (Some result)"
| "simplify_loop projectOut isDef parallelTvs (i # is) result =
     (if i \<in> parallelTvs then simplify_loop projectOut isDef parallelTvs is result
      else
        bindr (projectOut (nat i) result) (\<lambda>temp.
        let result = (case temp of None \<Rightarrow> result | Some t \<Rightarrow> t) in
        bindr (isDef result) (\<lambda>d.
        if d then Inr None else simplify_loop projectOut isDef parallelTvs is result)))"

definition Set_simplifyForPartialParallel ::
  "world \<Rightarrow> environment \<Rightarrow> (nat \<Rightarrow> string \<Rightarrow> string) \<Rightarrow> (string \<Rightarrow> iset res) \<Rightarrow> int set \<Rightarrow> iset \<Rightarrow> iset option res" where
  "Set_simplifyForPartialParallel w env isl_project parse_set parallelTvs this =
     bindr (Set_copy (env_world w env) this) (\<lambda>result.
     simplify_loop (Set_projectOut w env isl_project parse_set) (isDefault (env_world w env)) parallelTvs
       (down_from (mArity this)) result)"

definition Relation_simplifyForPartialParallel ::
  "world \<Rightarrow> environment \<Rightarrow> (nat \<Rightarrow> string \<Rightarrow> string) \<Rightarrow> (string \<Rightarrow> iset res) \<Rightarrow> int set \<Rightarrow> irel \<Rightarrow> irel option res" where
  "Relation_simplifyForPartialParallel w env isl_project parse_set parallelTvs this =
     bindr (Relation_copy (env_world w env) this) (\<lambda>result.
     simplify_loop (Relation_projectOut w env isl_project parse_set) (Relation_isDefault (env_world w env)) parallelTvs
       (down_from (nat (rel_arity this))) result)"

end
