(* ===== verification/IEG_Values.thy ===== *)
theory IEG_Values
  imports IEG_ConjSem
begin

text \<open>
  Adding terms and constraints for any way to give factors a value. A valuation is one; another
  gives a call a value under other tuple variables than the rest of its expression, as it
  happens while a tuple variable is projected out.
\<close>

locale factor_values =
  fixes val :: "trm \<Rightarrow> int"
  assumes val_set: "val (setCoefficient c t) = val t"
    and val_match: "plain_term t \<Longrightarrow> plain_term u \<Longrightarrow> factorMatches t u \<Longrightarrow> val t = val u"
begin

definition vsum :: "trm list \<Rightarrow> int" where
  "vsum ts = (\<Sum>t\<leftarrow>ts. coefficient t * val t)"

definition veval :: "exp \<Rightarrow> int" where
  "veval e = vsum (mTerms e)"

definition vsat :: "conj \<Rightarrow> bool" where
  "vsat c \<longleftrightarrow> (\<forall>e \<in> set (mEqualities c). veval e = 0) \<and> (\<forall>e \<in> set (mInequalities c). veval e \<ge> 0)"

lemma vsum_simps [simp]: "vsum [] = 0" "vsum (t # ts) = coefficient t * val t + vsum ts"
  by (simp_all add: vsum_def)

lemma vsum_addTerm_loop:
  "plain_term t \<Longrightarrow> list_all plain_term ts \<Longrightarrow> vsum (addTerm_loop t ts) = vsum ts + coefficient t * val t"
  by (induction ts)
    (auto simp: combine_eq plain_not_tuple val_match val_set algebra_simps add_eq_0_iff split: if_splits)

lemma veval_addTerm: "plain_term t \<Longrightarrow> plain_exp e \<Longrightarrow> veval (addTerm t e) = veval e + coefficient t * val t"
  by (cases e) (simp add: veval_def addTerm_def vsum_addTerm_loop)

lemma veval_new [simp]: "veval Exp_new = 0"
  by (simp add: veval_def Exp_new_def)

lemma veval_type [simp]: "veval (setEquality e) = veval e" "veval (setInequality e) = veval e"
  by (cases e; simp add: veval_def)+

lemma veval_multiplyBy: "veval (multiplyBy k e) = k * veval e"
proof -
  have "vsum (map (term_multiplyBy k) ts) = k * vsum ts" for ts
    by (induction ts) (simp_all add: term_multiplyBy_def val_set algebra_simps)
  then show ?thesis by (simp add: multiplyBy_def veval_def)
qed

lemma vsum_butlast: "ts \<noteq> [] \<Longrightarrow> coefficient (last ts) = 0 \<Longrightarrow> vsum (butlast ts) = vsum ts"
  by (induction ts) auto

lemma veval_normalize: "veval (normalizeForEquality e) = 0 \<longleftrightarrow> veval e = 0"
proof -
  have drop: "veval (if coefficient (last (mTerms e)) = 0 then Exp (butlast (mTerms e)) (mExpType e) else e) = veval e"
    if "mTerms e \<noteq> []" for e using that by (simp add: vsum_butlast veval_def)
  have "mTerms (multiplyBy (-1) e) = [] \<longleftrightarrow> mTerms e = []" by (simp add: multiplyBy_def)
  then show ?thesis
    using drop [of e] drop [of "multiplyBy (-1) e"] veval_multiplyBy [of "-1" e]
    by (cases "mTerms e = []"; cases "coefficient (hd (mTerms e)) < 0")
      (simp_all add: normalizeForEquality_def Let_def split del: if_split)
qed

lemma veval_equalsZero: "equalsZero e \<Longrightarrow> veval e = 0"
  by (cases e; cases "mTerms e"; cases "tl (mTerms e)") (auto simp: equalsZero_def veval_def length_Suc_conv)

lemma val_fkey: "plain_term t \<Longrightarrow> plain_term u \<Longrightarrow> fkey t = fkey u \<Longrightarrow> val t = val u"
  by (rule val_match) (cases t; cases u; auto simp: factorMatches_def term_factorMatches_def)+

lemma vsum_keys:
  "map tkey ts = map tkey us \<Longrightarrow> list_all plain_term ts \<Longrightarrow> list_all plain_term us \<Longrightarrow> vsum ts = vsum us"
proof (induction ts arbitrary: us)
  case (Cons t ts)
  then obtain u us' where "us = u # us'" by (cases us) auto
  with Cons val_fkey [of t u] show ?case by (auto simp: tkey_def)
qed simp

lemma veval_eq:
  assumes "\<not> exp_less ad a b" and "\<not> exp_less ad b a" and "plain_exp a" and "plain_exp b"
  shows "veval a = veval b"
proof -
  have "ekey a = ekey b" using assms exps.equiv_key [of a b ad] plain_no_tuple by simp
  with assms(3,4) show ?thesis using vsum_keys [of "mTerms a" "mTerms b"] by (simp add: ekey_def veval_def plain_mTerms)
qed

lemma vall_insert:
  assumes "\<forall>x \<in> insert e (set es). plain_exp x"
  shows "(\<forall>x \<in> set (insert_unique (exp_less ad) e es). P (veval x)) \<longleftrightarrow> P (veval e) \<and> (\<forall>x \<in> set es. P (veval x))"
  using assms
proof (induction es)
  case (Cons y ys)
  show ?case
  proof (cases "exp_less ad e y \<or> exp_less ad y e")
    case False
    then have "veval e = veval y" using veval_eq [of ad e y] Cons.prems by simp
    with False Cons show ?thesis by auto
  qed (use Cons in auto)
qed simp

lemma vsat_addEquality:
  assumes "plain_exp e" and "plain_conj c"
  shows "plain_conj (addEquality ad e c) \<and> (vsat (addEquality ad e c) \<longleftrightarrow> vsat c \<and> veval e = 0)"
proof -
  let ?e = "setEquality (normalizeForEquality e)"
  have p: "plain_exp ?e" using assms by (simp add: plain_intros)
  have pc: "plain_conj (addEquality ad e c)" using sat_addEquality [OF assms] by blast
  have "(\<forall>x \<in> set (insert_unique (exp_less ad) ?e (mEqualities c)). veval x = 0) \<longleftrightarrow>
      veval ?e = 0 \<and> (\<forall>x \<in> set (mEqualities c). veval x = 0)"
    by (rule vall_insert) (use p assms(2) in \<open>auto simp: plain_conj_def list_all_iff\<close>)
  then show ?thesis
    using pc veval_equalsZero [of "normalizeForEquality e"] veval_normalize [of e]
    by (auto simp: addEquality_def Let_def vsat_def)
qed

lemma vsat_addInequality:
  assumes "plain_exp e" and "plain_conj c"
  shows "plain_conj (addInequality ad e c) \<and> (vsat (addInequality ad e c) \<longleftrightarrow> vsat c \<and> veval e \<ge> 0)"
proof -
  have pc: "plain_conj (addInequality ad e c)" using sat_addInequality [OF assms] by blast
  have "(\<forall>x \<in> set (insert_unique (exp_less ad) (setInequality e) (mInequalities c)). veval x \<ge> 0) \<longleftrightarrow>
      veval (setInequality e) \<ge> 0 \<and> (\<forall>x \<in> set (mInequalities c). veval x \<ge> 0)"
    by (rule vall_insert) (use assms in \<open>auto simp: plain_conj_def list_all_iff\<close>)
  then show ?thesis using pc veval_equalsZero [of e] by (auto simp: addInequality_def vsat_def)
qed

end

interpretation valued: factor_values "factor_val v" for v
  by unfold_locales (simp_all add: factorMatches_val)

lemma valued_eval [simp]: "valued.veval v e = eval_exp v e"
  by (simp add: valued.veval_def valued.vsum_def eval_exp_terms eval_terms_def)

lemma valued_sat: "valued.vsat v c \<longleftrightarrow> sat_constraints v c"
  by (simp add: valued.vsat_def sat_constraints_def zeros_def nonnegs_def)

end
