(* ===== verification/IEG_AffineProps.thy ===== *)
theory IEG_AffineProps
  imports IEG_Projection IEG_Values
begin

text \<open>
  What replacing calls by symbols and symbols by calls does to the tuples of a set. The two
  visitors share everything but the replacement of a single term; the locale states what a
  replacement has to promise, and it is interpreted on both.
\<close>

section \<open>Loops\<close>

lemma foldm_concat: "foldm f (concat xss) s = foldm (\<lambda>xs s. foldm f xs s) xss s"
proof (induction xss arbitrary: s)
  case (Cons xs xss)
  then show ?case by (cases "foldm f xs s") (simp_all add: foldm_append)
qed simp

lemma foldm_map: "foldm f (map g xs) s = foldm (\<lambda>x s. f (g x) s) xs s"
proof (induction xs arbitrary: s)
  case (Cons x xs)
  then show ?case by (cases "f (g x) s") simp_all
qed simp

lemma foldm_same: "(\<And>x. x \<in> set xs \<Longrightarrow> f x s = Inr s) \<Longrightarrow> foldm f xs s = Inr s"
  by (induction xs) simp_all

section \<open>The interface of a replacement\<close>

text \<open>
  \<open>V\<close> is a valuation for what is visited, \<open>val\<close> the value of factors in the result. \<open>agrees m\<close>
  relates them by the entries of the map; it is stronger for a larger map.
\<close>

locale affine_replacement = factor_values val for val +
  fixes step :: "visit \<Rightarrow> affine_visitor \<Rightarrow> affine_visitor res" and ad :: addr_order
    and repl :: "trm \<Rightarrow> ufcall_map \<Rightarrow> (trm \<times> ufcall_map) res" and good :: "trm \<Rightarrow> bool"
    and invar :: "ufcall_map \<Rightarrow> bool" and ext :: "ufcall_map \<Rightarrow> ufcall_map \<Rightarrow> bool"
    and agrees :: "ufcall_map \<Rightarrow> bool" and V :: valuation
  assumes term_law: "good t \<Longrightarrow> ufcDepth v = Some 0 \<Longrightarrow> affineExp v = Some e \<Longrightarrow>
      foldm step (term_acceptVisitor t) v =
      bindr (repl t (ufcmap v)) (\<lambda>(t', m). Inr (v\<lparr>ufcmap := m, affineExp := Some (addTerm t' e)\<rparr>))"
    and pre_law: "\<not> isExpression x \<Longrightarrow> step (PreExp x) v = Inr (v\<lparr>ufcDepth := Some 0, affineExp := Some Exp_new\<rparr>)"
    and post_law: "\<not> isExpression x \<Longrightarrow> step (PostExp x) v = finish_exp ad x v"
    and conj_law: "step (PreConjunction c) v = collect_visit ad (PreConjunction c) v"
      "step (PostConjunction c) v = collect_visit ad (PostConjunction c) v"
    and repl_law: "invar m \<Longrightarrow> good t \<Longrightarrow> repl t m = Inr (t', m') \<Longrightarrow>
      invar m' \<and> ext m m' \<and> plain_term t'
      \<and> (agrees m' \<longrightarrow> coefficient t' * val t' = coefficient t * factor_val V t)"
    and ext_refl: "ext m m" and ext_trans: "ext m m' \<Longrightarrow> ext m' m'' \<Longrightarrow> ext m m''"
    and agrees_mono: "ext m m' \<Longrightarrow> agrees m' \<Longrightarrow> agrees m"
begin

lemma terms_run:
  assumes "foldm step (concat (map term_acceptVisitor ts)) v = Inr v'" and "list_all good ts"
    and "ufcDepth v = Some 0" and "affineExp v = Some e" and "plain_exp e" and "invar (ufcmap v)"
  shows "\<exists>e'. plain_exp e' \<and> v' = v\<lparr>ufcmap := ufcmap v', affineExp := Some e'\<rparr> \<and> invar (ufcmap v') \<and> ext (ufcmap v) (ufcmap v')
    \<and> (agrees (ufcmap v') \<longrightarrow> veval e' = veval e + eval_terms V ts)"
  using assms
proof (induction ts arbitrary: v e)
  case Nil
  then show ?case by (auto simp: ext_refl)
next
  case (Cons t ts)
  obtain v1 where v1: "foldm step (term_acceptVisitor t) v = Inr v1"
    and rest: "foldm step (concat (map term_acceptVisitor ts)) v1 = Inr v'"
    using Cons.prems(1) by (auto simp: foldm_append bindr_eq_Inr)
  have "bindr (repl t (ufcmap v)) (\<lambda>(t', m). Inr (v\<lparr>ufcmap := m, affineExp := Some (addTerm t' e)\<rparr>)) = Inr v1"
    using v1 term_law [of t v e] Cons.prems(2-4) by simp
  then obtain t' m where t': "repl t (ufcmap v) = Inr (t', m)" "v1 = v\<lparr>ufcmap := m, affineExp := Some (addTerm t' e)\<rparr>"
    by (auto simp: bindr_eq_Inr)
  have r: "invar m" "ext (ufcmap v) m" "plain_term t'"
    "agrees m \<longrightarrow> coefficient t' * val t' = coefficient t * factor_val V t"
    using repl_law [OF Cons.prems(6) _ t'(1)] Cons.prems(2) by simp_all
  have pe: "plain_exp (addTerm t' e)" using r(3) Cons.prems(5) by (rule plain_addTerm)
  obtain e' where e': "plain_exp e'" "v' = v1\<lparr>ufcmap := ufcmap v', affineExp := Some e'\<rparr>" "invar (ufcmap v')" "ext m (ufcmap v')"
    "agrees (ufcmap v') \<longrightarrow> veval e' = veval (addTerm t' e) + eval_terms V ts"
    using Cons.IH [OF rest, of "addTerm t' e"] Cons.prems(2,3) t'(2) r(1) pe by auto
  have "ext (ufcmap v) (ufcmap v')" using ext_trans [OF r(2) e'(4)] .
  moreover have "veval e' = veval e + eval_terms V (t # ts)" if "agrees (ufcmap v')"
    using e'(5) r(4) agrees_mono [OF e'(4)] that veval_addTerm [OF r(3) Cons.prems(5)] by simp
  ultimately show ?case using e'(1-3) t'(2) by (intro exI [of _ e']) simp
qed

definition good_exp :: "exp \<Rightarrow> bool" where
  "good_exp e \<longleftrightarrow> \<not> isExpression e \<and> list_all good (mTerms e)"

lemma exp_run:
  assumes "foldm step (exp_acceptVisitor e) v = Inr v'" and "good_exp e" and "invar (ufcmap v)"
    and "affineConj v = Some c"
  shows "\<exists>e'. plain_exp e' \<and> invar (ufcmap v') \<and> ext (ufcmap v) (ufcmap v') \<and> maffineConj v' = maffineConj v
    \<and> affineConj v' = Some (if isInequality e then addInequality ad e' c else addEquality ad e' c)
    \<and> (agrees (ufcmap v') \<longrightarrow> veval e' = eval_exp V e)"
proof -
  obtain ts ty where e: "e = Exp ts ty" by (cases e) auto
  let ?v = "v\<lparr>ufcDepth := Some 0, affineExp := Some Exp_new\<rparr>"
  have ne: "\<not> isExpression e" "list_all good ts" using assms(2) by (simp_all add: good_exp_def e)
  obtain v1 where v1: "foldm step (concat (map term_acceptVisitor ts)) ?v = Inr v1" "finish_exp ad e v1 = Inr v'"
    using assms(1) ne(1) by (auto simp: e pre_law post_law foldm_append bindr_eq_Inr)
  obtain e' where e': "plain_exp e'" "v1 = ?v\<lparr>ufcmap := ufcmap v1, affineExp := Some e'\<rparr>" "invar (ufcmap v1)" "ext (ufcmap v) (ufcmap v1)"
    "agrees (ufcmap v1) \<longrightarrow> veval e' = veval Exp_new + eval_terms V ts"
    using terms_run [OF v1(1) ne(2), of Exp_new] assms(3) plain_new by auto
  have "affineExp v1 = Some e'" "affineConj v1 = Some c" "maffineConj v1 = maffineConj v"
    by (subst e'(2); simp add: assms(4))+
  then have "v' = v1\<lparr>affineConj := Some (if isInequality e then addInequality ad e' c else addEquality ad e' c), affineExp := None\<rparr>"
    using v1(2) by (simp add: finish_exp_def)
  then show ?thesis using e'(1,3-5) \<open>maffineConj v1 = maffineConj v\<close> by (intro exI [of _ e']) (simp add: e)
qed

definition wants :: "valuation \<Rightarrow> exp \<Rightarrow> bool" where
  "wants v e \<longleftrightarrow> (if isInequality e then eval_exp v e \<ge> 0 else eval_exp v e = 0)"

lemma exps_run:
  assumes "foldm step (concat (map exp_acceptVisitor es)) v = Inr v'" and "list_all good_exp es"
    and "invar (ufcmap v)" and "affineConj v = Some c" and "plain_conj c"
  shows "\<exists>c'. plain_conj c' \<and> affineConj v' = Some c' \<and> mTupleDecl c' = mTupleDecl c \<and> mInArity c' = mInArity c
    \<and> maffineConj v' = maffineConj v \<and> invar (ufcmap v') \<and> ext (ufcmap v) (ufcmap v')
    \<and> (agrees (ufcmap v') \<longrightarrow> (vsat c' \<longleftrightarrow> vsat c \<and> (\<forall>e \<in> set es. wants V e)))"
  using assms
proof (induction es arbitrary: v c)
  case Nil
  then show ?case by (auto simp: ext_refl)
next
  case (Cons e es)
  obtain v1 where v1: "foldm step (exp_acceptVisitor e) v = Inr v1"
    and rest: "foldm step (concat (map exp_acceptVisitor es)) v1 = Inr v'"
    using Cons.prems(1) by (auto simp: foldm_append bindr_eq_Inr)
  obtain e' where e': "plain_exp e'" "invar (ufcmap v1)" "ext (ufcmap v) (ufcmap v1)" "maffineConj v1 = maffineConj v"
    "affineConj v1 = Some (if isInequality e then addInequality ad e' c else addEquality ad e' c)"
    "agrees (ufcmap v1) \<longrightarrow> veval e' = eval_exp V e"
    using exp_run [OF v1 _ Cons.prems(3,4)] Cons.prems(2) by auto
  let ?c = "if isInequality e then addInequality ad e' c else addEquality ad e' c"
  have c: "plain_conj ?c" "mTupleDecl ?c = mTupleDecl c" "mInArity ?c = mInArity c"
    "vsat ?c \<longleftrightarrow> vsat c \<and> (if isInequality e then veval e' \<ge> 0 else veval e' = 0)"
    using vsat_addInequality [OF e'(1) Cons.prems(5), of ad] vsat_addEquality [OF e'(1) Cons.prems(5), of ad]
    by (auto simp: addInequality_def addEquality_def Let_def)
  obtain c' where c': "plain_conj c'" "affineConj v' = Some c'" "mTupleDecl c' = mTupleDecl ?c" "mInArity c' = mInArity ?c"
    "maffineConj v' = maffineConj v1" "invar (ufcmap v')" "ext (ufcmap v1) (ufcmap v')"
    "agrees (ufcmap v') \<longrightarrow> (vsat c' \<longleftrightarrow> vsat ?c \<and> (\<forall>e \<in> set es. wants V e))"
    using Cons.IH [OF rest _ e'(2,5) c(1)] Cons.prems(2) by auto
  have "ext (ufcmap v) (ufcmap v')" using ext_trans [OF e'(3) c'(7)] .
  moreover have "vsat c' \<longleftrightarrow> vsat c \<and> (\<forall>e \<in> set (e # es). wants V e)"
    if "agrees (ufcmap v')"
    using c'(8) that c(4) e'(6) agrees_mono [OF c'(7) that] by (auto simp: wants_def)
  ultimately show ?case using c'(1-6) c(2,3) e'(4) by (intro exI [of _ c']) simp
qed

definition good_conj :: "conj \<Rightarrow> bool" where
  "good_conj c \<longleftrightarrow> list_all good_exp (conj_exps c) \<and> list_all (\<lambda>e. \<not> isInequality e) (mEqualities c)
     \<and> list_all isInequality (mInequalities c)"

definition converted :: "ufcall_map \<Rightarrow> conj \<Rightarrow> conj \<Rightarrow> bool" where
  "converted m c c' \<longleftrightarrow> plain_conj c' \<and> mTupleDecl c' = mTupleDecl c \<and> mInArity c' = mInArity c
     \<and> (agrees m \<longrightarrow> (vsat c' \<longleftrightarrow> sat_constraints V c))"

lemma converted_mono: "ext m m' \<Longrightarrow> converted m c c' \<Longrightarrow> converted m' c c'"
  using agrees_mono by (auto simp: converted_def)

lemma conj_run:
  assumes "foldm step (conj_acceptVisitor c) v = Inr v'" and "good_conj c" and "invar (ufcmap v)"
  shows "\<exists>c'. maffineConj v' = maffineConj v @ [c'] \<and> converted (ufcmap v') c c'
    \<and> invar (ufcmap v') \<and> ext (ufcmap v) (ufcmap v')"
proof -
  have acc: "conj_acceptVisitor c = PreConjunction c # concat (map exp_acceptVisitor (conj_exps c)) @ [PostConjunction c]"
    by (simp add: conj_acceptVisitor_def conj_exps_def)
  obtain v1 v2 where v1: "collect_visit ad (PreConjunction c) v = Inr v1"
    and v2: "foldm step (concat (map exp_acceptVisitor (conj_exps c))) v1 = Inr v2"
    and v': "collect_visit ad (PostConjunction c) v2 = Inr v'"
    using assms(1) by (auto simp: acc conj_law foldm_append bindr_eq_Inr)
  let ?c = "Conjunction_tdecl (getTupleDecl c)\<lparr>mInArity := mInArity c\<rparr>"
  have "v1 = v\<lparr>affineConj := Some ?c\<rparr>"
    using v1 by (auto simp: setInArity_def bindr_eq_Inr split: if_splits)
  moreover have "plain_conj ?c" by (simp add: plain_conj_def Conjunction_tdecl_def)
  ultimately obtain c' where c': "plain_conj c'" "affineConj v2 = Some c'" "mTupleDecl c' = mTupleDecl ?c" "mInArity c' = mInArity ?c"
    "maffineConj v2 = maffineConj v" "invar (ufcmap v2)" "ext (ufcmap v) (ufcmap v2)"
    "agrees (ufcmap v2) \<longrightarrow> (vsat c' \<longleftrightarrow> vsat ?c \<and> (\<forall>e \<in> set (conj_exps c). wants V e))"
    using exps_run [OF v2, of ?c] assms(2,3) by (auto simp: good_conj_def)
  have "vsat ?c" by (simp add: vsat_def Conjunction_tdecl_def)
  moreover have "(\<forall>e \<in> set (conj_exps c). wants V e) \<longleftrightarrow> sat_constraints V c"
    using assms(2) by (auto simp: good_conj_def conj_exps_def sat_constraints_def zeros_def nonnegs_def wants_def list_all_iff)
  moreover have "v' = v2\<lparr>affineConj := None, maffineConj := maffineConj v2 @ [c']\<rparr>" using v' c'(2) by simp
  ultimately show ?thesis
    using c' by (intro exI [of _ c']) (simp add: converted_def getTupleDecl_def Conjunction_tdecl_def)
qed

lemma conjs_run:
  assumes "foldm step (concat (map conj_acceptVisitor cs)) v = Inr v'" and "list_all good_conj cs" and "invar (ufcmap v)"
  shows "\<exists>ds. maffineConj v' = maffineConj v @ ds \<and> list_all2 (converted (ufcmap v')) cs ds
    \<and> invar (ufcmap v') \<and> ext (ufcmap v) (ufcmap v')"
  using assms
proof (induction cs arbitrary: v)
  case Nil
  then show ?case by (auto simp: ext_refl)
next
  case (Cons c cs)
  obtain v1 where v1: "foldm step (conj_acceptVisitor c) v = Inr v1"
    and rest: "foldm step (concat (map conj_acceptVisitor cs)) v1 = Inr v'"
    using Cons.prems(1) by (auto simp: foldm_append bindr_eq_Inr)
  obtain c' where c': "maffineConj v1 = maffineConj v @ [c']" "converted (ufcmap v1) c c'" "invar (ufcmap v1)" "ext (ufcmap v) (ufcmap v1)"
    using conj_run [OF v1] Cons.prems(2,3) by auto
  obtain ds where ds: "maffineConj v' = maffineConj v1 @ ds" "list_all2 (converted (ufcmap v')) cs ds"
    "invar (ufcmap v')" "ext (ufcmap v1) (ufcmap v')"
    using Cons.IH [OF rest] Cons.prems(2) c'(3) by auto
  show ?case
    using ds c' converted_mono [OF ds(4) c'(2)] ext_trans [OF c'(4) ds(4)] by (intro exI [of _ "c' # ds"]) simp
qed

end

section \<open>Symbols for calls\<close>

definition sym_of :: "tuple_decl option \<Rightarrow> trm \<Rightarrow> string res" where
  "sym_of td u = call_symbol u (UFCallMap_new\<lparr>ucm_tupleDecl := td\<rparr>)"

text \<open>Different calls have different symbols, and the symbols are identifiers.\<close>

definition apart :: "tuple_decl option \<Rightarrow> trm list \<Rightarrow> bool" where
  "apart td K \<longleftrightarrow>
     list_all (\<lambda>u. is_call u \<and> coefficient u = 1 \<and> plain_term u
       \<and> (case sym_of td u of Inl e \<Rightarrow> True | Inr s \<Rightarrow> plain_term (VarTerm 1 s))) K
     \<and> list_all (\<lambda>u. list_all (\<lambda>u'. sym_of td u = sym_of td u' \<longrightarrow> same_call u u') K) K"

definition super_repl :: "addr_order \<Rightarrow> trm \<Rightarrow> ufcall_map \<Rightarrow> (trm \<times> ufcall_map) res" where
  "super_repl ad t m =
     (if is_call t then bindr (ucm_find_call ad t m) (\<lambda>(vt, m'). Inr (setCoefficient (coefficient t) vt, m'))
      else Inr (t, m))"

definition super_good :: "trm list \<Rightarrow> valuation \<Rightarrow> valuation \<Rightarrow> trm \<Rightarrow> bool" where
  "super_good K V V' t \<longleftrightarrow> plain_term t \<and> list_all isExpression (term_args t)
     \<and> (is_call t \<longrightarrow> setCoefficient 1 t \<in> set K) \<and> (\<forall>c s. t = VarTerm c s \<longrightarrow> symv V' s = symv V s)"

definition super_invar :: "tuple_decl option \<Rightarrow> trm list \<Rightarrow> valuation \<Rightarrow> valuation \<Rightarrow> ufcall_map \<Rightarrow> bool" where
  "super_invar td K V V' m \<longleftrightarrow> apart td K \<and> tvv V' = tvv V \<and> ucm_ok m \<and> ucm_tupleDecl m = td
     \<and> fst ` set (mUFC2VarParam m) \<subseteq> set K"

definition ucm_ext :: "ufcall_map \<Rightarrow> ufcall_map \<Rightarrow> bool" where
  "ucm_ext m m' \<longleftrightarrow> set (mUFC2VarParam m) \<subseteq> set (mUFC2VarParam m')"

definition super_agrees :: "valuation \<Rightarrow> valuation \<Rightarrow> ufcall_map \<Rightarrow> bool" where
  "super_agrees V V' m \<longleftrightarrow> (\<forall>(u, vt) \<in> set (mUFC2VarParam m). factor_val V' vt = factor_val V u)"

lemma super_deep:
  "list_all isExpression (term_args t) \<Longrightarrow> ufcDepth v = Some d \<Longrightarrow> d > 0 \<Longrightarrow>
     foldm (super_affine_visit ad) (term_acceptVisitor t) v = Inr v"
  "list_all isExpression (exp_args e) \<Longrightarrow> isExpression e \<Longrightarrow> ufcDepth v = Some d \<Longrightarrow> d \<ge> 0 \<Longrightarrow>
     foldm (super_affine_visit ad) (exp_acceptVisitor e) v = Inr v"
proof (induction t and e arbitrary: v d and v d rule: term_acceptVisitor_exp_acceptVisitor.induct)
  case (2 c f es i)
  have "foldm (super_affine_visit ad) (exp_acceptVisitor a) v = Inr v" if "a \<in> set es" for a
    using 2(1) [OF that _ _ 2(3)] 2(2,4) that by (auto simp: list_all_iff)
  then have "foldm (\<lambda>a. foldm (super_affine_visit ad) (exp_acceptVisitor a)) es v = Inr v" by (rule foldm_same)
  then show ?case using 2(3,4) by (simp add: foldm_append foldm_concat foldm_map at_depth0_def)
next
  case (6 ts ty)
  let ?v = "v\<lparr>ufcDepth := Some (d + 1)\<rparr>"
  have "foldm (super_affine_visit ad) (term_acceptVisitor t) ?v = Inr ?v" if "t \<in> set ts" for t
    using 6(1) [OF that, of ?v "d + 1"] 6(2,5) that by (auto simp: list_all_iff)
  then have "foldm (\<lambda>t. foldm (super_affine_visit ad) (term_acceptVisitor t)) ts ?v = Inr ?v" by (rule foldm_same)
  then show ?case using 6(3,4) by (simp add: foldm_append foldm_concat foldm_map)
qed (simp_all add: at_depth0_def)

lemma super_term_law:
  assumes "super_good K V V' t" and "ufcDepth v = Some 0" and "affineExp v = Some e"
  shows "foldm (super_affine_visit ad) (term_acceptVisitor t) v =
    bindr (super_repl ad t (ufcmap v)) (\<lambda>(t', m). Inr (v\<lparr>ufcmap := m, affineExp := Some (addTerm t' e)\<rparr>))"
proof (cases t)
  case (UFCallTerm c f es i)
  have "foldm (super_affine_visit ad) (exp_acceptVisitor a) u = Inr u" if "ufcDepth u = Some 0" "a \<in> set es" for a u
    using super_deep(2) [OF _ _ that(1), of a ad] assms(1) that(2)
    by (auto simp: super_good_def UFCallTerm list_all_iff)
  then have "foldm (\<lambda>a. foldm (super_affine_visit ad) (exp_acceptVisitor a)) es u = Inr u" if "ufcDepth u = Some 0" for u
    by (rule foldm_same) (use that in blast)
  then show ?thesis
    using assms(2,3)
    by (cases "ucm_find_call ad t (ufcmap v)")
      (simp_all add: UFCallTerm super_repl_def is_call_def at_depth0_def add_affine_def
        foldm_append foldm_concat foldm_map split: prod.splits)
qed (use assms in \<open>simp_all add: super_repl_def is_call_def at_depth0_def add_affine_def super_good_def\<close>)

lemma apartD:
  assumes "apart td K" and "u \<in> set K"
  shows "is_call u" and "coefficient u = 1" and "plain_term u" and "sym_of td u = Inr s \<Longrightarrow> plain_term (VarTerm 1 s)"
    and "u' \<in> set K \<Longrightarrow> sym_of td u = sym_of td u' \<Longrightarrow> same_call u u'"
  using assms by (auto simp: apart_def list_all_iff)

lemma call_symbol_sym_of: "ucm_tupleDecl m = td \<Longrightarrow> call_symbol u m = sym_of td u"
  by (simp add: sym_of_def call_symbol_def)

lemma super_repl_law:
  assumes "super_invar td K V V' m" and "super_good K V V' t" and "super_repl ad t m = Inr (t', m')"
  shows "super_invar td K V V' m' \<and> ucm_ext m m' \<and> plain_term t'
    \<and> (super_agrees V V' m' \<longrightarrow> coefficient t' * factor_val V' t' = coefficient t * factor_val V t)"
proof (cases "is_call t")
  case False
  then have "factor_val V' t = factor_val V t"
    using assms(1,2) by (cases t) (auto simp: is_call_def super_good_def super_invar_def)
  with False assms show ?thesis by (auto simp: super_repl_def super_good_def ucm_ext_def)
next
  case True
  obtain vt where vt: "ucm_find_call ad t m = Inr (vt, m')" "t' = setCoefficient (coefficient t) vt"
    using assms(3) True by (auto simp: super_repl_def bindr_eq_Inr)
  have m: "apart td K" "tvv V' = tvv V" "ucm_ok m" "ucm_tupleDecl m = td" "fst ` set (mUFC2VarParam m) \<subseteq> set K"
    using assms(1) by (simp_all add: super_invar_def)
  have t: "plain_term t" "setCoefficient 1 t \<in> set K" using assms(2) True by (simp_all add: super_good_def)
  note find = ucm_find_call_facts [OF vt(1) m(3) True]
  have K': "fst ` set (mUFC2VarParam m') \<subseteq> set K"
    using subset_trans [OF image_mono [OF find(4), of fst]] t(2) m(5) by simp
  obtain u where u: "(u, vt) \<in> set (mUFC2VarParam m')"
    "same_call u t \<or> (u, vt) \<in> set (mUFC2VarParam m) \<and> call_symbol u m = call_symbol (setCoefficient 1 t) m"
    using find(5) by blast
  have uK: "u \<in> set K" using u(1) K' by force
  have same: "same_call u t"
    using u(2) apartD(5) [OF m(1) uK t(2)] by (auto simp: call_symbol_sym_of [OF m(4)] same_call_def)
  obtain s where s: "vt = VarTerm 1 s" "call_symbol u m' = Inr s" using ucm_okD(4) [OF find(1) u(1)] by blast
  have "plain_term vt" using apartD(4) [OF m(1) uK] s call_symbol_sym_of [of m' td u] find(2) m(4) by simp
  moreover have "factor_val V u = factor_val V t"
    using fkey_val [OF apartD(3) [OF m(1) uK] t(1)] same by (simp add: same_call_def)
  moreover have "super_agrees V V' m' \<Longrightarrow> factor_val V' vt = factor_val V u" using u(1) by (auto simp: super_agrees_def)
  moreover have "super_invar td K V V' m'" using m find(1,2) K' by (simp add: super_invar_def)
  ultimately show ?thesis using find(3) s(1) by (simp add: vt(2) ucm_ext_def)
qed

interpretation affine: affine_replacement "factor_val V'" "super_affine_visit ad" ad "super_repl ad" "super_good K V V'"
  "super_invar td K V V'" ucm_ext "super_agrees V V'" V for V' ad td K V
proof unfold_locales
  show "super_invar td K V V' m' \<and> ucm_ext m m' \<and> plain_term t'
      \<and> (super_agrees V V' m' \<longrightarrow> coefficient t' * factor_val V' t' = coefficient t * factor_val V t)"
    if "super_invar td K V V' m" "super_good K V V' t" "super_repl ad t m = Inr (t', m')" for m t t' m'
    using super_repl_law [OF that] .
qed (auto simp: ucm_ext_def super_agrees_def super_term_law)

section \<open>Calls for symbols\<close>

definition back_repl :: "addr_order \<Rightarrow> trm \<Rightarrow> ufcall_map \<Rightarrow> (trm \<times> ufcall_map) res" where
  "back_repl ad t m =
     (case t of
        VarTerm c s \<Rightarrow>
          (case ucm_find_var ad t m of None \<Rightarrow> Inr (t, m) | Some u \<Rightarrow> Inr (setCoefficient c u, m))
      | _ \<Rightarrow> Inr (t, m))"

definition back_good :: "trm \<Rightarrow> bool" where
  "back_good t \<longleftrightarrow> plain_term t \<and> \<not> is_call t"

text \<open>
  The value of a factor of the result: the calls are those of the map, renumbered if a tuple
  variable has been projected out.
\<close>

definition renumber :: "int option \<Rightarrow> trm \<Rightarrow> trm" where
  "renumber p t = (case p of None \<Rightarrow> t | Some k \<Rightarrow> shift_term k False t)"

definition back_val :: "int option \<Rightarrow> valuation \<Rightarrow> trm \<Rightarrow> int" where
  "back_val p V t = factor_val V (renumber p t)"

definition back_agrees :: "int option \<Rightarrow> valuation \<Rightarrow> valuation \<Rightarrow> ufcall_map \<Rightarrow> bool" where
  "back_agrees p V' V m \<longleftrightarrow> (\<forall>(u, vt) \<in> set (mUFC2VarParam m). factor_val V vt = back_val p V' u)"

definition back_invar :: "addr_order \<Rightarrow> ufcall_map \<Rightarrow> valuation \<Rightarrow> valuation \<Rightarrow> ufcall_map \<Rightarrow> bool" where
  "back_invar ad M V V' m \<longleftrightarrow> m = M \<and> ucm_ok M \<and> tvv V' = tvv V \<and> list_all (\<lambda>(u, vt). plain_term u) (mUFC2VarParam M)
     \<and> (\<forall>s. ucm_find_var ad (VarTerm 1 s) M = None \<longrightarrow> symv V' s = symv V s)"

lemma shift_set: "shift_term k b (setCoefficient c t) = setCoefficient c (shift_term k b t)"
  by (cases t) simp_all

lemma shift_coefficient [simp]: "coefficient (shift_term k b t) = coefficient t"
  by (cases t) simp_all

lemma shift_canon: "shift_term k b (canon_term t) = canon_term (shift_term k b t)"
  "shift_exp k b (canon e) = canon (shift_exp k b e)"
  by (induction t and e arbitrary: b and b) simp_all

lemma shift_match:
  assumes "plain_term t" and "plain_term u" and "factorMatches t u"
  shows "factor_val V (shift_term k False t) = factor_val V (shift_term k False u)"
proof (cases t)
  case (UFCallTerm c f es i)
  then obtain c' es' i' where u: "u = UFCallTerm c' f es' i'" "tupleIndex i = tupleIndex i'"
    "argsToStream True False es = argsToStream True False es'"
    using assms(3) by (cases u) (auto simp: factorMatches_def)
  have "map canon es = map canon es'"
    using args_unique assms(1,2) UFCallTerm u by (metis plain_term.simps(4))
  then have "map (shift_exp k True) (map canon es) = map (shift_exp k True) (map canon es')" by simp
  then have "map (eval_exp V) (map (\<lambda>e. canon (shift_exp k True e)) es) = map (eval_exp V) (map (\<lambda>e. canon (shift_exp k True e)) es')"
    by (simp add: shift_canon comp_def)
  then have "map (eval_exp V) (map (shift_exp k True) es) = map (eval_exp V) (map (shift_exp k True) es')"
    by (simp add: eval_canon comp_def)
  with UFCallTerm u show ?thesis by simp
qed (use assms in \<open>cases u; auto simp: factorMatches_def term_factorMatches_def\<close>)+

lemma back_val_simps [simp]:
  "back_val p V (Term c) = 1" "back_val p V (TupleVarTerm c l) = tvv V l" "back_val p V (VarTerm c s) = symv V s"
  "back_val p V (setCoefficient c t) = back_val p V t"
  by (cases p; simp add: back_val_def renumber_def shift_set)+

lemma back_term_law:
  assumes "back_good t" and "ufcDepth v = Some 0" and "affineExp v = Some e"
  shows "foldm (reverse_affine_visit ad) (term_acceptVisitor t) v =
    bindr (back_repl ad t (ufcmap v)) (\<lambda>(t', m). Inr (v\<lparr>ufcmap := m, affineExp := Some (addTerm t' e)\<rparr>))"
  using assms
  by (cases t) (auto simp: back_repl_def back_good_def is_call_def at_depth0_def add_affine_def split: option.splits)

lemma back_repl_law:
  assumes "back_invar ad M V V' m" and "back_good t" and "back_repl ad t m = Inr (t', m')"
  shows "back_invar ad M V V' m' \<and> m = m' \<and> plain_term t'
    \<and> (back_agrees p V' V m' \<longrightarrow> coefficient t' * back_val p V' t' = coefficient t * factor_val V t)"
proof (cases t)
  case (VarTerm c s)
  have m: "m = M" "ucm_ok M" "\<And>u vt. (u, vt) \<in> set (mUFC2VarParam M) \<Longrightarrow> plain_term u"
    "\<And>s. ucm_find_var ad (VarTerm 1 s) M = None \<Longrightarrow> symv V' s = symv V s"
    using assms(1) by (auto simp: back_invar_def list_all_iff)
  show ?thesis
  proof (cases "ucm_find_var ad t m")
    case None
    then have "ucm_find_var ad (VarTerm 1 s) M = None" by (simp add: VarTerm m(1) ucm_find_var_def)
    with m(4) have "symv V' s = symv V s" by blast
    with None assms show ?thesis by (auto simp: VarTerm back_repl_def back_good_def)
  next
    case (Some u)
    then have u: "(u, VarTerm 1 s) \<in> set (mUFC2VarParam M)"
      using ucm_find_var_iff [OF m(2)] by (simp add: VarTerm m(1))
    have "is_call u" using ucm_okD(4) [OF m(2) u] by blast
    moreover have "m' = M" "t' = setCoefficient c u" using assms(3) Some m(1) by (simp_all add: VarTerm back_repl_def)
    moreover have "back_agrees p V' V M \<Longrightarrow> symv V s = back_val p V' u" using u by (fastforce simp: back_agrees_def)
    ultimately show ?thesis using m(1) m(3) [OF u] assms(1) by (simp add: VarTerm)
  qed
qed (use assms in \<open>auto simp: back_repl_def back_good_def back_invar_def is_call_def\<close>)

interpretation restored: affine_replacement "back_val p V'" "reverse_affine_visit ad" ad "back_repl ad" back_good
  "back_invar ad M V V'" "(=)" "back_agrees p V' V" V for p V' ad M V
proof unfold_locales
  show "back_val p V' t = back_val p V' u" if "plain_term t" "plain_term u" "factorMatches t u" for t u
    using that shift_match factorMatches_val by (cases p) (simp_all add: back_val_def renumber_def)
  show "back_invar ad M V V' m' \<and> m = m' \<and> plain_term t'
      \<and> (back_agrees p V' V m' \<longrightarrow> coefficient t' * back_val p V' t' = coefficient t * factor_val V t)"
    if "back_invar ad M V V' m" "back_good t" "back_repl ad t m = Inr (t', m')" for m t t' m'
    using back_repl_law [OF that] .
qed (auto simp: back_term_law)

section \<open>Sets\<close>

lemma Set_new_ok: "Set_new ad n = Inr s \<Longrightarrow> length (set_conjs s) = 1"
  by (auto simp: Set_new_def bindr_eq_Inr sparse_addConjunction_def drop_true_def)

lemma fold_add_drop:
  assumes "drop_true cs0 = []" and "ds \<noteq> []"
  shows "fold (sparse_addConjunction ad) ds cs0 = fold (sparse_addConjunction ad) ds []"
  using assms by (cases ds) (simp_all add: sparse_addConjunction_def drop_true_def)

text \<open>Both visitors do the same with a set, whatever they do with its terms.\<close>

lemma set_visit:
  assumes run: "foldm step (Set_acceptVisitor s) v0 = Inr v"
    and laws: "\<And>c v. step (PreSet c) v = Inr v" "\<And>c v. step (PostSet c) v = collect_visit ad (PostSet c) v"
      "\<And>c v. step (PreSparse c) v = Inr v" "\<And>c v. step (PostSparse c) v = Inr v"
  shows "\<exists>v1 s0. foldm step (concat (map conj_acceptVisitor (set_conjs s))) v0 = Inr v1 \<and> Set_new ad (mArity s) = Inr s0
    \<and> v = v1\<lparr>affineSet := Some (s0\<lparr>set_conjs := fold (sparse_addConjunction ad) (maffineConj v1) (set_conjs s0)\<rparr>)\<rparr>"
  using run by (auto simp: Set_acceptVisitor_def sparse_acceptVisitor_def laws foldm_append bindr_eq_Inr)

text \<open>The conjunctions of the new set are those that were collected, up to the order's equality.\<close>

lemma fold_add_keys:
  assumes "list_all okc ds" and "list_all hasConstraints ds" and "list_all okc cs" and "list_all hasConstraints cs"
  shows "ckey ` set (fold (sparse_addConjunction ad) ds cs) = ckey ` set ds \<union> ckey ` set cs"
  using assms
proof (induction ds arbitrary: cs)
  case (Cons d ds)
  have "ckey ` set (sparse_addConjunction ad d cs) = insert (ckey d) (ckey ` set cs)"
    using conjs.key_insert [of d cs ad] Cons.prems by (simp add: sparse_addConjunction_def drop_true_constrained)
  moreover have "list_all okc (sparse_addConjunction ad d cs)" using addConjunction_facts [of d cs ad] Cons.prems by simp
  moreover have "list_all hasConstraints (sparse_addConjunction ad d cs)"
    using Cons.prems by (simp add: sparse_addConjunction_def drop_true_constrained hasConstraints_insert)
  ultimately show ?case using Cons.IH [of "sparse_addConjunction ad d cs"] Cons.prems by auto
qed simp

lemma visited_set:
  assumes "Set_new ad n = Inr s0" and "ds \<noteq> []" and "list_all okc ds" and "proper ds"
  shows "list_all okc (fold (sparse_addConjunction ad) ds (set_conjs s0))
    \<and> ckey ` set (fold (sparse_addConjunction ad) ds (set_conjs s0)) = ckey ` set ds"
proof -
  have eq: "fold (sparse_addConjunction ad) ds (set_conjs s0) = fold (sparse_addConjunction ad) ds []"
    by (rule fold_add_drop [OF Set_new_true(1) [OF assms(1)] assms(2)])
  have "ckey ` set (fold (sparse_addConjunction ad) ds []) = ckey ` set ds"
  proof (cases "length ds \<le> 1")
    case True
    then obtain d where "ds = [d]" using assms(2) by (cases ds) auto
    then show ?thesis by (simp add: sparse_addConjunction_def drop_true_def)
  next
    case False
    then show ?thesis using assms(3,4) fold_add_keys [of ds "[]" ad] by (simp add: proper_def)
  qed
  with eq add_proper [OF assms(3,4), of ad] show ?thesis by simp
qed

lemma same_keys_ex:
  assumes "ckey ` set cs = ckey ` set ds" and "list_all okc cs" and "list_all okc ds"
    and "\<And>c d. okc c \<Longrightarrow> okc d \<Longrightarrow> ckey c = ckey d \<Longrightarrow> P c \<longleftrightarrow> P d"
  shows "(\<exists>c \<in> set cs. P c) \<longleftrightarrow> (\<exists>d \<in> set ds. P d)"
proof
  assume "\<exists>c \<in> set cs. P c"
  then obtain c where c: "c \<in> set cs" "P c" by blast
  have "ckey c \<in> ckey ` set ds" using imageI [OF c(1), of ckey] unfolding assms(1) .
  then obtain d where "d \<in> set ds" "ckey c = ckey d" by (rule imageE)
  then show "\<exists>d \<in> set ds. P d" using c assms(2,3) assms(4) [of c d] by (auto simp: list_all_iff)
next
  assume "\<exists>d \<in> set ds. P d"
  then obtain d where d: "d \<in> set ds" "P d" by blast
  have "ckey d \<in> ckey ` set cs" using imageI [OF d(1), of ckey] unfolding assms(1) [symmetric] .
  then obtain c where "c \<in> set cs" "ckey d = ckey c" by (rule imageE)
  then show "\<exists>c \<in> set cs. P c" using d assms(2,3) assms(4) [of c d] by (auto simp: list_all_iff)
qed

context factor_values
begin

definition vholds :: "sparse \<Rightarrow> int list \<Rightarrow> bool" where
  "vholds cs xs \<longleftrightarrow> (\<exists>c \<in> set cs. admits (mTupleDecl c) xs \<and> vsat c)"

lemma vsat_key:
  assumes "ckey a = ckey b" and "okc a" and "okc b"
  shows "vsat a \<longleftrightarrow> vsat b"
proof -
  have vals: "map veval xs = map veval ys" if "map ekey xs = map ekey ys" "list_all plain_exp xs" "list_all plain_exp ys" for xs ys
    using that
  proof (induction xs arbitrary: ys)
    case (Cons x xs)
    then obtain y ys' where y: "ys = y # ys'" by (cases ys) auto
    have "veval x = veval y"
      using Cons.prems vsum_keys [of "mTerms x" "mTerms y"] by (simp add: y ekey_def veval_def plain_mTerms)
    with Cons y show ?case by simp
  qed simp
  have "map veval (mEqualities a) = map veval (mEqualities b)" "map veval (mInequalities a) = map veval (mInequalities b)"
    by (rule vals; use assms in \<open>simp add: ckey_def okc_def plain_conj_def\<close>)+
  from all_map_eq [OF this(1), of "\<lambda>x. x = 0"] all_map_eq [OF this(2), of "\<lambda>x. x \<ge> 0"] show ?thesis
    unfolding vsat_def by blast
qed

lemma vholds_converted:
  assumes "list_all2 (\<lambda>c c'. plain_conj c' \<and> mTupleDecl c' = mTupleDecl c \<and> mInArity c' = mInArity c
      \<and> (vsat c' \<longleftrightarrow> sat_constraints (at_tuple v xs) c)) cs ds"
    and "list_all okc cs"
  shows "list_all okc ds \<and> (vholds ds xs \<longleftrightarrow> sparse_holds v cs xs)"
  using assms by (induction rule: list_all2_induct) (auto simp: okc_def holds_def vholds_def sparse_holds_def)

lemma vholds_visited:
  assumes "Set_new ad n = Inr s0" and "ds \<noteq> []" and "list_all okc ds" and "proper ds"
  shows "vholds (fold (sparse_addConjunction ad) ds (set_conjs s0)) xs \<longleftrightarrow> vholds ds xs"
  unfolding vholds_def
proof (rule same_keys_ex)
  fix c d assume "okc c" "okc d" "ckey c = ckey d"
  moreover from this have "admits (mTupleDecl c) xs \<longleftrightarrow> admits (mTupleDecl d) xs"
    by (simp add: ckey_def tdkey_def okc_def admits_consts)
  ultimately show "admits (mTupleDecl c) xs \<and> vsat c \<longleftrightarrow> admits (mTupleDecl d) xs \<and> vsat d"
    using vsat_key by blast
qed (use visited_set [OF assms, of] assms(3) in auto)

end

lemma valued_holds: "valued.vholds (at_tuple v xs) cs xs \<longleftrightarrow> sparse_holds v cs xs"
  by (simp add: valued.vholds_def sparse_holds_def holds_def valued_sat)

text \<open>
  The valuation in which each symbol of the map stands for its call at the tuple \<open>xs\<close>, and the
  sets that the visitor accepts: the arguments of calls are of the kind \<open>Expression\<close>, constraints
  are not, and the symbols of the set are none of the map.
\<close>

definition sym_values :: "ufcall_map \<Rightarrow> int list \<Rightarrow> valuation \<Rightarrow> valuation" where
  "sym_values m xs v = v\<lparr>symv := \<lambda>s. case ucm_find_var no_addr (VarTerm 1 s) m of
     None \<Rightarrow> symv v s | Some u \<Rightarrow> factor_val (at_tuple v xs) u\<rparr>"

definition unit_calls :: "sparse \<Rightarrow> trm list" where
  "unit_calls cs = map (setCoefficient 1) (filter is_call (concat (map mTerms (concat (map conj_exps cs)))))"

definition visit_exp_ok :: "(trm \<Rightarrow> bool) \<Rightarrow> exp \<Rightarrow> bool" where
  "visit_exp_ok p e \<longleftrightarrow> \<not> isExpression e \<and> list_all p (mTerms e)"

definition visit_conj_ok :: "(trm \<Rightarrow> bool) \<Rightarrow> conj \<Rightarrow> bool" where
  "visit_conj_ok p c \<longleftrightarrow> list_all (visit_exp_ok p) (conj_exps c)
     \<and> list_all (\<lambda>e. \<not> isInequality e) (mEqualities c) \<and> list_all isInequality (mInequalities c)"

definition fresh_symbol :: "ufcall_map \<Rightarrow> trm \<Rightarrow> bool" where
  "fresh_symbol m t \<longleftrightarrow> (case t of VarTerm c s \<Rightarrow> ucm_find_var no_addr (VarTerm 1 s) m = None | _ \<Rightarrow> True)"

definition super_term_ok :: "ufcall_map \<Rightarrow> trm \<Rightarrow> bool" where
  "super_term_ok m t \<longleftrightarrow> plain_term t \<and> list_all isExpression (term_args t) \<and> fresh_symbol m t"

lemma sym_values_frame [simp]: "tvv (at_tuple (sym_values m xs v) ys) = tvv (at_tuple v ys)"
  "symv (at_tuple v ys) = symv v"
  by (simp_all add: at_tuple_def sym_values_def)

lemma sym_values_agrees:
  assumes "ucm_ok m"
  shows "super_agrees (at_tuple v xs) (at_tuple (sym_values m xs v) xs) m"
  unfolding super_agrees_def
proof (clarify)
  fix u vt assume u: "(u, vt) \<in> set (mUFC2VarParam m)"
  then obtain s where s: "vt = VarTerm 1 s" using ucm_okD(4) [OF assms u] by blast
  then have "ucm_find_var no_addr (VarTerm 1 s) m = Some u" using ucm_find_var_iff [OF assms] u by blast
  then show "factor_val (at_tuple (sym_values m xs v) xs) vt = factor_val (at_tuple v xs) u"
    by (simp add: s sym_values_def)
qed

lemma fresh_value: "fresh_symbol m (VarTerm c s) \<Longrightarrow> symv (sym_values m xs v) s = symv v s"
  by (simp add: fresh_symbol_def sym_values_def)

lemma visit_terms:
  assumes "list_all (visit_conj_ok p) cs" and "c \<in> set cs" and "e \<in> set (conj_exps c)" and "t \<in> set (mTerms e)"
  shows "p t"
  using assms unfolding visit_conj_ok_def visit_exp_ok_def list_all_iff by blast

lemma super_run:
  assumes run: "super_affine_run ad (Set_acceptVisitor s) UFCallMap_new = Inr v"
    and ok: "list_all okc (set_conjs s)" "set_conjs s \<noteq> []"
    and ready: "list_all (visit_conj_ok (super_term_ok (ufcmap v))) (set_conjs s)"
    and ap: "apart None (unit_calls (set_conjs s))" and prp: "proper (maffineConj v)"
  shows "\<exists>s'. affineSet v = Some s' \<and> list_all okc (set_conjs s') \<and> mArity s' = mArity s \<and> ucm_ok (ufcmap v)
    \<and> list_all (\<lambda>(u, vt). plain_term u) (mUFC2VarParam (ufcmap v))
    \<and> fst ` set (mUFC2VarParam (ufcmap v)) \<subseteq> set (unit_calls (set_conjs s))
    \<and> (sparse_holds (sym_values (ufcmap v) xs u) (set_conjs s') xs \<longleftrightarrow> sparse_holds u (set_conjs s) xs)"
proof -
  let ?K = "unit_calls (set_conjs s)" and ?V = "at_tuple u xs" and ?V' = "at_tuple (sym_values (ufcmap v) xs u) xs"
  obtain v1 s0 where v1: "foldm (super_affine_visit ad) (concat (map conj_acceptVisitor (set_conjs s))) (affine_visitor_new UFCallMap_new) = Inr v1"
    and s0: "Set_new ad (mArity s) = Inr s0"
    and v: "v = v1\<lparr>affineSet := Some (s0\<lparr>set_conjs := fold (sparse_addConjunction ad) (maffineConj v1) (set_conjs s0)\<rparr>)\<rparr>"
    using set_visit [where ?step = "super_affine_visit ad" and ?ad = ad, OF run [unfolded super_affine_run_def]] by auto
  have m: "ufcmap v = ufcmap v1" "maffineConj v = maffineConj v1" by (simp_all add: v)
  have good: "super_good ?K ?V ?V' t" if "c \<in> set (set_conjs s)" "e \<in> set (conj_exps c)" "t \<in> set (mTerms e)" for c e t
  proof -
    have t: "super_term_ok (ufcmap v) t" by (rule visit_terms [OF ready that])
    have "is_call t \<Longrightarrow> setCoefficient 1 t \<in> set ?K" using that by (fastforce simp: unit_calls_def)
    with t show ?thesis using fresh_value by (auto simp: super_good_def super_term_ok_def)
  qed
  then have "list_all (affine.good_conj ?K ?V ?V') (set_conjs s)"
    using ready by (auto simp: affine.good_conj_def affine.good_exp_def list_all_iff visit_conj_ok_def visit_exp_ok_def)
  moreover have "super_invar None ?K ?V ?V' (ufcmap (affine_visitor_new UFCallMap_new))"
    using ap ucm_ok_new(1) by (simp add: super_invar_def affine_visitor_new_def UFCallMap_new_def)
  ultimately obtain ds where ds: "maffineConj v1 = ds" "list_all2 (affine.converted ?V' ?V (ufcmap v1)) (set_conjs s) ds"
    and inv: "super_invar None ?K ?V ?V' (ufcmap v1)"
    using affine.conjs_run [OF v1] by (auto simp: affine_visitor_new_def)
  have okm: "ucm_ok (ufcmap v1)" using inv by (simp add: super_invar_def)
  have "list_all okc ds \<and> (valued.vholds ?V' ds xs \<longleftrightarrow> sparse_holds u (set_conjs s) xs)"
    by (rule valued.vholds_converted [OF _ ok(1)], rule list_all2_mono [OF ds(2)])
      (use sym_values_agrees [OF okm, of u xs] in \<open>simp add: affine.converted_def m\<close>)
  moreover have "ds \<noteq> []" using ds(2) ok(2) by auto
  moreover have "list_all (\<lambda>(u, vt). plain_term u) (mUFC2VarParam (ufcmap v1))"
    using inv by (fastforce simp: super_invar_def apart_def list_all_iff)
  moreover have "fst ` set (mUFC2VarParam (ufcmap v1)) \<subseteq> set ?K" using inv by (simp add: super_invar_def)
  ultimately show ?thesis
    using visited_set [OF s0, of ds] valued.vholds_visited [OF s0, of ds ?V' xs] prp ds(1) okm Set_new_true(2) [OF s0]
    by (auto simp: v valued_holds)
qed

text \<open>The symbols as the calls that are to replace them have their values.\<close>

definition back_values :: "int option \<Rightarrow> ufcall_map \<Rightarrow> int list \<Rightarrow> valuation \<Rightarrow> valuation" where
  "back_values p m xs v = v\<lparr>symv := \<lambda>s. case ucm_find_var no_addr (VarTerm 1 s) m of
     None \<Rightarrow> symv v s | Some u \<Rightarrow> back_val p (at_tuple v xs) u\<rparr>"

lemma back_values_None: "back_values None m xs v = sym_values m xs v"
proof -
  have "back_val None V = factor_val V" for V by (simp add: fun_eq_iff back_val_def renumber_def)
  then show ?thesis by (simp add: back_values_def sym_values_def cong: option.case_cong)
qed

lemma back_values_agrees:
  assumes "ucm_ok m"
  shows "back_agrees p (at_tuple v xs) (at_tuple (back_values p m xs v) xs) m"
  unfolding back_agrees_def
proof (clarify)
  fix u vt assume u: "(u, vt) \<in> set (mUFC2VarParam m)"
  then obtain s where s: "vt = VarTerm 1 s" using ucm_okD(4) [OF assms u] by blast
  then have "ucm_find_var no_addr (VarTerm 1 s) m = Some u" using ucm_find_var_iff [OF assms] u by blast
  then show "factor_val (at_tuple (back_values p m xs v) xs) vt = back_val p (at_tuple v xs) u"
    by (simp add: s back_values_def)
qed

lemma restored_sat:
  "restored.vsat None V c \<longleftrightarrow> sat_constraints V c"
  "restored.vsat (Some k) V c \<longleftrightarrow> sat_constraints V (conj_shift k c)"
proof -
  have "restored.veval None V e = eval_exp V e" for e
    by (simp add: restored.veval_def restored.vsum_def back_val_def renumber_def eval_exp_terms eval_terms_def)
  then show "restored.vsat None V c \<longleftrightarrow> sat_constraints V c"
    by (simp add: restored.vsat_def sat_constraints_def zeros_def nonnegs_def)
  have "restored.veval (Some k) V e = eval_exp V (shift_exp k False e)" for e
    by (cases e) (simp add: restored.veval_def restored.vsum_def back_val_def renumber_def eval_terms_def comp_def)
  then show "restored.vsat (Some k) V c \<longleftrightarrow> sat_constraints V (conj_shift k c)"
    by (simp add: restored.vsat_def sat_constraints_def zeros_def nonnegs_def conj_shift_def)
qed

lemma restored_holds:
  "restored.vholds None (at_tuple v xs) cs xs \<longleftrightarrow> sparse_holds v cs xs"
  "restored.vholds (Some k) (at_tuple v xs) cs xs \<longleftrightarrow> sparse_holds v (map (conj_shift k) cs) xs"
  by (simp_all add: restored.vholds_def sparse_holds_def holds_def restored_sat) (simp add: conj_shift_def)

lemma back_run:
  assumes run: "foldm (reverse_affine_visit ad) (Set_acceptVisitor s) (affine_visitor_new m) = Inr v"
    and ok: "list_all okc (set_conjs s)" "set_conjs s \<noteq> []"
    and ready: "list_all (visit_conj_ok back_good) (set_conjs s)"
    and m: "ucm_ok m" "list_all (\<lambda>(u, vt). plain_term u) (mUFC2VarParam m)" and prp: "proper (maffineConj v)"
  shows "\<exists>s'. affineSet v = Some s' \<and> list_all okc (set_conjs s') \<and> mArity s' = mArity s
    \<and> (restored.vholds p (at_tuple u xs) (set_conjs s') xs \<longleftrightarrow> sparse_holds (back_values p m xs u) (set_conjs s) xs)"
proof -
  let ?V' = "at_tuple u xs" and ?V = "at_tuple (back_values p m xs u) xs"
  obtain v1 s0 where v1: "foldm (reverse_affine_visit ad) (concat (map conj_acceptVisitor (set_conjs s))) (affine_visitor_new m) = Inr v1"
    and s0: "Set_new ad (mArity s) = Inr s0"
    and v: "v = v1\<lparr>affineSet := Some (s0\<lparr>set_conjs := fold (sparse_addConjunction ad) (maffineConj v1) (set_conjs s0)\<rparr>)\<rparr>"
    using set_visit [where ?step = "reverse_affine_visit ad" and ?ad = ad, OF run] by auto
  have "list_all restored.good_conj (set_conjs s)"
    using ready by (auto simp: restored.good_conj_def restored.good_exp_def list_all_iff visit_conj_ok_def visit_exp_ok_def)
  moreover have "ucm_find_var ad (VarTerm 1 s) m = None \<Longrightarrow> symv (back_values p m xs u) s = symv u s" for s
    using ucm_find_var_iff [OF m(1), of ad 1 s] ucm_find_var_iff [OF m(1), of no_addr 1 s]
    by (cases "ucm_find_var no_addr (VarTerm 1 s) m") (auto simp: back_values_def)
  then have "back_invar ad m ?V ?V' (ufcmap (affine_visitor_new m))"
    using m by (simp add: back_invar_def affine_visitor_new_def) (simp add: at_tuple_def back_values_def)
  ultimately obtain ds where ds: "maffineConj v1 = ds" "list_all2 (restored.converted p ?V' ?V (ufcmap v1)) (set_conjs s) ds"
    and inv: "ufcmap v1 = m"
    using restored.conjs_run [OF v1] by (auto simp: affine_visitor_new_def)
  have "list_all okc ds \<and> (restored.vholds p ?V' ds xs \<longleftrightarrow> sparse_holds (back_values p m xs u) (set_conjs s) xs)"
    by (rule restored.vholds_converted [OF _ ok(1)], rule list_all2_mono [OF ds(2)])
      (use back_values_agrees [OF m(1), of p u xs] inv in \<open>simp add: restored.converted_def\<close>)
  moreover have "ds \<noteq> []" using ds(2) ok(2) by auto
  ultimately show ?thesis
    using visited_set [OF s0, of ds] restored.vholds_visited [OF s0, of ds p ?V' xs] prp ds(1) Set_new_true(2) [OF s0]
    by (auto simp: v)
qed

lemma Set_super_run:
  assumes sup: "Set_superAffineSet w env UFCallMap_new False s = Inr (s', m)" and cp: "Set_copy (env_world w env) s = Inr c"
    and ok: "list_all okc (set_conjs s)" "proper (set_conjs s)"
    and n: "list_all (nests_ok_conj (inverse_of (env_world w env))) (set_conjs s)" "inverts (inverse_of (env_world w env)) u"
    and ready: "list_all (visit_conj_ok (super_term_ok m)) (set_conjs c)" "apart None (unit_calls (set_conjs c))"
    and prp: "\<And>v. super_affine_run (address_order w) (Set_acceptVisitor c) UFCallMap_new = Inr v \<Longrightarrow> proper (maffineConj v)"
  shows "list_all okc (set_conjs s') \<and> mArity s' = mArity s \<and> ucm_ok m
    \<and> list_all (\<lambda>(u, vt). plain_term u) (mUFC2VarParam m)
    \<and> fst ` set (mUFC2VarParam m) \<subseteq> set (unit_calls (set_conjs c))
    \<and> (sparse_holds (sym_values m xs u) (set_conjs s') xs \<longleftrightarrow> sparse_holds u (set_conjs s) xs)"
proof -
  have c: "sparse_copy (env_world w env) (set_conjs s) = Inr (set_conjs c)" "mArity c = mArity s"
    using cp by (auto simp: Set_copy_def bindr_eq_Inr)
  have okc: "list_all okc (set_conjs c)"
    and hc: "sparse_holds u (set_conjs c) xs \<longleftrightarrow> sparse_holds u (set_conjs s) xs"
    using sparse_copy_holds [OF c(1) ok n] by auto
  show ?thesis
  proof (cases "set_conjs c")
    case Nil
    then have "s' = c" "m = UFCallMap_new" using sup cp by (simp_all add: Set_superAffineSet_def)
    then show ?thesis using Nil hc c(2) ucm_ok_new(1) by (simp add: UFCallMap_new_def)
  next
    case (Cons d ds)
    obtain v where v: "super_affine_run (address_order w) (Set_acceptVisitor c) UFCallMap_new = Inr v"
      "affineSet v = Some s'" "m = ufcmap v"
      using sup cp Cons by (auto simp: Set_superAffineSet_def bindr_eq_Inr split: option.splits)
    show ?thesis
      using super_run [OF v(1) okc _ _ ready(2) prp [OF v(1)], of xs u] ready(1) Cons v(2,3) hc c(2) by simp
  qed
qed

section \<open>An example\<close>

text \<open>\<open>{[i] : row(i + 1) - i + n = 0 and row(i + 1) >= 0}\<close> in the empty environment.\<close>

definition ex_world :: world where
  "ex_world = \<lparr>address_order = no_addr, key_address = (\<lambda>n. n), inverse_of = (\<lambda>f. []), range_arity = (\<lambda>f. Inr 1)\<rparr>"

definition ex_set :: iset where
  "ex_set = (let row = UFCallTerm 1 ''row'' [Exp [TupleVarTerm 1 0, Term 1] Expression] (-1) in
     \<lparr>mArity = 1, set_conjs = [(Conjunction_new 1)\<lparr>mEqualities := [Exp [row, TupleVarTerm (-1) 0, VarTerm 1 ''n''] Equality],
        mInequalities := [Exp [row] Inequality]\<rparr>]\<rparr>)"

definition ex_super :: "iset \<times> ufcall_map" where
  "ex_super = projr (Set_superAffineSet ex_world Environment_new UFCallMap_new False ex_set)"

definition ex_copy :: iset where
  "ex_copy = projr (Set_copy (env_world ex_world Environment_new) ex_set)"

lemma ex_super: "Set_superAffineSet ex_world Environment_new UFCallMap_new False ex_set = Inr (fst ex_super, snd ex_super)"
proof -
  have "(case Set_superAffineSet ex_world Environment_new UFCallMap_new False ex_set of Inl e \<Rightarrow> False | Inr p \<Rightarrow> True) = True"
    by code_simp
  then show ?thesis by (cases "Set_superAffineSet ex_world Environment_new UFCallMap_new False ex_set") (auto simp: ex_super_def)
qed

lemma ex_copy: "Set_copy (env_world ex_world Environment_new) ex_set = Inr ex_copy"
proof -
  have "(case Set_copy (env_world ex_world Environment_new) ex_set of Inl e \<Rightarrow> False | Inr p \<Rightarrow> True) = True" by code_simp
  then show ?thesis by (cases "Set_copy (env_world ex_world Environment_new) ex_set") (auto simp: ex_copy_def)
qed

lemma ex_ready:
  "list_all okc (set_conjs ex_set)" "proper (set_conjs ex_set)"
  "list_all (nests_ok_conj (inverse_of (env_world ex_world Environment_new))) (set_conjs ex_set)"
  "inverts (inverse_of (env_world ex_world Environment_new)) u"
  "list_all (visit_conj_ok (super_term_ok (snd ex_super))) (set_conjs ex_copy)" "apart None (unit_calls (set_conjs ex_copy))"
  "super_affine_run (address_order ex_world) (Set_acceptVisitor ex_copy) UFCallMap_new = Inr v \<Longrightarrow> proper (maffineConj v)"
proof -
  show "list_all okc (set_conjs ex_set)" by code_simp
  show "proper (set_conjs ex_set)" by code_simp
  show "list_all (nests_ok_conj (inverse_of (env_world ex_world Environment_new))) (set_conjs ex_set)" by code_simp
  show "inverts (inverse_of (env_world ex_world Environment_new)) u"
    by (simp add: inverts_def env_world_def copy_world_def funcInverse_def Environment_new_def)
  show "list_all (visit_conj_ok (super_term_ok (snd ex_super))) (set_conjs ex_copy)" by code_simp
  show "apart None (unit_calls (set_conjs ex_copy))" by code_simp
  have "proper (maffineConj (projr (super_affine_run (address_order ex_world) (Set_acceptVisitor ex_copy) UFCallMap_new)))"
    by code_simp
  then show "super_affine_run (address_order ex_world) (Set_acceptVisitor ex_copy) UFCallMap_new = Inr v \<Longrightarrow> proper (maffineConj v)"
    by simp
qed

section \<open>Properties\<close>

text \<open>
  C22. The affine superset: a tuple is in a set exactly if it is in the affine set for the symbols
  that stand for the calls at this tuple. In particular no tuple is lost. The calls are not bounded by
  their domains and ranges, which is the mode in which \<open>projectOut\<close> and the relationship of sets use it.
\<close>

theorem superAffineSet_exact:
  assumes "Set_superAffineSet w env UFCallMap_new False s = Inr (s', m)" and "Set_copy (env_world w env) s = Inr c"
    and "list_all okc (set_conjs s)" and "proper (set_conjs s)"
    and "list_all (nests_ok_conj (inverse_of (env_world w env))) (set_conjs s)" and "inverts (inverse_of (env_world w env)) u"
    and "list_all (visit_conj_ok (super_term_ok m)) (set_conjs c)" and "apart None (unit_calls (set_conjs c))"
    and "\<And>v. super_affine_run (address_order w) (Set_acceptVisitor c) UFCallMap_new = Inr v \<Longrightarrow> proper (maffineConj v)"
  shows "sparse_holds (sym_values m xs u) (set_conjs s') xs \<longleftrightarrow> sparse_holds u (set_conjs s) xs"
  using Set_super_run [OF assms] by simp

theorem superAffineSet_exact_witness:
  "\<forall>v. sparse_holds (sym_values (snd ex_super) [3] v) (set_conjs (fst ex_super)) [3] \<longleftrightarrow> sparse_holds v (set_conjs ex_set) [3]"
  using superAffineSet_exact [OF ex_super ex_copy ex_ready] by blast

text \<open>
  C7. Replacing the calls by symbols, passing the affine set through a tool that keeps its tuples
  for all values of the symbols, and putting the calls back gives a set with the same tuples.
\<close>

theorem affine_normalization_holds:
  assumes "Set_superAffineSet w env UFCallMap_new False s = Inr (s1, m)" and "Set_copy (env_world w env) s = Inr c"
    and "list_all okc (set_conjs s)" and "proper (set_conjs s)"
    and "list_all (nests_ok_conj (inverse_of (env_world w env))) (set_conjs s)" and "inverts (inverse_of (env_world w env)) u"
    and "list_all (visit_conj_ok (super_term_ok m)) (set_conjs c)" and "apart None (unit_calls (set_conjs c))"
    and "\<And>v. super_affine_run (address_order w) (Set_acceptVisitor c) UFCallMap_new = Inr v \<Longrightarrow> proper (maffineConj v)"
    and same: "\<And>v. sparse_holds v (set_conjs s2) xs \<longleftrightarrow> sparse_holds v (set_conjs s1) xs"
    and s2: "list_all okc (set_conjs s2)" "set_conjs s2 \<noteq> []" "list_all (visit_conj_ok back_good) (set_conjs s2)"
    and undo: "Set_reverseAffineSubstitution ad m s2 = Inr s3"
    and prp: "\<And>v. foldm (reverse_affine_visit ad) (Set_acceptVisitor s2) (affine_visitor_new m) = Inr v \<Longrightarrow> proper (maffineConj v)"
  shows "sparse_holds u (set_conjs s3) xs \<longleftrightarrow> sparse_holds u (set_conjs s) xs"
proof -
  note super = Set_super_run [OF assms(1-9), of xs]
  obtain v where v: "foldm (reverse_affine_visit ad) (Set_acceptVisitor s2) (affine_visitor_new m) = Inr v" "affineSet v = Some s3"
    using undo by (auto simp: Set_reverseAffineSubstitution_def bindr_eq_Inr split: option.splits)
  show ?thesis
    using back_run [OF v(1) s2, where ?u = u and ?xs = xs and ?p = None] super prp [OF v(1)] v(2) same
    by (simp add: restored_holds back_values_None)
qed

theorem affine_normalization_holds_witness:
  "\<exists>s. Set_reverseAffineSubstitution no_addr (snd ex_super) (fst ex_super) = Inr s
     \<and> (\<forall>v xs. sparse_holds v (set_conjs s) xs \<longleftrightarrow> sparse_holds v (set_conjs ex_set) xs)"
proof -
  let ?r = "Set_reverseAffineSubstitution no_addr (snd ex_super) (fst ex_super)"
  let ?run = "foldm (reverse_affine_visit no_addr) (Set_acceptVisitor (fst ex_super)) (affine_visitor_new (snd ex_super))"
  have "(case ?r of Inl e \<Rightarrow> False | Inr s \<Rightarrow> True) = True" by code_simp
  then have r: "?r = Inr (projr ?r)" by (cases ?r) auto
  have ok: "list_all okc (set_conjs (fst ex_super))" by code_simp
  have ne: "set_conjs (fst ex_super) \<noteq> []" by code_simp
  have good: "list_all (visit_conj_ok back_good) (set_conjs (fst ex_super))" by code_simp
  have "proper (maffineConj (projr ?run))" by code_simp
  then have prp: "?run = Inr v \<Longrightarrow> proper (maffineConj v)" for v by simp
  show ?thesis
    using r affine_normalization_holds [OF ex_super ex_copy ex_ready refl ok ne good r prp] by blast
qed

text \<open>
  Putting calls back into a set without conjunctions, one without any tuple, gives the default
  conjunction of the new set, which every tuple satisfies.
\<close>

lemma reverse_affine_empty:
  "case Set_reverseAffineSubstitution no_addr UFCallMap_new \<lparr>mArity = 1, set_conjs = []\<rparr> of
     Inl e \<Rightarrow> False | Inr s \<Rightarrow> map (\<lambda>c. (tdecl_size (mTupleDecl c), mEqualities c, mInequalities c)) (set_conjs s) = [(1, [], [])]"
  by code_simp

end
