(* ===== verification/IEG_ProjectProps.thy ===== *)
theory IEG_ProjectProps
  imports IEG_AffineProps
begin

text \<open>
  Projection is exact: a tuple is in the result exactly if some value of the eliminated variable
  makes it a tuple of the set, whenever \<open>islSetProjectOut\<close> projects the conjunctions of the affine superset
  exactly and to at most one conjunction each. That is assumed of its answers and not proved: it rests on ISL, on
  the rewriting of its output as a string, and on the parser. What is proved is that replacing the calls by symbols, projecting
  conjunction by conjunction and restoring and renumbering the calls is right around it.
\<close>

section \<open>Renumbered calls\<close>

definition insert_at :: "nat \<Rightarrow> int \<Rightarrow> int list \<Rightarrow> int list" where
  "insert_at k y xs = take k xs @ y # drop k xs"

fun free_term :: "int \<Rightarrow> trm \<Rightarrow> bool"
and free_exp :: "int \<Rightarrow> exp \<Rightarrow> bool" where
  "free_term k (TupleVarTerm c l) \<longleftrightarrow> l \<noteq> k"
| "free_term k (UFCallTerm c f es i) \<longleftrightarrow> list_all (free_exp k) es"
| "free_term k (Term c) \<longleftrightarrow> True"
| "free_term k (VarTerm c s) \<longleftrightarrow> True"
| "free_term k (TupleExpTerm c es) \<longleftrightarrow> True"
| "free_exp k (Exp ts ty) \<longleftrightarrow> list_all (free_term k) ts"

lemma at_tuple_insert:
  assumes "k \<le> length xs" and "0 \<le> l" and "l \<noteq> int k"
  shows "tvv (at_tuple v (insert_at k y xs)) l = tvv (at_tuple v xs) (if l > int k then l - 1 else l)"
proof (cases "l > int k")
  case True
  then have nth: "insert_at k y xs ! nat l = xs ! nat (l - 1)" if "l \<le> int (length xs)"
    using assms(1) that by (auto simp: insert_at_def nth_append nat_diff_distrib' min_def Suc_diff_le nth_Cons' nat_less_iff)
  show ?thesis using True nth assms(1) by (auto simp: at_tuple_def) (auto simp: insert_at_def)
next
  case False
  then show ?thesis using assms by (auto simp: at_tuple_def insert_at_def nth_append)
qed

lemma at_tuple_frame [simp]: "symv (at_tuple v xs) = symv v" "ufv (at_tuple v xs) = ufv v"
  by (simp_all add: at_tuple_def)

lemma shift_value:
  assumes "k \<le> length xs"
  shows "plain_term t \<Longrightarrow> free_term (int k) t \<Longrightarrow>
      factor_val (at_tuple v xs) (shift_term (int k) True t) = factor_val (at_tuple v (insert_at k y xs)) t"
    and "plain_exp e \<Longrightarrow> free_exp (int k) e \<Longrightarrow>
      eval_exp (at_tuple v xs) (shift_exp (int k) True e) = eval_exp (at_tuple v (insert_at k y xs)) e"
proof (induction t and e)
  case (TupleVarTerm c l)
  then show ?case using at_tuple_insert [OF assms, of l v y] by simp
next
  case (UFCallTerm c f es i)
  then have "map (eval_exp (at_tuple v xs) \<circ> shift_exp (int k) True) es = map (eval_exp (at_tuple v (insert_at k y xs))) es"
    by (auto simp: list_all_iff)
  then show ?case by (simp only: shift_term.simps factor_val.simps map_map at_tuple_frame)
next
  case (Exp ts ty)
  then have "eval_terms (at_tuple v xs) (map (shift_term (int k) True) ts) = eval_terms (at_tuple v (insert_at k y xs)) ts"
    by (induction ts) simp_all
  then show ?case by simp
qed simp_all

lemma shift_call_value:
  assumes "k \<le> length xs" and "is_call t" and "plain_term t" and "free_term (int k) t"
  shows "back_val (Some (int k)) (at_tuple v xs) t = factor_val (at_tuple v (insert_at k y xs)) t"
proof -
  obtain c f es i where t: "t = UFCallTerm c f es i" using assms(2) by (cases t) (simp_all add: is_call_def)
  have "shift_term (int k) False t = shift_term (int k) True t" by (simp add: t)
  then show ?thesis using shift_value(1) [OF assms(1,3,4)] by (simp add: back_val_def renumber_def)
qed

text \<open>The symbols have the values of the calls, whatever the eliminated variable is.\<close>

lemma back_values_insert:
  assumes "ucm_ok m" and "list_all (\<lambda>(u, vt). plain_term u \<and> free_term (int k) u) (mUFC2VarParam m)" and "k \<le> length xs"
  shows "back_values (Some (int k)) m xs v = sym_values m (insert_at k y xs) v"
proof -
  have "back_val (Some (int k)) (at_tuple v xs) u = factor_val (at_tuple v (insert_at k y xs)) u"
    if "ucm_find_var no_addr (VarTerm 1 s) m = Some u" for s u
  proof -
    have u: "(u, VarTerm 1 s) \<in> set (mUFC2VarParam m)" using that ucm_find_var_iff [OF assms(1)] by blast
    then show ?thesis
      using shift_call_value [OF assms(3)] ucm_okD(4) [OF assms(1) u] assms(2) by (fastforce simp: list_all_iff)
  qed
  then have "(case ucm_find_var no_addr (VarTerm 1 s) m of None \<Rightarrow> symv v s | Some u \<Rightarrow> back_val (Some (int k)) (at_tuple v xs) u)
    = (case ucm_find_var no_addr (VarTerm 1 s) m of None \<Rightarrow> symv v s | Some u \<Rightarrow> factor_val (at_tuple v (insert_at k y xs)) u)" for s
    by (cases "ucm_find_var no_addr (VarTerm 1 s) m") simp_all
  then show ?thesis by (simp add: back_values_def sym_values_def)
qed

section \<open>Projecting the conjunctions\<close>

text \<open>The visits inside of a conjunction, which most visitors of whole conjunctions ignore.\<close>

fun inner_visit :: "visit \<Rightarrow> bool" where
  "inner_visit (PreConjunction c) = False"
| "inner_visit (PostConjunction c) = False"
| "inner_visit (PreSparse cs) = False"
| "inner_visit (PostSparse cs) = False"
| "inner_visit (PreSet s) = False"
| "inner_visit (PostSet s) = False"
| "inner_visit (PreRelation r) = False"
| "inner_visit (PostRelation r) = False"
| "inner_visit _ = True"

lemma inner_visits: "list_all inner_visit (term_acceptVisitor t)" "list_all inner_visit (exp_acceptVisitor e)"
  by (induction t and e rule: term_acceptVisitor_exp_acceptVisitor.induct) (auto simp: list_all_iff)

lemma project_ignores: "inner_visit x \<Longrightarrow> project_visit w iproj parse k ia x v = Inr v"
  by (cases x) simp_all

text \<open>An exact answer of \<open>islSetProjectOut\<close> for one conjunction: one conjunction or none. The caller takes the first
  conjunction of the answer only, so with more than one it would lose tuples.\<close>

definition isl_projects ::
  "world \<Rightarrow> (nat \<Rightarrow> string \<Rightarrow> string) \<Rightarrow> (string \<Rightarrow> iset res) \<Rightarrow> nat \<Rightarrow> conj \<Rightarrow> bool" where
  "isl_projects w iproj parse k d \<longleftrightarrow>
     (\<forall>r. islSetProjectOut w iproj parse \<lparr>mArity = conj_arity d, set_conjs = [d\<lparr>mInArity := 0\<rparr>]\<rparr> k = Inr r \<longrightarrow>
        length (set_conjs r) \<le> 1 \<and> list_all okc (set_conjs r) \<and> list_all (visit_conj_ok back_good) (set_conjs r)
        \<and> (\<forall>v xs. Suc (length xs) = conj_arity d \<longrightarrow>
             (sparse_holds v (set_conjs r) xs \<longleftrightarrow> (\<exists>y. holds v d (insert_at k y xs)))))"

lemma InArity_frame [simp]:
  "okc (c\<lparr>mInArity := i\<rparr>) = okc c" "visit_conj_ok p (c\<lparr>mInArity := i\<rparr>) = visit_conj_ok p c"
  "holds v (c\<lparr>mInArity := i\<rparr>) xs = holds v c xs"
  by (simp_all add: okc_def plain_conj_def visit_conj_ok_def conj_exps_def holds_def sat_constraints_def)

lemma project_conj_facts:
  assumes "project_conj w iproj parse k ia d = Inr r" and "isl_projects w iproj parse k d"
  shows "list_all (\<lambda>d'. okc d' \<and> visit_conj_ok back_good d') (case r of None \<Rightarrow> [] | Some d' \<Rightarrow> [d'])
    \<and> (\<forall>v xs. Suc (length xs) = conj_arity d \<longrightarrow>
         (sparse_holds v (case r of None \<Rightarrow> [] | Some d' \<Rightarrow> [d']) xs \<longleftrightarrow> (\<exists>y. holds v d (insert_at k y xs))))"
proof -
  obtain cs i where cs: "Set_new (address_order w) (conj_arity (d\<lparr>mInArity := 0\<rparr>)) = Inr cs"
    and i: "islSetProjectOut w iproj parse
      (cs\<lparr>set_conjs := sparse_addConjunction (address_order w) (d\<lparr>mInArity := 0\<rparr>) (set_conjs cs)\<rparr>) k = Inr i"
    and r: "(case set_conjs i of [] \<Rightarrow> Inr None | f # x \<Rightarrow> bindr (setInArity ia f) (\<lambda>crc. Inr (Some crc))) = Inr r"
    using assms(1) by (auto simp: project_conj_def setInArity_def bindr_eq_Inr split: if_splits)
  have "cs\<lparr>set_conjs := sparse_addConjunction (address_order w) (d\<lparr>mInArity := 0\<rparr>) (set_conjs cs)\<rparr>
      = \<lparr>mArity = conj_arity d, set_conjs = [d\<lparr>mInArity := 0\<rparr>]\<rparr>"
    using Set_new_true [OF cs] by (cases cs) (simp add: sparse_addConjunction_def conj_arity_def)
  then have p: "length (set_conjs i) \<le> 1" "list_all okc (set_conjs i)" "list_all (visit_conj_ok back_good) (set_conjs i)"
    "\<And>v xs. Suc (length xs) = conj_arity d \<Longrightarrow>
       sparse_holds v (set_conjs i) xs \<longleftrightarrow> (\<exists>y. holds v d (insert_at k y xs))"
    using assms(2) i unfolding isl_projects_def by auto
  show ?thesis
  proof (cases "set_conjs i")
    case Nil
    then show ?thesis using p(4) r by simp
  next
    case (Cons f x)
    then have "set_conjs i = [f]" "r = Some (f\<lparr>mInArity := ia\<rparr>)"
      using p(1) r by (auto simp: setInArity_def bindr_eq_Inr split: if_splits)
    then show ?thesis using p by simp
  qed
qed

lemma project_run:
  assumes "foldm (project_visit w iproj parse k ia) (concat (map conj_acceptVisitor cs)) v = Inr v'"
    and "\<forall>d \<in> set cs. conj_arity d = n \<and> isl_projects w iproj parse k d"
  shows "\<exists>ds. mNewConj v' = mNewConj v @ ds \<and> list_all okc ds \<and> list_all (visit_conj_ok back_good) ds
    \<and> (\<forall>v xs. Suc (length xs) = n \<longrightarrow> (sparse_holds v ds xs \<longleftrightarrow> (\<exists>y. sparse_holds v cs (insert_at k y xs))))"
  using assms
proof (induction cs arbitrary: v)
  case (Cons c cs)
  have inner: "foldm (project_visit w iproj parse k ia) (concat (map exp_acceptVisitor es)) u = Inr u" for es u
    by (rule foldm_same) (use inner_visits(2) project_ignores in \<open>fastforce simp: list_all_iff\<close>)
  have one: "foldm (project_visit w iproj parse k ia) (conj_acceptVisitor c) v
      = bindr (project_conj w iproj parse k ia c) (\<lambda>r. Inr (case r of None \<Rightarrow> v | Some crc \<Rightarrow> v\<lparr>mNewConj := mNewConj v @ [crc]\<rparr>))"
    by (cases "project_conj w iproj parse k ia c") (simp_all add: conj_acceptVisitor_def foldm_append inner)
  obtain r where r: "project_conj w iproj parse k ia c = Inr r"
    and rest: "foldm (project_visit w iproj parse k ia) (concat (map conj_acceptVisitor cs))
        (case r of None \<Rightarrow> v | Some crc \<Rightarrow> v\<lparr>mNewConj := mNewConj v @ [crc]\<rparr>) = Inr v'"
    using Cons.prems(1) by (auto simp: foldm_append one bindr_eq_Inr)
  let ?d = "case r of None \<Rightarrow> [] | Some d' \<Rightarrow> [d']"
  have d: "list_all (\<lambda>d'. okc d' \<and> visit_conj_ok back_good d') ?d"
    "\<And>v xs. Suc (length xs) = n \<Longrightarrow> sparse_holds v ?d xs \<longleftrightarrow> (\<exists>y. holds v c (insert_at k y xs))"
    using project_conj_facts [OF r] Cons.prems(2) by auto
  obtain ds where ds: "mNewConj v' = mNewConj (case r of None \<Rightarrow> v | Some crc \<Rightarrow> v\<lparr>mNewConj := mNewConj v @ [crc]\<rparr>) @ ds"
    "list_all okc ds" "list_all (visit_conj_ok back_good) ds"
    "\<And>v xs. Suc (length xs) = n \<Longrightarrow> sparse_holds v ds xs \<longleftrightarrow> (\<exists>y. sparse_holds v cs (insert_at k y xs))"
    using Cons.IH [OF rest] Cons.prems(2) by auto
  have "mNewConj v' = mNewConj v @ ?d @ ds" using ds(1) by (cases r) simp_all
  then show ?case using d ds(2-4) by (intro exI [of _ "?d @ ds"]) (auto simp: list_all_iff)
qed simp

lemma okc_shift_frame: "mTupleDecl (conj_shift k c) = mTupleDecl c"
  by (simp add: conj_shift_def)

lemma Set_project_run:
  assumes run: "foldm (project_visit w iproj parse k ia) (Set_acceptVisitor s) project_visitor_new = Inr pv"
    and new: "newSet pv = Some s2" and isl: "\<forall>d \<in> set (set_conjs s). conj_arity d = n \<and> isl_projects w iproj parse k d"
    and prp: "mNewConj pv \<noteq> []" "proper (mNewConj pv)"
  shows "list_all okc (set_conjs s2) \<and> set_conjs s2 \<noteq> [] \<and> list_all (visit_conj_ok back_good) (set_conjs s2)
    \<and> mArity s2 = mArity s - 1 \<and> (\<forall>v xs. Suc (length xs) = n \<longrightarrow>
      (sparse_holds v (set_conjs s2) xs \<longleftrightarrow> (\<exists>y. sparse_holds v (set_conjs s) (insert_at k y xs))))"
proof -
  obtain v1 r where v1: "foldm (project_visit w iproj parse k ia) (concat (map conj_acceptVisitor (set_conjs s))) project_visitor_new = Inr v1"
    and r: "Set_new (address_order w) (mArity s - 1) = Inr r"
    and pv: "pv = v1\<lparr>newSet := Some (r\<lparr>set_conjs := fold (sparse_addConjunction (address_order w)) (mNewConj v1) (set_conjs r)\<rparr>)\<rparr>"
    using run by (auto simp: Set_acceptVisitor_def sparse_acceptVisitor_def foldm_append bindr_eq_Inr split: if_splits)
  obtain ds where ds: "mNewConj v1 = ds" "list_all okc ds" "list_all (visit_conj_ok back_good) ds"
    "\<And>v xs. Suc (length xs) = n \<Longrightarrow> sparse_holds v ds xs \<longleftrightarrow> (\<exists>y. sparse_holds v (set_conjs s) (insert_at k y xs))"
    using project_run [OF v1 isl] by (auto simp: project_visitor_new_def)
  have p: "ds \<noteq> []" "proper ds" using prp ds(1) by (simp_all add: pv)
  have s2: "set_conjs s2 = fold (sparse_addConjunction (address_order w)) ds (set_conjs r)" "mArity s2 = mArity s - 1"
    using new ds(1) Set_new_true(2) [OF r] by (auto simp: pv)
  have sub: "set (set_conjs s2) \<subseteq> set ds"
    using add_proper [OF ds(2) p(2)] fold_add_drop [OF Set_new_true(1) [OF r] p(1)] s2(1) by simp
  note vs = visited_set [OF r p(1) ds(2) p(2)]
  have "sparse_holds v (set_conjs s2) xs \<longleftrightarrow> sparse_holds v ds xs" for v xs
    using valued.vholds_visited [OF r p(1) ds(2) p(2), of "at_tuple v xs" xs] s2(1) by (simp add: valued_holds)
  moreover have "set_conjs s2 \<noteq> []" using vs p(1) s2(1) by (metis image_is_empty set_empty)
  ultimately show ?thesis using vs s2 sub ds(3,4) by (auto simp: list_all_iff)
qed

section \<open>An example\<close>

text \<open>\<open>{[j, i] : row(i) - j = 0 and j >= 0}\<close>, and what ISL makes of its projection to \<open>i\<close>.\<close>

definition pr_set :: iset where
  "pr_set = (let row = UFCallTerm 1 ''row'' [Exp [TupleVarTerm 1 1] Expression] (-1) in
     \<lparr>mArity = 2, set_conjs = [(Conjunction_new 2)\<lparr>mEqualities := [Exp [row, TupleVarTerm (-1) 0] Equality],
        mInequalities := [Exp [TupleVarTerm 1 0] Inequality]\<rparr>]\<rparr>)"

definition pr_isl :: "nat \<Rightarrow> string \<Rightarrow> string" where
  "pr_isl k s = ''[row___tv1_] -> { [tv1] : row___tv1_ >= 0 }''"

definition pr_parse :: "string \<Rightarrow> iset res" where
  "pr_parse s = Inr \<lparr>mArity = 1, set_conjs = [(Conjunction_new 1)\<lparr>mInequalities := [Exp [VarTerm 1 ''row___tv1_''] Inequality]\<rparr>]\<rparr>"

definition pr_super :: "iset \<times> ufcall_map" where
  "pr_super = projr (Set_superAffineSet ex_world Environment_new UFCallMap_new False pr_set)"

definition pr_copy :: iset where
  "pr_copy = projr (Set_copy (env_world ex_world Environment_new) pr_set)"

definition pr_visitor :: project_visitor where
  "pr_visitor = projr (foldm (project_visit (env_world ex_world Environment_new) pr_isl pr_parse 0 0)
     (Set_acceptVisitor (fst pr_super)) project_visitor_new)"

definition pr_back :: affine_visitor where
  "pr_back = projr (foldm (reverse_affine_visit no_addr) (Set_acceptVisitor (the (newSet pr_visitor)))
     (affine_visitor_new (snd pr_super)))"

definition pr_result :: iset where
  "pr_result = the (projr (Set_projectOut ex_world Environment_new pr_isl pr_parse 0 pr_set))"

lemma Inr_projr: "(case r of Inl e \<Rightarrow> False | Inr x \<Rightarrow> True) \<Longrightarrow> r = Inr (projr r)"
  by (cases r) simp_all

lemma pr_runs:
  "Set_superAffineSet ex_world Environment_new UFCallMap_new False pr_set = Inr (fst pr_super, snd pr_super)"
  "Set_copy (env_world ex_world Environment_new) pr_set = Inr pr_copy"
  "foldm (project_visit (env_world ex_world Environment_new) pr_isl pr_parse 0 0)
     (Set_acceptVisitor (fst pr_super)) project_visitor_new = Inr pr_visitor"
  "foldm (reverse_affine_visit no_addr) (Set_acceptVisitor (the (newSet pr_visitor))) (affine_visitor_new (snd pr_super)) = Inr pr_back"
proof -
  show "Set_superAffineSet ex_world Environment_new UFCallMap_new False pr_set = Inr (fst pr_super, snd pr_super)"
    unfolding pr_super_def prod.collapse by (rule Inr_projr) code_simp
  show "Set_copy (env_world ex_world Environment_new) pr_set = Inr pr_copy"
    unfolding pr_copy_def by (rule Inr_projr) code_simp
  show "foldm (project_visit (env_world ex_world Environment_new) pr_isl pr_parse 0 0)
     (Set_acceptVisitor (fst pr_super)) project_visitor_new = Inr pr_visitor"
    unfolding pr_visitor_def by (rule Inr_projr) code_simp
  show "foldm (reverse_affine_visit no_addr) (Set_acceptVisitor (the (newSet pr_visitor))) (affine_visitor_new (snd pr_super)) = Inr pr_back"
    unfolding pr_back_def by (rule Inr_projr) code_simp
qed

lemma pr_ready:
  "list_all okc (set_conjs pr_set)" "proper (set_conjs pr_set)"
  "list_all (nests_ok_conj (inverse_of (env_world ex_world Environment_new))) (set_conjs pr_set)"
  "list_all (visit_conj_ok (super_term_ok (snd pr_super))) (set_conjs pr_copy)" "apart None (unit_calls (set_conjs pr_copy))"
  "list_all (free_term (int 0)) (unit_calls (set_conjs pr_copy))"
  "super_affine_run (address_order ex_world) (Set_acceptVisitor pr_copy) UFCallMap_new = Inr v \<Longrightarrow> proper (maffineConj v)"
  "newSet pr_visitor \<noteq> None" "mNewConj pr_visitor \<noteq> []" "proper (mNewConj pr_visitor)" "proper (maffineConj pr_back)"
proof -
  show "list_all okc (set_conjs pr_set)" by code_simp
  show "proper (set_conjs pr_set)" by code_simp
  show "list_all (nests_ok_conj (inverse_of (env_world ex_world Environment_new))) (set_conjs pr_set)" by code_simp
  show "list_all (visit_conj_ok (super_term_ok (snd pr_super))) (set_conjs pr_copy)" by code_simp
  show "apart None (unit_calls (set_conjs pr_copy))" by code_simp
  show "list_all (free_term (int 0)) (unit_calls (set_conjs pr_copy))" by code_simp
  show "newSet pr_visitor \<noteq> None" by code_simp
  show "mNewConj pr_visitor \<noteq> []" by code_simp
  show "proper (mNewConj pr_visitor)" by code_simp
  show "proper (maffineConj pr_back)" by code_simp
  have "proper (maffineConj (projr (super_affine_run (address_order ex_world) (Set_acceptVisitor pr_copy) UFCallMap_new)))"
    by code_simp
  then show "super_affine_run (address_order ex_world) (Set_acceptVisitor pr_copy) UFCallMap_new = Inr v \<Longrightarrow> proper (maffineConj v)"
    by simp
qed

text \<open>ISL's answer is the projection of the one conjunction of the superset.\<close>

lemma pr_isl_projects:
  "\<forall>d \<in> set (set_conjs (fst pr_super)). conj_arity d = mArity pr_set
     \<and> isl_projects (env_world ex_world Environment_new) pr_isl pr_parse 0 d"
proof -
  define D where "D = (Conjunction_new 2)\<lparr>mEqualities := [Exp [TupleVarTerm 1 0, VarTerm (-1) ''row___tv1_''] Equality],
    mInequalities := [Exp [TupleVarTerm 1 0] Inequality]\<rparr>"
  define R where "R = \<lparr>mArity = 1, set_conjs = [(Conjunction_new 1)\<lparr>mInequalities := [Exp [VarTerm 1 ''row___tv1_''] Inequality]\<rparr>]\<rparr>"
  have d: "set_conjs (fst pr_super) = [D]" unfolding D_def by code_simp
  have res: "r = R" if "islSetProjectOut w pr_isl pr_parse t k = Inr r" for w t k r
    using that by (auto simp: islSetProjectOut_def bindr_eq_Inr pr_parse_def R_def)
  have ar: "conj_arity D = 2" "mArity pr_set = 2" unfolding D_def by code_simp+
  have R: "length (set_conjs R) \<le> 1" "list_all okc (set_conjs R)" "list_all (visit_conj_ok back_good) (set_conjs R)"
    unfolding R_def by code_simp+
  have "sparse_holds v (set_conjs R) xs \<longleftrightarrow> (\<exists>y. holds v D (insert_at 0 y xs))" if h: "Suc (length xs) = 2" for v xs
  proof -
    obtain x where x: "xs = [x]" using h by (auto simp: length_Suc_conv numeral_2_eq_2)
    show ?thesis
      by (simp add: x R_def D_def insert_at_def sparse_holds_def holds_def sat_constraints_def zeros_def nonnegs_def
          Conjunction_new_def Conjunction_tdecl_def admits_def TupleDecl_new_def elemIsConst_def at_tuple_def nth_Cons')
  qed
  then show ?thesis unfolding d isl_projects_def using res R ar by auto
qed

section \<open>Properties\<close>

text \<open>
  Projecting out a tuple variable that is in no call: a tuple is in the result exactly if
  there is a value of the variable that makes it a tuple of the set, if the answers of
  \<open>islSetProjectOut\<close> for the conjunctions of the affine superset are exact.
\<close>

lemma Set_projectOut_exact:
  assumes proj: "Set_projectOut w env iproj parse k s = Inr (Some s')"
    and sup: "Set_superAffineSet w env UFCallMap_new False s = Inr (s1, m)" and cp: "Set_copy (env_world w env) s = Inr c"
    and "list_all okc (set_conjs s)" and "proper (set_conjs s)"
    and "list_all (nests_ok_conj (inverse_of (env_world w env))) (set_conjs s)" and "inverts (inverse_of (env_world w env)) u"
    and "list_all (visit_conj_ok (super_term_ok m)) (set_conjs c)" and "apart None (unit_calls (set_conjs c))"
    and "\<And>v. super_affine_run (address_order w) (Set_acceptVisitor c) UFCallMap_new = Inr v \<Longrightarrow> proper (maffineConj v)"
    and free: "list_all (free_term (int k)) (unit_calls (set_conjs c))"
    and isl: "\<forall>d \<in> set (set_conjs s1). conj_arity d = mArity s \<and> isl_projects (env_world w env) iproj parse k d"
    and run: "foldm (project_visit (env_world w env) iproj parse k 0) (Set_acceptVisitor s1) project_visitor_new = Inr pv"
    and pv: "newSet pv = Some s2" "mNewConj pv \<noteq> []" "proper (mNewConj pv)"
    and undo: "foldm (reverse_affine_visit (address_order w)) (Set_acceptVisitor s2) (affine_visitor_new m) = Inr rv"
      "proper (maffineConj rv)"
    and k: "k < mArity s" "Suc (length xs) = mArity s"
  shows "sparse_holds u (set_conjs s') xs \<longleftrightarrow> (\<exists>y. sparse_holds u (set_conjs s) (insert_at k y xs))"
proof -
  note super = Set_super_run [OF sup cp assms(4-10)]
  have okm: "ucm_ok m" and keys: "list_all (\<lambda>(u, vt). plain_term u) (mUFC2VarParam m)"
    "fst ` set (mUFC2VarParam m) \<subseteq> set (unit_calls (set_conjs c))" using super by auto
  note p = Set_project_run [OF run pv(1) isl pv(2,3)]
  obtain r where r: "affineSet rv = Some r"
    "restored.vholds (Some (int k)) (at_tuple u xs) (set_conjs r) xs
      \<longleftrightarrow> sparse_holds (back_values (Some (int k)) m xs u) (set_conjs s2) xs"
    using back_run [OF undo(1) _ _ _ okm keys(1) undo(2), where ?p = "Some (int k)" and ?u = u and ?xs = xs] p by blast
  have s': "s' = r\<lparr>set_conjs := map (conj_shift (int k)) (set_conjs r)\<rparr>"
    using proj sup run pv(1) undo(1) r(1)
    by (simp add: Set_projectOut_def adjusted_arity_def Set_reverseAffineSubstitution_def split: if_splits)
  have "list_all (\<lambda>(u, vt). plain_term u \<and> free_term (int k) u) (mUFC2VarParam m)"
    using keys free by (fastforce simp: list_all_iff)
  then have vals: "back_values (Some (int k)) m xs u = sym_values m (insert_at k y xs) u" for y
    using back_values_insert [OF okm] k by simp
  have "sparse_holds u (set_conjs s') xs \<longleftrightarrow> (\<exists>y. sparse_holds (back_values (Some (int k)) m xs u) (set_conjs s1) (insert_at k y xs))"
    using r(2) p k(2) by (simp add: s' restored_holds)
  also have "\<dots> \<longleftrightarrow> (\<exists>y. sparse_holds u (set_conjs s) (insert_at k y xs))"
    using super vals by metis
  finally show ?thesis .
qed

text \<open>The example: for the answer that ISL gives here, the result of \<open>projectOut\<close> is the projection.\<close>

lemma Set_projectOut_example:
  "\<exists>r. Set_projectOut ex_world Environment_new pr_isl pr_parse 0 pr_set = Inr (Some r)
     \<and> (\<forall>v. sparse_holds v (set_conjs r) [5] \<longleftrightarrow> (\<exists>y. sparse_holds v (set_conjs pr_set) [y, 5]))"
proof -
  let ?w = "env_world ex_world Environment_new" and ?p = "Set_projectOut ex_world Environment_new pr_isl pr_parse 0 pr_set"
  have "(case ?p of Inr (Some r) \<Rightarrow> True | _ \<Rightarrow> False) = True" by code_simp
  then obtain r where r: "?p = Inr (Some r)" by (auto split: sum.splits option.splits)
  have n: "newSet pr_visitor = Some (the (newSet pr_visitor))" using pr_ready(8) by (cases "newSet pr_visitor") simp_all
  have ad: "address_order ex_world = no_addr" "0 < mArity pr_set" "Suc (length [5 :: int]) = mArity pr_set"
    by (simp_all add: ex_world_def pr_set_def Let_def)
  have "sparse_holds v (set_conjs r) [5] \<longleftrightarrow> (\<exists>y. sparse_holds v (set_conjs pr_set) (insert_at 0 y [5]))" for v
    by (rule Set_projectOut_exact [OF r pr_runs(1,2) pr_ready(1-3) ex_ready(4) pr_ready(4,5) pr_ready(7) pr_ready(6)
          pr_isl_projects pr_runs(3) n pr_ready(9,10) pr_runs(4) [folded ad(1)] pr_ready(11) ad(2,3)])
  with r show ?thesis by (auto simp: insert_at_def)
qed

end
