(* ===== verification/IEG_RemoveProps.thy ===== *)
theory IEG_RemoveProps
  imports IEG_ProjectProps
begin

text \<open>
  The two visitors that look for a tuple variable in the arguments of calls, at any depth: one
  counts the constraints, the other builds the set without them.
\<close>

section \<open>What the visitors see\<close>

lemma direct_tv_code [code]:
  "direct_tv l e = list_ex (\<lambda>t. case t of TupleVarTerm c k \<Rightarrow> k = l | _ \<Rightarrow> False) (mTerms e)"
proof -
  have "(\<exists>c. t = TupleVarTerm c l) \<longleftrightarrow> (case t of TupleVarTerm c k \<Rightarrow> k = l | _ \<Rightarrow> False)" for t
    by (cases t) auto
  then have "list_ex (\<lambda>t. case t of TupleVarTerm c k \<Rightarrow> k = l | _ \<Rightarrow> False) (mTerms e) \<longleftrightarrow> (\<exists>t \<in> set (mTerms e). \<exists>c. t = TupleVarTerm c l)"
    by (simp add: list_ex_iff)
  then show ?thesis unfolding direct_tv_def by metis
qed

definition calls_with :: "int \<Rightarrow> exp \<Rightarrow> bool" where
  "calls_with l e \<longleftrightarrow> list_ex (direct_tv l) (exp_args e)"

definition typed_args :: "exp \<Rightarrow> bool" where
  "typed_args e \<longleftrightarrow> \<not> isExpression e \<and> list_all isExpression (exp_args e)"

definition mark :: "bool \<Rightarrow> 'a arg_visitor_scheme \<Rightarrow> 'a arg_visitor_scheme" where
  "mark b v = v\<lparr>seenTupleVar := seenTupleVar v \<or> b\<rparr>"

lemma mark_simps [simp]:
  "mark False v = v" "mark b (mark b' v) = mark (b' \<or> b) v" "UFCLevel (mark b v) = UFCLevel v"
  by (simp_all add: mark_def)

lemma fold_mark: "(\<And>x v. x \<in> set xs \<Longrightarrow> UFCLevel v = d \<Longrightarrow> f x v = mark (p x) v) \<Longrightarrow> UFCLevel v = d \<Longrightarrow>
    fold f xs v = mark (list_ex p xs) v"
  by (induction xs arbitrary: v) simp_all

lemma arg_visits:
  fixes v :: "'a arg_visitor_scheme"
  shows "list_all isExpression (term_args t) \<Longrightarrow> UFCLevel v = d \<Longrightarrow> d \<ge> 0 \<Longrightarrow>
     fold (arg_visit l) (term_acceptVisitor t) v =
       mark (list_ex (direct_tv l) (term_args t) \<or> d > 0 \<and> (\<exists>c. t = TupleVarTerm c l)) v"
  and "list_all isExpression (exp_args e) \<Longrightarrow> isExpression e \<Longrightarrow> UFCLevel v = d \<Longrightarrow> d \<ge> 0 \<Longrightarrow>
     fold (arg_visit l) (exp_acceptVisitor e) v = mark (calls_with l e \<or> direct_tv l e) v"
proof (induction t and e arbitrary: v d and v d rule: term_acceptVisitor_exp_acceptVisitor.induct)
  case (2 c f es i)
  have "fold (arg_visit l) (exp_acceptVisitor a) u = mark (calls_with l a \<or> direct_tv l a) u"
    if "a \<in> set es" "UFCLevel u = d" for a and u :: "'a arg_visitor_scheme"
    using 2(1) [OF that(1) _ _ that(2)] 2(2,4) that(1) by (auto simp: list_all_iff)
  then have "fold (\<lambda>a. fold (arg_visit l) (exp_acceptVisitor a)) es v = mark (list_ex (\<lambda>a. calls_with l a \<or> direct_tv l a) es) v"
    using 2(3) by (rule fold_mark)
  moreover have "list_ex (\<lambda>a. calls_with l a \<or> direct_tv l a) es \<longleftrightarrow> list_ex (direct_tv l) (term_args (UFCallTerm c f es i))"
    by (auto simp: list_ex_iff calls_with_def)
  ultimately show ?case by (simp add: fold_concat fold_map comp_def)
next
  case (6 ts ty)
  let ?v = "v\<lparr>UFCLevel := d + 1\<rparr>" and ?p = "\<lambda>t. list_ex (direct_tv l) (term_args t) \<or> (\<exists>c. t = TupleVarTerm c l)"
  have "fold (arg_visit l) (term_acceptVisitor t) u = mark (?p t) u" if "t \<in> set ts" "UFCLevel u = d + 1" for t and u :: "'a arg_visitor_scheme"
    using 6(1) [OF that(1) _ that(2)] 6(2,5) that(1) by (auto simp: list_all_iff)
  moreover have "UFCLevel ?v = d + 1" by simp
  ultimately have "fold (\<lambda>t. fold (arg_visit l) (term_acceptVisitor t)) ts ?v = mark (list_ex ?p ts) ?v"
    by (rule fold_mark)
  moreover have "list_ex ?p ts \<longleftrightarrow> calls_with l (Exp ts ty) \<or> direct_tv l (Exp ts ty)"
    by (auto simp: list_ex_iff calls_with_def direct_tv_def)
  ultimately show ?case using 6(3,4) by (simp add: fold_concat fold_map comp_def mark_def isEquality_def isInequality_def isExpression_def)
qed (auto simp: mark_def)

text \<open>The terms of a constraint, and the visits that only move the level and the flag.\<close>

lemma arg_constraint:
  fixes v :: "'a arg_visitor_scheme"
  assumes "list_all isExpression (exp_args (Exp ts ty))" and "UFCLevel v = 0"
  shows "fold (arg_visit l) (concat (map term_acceptVisitor ts)) v = mark (calls_with l (Exp ts ty)) v"
proof -
  have "fold (arg_visit l) (term_acceptVisitor t) u = mark (list_ex (direct_tv l) (term_args t)) u"
    if "t \<in> set ts" "UFCLevel u = 0" for t and u :: "'a arg_visitor_scheme"
    using arg_visits(1) [OF _ that(2), of t l] assms(1) that(1) by (auto simp: list_all_iff)
  then have "fold (\<lambda>t. fold (arg_visit l) (term_acceptVisitor t)) ts v = mark (list_ex (\<lambda>t. list_ex (direct_tv l) (term_args t)) ts) v"
    using assms(2) by (rule fold_mark)
  moreover have "list_ex (\<lambda>t. list_ex (direct_tv l) (term_args t)) ts \<longleftrightarrow> calls_with l (Exp ts ty)"
    by (auto simp: list_ex_iff calls_with_def)
  ultimately show ?thesis by (simp add: fold_concat fold_map comp_def)
qed

definition quiet_visit :: "visit \<Rightarrow> bool" where
  "quiet_visit x \<longleftrightarrow> inner_visit x \<and> (\<forall>e. x = PostExp e \<longrightarrow> isExpression e)"

lemma quiet_visits:
  "list_all isExpression (term_args t) \<Longrightarrow> list_all quiet_visit (term_acceptVisitor t)"
  "list_all isExpression (exp_args e) \<Longrightarrow> isExpression e \<Longrightarrow> list_all quiet_visit (exp_acceptVisitor e)"
proof (induction t and e rule: term_acceptVisitor_exp_acceptVisitor.induct)
  case (2 c f es i)
  then have "list_all quiet_visit (exp_acceptVisitor a)" if "a \<in> set es" for a using that by (auto simp: list_all_iff)
  then show ?case by (auto simp: quiet_visit_def list_all_iff)
next
  case (6 ts ty)
  then have "list_all quiet_visit (term_acceptVisitor t)" if "t \<in> set ts" for t using that by (auto simp: list_all_iff)
  then show ?case using 6(3) by (auto simp: quiet_visit_def list_all_iff)
qed (simp_all add: quiet_visit_def)

lemma quiet_terms:
  "list_all isExpression (exp_args (Exp ts ty)) \<Longrightarrow> list_all quiet_visit (concat (map term_acceptVisitor ts))"
  using quiet_visits(1) by (fastforce simp: list_all_iff)

lemma count_quiet: "quiet_visit x \<Longrightarrow> count_visit ad l ignore x v = arg_visit l x v"
  by (cases x) (auto simp: quiet_visit_def)

lemma remove_quiet: "quiet_visit x \<Longrightarrow> remove_visit ad l x v = Inr (arg_visit l x v)"
  by (cases x) (auto simp: quiet_visit_def)

lemma fold_same: "(\<And>x v. x \<in> set xs \<Longrightarrow> f x v = g x v) \<Longrightarrow> fold f xs v = fold g xs v"
  by (induction xs arbitrary: v) simp_all

lemma foldm_pure: "(\<And>x v. x \<in> set xs \<Longrightarrow> f x v = Inr (g x v)) \<Longrightarrow> foldm f xs v = Inr (fold g xs v)"
  by (induction xs arbitrary: v) simp_all

lemma not_Expression: "\<not> isExpression e \<Longrightarrow> isEquality e \<or> isInequality e"
  by (cases "mExpType e") (simp_all add: isExpression_def isEquality_def isInequality_def)

section \<open>Counting\<close>

lemma count_exp:
  assumes "typed_args e"
  shows "fold (count_visit ad l ignore) (exp_acceptVisitor e) v =
    v\<lparr>UFCLevel := 0, seenTupleVar := calls_with l e,
      num_consts := num_consts v + (if calls_with l e \<and> \<not> set_mem (exp_less ad) e ignore then 1 else 0)\<rparr>"
proof -
  obtain ts ty where e: "e = Exp ts ty" by (cases e) auto
  let ?v = "v\<lparr>UFCLevel := 0, seenTupleVar := False\<rparr>"
  have ne: "\<not> isExpression e" and args: "list_all isExpression (exp_args (Exp ts ty))"
    using assms by (simp_all add: typed_args_def e)
  have "fold (count_visit ad l ignore) (concat (map term_acceptVisitor ts)) ?v
      = fold (arg_visit l) (concat (map term_acceptVisitor ts)) ?v"
    by (rule fold_same) (use quiet_terms [OF args] count_quiet in \<open>auto simp: list_all_iff\<close>)
  also have "\<dots> = mark (calls_with l e) ?v" using arg_constraint [OF args, of ?v l] by (simp add: e)
  finally show ?thesis using ne not_Expression [OF ne] by (simp add: e mark_def)
qed

lemma count_exps:
  "list_all typed_args es \<Longrightarrow>
   num_consts (fold (count_visit ad l ignore) (concat (map exp_acceptVisitor es)) v) =
     num_consts v + length (filter (\<lambda>e. calls_with l e \<and> \<not> set_mem (exp_less ad) e ignore) es)"
  by (induction es arbitrary: v) (simp_all add: count_exp)

lemma count_conjs:
  "list_all (\<lambda>c. list_all typed_args (conj_exps c)) cs \<Longrightarrow>
   num_consts (fold (count_visit ad l ignore) (concat (map conj_acceptVisitor cs)) v) =
     num_consts v + length (filter (\<lambda>e. calls_with l e \<and> \<not> set_mem (exp_less ad) e ignore) (concat (map conj_exps cs)))"
proof (induction cs arbitrary: v)
  case (Cons c cs)
  have "conj_acceptVisitor c = PreConjunction c # concat (map exp_acceptVisitor (conj_exps c)) @ [PostConjunction c]"
    by (simp add: conj_acceptVisitor_def conj_exps_def)
  with Cons show ?case by (simp add: count_exps)
qed simp

section \<open>Removing\<close>

definition add_constraint :: "addr_order \<Rightarrow> exp \<Rightarrow> conj \<Rightarrow> conj" where
  "add_constraint ad e c = (if isInequality e then addInequality ad e c else addEquality ad e c)"

definition reduced :: "addr_order \<Rightarrow> int \<Rightarrow> conj \<Rightarrow> conj" where
  "reduced ad l c =
     fold (add_constraint ad) (filter (\<lambda>e. \<not> calls_with l e) (conj_exps c))
       ((Conjunction_tdecl (getTupleDecl c))\<lparr>mInArity := mInArity c\<rparr>)"

definition constraint_holds :: "valuation \<Rightarrow> exp \<Rightarrow> bool" where
  "constraint_holds v e \<longleftrightarrow> (if isInequality e then eval_exp v e \<ge> 0 else eval_exp v e = 0)"

lemma remove_exp:
  assumes "typed_args e" and "redConj v = Some c"
  shows "\<exists>v'. foldm (remove_visit ad l) (exp_acceptVisitor e) v = Inr v' \<and> mRedConj v' = mRedConj v
    \<and> redConj v' = Some (if calls_with l e then c else add_constraint ad e c)"
proof -
  obtain ts ty where e: "e = Exp ts ty" by (cases e) auto
  let ?v = "v\<lparr>UFCLevel := 0, seenTupleVar := False\<rparr>"
  have ne: "\<not> isExpression e" and args: "list_all isExpression (exp_args (Exp ts ty))"
    using assms(1) by (simp_all add: typed_args_def e)
  have "foldm (remove_visit ad l) (concat (map term_acceptVisitor ts)) ?v
      = Inr (fold (arg_visit l) (concat (map term_acceptVisitor ts)) ?v)"
    by (rule foldm_pure) (use quiet_terms [OF args] remove_quiet in \<open>auto simp: list_all_iff\<close>)
  also have "\<dots> = Inr (mark (calls_with l e) ?v)" using arg_constraint [OF args, of ?v l] by (simp add: e)
  finally show ?thesis
    using ne not_Expression [OF ne] assms(2)
    by (simp add: e foldm_append mark_def keep_constraint_def add_constraint_def)
qed

lemma remove_exps:
  "list_all typed_args es \<Longrightarrow> redConj v = Some c \<Longrightarrow>
   \<exists>v'. foldm (remove_visit ad l) (concat (map exp_acceptVisitor es)) v = Inr v' \<and> mRedConj v' = mRedConj v
     \<and> redConj v' = Some (fold (add_constraint ad) (filter (\<lambda>e. \<not> calls_with l e) es) c)"
proof (induction es arbitrary: v c)
  case (Cons e es)
  obtain v1 where v1: "foldm (remove_visit ad l) (exp_acceptVisitor e) v = Inr v1" "mRedConj v1 = mRedConj v"
    "redConj v1 = Some (if calls_with l e then c else add_constraint ad e c)"
    using remove_exp [of e v c ad l] Cons.prems by auto
  show ?case using Cons.IH [OF _ v1(3)] Cons.prems(1) v1(1,2) by (auto simp: foldm_append)
qed simp

lemma remove_conjs:
  "foldm (remove_visit ad l) (concat (map conj_acceptVisitor cs)) v = Inr v' \<Longrightarrow>
   list_all (\<lambda>c. list_all typed_args (conj_exps c)) cs \<Longrightarrow> mRedConj v' = mRedConj v @ map (reduced ad l) cs"
proof (induction cs arbitrary: v)
  case (Cons c cs)
  have acc: "conj_acceptVisitor c = PreConjunction c # concat (map exp_acceptVisitor (conj_exps c)) @ [PostConjunction c]"
    by (simp add: conj_acceptVisitor_def conj_exps_def)
  let ?new = "(Conjunction_tdecl (getTupleDecl c))\<lparr>mInArity := mInArity c\<rparr>"
  obtain v1 where v1: "foldm (remove_visit ad l) (conj_acceptVisitor c) v = Inr v1"
    and rest: "foldm (remove_visit ad l) (concat (map conj_acceptVisitor cs)) v1 = Inr v'"
    using Cons.prems(1) by (auto simp: foldm_append bindr_eq_Inr)
  obtain v2 where "foldm (remove_visit ad l) (concat (map exp_acceptVisitor (conj_exps c))) (v\<lparr>redConj := Some ?new\<rparr>) = Inr v2"
    "mRedConj v2 = mRedConj v" "redConj v2 = Some (reduced ad l c)"
    using remove_exps [of "conj_exps c" "v\<lparr>redConj := Some ?new\<rparr>" ?new ad l] Cons.prems(2) by (auto simp: reduced_def)
  then have "mRedConj v1 = mRedConj v @ [reduced ad l c]"
    using v1 by (auto simp: acc foldm_append setInArity_def bindr_eq_Inr split: if_splits)
  then show ?case using Cons.IH [OF rest] Cons.prems(2) by simp
qed simp

lemma add_constraints_sat:
  "list_all plain_exp es \<Longrightarrow> plain_conj d \<Longrightarrow>
   plain_conj (fold (add_constraint ad) es d) \<and> mTupleDecl (fold (add_constraint ad) es d) = mTupleDecl d
   \<and> (sat_constraints u (fold (add_constraint ad) es d) \<longleftrightarrow> sat_constraints u d \<and> (\<forall>e \<in> set es. constraint_holds u e))"
proof (induction es arbitrary: d)
  case (Cons e es)
  then show ?case
    using sat_addEquality [of e d ad u] sat_addInequality [of e d ad u]
    by (auto simp: add_constraint_def constraint_holds_def)
qed simp

text \<open>A conjunction rebuilt from those of its constraints that satisfy \<open>P\<close>.\<close>

lemma rebuilt_holds:
  assumes "okc c" and "mTupleDecl new = mTupleDecl c" and "mEqualities new = []" and "mInequalities new = []"
  shows "okc (fold (add_constraint ad) (filter P (conj_exps c)) new)
    \<and> (holds v (fold (add_constraint ad) (filter P (conj_exps c)) new) xs \<longleftrightarrow> admits (mTupleDecl c) xs
    \<and> (\<forall>e \<in> set (conj_exps c). P e \<longrightarrow> constraint_holds (at_tuple v xs) e))"
proof -
  have "list_all plain_exp (filter P (conj_exps c))" "plain_conj new" "sat_constraints u new" for u
    using assms by (auto simp: okc_def plain_conj_def conj_exps_def list_all_iff sat_constraints_def zeros_def nonnegs_def)
  from add_constraints_sat [OF this(1,2)] this(3) assms show ?thesis
    by (auto simp: okc_def holds_def)
qed

lemma reduced_holds:
  assumes "okc c"
  shows "okc (reduced ad l c) \<and> (holds v (reduced ad l c) xs \<longleftrightarrow> admits (mTupleDecl c) xs
    \<and> (\<forall>e \<in> set (conj_exps c). \<not> calls_with l e \<longrightarrow> constraint_holds (at_tuple v xs) e))"
  unfolding reduced_def
  by (rule rebuilt_holds [OF assms]) (simp_all add: Conjunction_tdecl_def getTupleDecl_def)

lemma proper_fold: "proper ds \<Longrightarrow> list_all okc ds \<Longrightarrow> proper (fold (sparse_addConjunction ad) ds [])"
proof (cases "length ds \<le> 1")
  case True
  then show ?thesis by (cases ds) (auto simp: proper_def sparse_addConjunction_def drop_true_def)
next
  case False
  moreover assume "proper ds" "list_all okc ds"
  ultimately show ?thesis using fold_add [of ds "[]" ad] by (simp add: proper_def)
qed

section \<open>Properties\<close>

text \<open>
  The count is the number of constraints with the tuple variable in the argument of a call,
  at any depth, less the constraints that are to be ignored.
\<close>

lemma numUFCallConstsMustRemove_counts:
  assumes "list_all (\<lambda>c. list_all typed_args (conj_exps c)) cs"
  shows "numUFCallConstsMustRemove ad l ignore cs =
    length (filter (\<lambda>e. calls_with l e \<and> \<not> set_mem (exp_less ad) e ignore) (concat (map conj_exps cs)))"
  using count_conjs [OF assms, of ad l ignore]
  by (simp add: numUFCallConstsMustRemove_def sparse_acceptVisitor_def)

text \<open>
  C21. Removing the constraints with a tuple variable in a call keeps exactly the other
  constraints of each conjunction: every tuple stays, and a tuple is added only if it violates
  nothing but removed constraints. No conjunction of a union may be left without constraints (\<open>proper\<close>):
  adding it to the result would drop it.
\<close>

theorem removeUFCallConsts_holds:
  assumes "removeUFCallConsts w i cs = Inr cs'" and "list_all (\<lambda>c. list_all typed_args (conj_exps c)) cs"
    and "list_all okc cs" and "proper (map (reduced (address_order w) i) cs)"
    and "list_all (nests_ok_conj (inverse_of w)) (map (reduced (address_order w) i) cs)" and "inverts (inverse_of w) v"
  shows "sparse_holds v cs' xs \<longleftrightarrow> (\<exists>c \<in> set cs. admits (mTupleDecl c) xs
    \<and> (\<forall>e \<in> set (conj_exps c). \<not> calls_with i e \<longrightarrow> constraint_holds (at_tuple v xs) e))"
proof -
  let ?ad = "address_order w" and ?ds = "map (reduced (address_order w) i) cs"
  obtain v1 where v1: "foldm (remove_visit ?ad i) (concat (map conj_acceptVisitor cs)) remove_visitor_new = Inr v1"
    and cp: "sparse_copy w (fold (sparse_addConjunction ?ad) (mRedConj v1) []) = Inr cs'"
    using assms(1) by (auto simp: removeUFCallConsts_def sparse_acceptVisitor_def foldm_append bindr_eq_Inr)
  have ds: "mRedConj v1 = ?ds" using remove_conjs [OF v1 assms(2)] by (simp add: remove_visitor_new_def)
  have ok: "list_all okc ?ds" using assms(3) reduced_holds by (auto simp: list_all_iff)
  note add = add_proper [OF ok assms(4), of ?ad v xs]
  have "list_all (nests_ok_conj (inverse_of w)) (fold (sparse_addConjunction ?ad) ?ds [])"
    using add assms(5) by (auto simp: list_all_iff)
  then have "sparse_holds v cs' xs \<longleftrightarrow> sparse_holds v ?ds xs"
    using sparse_copy_holds [OF cp [unfolded ds] _ proper_fold [OF assms(4) ok] _ assms(6), of xs] add by simp
  also have "\<dots> \<longleftrightarrow> (\<exists>c \<in> set cs. holds v (reduced ?ad i c) xs)" by (simp add: sparse_holds_def)
  finally show ?thesis using reduced_holds assms(3) by (simp add: list_all_iff)
qed

theorem removeUFCallConsts_holds_witness:
  "\<exists>cs. removeUFCallConsts ex_world 0 [(Conjunction_new 1)\<lparr>
        mEqualities := [Exp [TupleVarTerm 1 0, Term (-5)] Equality],
        mInequalities := [Exp [UFCallTerm 1 ''f'' [Exp [TupleVarTerm 1 0] Expression] (-1)] Inequality]\<rparr>] = Inr cs
     \<and> (\<forall>v. sparse_holds v cs [5])"
proof -
  let ?c = "(Conjunction_new 1)\<lparr>mEqualities := [Exp [TupleVarTerm 1 0, Term (-5)] Equality],
    mInequalities := [Exp [UFCallTerm 1 ''f'' [Exp [TupleVarTerm 1 0] Expression] (-1)] Inequality]\<rparr>"
  have r: "removeUFCallConsts ex_world 0 [?c] = Inr (projr (removeUFCallConsts ex_world 0 [?c]))"
    by (rule Inr_projr) code_simp
  have t: "list_all (\<lambda>c. list_all typed_args (conj_exps c)) [?c]" by code_simp
  have o: "list_all okc [?c]" by code_simp
  have p: "proper (map (reduced (address_order ex_world) 0) [?c])" by code_simp
  have n: "list_all (nests_ok_conj (inverse_of ex_world)) (map (reduced (address_order ex_world) 0) [?c])" by code_simp
  have i: "inverts (inverse_of ex_world) v" for v by (simp add: inverts_def ex_world_def)
  have "\<exists>c \<in> set [?c]. admits (mTupleDecl c) [5]
      \<and> (\<forall>e \<in> set (conj_exps c). \<not> calls_with 0 e \<longrightarrow> constraint_holds (at_tuple v [5]) e)" for v
    by (simp add: conj_exps_def Conjunction_new_def Conjunction_tdecl_def admits_def TupleDecl_new_def elemIsConst_def
        constraint_holds_def isInequality_def calls_with_def direct_tv_def at_tuple_def)
  then show ?thesis using r removeUFCallConsts_holds [OF r t o p n i, of _ "[5]"] by blast
qed

text \<open>
  A conjunction that loses all its constraints is dropped like the default conjunction of a new
  set when the next one is added: the result for \<open>{[x] : f(x) >= 0} union {[x] : x = 5}\<close> is
  \<open>{[x] : x = 5}\<close>, which lacks tuples of the original.
\<close>

lemma removeUFCallConsts_loses:
  "let c = (Conjunction_new 1)\<lparr>mInequalities := [Exp [UFCallTerm 1 ''f'' [Exp [TupleVarTerm 1 0] Expression] (-1)] Inequality]\<rparr>;
       d = (Conjunction_new 1)\<lparr>mEqualities := [Exp [TupleVarTerm 1 0, Term (-5)] Equality]\<rparr>
   in removeUFCallConsts ex_world 0 [c, d] = Inr [d]"
  by code_simp

text \<open>Constraints to be ignored do not count against the budget, but they are removed as well.\<close>

lemma removeExpensive_ignored:
  "let e = Exp [UFCallTerm 1 ''f'' [Exp [TupleVarTerm 1 0] Expression] (-1)] Inequality;
       c = (Conjunction_new 1)\<lparr>mInequalities := [e]\<rparr>
   in removeExpensiveConstraints ex_world 1 {} 0 [e] [c] = Inr [Conjunction_new 1]"
  by code_simp

text \<open>
  Projecting an empty set: no conjunction is collected and the new set keeps its default one, so
  the projection is the universe. A set of arity one cannot be projected at all: ISL's answer has
  arity zero, on which \<open>setInArity(0)\<close> fails.
\<close>

lemma projectOut_empty:
  "(case Set_projectOut ex_world Environment_new pr_isl pr_parse 0 \<lparr>mArity = 2, set_conjs = []\<rparr> of
      Inr (Some s) \<Rightarrow> map (\<lambda>c. (mEqualities c, mInequalities c)) (set_conjs s) = [([], [])] | _ \<Rightarrow> False) = True"
  by code_simp

lemma projectOut_to_arity_zero:
  "Set_projectOut ex_world Environment_new (\<lambda>k s. ''{ [] }'') (\<lambda>s. Inr \<lparr>mArity = 0, set_conjs = [Conjunction_new 0]\<rparr>) 0
     \<lparr>mArity = 1, set_conjs = [(Conjunction_new 1)\<lparr>mInequalities := [Exp [TupleVarTerm 1 0] Inequality]\<rparr>]\<rparr>
   = Inl (Assert ''Conjunction::setInArity: impossible arity match'')"
  by code_simp

text \<open>Of a projection that ISL returns as a union only the first conjunction is kept.\<close>

lemma projectOut_front_only:
  "let c = \<lambda>k. (Conjunction_new 1)\<lparr>mEqualities := [Exp [TupleVarTerm 1 0, Term k] Equality]\<rparr>
   in map_sum id (map_option set_conjs) (Set_projectOut ex_world Environment_new (\<lambda>k s. ''{ [tv0] : tv0 = 5 or tv0 = 6 }'')
     (\<lambda>s. Inr \<lparr>mArity = 1, set_conjs = [c (-5), c (-6)]\<rparr>) 1
     \<lparr>mArity = 2, set_conjs = [(Conjunction_new 2)\<lparr>mInequalities := [Exp [TupleVarTerm 1 0] Inequality]\<rparr>]\<rparr>)
   = Inr (Some [c (-5)])"
  by code_simp

end
