(* ===== verification/IEG_Instantiate.thy ===== *)
theory IEG_Instantiate
  imports IEG_AffineProps
begin

text \<open>
  Unsatisfiability with the rules of the environment (\<open>set_relation.cc\<close>): the rules are
  instantiated with the arguments of the calls in a set, the instantiations are added to the
  affine superset by ISL, and what ISL then knows of the set is either that it is empty or a set
  of equalities. ISL's sets are of type \<open>'i\<close>; its operations are the record \<open>isl_ops\<close>.
\<close>

section \<open>The expressions to instantiate rules with\<close>

fun gather_visit :: "addr_order \<Rightarrow> visit \<Rightarrow> exp list \<Rightarrow> exp list res" where
  "gather_visit ad (PreUFCall (UFCallTerm c f es i)) instExps =
     (case es of
        [] \<Rightarrow> Inl (Assert ''UFCallTerm::setParamExp: i is out of bounds'')
      | e # _ \<Rightarrow> Inr (insert_unique (exp_less ad) e instExps))"
| "gather_visit ad _ instExps = Inr instExps"

definition gather_exps :: "addr_order \<Rightarrow> visit list \<Rightarrow> exp list res" where
  "gather_exps ad visits = foldm (gather_visit ad) visits []"

section \<open>Instantiating rules\<close>

definition side_string :: "string \<Rightarrow> string" where
  "side_string s = (let s = trim s in if s = [] then ''true'' else if s = ''FALSE'' then ''false'' else s)"

definition instantiate_side ::
  "world \<Rightarrow> environment \<Rightarrow> submap \<Rightarrow> tuple_decl \<Rightarrow> iset \<Rightarrow> iset res" where
  "instantiate_side w env subMap origTupleDecl side =
     bindr (Set_copy (env_world w env) side) (\<lambda>s.
     bindr (sparse_substituteInConstraints (env_world w env) subMap (set_conjs s)) (\<lambda>cs.
     Set_setTupleDecl origTupleDecl (s\<lparr>set_conjs := cs\<rparr>)))"

definition Set_constraints_string :: "world \<Rightarrow> iset \<Rightarrow> string res" where
  "Set_constraints_string w s =
     bindr (sparse_prettyPrint w (mArity s) 0 (set_conjs s)) (\<lambda>str.
     bindr (getPartsFromStr str) (\<lambda>parts. Inr (side_string (constraints parts))))"

definition instantiate ::
  "world \<Rightarrow> environment \<Rightarrow> uq_rule \<Rightarrow> exp \<Rightarrow> exp \<Rightarrow> ufcall_map \<Rightarrow> tuple_decl \<Rightarrow> ((string \<times> string) \<times> ufcall_map) res" where
  "instantiate w env uqRule x1 x2 cmap origTupleDecl =
     (let subMap = insertPair (key_address w 1) (TupleVarTerm 1 1) x2
                     (insertPair (key_address w 0) (TupleVarTerm 1 0) x1 SubMap_new) in
      bindr (instantiate_side w env subMap origTupleDecl (mLeftSide uqRule)) (\<lambda>leftSideOfTheRule.
      bindr (instantiate_side w env subMap origTupleDecl (mRightSide uqRule)) (\<lambda>rightSideOfTheRule.
      bindr (Set_superAffineSet w env cmap False leftSideOfTheRule) (\<lambda>(supAffLeft, cmap).
      bindr (Set_superAffineSet w env cmap False rightSideOfTheRule) (\<lambda>(supAffRight, cmap).
      bindr (Set_constraints_string (env_world w env) supAffLeft) (\<lambda>leftStr.
      bindr (Set_constraints_string (env_world w env) supAffRight) (\<lambda>rightStr.
      Inr ((leftStr, rightStr), cmap))))))))"

text \<open>
  Without \<open>useRule\<close> every type of rule is used; the array that says so has no element for
  \<open>TheOthers\<close>, which is the last type.
\<close>

definition rule_used :: "(uq_type \<Rightarrow> bool) option \<Rightarrow> uq_type \<Rightarrow> bool res" where
  "rule_used useRule t =
     (case useRule of None \<Rightarrow> if t = TheOthers then Inl OutOfBounds else Inr True | Some f \<Rightarrow> Inr (f t))"

type_synonym inst_state = "(string \<times> string) list \<times> ufcall_map"

definition instantiate_step ::
  "world \<Rightarrow> environment \<Rightarrow> tuple_decl \<Rightarrow> uq_rule \<Rightarrow> exp \<times> exp \<Rightarrow> inst_state \<Rightarrow> inst_state res" where
  "instantiate_step w env origTupleDecl uqRule xs st =
     bindr (instantiate w env uqRule (fst xs) (snd xs) (snd st) origTupleDecl) (\<lambda>(p, m).
     Inr (insert_unique (<) p (fst st), m))"

definition ruleInstantiation ::
  "world \<Rightarrow> environment \<Rightarrow> exp list \<Rightarrow> (uq_type \<Rightarrow> bool) option \<Rightarrow> tuple_decl \<Rightarrow> ufcall_map \<Rightarrow> inst_state res" where
  "ruleInstantiation w env instExps useRule origTupleDecl cmap =
     foldm (\<lambda>uqRule st.
         bindr (rule_used useRule (mUniQuantRuleType uqRule)) (\<lambda>used.
         if \<not> used then Inr st
         else foldm (instantiate_step w env origTupleDecl uqRule) (List.product instExps instExps) st))
       (uniQuantRules env) ([], cmap)"

section \<open>Adding the instantiations\<close>

record 'i isl_ops =
  isl_read :: "string \<Rightarrow> 'i"
  isl_gist :: "'i \<Rightarrow> 'i \<Rightarrow> 'i"
  isl_is_universe :: "'i \<Rightarrow> bool"
  isl_intersect :: "'i \<Rightarrow> 'i \<Rightarrow> 'i"
  isl_coalesce :: "'i \<Rightarrow> 'i"
  isl_complement :: "'i \<Rightarrow> 'i"
  isl_is_empty :: "'i \<Rightarrow> bool"
  isl_is_equal :: "'i \<Rightarrow> 'i \<Rightarrow> bool"
  isl_hull_str :: "'i \<Rightarrow> string"

definition symsForInstantiationSet :: "iset \<Rightarrow> ufcall_map \<Rightarrow> string res" where
  "symsForInstantiationSet drOrigSet cmap =
     (case set_conjs drOrigSet of
        [] \<Rightarrow> Inl NullDeref
      | c # _ \<Rightarrow>
          let ss = (case mList (getSymbolIterator c) of [] \<Rightarrow> [] | s # rest \<Rightarrow> s @ symbol_list rest);
              vs = varTermStrList cmap in
          Inr (if ss \<noteq> [] \<and> vs \<noteq> [] then ''['' @ ss @ '', '' @ vs @ ''] -> ''
               else if vs = [] then ''['' @ ss @ ''] -> '' else ''['' @ vs @ ''] -> ''))"

definition isl_string :: "string \<Rightarrow> string \<Rightarrow> string \<Rightarrow> string" where
  "isl_string syms td cons = syms @ ''{'' @ td @ '' : '' @ cons @ ''}''"

definition add_instantiation :: "'i isl_ops \<Rightarrow> string \<Rightarrow> string \<Rightarrow> string \<times> string \<Rightarrow> 'i \<Rightarrow> 'i" where
  "add_instantiation ops syms td inst s =
     (let antecedentStr = isl_string syms td (fst inst); consequentStr = isl_string syms td (snd inst) in
      if isl_is_universe ops (isl_gist ops (isl_read ops antecedentStr) s)
      then isl_coalesce ops (isl_intersect ops s (isl_read ops consequentStr))
      else if isl_is_universe ops (isl_gist ops (isl_complement ops (isl_read ops consequentStr)) s)
      then isl_coalesce ops (isl_intersect ops s (isl_complement ops (isl_read ops antecedentStr)))
      else s)"

fun inst_rounds :: "nat \<Rightarrow> 'i isl_ops \<Rightarrow> string \<Rightarrow> string \<Rightarrow> (string \<times> string) list \<Rightarrow> 'i \<Rightarrow> 'i" where
  "inst_rounds 0 ops syms td insts s = s"
| "inst_rounds (Suc n) ops syms td insts old_set =
     (let s = fold (add_instantiation ops syms td) insts old_set in
      if isl_is_empty ops s then s else if isl_is_equal ops old_set s then s
      else inst_rounds n ops syms td insts s)"

definition instantiationSet :: "'i isl_ops \<Rightarrow> srParts \<Rightarrow> (string \<times> string) list \<Rightarrow> string \<Rightarrow> 'i" where
  "instantiationSet ops supSetParts instantiations syms =
     inst_rounds 2 ops syms (tupDecl supSetParts) instantiations
       (isl_read ops (isl_string syms (tupDecl supSetParts) (constraints supSetParts)))"

section \<open>Equalities that define a tuple variable\<close>

record useful_visitor =
  foundTvVar :: bool
  UFnestLevel :: int
  uEqsC :: "conj option"
  uEqsS :: "iset option"

fun useful_visit :: "addr_order \<Rightarrow> visit \<Rightarrow> useful_visitor \<Rightarrow> useful_visitor res" where
  "useful_visit ad (PreUFCall t) v = Inr (v\<lparr>UFnestLevel := UFnestLevel v + 1\<rparr>)"
| "useful_visit ad (PostUFCall t) v = Inr (v\<lparr>UFnestLevel := UFnestLevel v - 1\<rparr>)"
| "useful_visit ad (PreTupleVar t) v = Inr (if UFnestLevel v = 0 then v\<lparr>foundTvVar := True\<rparr> else v)"
| "useful_visit ad (PreExp e) v = Inr (if UFnestLevel v = 0 then v\<lparr>foundTvVar := False\<rparr> else v)"
| "useful_visit ad (PostExp e) v =
     (if UFnestLevel v = 0 \<and> foundTvVar v
      then case uEqsC v of None \<Rightarrow> Inl NullDeref | Some c \<Rightarrow> Inr (v\<lparr>uEqsC := Some (addEquality ad e c)\<rparr>)
      else Inr v)"
| "useful_visit ad (PreConjunction c) v =
     Inr (v\<lparr>UFnestLevel := 0, uEqsC := Some (Conjunction_tdecl (getTupleDecl c))\<rparr>)"
| "useful_visit ad (PostConjunction c) v =
     (case uEqsC v of
        None \<Rightarrow> Inl NullDeref
      | Some u \<Rightarrow>
          let s = Set_tdecl ad (getTupleDecl c) in
          Inr (v\<lparr>uEqsS := Some (s\<lparr>set_conjs := sparse_addConjunction ad u (set_conjs s)\<rparr>)\<rparr>))"
| "useful_visit ad _ v = Inr v"

definition getUsefulEqs :: "addr_order \<Rightarrow> iset \<Rightarrow> iset res" where
  "getUsefulEqs ad s =
     bindr (foldm (useful_visit ad) (Set_acceptVisitor s)
       \<lparr>foundTvVar = False, UFnestLevel = 0, uEqsC = None, uEqsS = None\<rparr>) (\<lambda>v.
     case uEqsS v of None \<Rightarrow> Inl NullDeref | Some u \<Rightarrow> Inr u)"

definition checkIslSet ::
  "world \<Rightarrow> environment \<Rightarrow> 'i isl_ops \<Rightarrow> (string \<Rightarrow> iset res) \<Rightarrow> 'i \<Rightarrow> ufcall_map \<Rightarrow> iset \<Rightarrow> iset option res" where
  "checkIslSet w env ops parse_set s cmap origSet =
     (if isl_is_empty ops s then Inr None
      else
        bindr (parse_set (isl_hull_str ops s)) (\<lambda>affineEqs.
        bindr (Set_reverseAffineSubstitution (address_order w) cmap affineEqs) (\<lambda>eQs.
        bindr (getUsefulEqs (address_order w) eQs) (\<lambda>uEqs.
        bindr (Set_Intersect (env_world w env) origSet uEqs) (\<lambda>r. Inr (Some r))))))"

section \<open>Detecting unsatisfiability\<close>

definition detect_in_set ::
  "world \<Rightarrow> environment \<Rightarrow> 'i isl_ops \<Rightarrow> (string \<Rightarrow> iset res) \<Rightarrow> inst_state \<Rightarrow> iset \<Rightarrow> iset option res" where
  "detect_in_set w env ops parse_set st this =
     bindr (Set_superAffineSet w env (snd st) True this) (\<lambda>(supAffSet, cmap).
     bindr (sparse_prettyPrint (env_world w env) (mArity supAffSet) 0 (set_conjs supAffSet)) (\<lambda>str.
     bindr (getPartsFromStr str) (\<lambda>supSetParts.
     bindr (Set_boundDomainRange w env this) (\<lambda>bounded.
     bindr (symsForInstantiationSet bounded cmap) (\<lambda>syms.
     checkIslSet w env ops parse_set (instantiationSet ops supSetParts (fst st) syms) cmap this)))))"

definition Set_detectUnsatOrFindEqualities ::
  "world \<Rightarrow> environment \<Rightarrow> 'i isl_ops \<Rightarrow> (string \<Rightarrow> iset res) \<Rightarrow> (uq_type \<Rightarrow> bool) option \<Rightarrow> iset \<Rightarrow> iset option res" where
  "Set_detectUnsatOrFindEqualities w env ops parse_set useRule this =
     bindr (gather_exps (address_order w) (Set_acceptVisitor this)) (\<lambda>instExps.
     bindr (sparse_getTupleDecl (set_conjs this)) (\<lambda>origTupleDecl.
     bindr (ruleInstantiation w env instExps useRule origTupleDecl UFCallMap_new) (\<lambda>st.
     detect_in_set w env ops parse_set st this)))"

definition Relation_detectUnsatOrFindEqualities ::
  "world \<Rightarrow> environment \<Rightarrow> 'i isl_ops \<Rightarrow> (string \<Rightarrow> iset res) \<Rightarrow> (string \<Rightarrow> irel res) \<Rightarrow> (uq_type \<Rightarrow> bool) option
   \<Rightarrow> irel \<Rightarrow> irel option res" where
  "Relation_detectUnsatOrFindEqualities w env ops parse_set parse_rel useRule this =
     bindr (gather_exps (address_order w) (Relation_acceptVisitor this)) (\<lambda>instExps.
     bindr (sparse_getTupleDecl (rel_conjs this)) (\<lambda>origTupleDecl.
     bindr (ruleInstantiation w env instExps useRule origTupleDecl UFCallMap_new) (\<lambda>st.
     bindr (Relation_prettyPrint (env_world w env) this) (\<lambda>str.
     bindr (relationStr2SetStr str (inArity this) (outArity this)) (\<lambda>setStr.
     bindr (parse_set setStr) (\<lambda>eqSet.
     bindr (detect_in_set w env ops parse_set st eqSet) (\<lambda>resultSet.
     case resultSet of
       None \<Rightarrow> Inr None
     | Some r \<Rightarrow>
         bindr (sparse_prettyPrint (env_world w env) (mArity r) 0 (set_conjs r)) (\<lambda>rstr.
         bindr (setStr2RelationStr rstr (inArity this) (outArity this)) (\<lambda>relStr.
         bindr (parse_rel relStr) (\<lambda>rel. Inr (Some rel)))))))))))"

section \<open>What ISL promises\<close>

text \<open>
  \<open>den s\<close> is the set of points of \<open>s\<close>. A gist has the same points as its first argument inside of
  the second; of the test for the universe only a positive answer says something.
\<close>

definition isl_lawful :: "'i isl_ops \<Rightarrow> ('i \<Rightarrow> 'p set) \<Rightarrow> bool" where
  "isl_lawful ops den \<longleftrightarrow>
     (\<forall>a b. den (isl_gist ops a b) \<inter> den b = den a \<inter> den b)
     \<and> (\<forall>a. isl_is_universe ops a \<longrightarrow> den a = UNIV)
     \<and> (\<forall>a b. den (isl_intersect ops a b) = den a \<inter> den b)
     \<and> (\<forall>a. den (isl_coalesce ops a) = den a) \<and> (\<forall>a. den (isl_complement ops a) = - den a)"

definition obeys :: "'i isl_ops \<Rightarrow> ('i \<Rightarrow> 'p set) \<Rightarrow> string \<Rightarrow> string \<Rightarrow> (string \<times> string) list \<Rightarrow> 'p \<Rightarrow> bool" where
  "obeys ops den syms td insts p \<longleftrightarrow>
     list_all (\<lambda>(l, r). p \<in> den (isl_read ops (isl_string syms td l)) \<longrightarrow> p \<in> den (isl_read ops (isl_string syms td r))) insts"

lemma gist_universe:
  assumes "isl_lawful ops den" and "isl_is_universe ops (isl_gist ops a s)"
  shows "den s \<subseteq> den a"
proof -
  have "den (isl_gist ops a s) \<inter> den s = den a \<inter> den s" using assms(1) unfolding isl_lawful_def by blast
  moreover have "den (isl_gist ops a s) = UNIV" using assms unfolding isl_lawful_def by blast
  ultimately show ?thesis by blast
qed

lemma add_instantiation_points:
  assumes law: "isl_lawful ops den"
    and rule: "p \<in> den (isl_read ops (isl_string syms td (fst inst))) \<longrightarrow> p \<in> den (isl_read ops (isl_string syms td (snd inst)))"
  shows "den (add_instantiation ops syms td inst s) \<subseteq> den s \<and> (p \<in> den s \<longrightarrow> p \<in> den (add_instantiation ops syms td inst s))"
proof -
  let ?a = "isl_read ops (isl_string syms td (fst inst))" and ?c = "isl_read ops (isl_string syms td (snd inst))"
  have den: "den (isl_coalesce ops (isl_intersect ops x y)) = den x \<inter> den y" "den (isl_complement ops x) = - den x" for x y
    using law by (simp_all add: isl_lawful_def)
  show ?thesis
    using gist_universe [OF law, of ?a s] gist_universe [OF law, of "isl_complement ops ?c" s] rule
    by (auto simp: add_instantiation_def Let_def den)
qed

lemma fold_instantiation_points:
  assumes "isl_lawful ops den" and "obeys ops den syms td insts p"
  shows "den (fold (add_instantiation ops syms td) insts s) \<subseteq> den s
    \<and> (p \<in> den s \<longrightarrow> p \<in> den (fold (add_instantiation ops syms td) insts s))"
  using assms(2)
proof (induction insts arbitrary: s)
  case (Cons i insts)
  have "den (add_instantiation ops syms td i s) \<subseteq> den s \<and> (p \<in> den s \<longrightarrow> p \<in> den (add_instantiation ops syms td i s))"
    by (rule add_instantiation_points [OF assms(1)]) (use Cons.prems in \<open>auto simp: obeys_def split: prod.splits\<close>)
  with Cons.IH [of "add_instantiation ops syms td i s"] Cons.prems show ?case by (auto simp: obeys_def)
qed simp

lemma inst_rounds_points:
  assumes "isl_lawful ops den" and "obeys ops den syms td insts p"
  shows "den (inst_rounds n ops syms td insts s) \<subseteq> den s \<and> (p \<in> den s \<longrightarrow> p \<in> den (inst_rounds n ops syms td insts s))"
proof (induction n arbitrary: s)
  case (Suc n)
  let ?s = "fold (add_instantiation ops syms td) insts s"
  show ?case using fold_instantiation_points [OF assms, of s] Suc.IH [of ?s] by (auto simp: Let_def)
qed simp

section \<open>Properties\<close>

text \<open>
  C35. Adding instantiations of rules to the affine superset loses no point that obeys the rules
  and adds none: if the result is empty, no point of the set obeys the rules.
\<close>

theorem instantiationSet_sound:
  assumes "isl_lawful ops den" and "obeys ops den syms (tupDecl parts) insts p"
  shows "p \<in> den (isl_read ops (isl_string syms (tupDecl parts) (constraints parts))) \<longleftrightarrow>
      p \<in> den (instantiationSet ops parts insts syms)"
  using inst_rounds_points [OF assms, of 2 "isl_read ops (isl_string syms (tupDecl parts) (constraints parts))"]
  unfolding instantiationSet_def by blast

text \<open>Sets of the points 0 and 1, and the rule that a point not above 1 is 0.\<close>

definition two_ops :: "(bool \<times> bool) isl_ops" where
  "two_ops = \<lparr>isl_read = (\<lambda>s. if s = ''{[i] : i = 0}'' then (True, False) else (True, True)),
     isl_gist = (\<lambda>a b. (fst a \<or> \<not> fst b, snd a \<or> \<not> snd b)), isl_is_universe = (\<lambda>a. fst a \<and> snd a),
     isl_intersect = (\<lambda>a b. (fst a \<and> fst b, snd a \<and> snd b)), isl_coalesce = (\<lambda>a. a),
     isl_complement = (\<lambda>a. (\<not> fst a, \<not> snd a)), isl_is_empty = (\<lambda>a. \<not> fst a \<and> \<not> snd a),
     isl_is_equal = (\<lambda>a b. fst a = fst b \<and> snd a = snd b), isl_hull_str = (\<lambda>a. [])\<rparr>"

definition two_den :: "bool \<times> bool \<Rightarrow> bool set" where
  "two_den a = {p. if p then snd a else fst a}"

lemma two_lawful: "isl_lawful two_ops two_den"
proof -
  have "two_den (isl_gist two_ops a b) \<inter> two_den b = two_den a \<inter> two_den b" for a b
    by (auto simp: two_ops_def two_den_def)
  moreover have "isl_is_universe two_ops a \<Longrightarrow> two_den a = UNIV" for a by (auto simp: two_ops_def two_den_def)
  moreover have "two_den (isl_intersect two_ops a b) = two_den a \<inter> two_den b" "two_den (isl_complement two_ops a) = - two_den a"
    "two_den (isl_coalesce two_ops a) = two_den a" for a b
    by (auto simp: two_ops_def two_den_def split: if_splits)
  ultimately show ?thesis unfolding isl_lawful_def by blast
qed

theorem instantiationSet_sound_witness:
  "let parts = srParts_new\<lparr>tupDecl := ''[i]'', constraints := ''i >= 0''\<rparr>
   in instantiationSet two_ops parts [(''i <= 1'', ''i = 0'')] [] = (True, False)
     \<and> False \<in> two_den (instantiationSet two_ops parts [(''i <= 1'', ''i = 0'')] [])"
proof -
  let ?parts = "srParts_new\<lparr>tupDecl := ''[i]'', constraints := ''i >= 0''\<rparr>"
  have "obeys two_ops two_den [] (tupDecl ?parts) [(''i <= 1'', ''i = 0'')] False"
    by (simp add: obeys_def two_ops_def two_den_def)
  moreover have "isl_read two_ops (isl_string [] (tupDecl ?parts) (constraints ?parts)) = (True, True)" by code_simp
  then have "False \<in> two_den (isl_read two_ops (isl_string [] (tupDecl ?parts) (constraints ?parts)))"
    by (simp only: two_den_def) simp
  ultimately have "False \<in> two_den (instantiationSet two_ops ?parts [(''i <= 1'', ''i = 0'')] [])"
    using instantiationSet_sound [OF two_lawful] by blast
  moreover have "instantiationSet two_ops ?parts [(''i <= 1'', ''i = 0'')] [] = (True, False)" by code_simp
  ultimately show ?thesis unfolding Let_def by blast
qed

text \<open>A rule of the type \<open>TheOthers\<close> makes the default array of types be read behind its end.\<close>

lemma rule_used_TheOthers: "rule_used None TheOthers = Inl OutOfBounds"
  by (simp add: rule_used_def)

text \<open>An inequality with a tuple variable becomes an equality among those that are kept.\<close>

lemma getUsefulEqs_inequality:
  "let e = Exp [TupleVarTerm 1 0] Inequality
   in map_sum id set_conjs (getUsefulEqs no_addr \<lparr>mArity = 1, set_conjs = [(Conjunction_new 1)\<lparr>mInequalities := [e]\<rparr>]\<rparr>)
     = Inr [(Conjunction_new 1)\<lparr>mEqualities := [setEquality e]\<rparr>]"
  by code_simp

end
