(* ===== verification/IEG_Complexity.thy ===== *)
theory IEG_Complexity
  imports IEG_RemoveProps
begin

text \<open>
  The complexity of the loops of an inspector (\<open>complexityForPartialParallel.cc\<close>): a visitor that
  gives each tuple variable a class, and the string made of the classes. The classes are: -1 not
  determined, 0 projected out, 1 constant, 2 for \<open>nnz/n\<close>, 3 for \<open>n\<close>. The array of classes is a
  list; an access outside of it, or to its last, never initialised cell, is an error.
\<close>

section \<open>The visitor\<close>

fun tvloc :: "trm \<Rightarrow> int" where
  "tvloc (TupleVarTerm c l) = l"
| "tvloc _ = -1"

fun is_symbol :: "trm \<Rightarrow> string list \<Rightarrow> bool" where
  "is_symbol (VarTerm c s) ss = List.member ss s"
| "is_symbol _ ss = False"

record comp_visitor =
  cv_comp :: "int list"
  cv_curr :: "exp option"
  cv_tv1 :: "trm option"
  cv_tv2 :: "trm option"
  ufcUB :: "trm option"
  varUB :: "trm option"
  nestedness :: int

definition comp_visitor_new :: "int list \<Rightarrow> comp_visitor" where
  "comp_visitor_new iComplexity =
     \<lparr>cv_comp = iComplexity, cv_curr = None, cv_tv1 = None, cv_tv2 = None, ufcUB = None, varUB = None, nestedness = 0\<rparr>"

definition get_class :: "int list \<Rightarrow> trm \<Rightarrow> int res" where
  "get_class cs t = (if 0 \<le> tvloc t \<and> tvloc t < int (length cs) then Inr (cs ! nat (tvloc t)) else Inl OutOfBounds)"

definition set_class :: "trm \<Rightarrow> int \<Rightarrow> int list \<Rightarrow> int list res" where
  "set_class t x cs = (if 0 \<le> tvloc t \<and> tvloc t < int (length cs) then Inr (cs[nat (tvloc t) := x]) else Inl OutOfBounds)"

definition equality_rule :: "trm \<Rightarrow> trm option \<Rightarrow> trm option \<Rightarrow> int list \<Rightarrow> int list res" where
  "equality_rule t1 t2 ufc cs =
     (case t2 of
        Some t2 \<Rightarrow>
          bindr (get_class cs t1) (\<lambda>a.
          bindr (get_class cs t2) (\<lambda>b.
          if a = -1 \<and> b = -1 then Inr cs
          else if a = 0 \<or> b = 0 then Inr cs
          else if a = 1 \<or> b = 1 then Inr cs
          else if a = -1 \<or> b > 1 then set_class t1 1 cs
          else if a > 1 \<or> b = -1 then set_class t2 1 cs
          else if b \<le> a then set_class t1 1 cs
          else set_class t2 1 cs))
      | None \<Rightarrow> if ufc \<noteq> None then set_class t1 1 cs else Inr cs)"

definition upper_bound_rule :: "trm \<Rightarrow> int \<Rightarrow> trm option \<Rightarrow> trm option \<Rightarrow> int list \<Rightarrow> int list res" where
  "upper_bound_rule t1 a var ufc cs =
     (if coefficient t1 > 0 \<or> a > -1 then Inr cs
      else case var of
        Some t \<Rightarrow>
          if is_symbol t [''n'', ''m''] then set_class t1 3 cs
          else if is_symbol t [''nnz''] then set_class t1 2 cs else Inr cs
      | None \<Rightarrow> if ufc \<noteq> None then set_class t1 2 cs else Inr cs)"

definition inequality_rule :: "trm \<Rightarrow> trm option \<Rightarrow> trm option \<Rightarrow> trm option \<Rightarrow> int list \<Rightarrow> int list res" where
  "inequality_rule t1 t2 var ufc cs =
     bindr (get_class cs t1) (\<lambda>a.
     case t2 of
       None \<Rightarrow> upper_bound_rule t1 a var ufc cs
     | Some t2 \<Rightarrow>
         if coefficient t1 < 0 \<and> coefficient t2 < 0 then Inr cs
         else if coefficient t1 < 0 \<and> coefficient t2 > 0 then
           bindr (get_class cs t2) (\<lambda>b.
           if b < 2 then Inr cs else if b < a then set_class t1 b cs else Inr cs)
         else if coefficient t1 > 0 \<and> coefficient t2 < 0 then
           (if a < 2 then Inr cs
            else bindr (get_class cs t2) (\<lambda>b. if a < b then set_class t2 a cs else Inr cs))
         else Inr cs)"

definition class_rule :: "comp_visitor \<Rightarrow> comp_visitor res" where
  "class_rule v =
     (case cv_tv1 v of
        None \<Rightarrow> Inr v
      | Some t1 \<Rightarrow>
          bindr (get_class (cv_comp v) t1) (\<lambda>a.
          if a = 0 \<or> a = 1 then Inr v
          else case cv_curr v of
            None \<Rightarrow> Inl NullDeref
          | Some e \<Rightarrow>
              bindr (if isEquality e then equality_rule t1 (cv_tv2 v) (ufcUB v) (cv_comp v)
                     else inequality_rule t1 (cv_tv2 v) (varUB v) (ufcUB v) (cv_comp v)) (\<lambda>cs.
              Inr (v\<lparr>cv_comp := cs\<rparr>))))"

definition note_tv :: "trm \<Rightarrow> comp_visitor \<Rightarrow> comp_visitor" where
  "note_tv t v = (if cv_tv1 v = None then v\<lparr>cv_tv1 := Some t\<rparr> else if cv_tv2 v = None then v\<lparr>cv_tv2 := Some t\<rparr> else v)"

definition start_constraint :: "exp \<Rightarrow> comp_visitor \<Rightarrow> comp_visitor" where
  "start_constraint e v =
     v\<lparr>cv_curr := Some e, nestedness := 0, cv_tv1 := None, cv_tv2 := None, ufcUB := None, varUB := None\<rparr>"

fun comp_visit :: "visit \<Rightarrow> comp_visitor \<Rightarrow> comp_visitor res" where
  "comp_visit (PostUFCall t) v = Inr (if nestedness v \<noteq> 0 then v else v\<lparr>ufcUB := Some t\<rparr>)"
| "comp_visit (PostVar t) v = Inr (if nestedness v \<noteq> 0 then v else v\<lparr>varUB := Some t\<rparr>)"
| "comp_visit (PostTupleVar t) v = Inr (if nestedness v \<noteq> 0 then v else note_tv t v)"
| "comp_visit (PreExp e) v =
     Inr (let v = (if isExpression e then v\<lparr>nestedness := nestedness v + 1\<rparr> else v) in
          if isEquality e \<or> isInequality e then start_constraint e v else v)"
| "comp_visit (PostExp e) v =
     (if isExpression e then Inr (v\<lparr>nestedness := nestedness v - 1\<rparr>) else class_rule v)"
| "comp_visit _ v = Inr v"

section \<open>The string\<close>

definition calculateComplexityStr :: "int list \<Rightarrow> string" where
  "calculateComplexityStr complexities =
     (let numOfNNZdNs = int (length (filter (\<lambda>x. x = 2) complexities));
          numOfNs = int (length (filter (\<lambda>x. x = 3) complexities));
          diff = numOfNs - numOfNNZdNs; result = ''O('' in
      if numOfNNZdNs = 0 then result @ ''n^'' @ int_str numOfNs @ '')''
      else if numOfNs = 0 then result @ ''nnz^'' @ int_str numOfNNZdNs @ ''/'' @ ''n^'' @ int_str numOfNNZdNs @ '')''
      else if diff < 0 then result @ ''nnz^'' @ int_str numOfNNZdNs @ ''/'' @ ''n^'' @ int_str \<bar>diff\<bar> @ '')''
      else if diff > 0 then result @ ''n^'' @ int_str \<bar>diff\<bar> @ ''*'' @ ''nnz^'' @ int_str numOfNNZdNs @ '')''
      else result @ ''nnz^'' @ int_str numOfNNZdNs @ '')'')"

definition initial_classes :: "int set \<Rightarrow> nat \<Rightarrow> sparse \<Rightarrow> int list" where
  "initial_classes parallelTvs n cs =
     map (\<lambda>i. if int i \<in> parallelTvs then -1 else if isUFCallParam (int i) cs then -1 else 0) [0..<n]"

definition comp_classes :: "int set \<Rightarrow> nat \<Rightarrow> sparse \<Rightarrow> int list res" where
  "comp_classes parallelTvs n cs =
     bindr (foldm comp_visit (sparse_acceptVisitor cs) (comp_visitor_new (initial_classes parallelTvs n cs))) (\<lambda>v.
     bindr (foldm comp_visit (sparse_acceptVisitor cs) v) (\<lambda>v. Inr (cv_comp v)))"

definition complexityForPartialParallel :: "int set \<Rightarrow> nat \<Rightarrow> sparse \<Rightarrow> string res" where
  "complexityForPartialParallel parallelTvs n cs =
     (if length cs \<noteq> 1
      then Inl (Assert ''SparseConstraints::complexityForPartialParallel:number of conjunctions is not 1.'')
      else bindr (comp_classes parallelTvs n cs) (\<lambda>classes. Inr (calculateComplexityStr classes)))"

section \<open>How classes change\<close>

text \<open>
  A class is first determined, then it can only become smaller; classes 0 and 1 are final.
\<close>

definition refined :: "int \<Rightarrow> int \<Rightarrow> bool" where
  "refined x y \<longleftrightarrow> x = y \<or> x = -1 \<and> y \<in> {1..3} \<or> x \<in> {2, 3} \<and> y \<in> {1..x}"

definition classes_refined :: "int list \<Rightarrow> int list \<Rightarrow> bool" where
  "classes_refined xs ys \<longleftrightarrow> set ys \<subseteq> {-1..3} \<and> list_all2 refined xs ys"

lemma classes_refined_refl: "set xs \<subseteq> {-1..3} \<Longrightarrow> classes_refined xs xs"
  by (auto simp: classes_refined_def refined_def list_all2_refl)

lemma refined_trans: "refined x y \<Longrightarrow> refined y z \<Longrightarrow> refined x z"
  by (auto simp: refined_def)

lemma classes_refined_trans: "classes_refined xs ys \<Longrightarrow> classes_refined ys zs \<Longrightarrow> classes_refined xs zs"
  unfolding classes_refined_def using list_all2_trans [of refined refined refined] refined_trans by blast

lemma set_class_refined:
  assumes "set_class t x cs = Inr cs'" and "set cs \<subseteq> {-1..3}" and "get_class cs t = Inr a" and "refined a x" and "x \<in> {-1..3}"
  shows "classes_refined cs cs'"
proof -
  have "cs' = cs[nat (tvloc t) := x]" "a = cs ! nat (tvloc t)" "nat (tvloc t) < length cs"
    using assms(1,3) by (auto simp: set_class_def get_class_def split: if_splits)
  then show ?thesis using assms(2,4,5) set_update_subset_insert [of cs "nat (tvloc t)" x]
    by (auto simp: classes_refined_def list_all2_conv_all_nth nth_list_update refined_def)
qed

lemma get_class_range: "get_class cs t = Inr a \<Longrightarrow> set cs \<subseteq> {-1..3} \<Longrightarrow> a \<in> {-1..3}"
proof -
  assume "get_class cs t = Inr a" and cs: "set cs \<subseteq> {-1..3}"
  then have "a \<in> set cs" by (auto simp: get_class_def split: if_splits)
  with cs show ?thesis by blast
qed

lemma equality_rule_refined:
  assumes "equality_rule t1 t2 ufc cs = Inr cs'" and "set cs \<subseteq> {-1..3}" and "get_class cs t1 = Inr a" and "a \<noteq> 0"
  shows "classes_refined cs cs'"
proof (cases t2)
  case None
  have "refined a 1" using get_class_range [OF assms(3,2)] assms(4) by (auto simp: refined_def)
  then show ?thesis using assms set_class_refined [OF _ assms(2,3), of 1 cs'] classes_refined_refl
    by (auto simp: equality_rule_def None split: if_splits)
next
  case (Some t)
  then obtain b where b: "get_class cs t = Inr b" using assms(1,3) by (auto simp: equality_rule_def bindr_eq_Inr)
  show ?thesis
  proof (cases "a = -1 \<and> b = -1 \<or> a = 0 \<or> b = 0 \<or> a = 1 \<or> b = 1")
    case True
    then have "cs' = cs" using assms(1,3) b by (auto simp: equality_rule_def Some split: if_splits)
    then show ?thesis using classes_refined_refl assms(2) by blast
  next
    case False
    then have "refined a 1" "refined b 1"
      using get_class_range [OF assms(3,2)] get_class_range [OF b assms(2)] by (auto simp: refined_def)
    then have t1: "set_class t1 1 cs = Inr cs' \<Longrightarrow> classes_refined cs cs'"
      and t: "set_class t 1 cs = Inr cs' \<Longrightarrow> classes_refined cs cs'"
      using set_class_refined [OF _ assms(2,3)] set_class_refined [OF _ assms(2) b] by simp_all
    show ?thesis using False assms(1,3) b t1 t by (simp add: equality_rule_def Some split: if_splits)
  qed
qed

lemma upper_bound_rule_refined:
  assumes "upper_bound_rule t1 a var ufc cs = Inr cs'" and "set cs \<subseteq> {-1..3}" and "get_class cs t1 = Inr a"
  shows "classes_refined cs cs'"
proof (cases "a = -1")
  case True
  then have "refined a 2" "refined a 3" by (auto simp: refined_def)
  then have "set_class t1 2 cs = Inr cs' \<Longrightarrow> classes_refined cs cs'" "set_class t1 3 cs = Inr cs' \<Longrightarrow> classes_refined cs cs'"
    using set_class_refined [OF _ assms(2,3)] by simp_all
  then show ?thesis using assms(1,2) classes_refined_refl
    by (auto simp: upper_bound_rule_def split: if_splits option.splits)
next
  case False
  then have "a > -1" using get_class_range [OF assms(3,2)] by auto
  then show ?thesis using assms(1,2) classes_refined_refl by (auto simp: upper_bound_rule_def)
qed

lemma inequality_rule_refined:
  assumes "inequality_rule t1 t2 var ufc cs = Inr cs'" and "set cs \<subseteq> {-1..3}"
  shows "classes_refined cs cs'"
proof -
  obtain a where a: "get_class cs t1 = Inr a" using assms(1) by (auto simp: inequality_rule_def bindr_eq_Inr)
  note range = get_class_range [OF _ assms(2)]
  have 1: "classes_refined cs cs'" if "get_class cs t = Inr b" "2 \<le> b" "b < a" "set_class t1 b cs = Inr cs'" for t b
    using set_class_refined [OF that(4) assms(2) a] that(2,3) range [OF that(1)] range [OF a] by (auto simp: refined_def)
  have 2: "classes_refined cs cs'" if "get_class cs t = Inr b" "2 \<le> a" "a < b" "set_class t a cs = Inr cs'" for t b
    using set_class_refined [OF that(4) assms(2) that(1)] that(2,3) range [OF that(1)] range [OF a] by (auto simp: refined_def)
  have 3: "classes_refined cs cs'" if "cs' = cs" using that assms(2) classes_refined_refl by blast
  show ?thesis
    using assms(1) a upper_bound_rule_refined [OF _ assms(2) a, of var ufc cs'] 1 2 3
    by (auto simp: inequality_rule_def bindr_eq_Inr not_less split: option.splits if_splits)
qed

section \<open>The visitor as a loop over the constraints\<close>

definition is_tv :: "trm \<Rightarrow> bool" where
  "is_tv t = (case t of TupleVarTerm c l \<Rightarrow> True | _ \<Rightarrow> False)"

definition is_var :: "trm \<Rightarrow> bool" where
  "is_var t = (case t of VarTerm c s \<Rightarrow> True | _ \<Rightarrow> False)"

definition is_ufc :: "trm \<Rightarrow> bool" where
  "is_ufc t = (case t of UFCallTerm c f es i \<Rightarrow> True | _ \<Rightarrow> False)"

definition first_of :: "'a list \<Rightarrow> 'a option" where
  "first_of xs = (case xs of [] \<Rightarrow> None | x # _ \<Rightarrow> Some x)"

definition last_of :: "'a list \<Rightarrow> 'a option" where
  "last_of xs = (if xs = [] then None else Some (last xs))"

definition constraint_step :: "exp \<Rightarrow> int list \<Rightarrow> int list res" where
  "constraint_step e cs =
     (let var = last_of (filter is_var (mTerms e)); ufc = last_of (filter is_ufc (mTerms e)) in
      case filter is_tv (mTerms e) of
        [] \<Rightarrow> Inr cs
      | t1 # ts \<Rightarrow>
          bindr (get_class cs t1) (\<lambda>a.
          if a = 0 \<or> a = 1 then Inr cs
          else if isEquality e then equality_rule t1 (first_of ts) ufc cs
          else inequality_rule t1 (first_of ts) var ufc cs))"

lemma call_visits:
  "list_all isExpression (term_args t) \<Longrightarrow> nestedness v > 0 \<Longrightarrow> foldm comp_visit (term_acceptVisitor t) v = Inr v"
  "list_all isExpression (exp_args e) \<Longrightarrow> isExpression e \<Longrightarrow> nestedness v \<ge> 0 \<Longrightarrow>
     foldm comp_visit (exp_acceptVisitor e) v = Inr v"
proof (induction t and e arbitrary: v and v rule: term_acceptVisitor_exp_acceptVisitor.induct)
  case (2 c f es i)
  have "foldm comp_visit (concat (map exp_acceptVisitor as)) v = Inr v" if "set as \<subseteq> set es" for as
    using that
  proof (induction as)
    case (Cons a as)
    then have "foldm comp_visit (exp_acceptVisitor a) v = Inr v" using 2(1) [of a v] 2(2,3) by (auto simp: list_all_iff)
    with Cons show ?case by (simp add: foldm_append)
  qed simp
  then show ?case using 2(3) by (simp add: foldm_append)
next
  case (6 ts ty)
  let ?v = "v\<lparr>nestedness := nestedness v + 1\<rparr>"
  have "foldm comp_visit (concat (map term_acceptVisitor us)) ?v = Inr ?v" if "set us \<subseteq> set ts" for us
    using that
  proof (induction us)
    case (Cons t us)
    then have "foldm comp_visit (term_acceptVisitor t) ?v = Inr ?v"
      using 6(1) [of t ?v] 6(2,4) by (auto simp: list_all_iff)
    with Cons show ?case by (simp add: foldm_append)
  qed simp
  from this [of ts] show ?case using 6(3) by (simp add: foldm_append isExpression_def isEquality_def isInequality_def)
qed simp_all

definition or_else :: "'a option \<Rightarrow> 'a option \<Rightarrow> 'a option" where
  "or_else a b = (case a of None \<Rightarrow> b | Some x \<Rightarrow> Some x)"

definition noted :: "trm list \<Rightarrow> comp_visitor \<Rightarrow> comp_visitor" where
  "noted ts v =
     (fold note_tv (filter is_tv ts) v)\<lparr>varUB := or_else (last_of (filter is_var ts)) (varUB v),
       ufcUB := or_else (last_of (filter is_ufc ts)) (ufcUB v)\<rparr>"

lemma note_tv_commutes:
  "note_tv t (v\<lparr>varUB := a\<rparr>) = (note_tv t v)\<lparr>varUB := a\<rparr>" "note_tv t (v\<lparr>ufcUB := a\<rparr>) = (note_tv t v)\<lparr>ufcUB := a\<rparr>"
  "varUB (note_tv t v) = varUB v" "ufcUB (note_tv t v) = ufcUB v" "nestedness (note_tv t v) = nestedness v"
  "cv_comp (note_tv t v) = cv_comp v" "cv_curr (note_tv t v) = cv_curr v"
  by (simp_all add: note_tv_def)

lemma fold_note_commutes:
  "fold note_tv ts (v\<lparr>varUB := a\<rparr>) = (fold note_tv ts v)\<lparr>varUB := a\<rparr>"
  "fold note_tv ts (v\<lparr>ufcUB := a\<rparr>) = (fold note_tv ts v)\<lparr>ufcUB := a\<rparr>"
  "varUB (fold note_tv ts v) = varUB v" "ufcUB (fold note_tv ts v) = ufcUB v" "nestedness (fold note_tv ts v) = nestedness v"
  "cv_comp (fold note_tv ts v) = cv_comp v" "cv_curr (fold note_tv ts v) = cv_curr v"
  by (induction ts arbitrary: v) (simp_all add: note_tv_commutes)

lemma last_of_Cons: "last_of (x # xs) = or_else (last_of xs) (Some x)"
  by (simp add: last_of_def or_else_def)

lemma or_else_simps [simp]: "or_else None b = b" "or_else (or_else a b) c = or_else a (or_else b c)" "or_else (Some x) b = Some x"
  by (simp_all add: or_else_def split: option.splits)

lemma term_noted:
  assumes "nestedness v = 0" and "list_all isExpression (term_args t)"
  shows "foldm comp_visit (term_acceptVisitor t) v = Inr (noted [t] v)"
proof (cases t)
  case (UFCallTerm c f es i)
  have "foldm comp_visit (concat (map exp_acceptVisitor as)) v = Inr v" if "set as \<subseteq> set es" for as
    using that
  proof (induction as)
    case (Cons a as)
    then have "foldm comp_visit (exp_acceptVisitor a) v = Inr v"
      using call_visits(2) [of a v] assms UFCallTerm by (auto simp: list_all_iff)
    with Cons show ?case by (simp add: foldm_append)
  qed simp
  from this [of es] show ?thesis
    using assms(1) by (simp add: UFCallTerm foldm_append noted_def is_tv_def is_var_def is_ufc_def last_of_def)
qed (use assms(1) in \<open>simp_all add: noted_def is_tv_def is_var_def is_ufc_def last_of_def note_tv_def\<close>)

lemma noted_append: "noted us (noted [t] v) = noted (t # us) v"
  by (simp add: noted_def fold_note_commutes last_of_Cons last_of_def)

lemma terms_noted:
  "nestedness v = 0 \<Longrightarrow> list_all isExpression (exp_args (Exp ts ty)) \<Longrightarrow>
   foldm comp_visit (concat (map term_acceptVisitor ts)) v = Inr (noted ts v)"
proof (induction ts arbitrary: v)
  case Nil
  then show ?case by (simp add: noted_def last_of_def)
next
  case (Cons t ts)
  have "nestedness (noted [t] v) = 0" using Cons.prems(1) by (simp add: noted_def fold_note_commutes)
  then show ?case using Cons term_noted [of v t] by (simp add: foldm_append noted_append)
qed

lemma fold_note:
  "cv_tv1 v = None \<Longrightarrow> cv_tv2 v = None \<Longrightarrow>
   cv_tv1 (fold note_tv ts v) = first_of ts \<and> cv_tv2 (fold note_tv ts v) = first_of (tl ts)"
proof -
  have 2: "cv_tv1 v \<noteq> None \<Longrightarrow> cv_tv2 v \<noteq> None \<Longrightarrow> fold note_tv ts v = v" for ts v
    by (induction ts) (auto simp: note_tv_def)
  have 1: "cv_tv1 v \<noteq> None \<Longrightarrow> cv_tv2 v = None \<Longrightarrow>
      cv_tv1 (fold note_tv ts v) = cv_tv1 v \<and> cv_tv2 (fold note_tv ts v) = first_of ts" for ts v
    by (cases ts) (auto simp: first_of_def note_tv_def 2)
  show "cv_tv1 v = None \<Longrightarrow> cv_tv2 v = None \<Longrightarrow> ?thesis"
    by (cases ts) (auto simp: first_of_def note_tv_def 1 split: list.splits)
qed

lemma comp_visit_constraint:
  assumes "typed_args e"
  shows "\<exists>g. foldm comp_visit (exp_acceptVisitor e) v = bindr (constraint_step e (cv_comp v)) (\<lambda>cs. Inr (g cs)) \<and> (\<forall>cs. cv_comp (g cs) = cs)"
proof -
  obtain ts ty where e: "e = Exp ts ty" by (cases e) auto
  have ne: "\<not> isExpression e" and args: "list_all isExpression (exp_args (Exp ts ty))" using assms by (simp_all add: typed_args_def e)
  define u where "u = noted ts (start_constraint e v)"
  have "foldm comp_visit (exp_acceptVisitor e) v = class_rule u"
  proof -
    have "foldm comp_visit (concat (map term_acceptVisitor ts)) (start_constraint e v) = Inr u"
      unfolding u_def by (rule terms_noted [OF _ args]) (simp add: start_constraint_def)
    then show ?thesis
      using ne not_Expression [OF ne] by (cases "class_rule u") (simp_all add: e foldm_append)
  qed
  moreover have "class_rule u = bindr (constraint_step e (cv_comp v)) (\<lambda>cs. Inr (u\<lparr>cv_comp := cs\<rparr>))"
  proof -
    have tv: "cv_tv1 u = first_of (filter is_tv ts)" "cv_tv2 u = first_of (tl (filter is_tv ts))"
      using fold_note [of "start_constraint e v" "filter is_tv ts"] by (simp_all add: u_def noted_def start_constraint_def)
    have rest: "cv_comp u = cv_comp v" "cv_curr u = Some e" "varUB u = last_of (filter is_var ts)" "ufcUB u = last_of (filter is_ufc ts)"
      by (simp_all add: u_def noted_def fold_note_commutes start_constraint_def or_else_def split: option.splits)
    have same: "u\<lparr>cv_comp := cv_comp v\<rparr> = u" using rest(1) by (metis comp_visitor.surjective comp_visitor.update_convs(1))
    show ?thesis
    proof (cases "filter is_tv ts")
      case Nil
      then show ?thesis by (simp add: class_rule_def constraint_step_def tv rest first_of_def e same)
    next
      case (Cons t1 us)
      then show ?thesis using same
        by (cases "get_class (cv_comp v) t1") (simp_all add: class_rule_def constraint_step_def tv rest first_of_def e)
    qed
  qed
  ultimately show ?thesis by (intro exI [of _ "\<lambda>cs. u\<lparr>cv_comp := cs\<rparr>"]) simp
qed

lemma comp_visit_constraints:
  "list_all typed_args es \<Longrightarrow>
   (\<exists>err. foldm comp_visit (concat (map exp_acceptVisitor es)) v = Inl err \<and> foldm constraint_step es (cv_comp v) = Inl err)
   \<or> (\<exists>v'. foldm comp_visit (concat (map exp_acceptVisitor es)) v = Inr v' \<and> foldm constraint_step es (cv_comp v) = Inr (cv_comp v'))"
proof (induction es arbitrary: v)
  case (Cons e es)
  obtain g where g: "foldm comp_visit (exp_acceptVisitor e) v = bindr (constraint_step e (cv_comp v)) (\<lambda>cs. Inr (g cs))"
    "\<And>cs. cv_comp (g cs) = cs" using comp_visit_constraint [of e v] Cons.prems by auto
  show ?case
  proof (cases "constraint_step e (cv_comp v)")
    case (Inr cs)
    then show ?thesis using Cons.IH [of "g cs"] Cons.prems g by (simp add: foldm_append)
  qed (simp add: foldm_append g)
qed simp


definition pass :: "sparse \<Rightarrow> int list \<Rightarrow> int list res" where
  "pass cs = foldm constraint_step (concat (map conj_exps cs))"

lemma conj_visits: "conj_acceptVisitor c = PreConjunction c # concat (map exp_acceptVisitor (conj_exps c)) @ [PostConjunction c]"
  by (simp add: conj_acceptVisitor_def conj_exps_def)

lemma comp_visit_conjs:
  "list_all (\<lambda>c. list_all typed_args (conj_exps c)) cs \<Longrightarrow>
   map_sum id cv_comp (foldm comp_visit (concat (map conj_acceptVisitor cs)) v) = pass cs (cv_comp v)"
proof (induction cs arbitrary: v)
  case (Cons c cs)
  then show ?case
    using comp_visit_constraints [of "conj_exps c" v] by (auto simp: pass_def conj_visits foldm_append)
qed (simp add: pass_def)

lemma comp_classes_passes:
  assumes "list_all (\<lambda>c. list_all typed_args (conj_exps c)) cs"
  shows "comp_classes par n cs = bindr (pass cs (initial_classes par n cs)) (pass cs)"
proof -
  have 1: "map_sum id cv_comp (foldm comp_visit (sparse_acceptVisitor cs) v) = pass cs (cv_comp v)" for v
    using comp_visit_conjs [OF assms, of v]
    by (cases "foldm comp_visit (concat (map conj_acceptVisitor cs)) v") (simp_all add: sparse_acceptVisitor_def foldm_append)
  let ?v = "comp_visitor_new (initial_classes par n cs)"
  show ?thesis
  proof (cases "foldm comp_visit (sparse_acceptVisitor cs) ?v")
    case (Inr v1)
    have "cv_comp ?v = initial_classes par n cs" by (simp add: comp_visitor_new_def)
    then show ?thesis using 1 [of ?v] 1 [of v1] Inr
      by (cases "foldm comp_visit (sparse_acceptVisitor cs) v1") (auto simp: comp_classes_def eq_commute [of _ "pass cs _"])
  qed (use 1 [of ?v] in \<open>auto simp: comp_classes_def comp_visitor_new_def eq_commute [of _ "pass cs _"]\<close>)
qed

section \<open>Why a class was chosen\<close>

definition tvs_in :: "nat \<Rightarrow> exp \<Rightarrow> bool" where
  "tvs_in n e \<longleftrightarrow> list_all (\<lambda>t. 0 \<le> tvloc t \<and> tvloc t < int n) (filter is_tv (mTerms e))"

text \<open>The tuple variable occurs outside of calls with a coefficient that makes the constraint an upper bound.\<close>

definition bounded_by :: "int \<Rightarrow> exp \<Rightarrow> bool" where
  "bounded_by l e \<longleftrightarrow> list_ex (\<lambda>t. is_tv t \<and> tvloc t = l \<and> coefficient t \<le> 0) (mTerms e)"

definition names_tv :: "int \<Rightarrow> exp \<Rightarrow> bool" where
  "names_tv l e \<longleftrightarrow> list_ex (\<lambda>t. is_tv t \<and> tvloc t = l) (mTerms e)"

definition because :: "exp \<Rightarrow> int \<Rightarrow> int \<Rightarrow> bool" where
  "because e l x \<longleftrightarrow> x = 1 \<and> isEquality e \<and> names_tv l e \<or> x \<in> {2, 3} \<and> \<not> isEquality e \<and> bounded_by l e"

lemma set_class_cases:
  "set_class t x cs = Inr cs' \<Longrightarrow> i < length cs \<Longrightarrow> cs' ! i = cs ! i \<or> tvloc t = int i \<and> cs' ! i = x"
  by (auto simp: set_class_def nth_list_update split: if_splits)

lemma equality_rule_changes:
  "equality_rule t1 t2 ufc cs = Inr cs' \<Longrightarrow> cs' = cs \<or> (\<exists>t. (t = t1 \<or> t2 = Some t) \<and> set_class t 1 cs = Inr cs')"
  by (cases t2) (auto simp: equality_rule_def bindr_eq_Inr split: if_splits)

lemma inequality_rule_changes:
  assumes "inequality_rule t1 t2 var ufc cs = Inr cs'"
  shows "cs' = cs \<or> (\<exists>t x. (t = t1 \<or> t2 = Some t) \<and> coefficient t \<le> 0 \<and> x \<ge> 2 \<and> set_class t x cs = Inr cs')"
proof (cases t2)
  case None
  have up: "upper_bound_rule t1 a var ufc cs = Inr cs' \<Longrightarrow> cs' = cs
      \<or> coefficient t1 \<le> 0 \<and> (set_class t1 2 cs = Inr cs' \<or> set_class t1 3 cs = Inr cs')" for a
    by (auto simp: upper_bound_rule_def split: option.splits if_splits)
  obtain a where "upper_bound_rule t1 a var ufc cs = Inr cs'" using assms None by (auto simp: inequality_rule_def bindr_eq_Inr)
  from up [OF this] show ?thesis by fastforce
next
  case (Some t)
  then obtain a where "cs' = cs \<or> (\<exists>b. coefficient t1 < 0 \<and> b \<ge> 2 \<and> set_class t1 b cs = Inr cs')
      \<or> coefficient t < 0 \<and> a \<ge> 2 \<and> set_class t a cs = Inr cs'"
    using assms by (auto simp: inequality_rule_def bindr_eq_Inr not_less split: if_splits)
  then show ?thesis using Some by fastforce
qed

lemma first_of_mem: "first_of xs = Some x \<Longrightarrow> x \<in> set xs"
  by (cases xs) (auto simp: first_of_def)

lemma filter_tv: "filter is_tv ts = t1 # us \<Longrightarrow> t \<in> insert t1 (set us) \<Longrightarrow> t \<in> set ts \<and> is_tv t"
  using set_filter [of is_tv ts] by auto

lemma constraint_step_why:
  assumes "constraint_step e cs = Inr cs'" and "set cs \<subseteq> {-1..3}"
  shows "classes_refined cs cs' \<and> (\<forall>i < length cs. cs' ! i = cs ! i \<or> because e (int i) (cs' ! i))"
proof (cases "filter is_tv (mTerms e)")
  case Nil
  then show ?thesis using assms classes_refined_refl by (auto simp: constraint_step_def)
next
  case (Cons t1 us)
  then obtain a where a: "get_class cs t1 = Inr a" using assms(1) by (auto simp: constraint_step_def bindr_eq_Inr Let_def)
  have mem: "t \<in> set (mTerms e) \<and> is_tv t" if "t = t1 \<or> first_of us = Some t" for t
    using filter_tv [OF Cons, of t] that first_of_mem [of us t] by auto
  show ?thesis
  proof (cases "a = 0 \<or> a = 1")
    case True
    then have "cs' = cs" using assms(1) a Cons by (simp add: constraint_step_def split: if_splits)
    then show ?thesis using classes_refined_refl assms(2) by blast
  next
    case False
    show ?thesis
    proof (cases "isEquality e")
      case True
      then have r: "equality_rule t1 (first_of us) (last_of (filter is_ufc (mTerms e))) cs = Inr cs'"
        using assms(1) a Cons False by (simp add: constraint_step_def)
      then have "cs' = cs \<or> (\<exists>t. (t = t1 \<or> first_of us = Some t) \<and> set_class t 1 cs = Inr cs')"
        by (rule equality_rule_changes)
      then have "cs' ! i = cs ! i \<or> because e (int i) (cs' ! i)" if "i < length cs" for i
        using mem set_class_cases [OF _ that] True by (fastforce simp: because_def names_tv_def list_ex_iff)
      then show ?thesis using equality_rule_refined [OF r assms(2) a] False by blast
    next
      case False': False
      then have r: "inequality_rule t1 (first_of us) (last_of (filter is_var (mTerms e))) (last_of (filter is_ufc (mTerms e))) cs = Inr cs'"
        using assms(1) a Cons False by (simp add: constraint_step_def)
      then have ch: "cs' = cs \<or> (\<exists>t x. (t = t1 \<or> first_of us = Some t) \<and> coefficient t \<le> 0 \<and> x \<ge> 2 \<and> set_class t x cs = Inr cs')"
        by (rule inequality_rule_changes)
      have ref: "classes_refined cs cs'" by (rule inequality_rule_refined [OF r assms(2)])
      have "cs' ! i = cs ! i \<or> because e (int i) (cs' ! i)" if "i < length cs" for i
      proof -
        have "cs' ! i \<in> {-1..3}" using ref that by (metis classes_refined_def list_all2_lengthD nth_mem subsetD)
        moreover have "bounded_by (int i) e" if "t = t1 \<or> first_of us = Some t" "coefficient t \<le> 0" "tvloc t = int i" for t
          using mem [OF that(1)] that(2,3) by (auto simp: bounded_by_def list_ex_iff)
        moreover have "tvloc t = int i \<and> cs' ! i = x" if "set_class t x cs = Inr cs'" "cs' ! i \<noteq> cs ! i" for t x
          using set_class_cases [OF that(1) \<open>i < length cs\<close>] that(2) by blast
        ultimately have "cs' ! i = cs ! i \<or> bounded_by (int i) e \<and> cs' ! i \<ge> 2 \<and> cs' ! i \<le> 3"
          using ch by (metis atLeastAtMost_iff)
        then show ?thesis using False' by (auto simp: because_def)
      qed
      with ref show ?thesis by blast
    qed
  qed
qed

lemma constraint_step_total:
  assumes "tvs_in (length cs) e"
  shows "\<exists>cs'. constraint_step e cs = Inr cs'"
proof (cases "filter is_tv (mTerms e)")
  case (Cons t1 us)
  have t: "0 \<le> tvloc t \<and> tvloc t < int (length cs)" if "t = t1 \<or> first_of us = Some t" for t
    using assms that first_of_mem [of us t] by (auto simp: tvs_in_def Cons list_all_iff)
  have g: "\<exists>x. get_class cs t = Inr x" if "t = t1 \<or> first_of us = Some t" for t using t [OF that] by (simp add: get_class_def)
  have p: "\<exists>cs'. set_class t x cs = Inr cs'" if "t = t1 \<or> first_of us = Some t" for t x using t [OF that] by (simp add: set_class_def)
  obtain a where a: "get_class cs t1 = Inr a" using g by blast
  have "\<exists>cs'. equality_rule t1 (first_of us) ufc cs = Inr cs'" for ufc
  proof (cases "first_of us")
    case None
    then show ?thesis using p by (auto simp: equality_rule_def)
  next
    case (Some t2)
    then obtain b where "get_class cs t2 = Inr b" using g by blast
    then show ?thesis using p a Some by (auto simp: equality_rule_def)
  qed
  moreover have "\<exists>cs'. inequality_rule t1 (first_of us) var ufc cs = Inr cs'" for var ufc
  proof (cases "first_of us")
    case None
    then show ?thesis using p a by (auto simp: inequality_rule_def upper_bound_rule_def split: option.splits)
  next
    case (Some t2)
    then obtain b where "get_class cs t2 = Inr b" using g by blast
    then show ?thesis using p a Some by (auto simp: inequality_rule_def)
  qed
  ultimately show ?thesis by (simp add: constraint_step_def Cons a Let_def)
qed (simp add: constraint_step_def)

lemma steps_why:
  "list_all (tvs_in (length cs)) es \<Longrightarrow> set cs \<subseteq> {-1..3} \<Longrightarrow>
   \<exists>cs'. foldm constraint_step es cs = Inr cs' \<and> classes_refined cs cs'
     \<and> (\<forall>i < length cs. cs' ! i = cs ! i \<or> (\<exists>e \<in> set es. because e (int i) (cs' ! i)))"
proof (induction es arbitrary: cs)
  case Nil
  then show ?case using classes_refined_refl by simp
next
  case (Cons e es)
  obtain c1 where c1: "constraint_step e cs = Inr c1" using constraint_step_total Cons.prems(1) by auto
  note why = constraint_step_why [OF c1 Cons.prems(2)]
  have ref: "classes_refined cs c1"
    using why by blast
  then have len: "length c1 = length cs" and rng: "set c1 \<subseteq> {-1..3}"
    by (auto simp: classes_refined_def list_all2_lengthD)
  obtain c2 where c2: "foldm constraint_step es c1 = Inr c2" "classes_refined c1 c2"
    "\<forall>i < length c1. c2 ! i = c1 ! i \<or> (\<exists>e \<in> set es. because e (int i) (c2 ! i))"
    using Cons.IH [OF _ rng] Cons.prems(1) len by auto
  have "c2 ! i = cs ! i \<or> (\<exists>e \<in> set (e # es). because e (int i) (c2 ! i))" if "i < length cs" for i
    using why c2(3) that len by fastforce
  then show ?case using c1 c2(1) classes_refined_trans [OF ref c2(2)] by auto
qed

section \<open>Properties\<close>

text \<open>
  C36. The complexity analysis returns. Exactly the tuple variables that are neither parallel nor
  parameters of a call get class 0; class 1 comes from an equality with the variable outside of
  calls, classes 2 and 3 from a constraint that bounds it from above.
\<close>

theorem comp_classes_justified:
  assumes "list_all (\<lambda>c. list_all typed_args (conj_exps c)) cs"
    and "list_all (\<lambda>c. list_all (tvs_in n) (conj_exps c)) cs"
  shows "\<exists>classes. comp_classes par n cs = Inr classes \<and> length classes = n \<and> (\<forall>i < n.
      classes ! i \<in> {-1..3} \<and> (classes ! i = 0 \<longleftrightarrow> int i \<notin> par \<and> \<not> isUFCallParam (int i) cs)
      \<and> (classes ! i > 0 \<longrightarrow> (\<exists>c \<in> set cs. \<exists>e \<in> set (conj_exps c). because e (int i) (classes ! i))))"
proof -
  let ?init = "initial_classes par n cs" and ?es = "concat (map conj_exps cs)"
  have init: "length ?init = n" "set ?init \<subseteq> {-1..3}" "set ?init \<subseteq> {-1, 0}" by (auto simp: initial_classes_def)
  have tvs: "list_all (tvs_in n) ?es" using assms(2) by (auto simp: list_all_iff)
  obtain c1 where c1: "pass cs ?init = Inr c1" "classes_refined ?init c1"
    "\<forall>i < n. c1 ! i = ?init ! i \<or> (\<exists>e \<in> set ?es. because e (int i) (c1 ! i))"
    using steps_why [of ?init ?es] tvs init unfolding pass_def by auto
  then have len: "length c1 = n" "set c1 \<subseteq> {-1..3}" using init by (auto simp: classes_refined_def list_all2_lengthD)
  obtain c2 where c2: "pass cs c1 = Inr c2" "classes_refined c1 c2"
    "\<forall>i < n. c2 ! i = c1 ! i \<or> (\<exists>e \<in> set ?es. because e (int i) (c2 ! i))"
    using steps_why [of c1 ?es] tvs len unfolding pass_def by auto
  have ref: "list_all2 refined ?init c2" and len2: "length c2 = n" and rng: "set c2 \<subseteq> {-1..3}"
    using classes_refined_trans [OF c1(2) c2(2)] init(1) by (auto simp: classes_refined_def list_all2_lengthD)
  have "c2 ! i \<in> {-1..3} \<and> (c2 ! i = 0 \<longleftrightarrow> int i \<notin> par \<and> \<not> isUFCallParam (int i) cs)
      \<and> (c2 ! i > 0 \<longrightarrow> (\<exists>c \<in> set cs. \<exists>e \<in> set (conj_exps c). because e (int i) (c2 ! i)))" if i: "i < n" for i
  proof -
    have "refined (?init ! i) (c2 ! i)" using list_all2_nthD [OF ref] i init(1) by simp
    moreover have "?init ! i = (if int i \<in> par \<or> isUFCallParam (int i) cs then -1 else 0)"
      using i by (simp add: initial_classes_def)
    moreover have "c2 ! i > 0 \<Longrightarrow> \<exists>e \<in> set ?es. because e (int i) (c2 ! i)"
      using c1(3) c2(3) i \<open>?init ! i = _\<close> by (fastforce split: if_splits)
    moreover have "c2 ! i \<in> {-1..3}" using rng i len2 by (meson nth_mem subsetD)
    ultimately show ?thesis by (auto simp: refined_def split: if_splits)
  qed
  then show ?thesis using c1(1) c2(1) len2 comp_classes_passes [OF assms(1), of par n] by auto
qed

text \<open>For \<open>{[i,j] : i = j and j < n}\<close> with both parallel, \<open>i\<close> gets class 1 and \<open>j\<close> class 3.\<close>

definition ex_loop :: sparse where
  "ex_loop = [(Conjunction_new 2)\<lparr>mEqualities := [Exp [TupleVarTerm 1 0, TupleVarTerm (-1) 1] Equality],
     mInequalities := [Exp [TupleVarTerm (-1) 1, VarTerm 1 ''n'', Term (-1)] Inequality]\<rparr>]"

theorem comp_classes_justified_witness:
  "comp_classes {0, 1} 2 ex_loop = Inr [1, 3] \<and> (\<exists>c \<in> set ex_loop. \<exists>e \<in> set (conj_exps c). because e 0 1)"
proof -
  have r: "comp_classes {0, 1} 2 ex_loop = Inr [1, 3]" by code_simp
  have "list_all (\<lambda>c. list_all typed_args (conj_exps c)) ex_loop" "list_all (\<lambda>c. list_all (tvs_in 2) (conj_exps c)) ex_loop"
    by code_simp+
  from comp_classes_justified [OF this, of "{0, 1}"] have "\<exists>c \<in> set ex_loop. \<exists>e \<in> set (conj_exps c). because e (int 0) ([1, 3 :: int] ! 0)"
    using r by fastforce
  with r show ?thesis by simp
qed

text \<open>
  The five forms of the string are those of a product of powers of \<open>n\<close> and \<open>nnz\<close>, where each
  variable of class 2 stands for \<open>nnz/n\<close> and each of class 3 for \<open>n\<close>.
\<close>

definition power_string :: "int \<Rightarrow> int \<Rightarrow> string" where
  "power_string n nnz =
     (if nnz = 0 then ''n^'' @ int_str n
      else if n < 0 then ''nnz^'' @ int_str nnz @ ''/n^'' @ int_str (- n)
      else if n > 0 then ''n^'' @ int_str n @ ''*nnz^'' @ int_str nnz
      else ''nnz^'' @ int_str nnz)"

lemma calculateComplexityStr_powers:
  "calculateComplexityStr cs =
     ''O('' @ power_string (int (count_list cs 3) - int (count_list cs 2)) (int (count_list cs 2)) @ '')''"
proof -
  have c: "length (filter (\<lambda>x. x = k) cs) = count_list cs k" for k :: int
    by (induction cs) auto
  show ?thesis
    by (auto simp: calculateComplexityStr_def power_string_def Let_def c abs_if)
qed

text \<open>
  Of two iterators that are equal the cheaper one loses its loop: the test is a disjunction, so
  the comparison that was to decide is never reached when the second class is above 1.
\<close>

lemma comp_keeps_expensive:
  "comp_classes {0, 1} 2 [(Conjunction_new 2)\<lparr>mEqualities := [Exp [TupleVarTerm 1 0, TupleVarTerm (-1) 1] Equality],
     mInequalities := [Exp [TupleVarTerm (-1) 0, VarTerm 1 ''nnz'', Term (-1)] Inequality,
       Exp [TupleVarTerm (-1) 1, VarTerm 1 ''n'', Term (-1)] Inequality]\<rparr>] = Inr [1, 3]"
  by code_simp

text \<open>An iterator bounded only by another one is never determined and does not count: for
  \<open>{[i,j] : i <= j and j < n}\<close> the result is \<open>O(n^1)\<close>.\<close>

lemma comp_undetermined:
  "complexityForPartialParallel {0, 1} 2 [(Conjunction_new 2)\<lparr>
     mInequalities := [Exp [TupleVarTerm (-1) 0, TupleVarTerm 1 1] Inequality,
       Exp [TupleVarTerm (-1) 1, VarTerm 1 ''n'', Term (-1)] Inequality]\<rparr>] = Inr ''O(n^1)''"
  by code_simp

text \<open>Of the set's conjunctions there must be exactly one.\<close>

lemma complexity_one_conjunction:
  "length cs \<noteq> 1 \<Longrightarrow> projl (complexityForPartialParallel par n cs) =
     Assert ''SparseConstraints::complexityForPartialParallel:number of conjunctions is not 1.''"
  by (simp add: complexityForPartialParallel_def)

end
