(* ===== verification/IEG_Strings.thy ===== *)
theory IEG_Strings
  imports IEG_Visitor
begin

text \<open>
  The visitors that print a set or relation: \<open>getString\<close>, which moves terms to both sides of a
  relation sign, and \<open>getZ3form\<close>, which writes the constraints as SMT-LIB assertions
  (\<open>set_relation.cc\<close>).
\<close>

section \<open>getString\<close>

record string_visitor =
  gs_str :: string
  aTupleDecl :: tuple_decl
  gs_split :: nat
  firstConj :: bool
  firstExp :: bool

definition string_visitor_new :: string_visitor where
  "string_visitor_new = \<lparr>gs_str = [], aTupleDecl = TupleDecl_new 0, gs_split = 0, firstConj = True, firstExp = True\<rparr>"

fun print_terms :: "tuple_decl \<Rightarrow> bool \<Rightarrow> trm list \<Rightarrow> string res" where
  "print_terms td generic [] = Inr []"
| "print_terms td generic (t # ts) =
     bindr (if generic then Inr (term_toString True generic t) else term_prettyPrint td True t) (\<lambda>s.
     bindr (print_terms td generic ts) (\<lambda>rest. Inr (s @ rest)))"

text \<open>The negative terms, the others, and the last constant; \<open>push_front\<close> reverses the lists.\<close>

definition left_terms :: "exp \<Rightarrow> trm list" where
  "left_terms e = rev (filter (\<lambda>t. \<not> isConst t \<and> coefficient t < 0) (mTerms e))"

definition right_terms :: "exp \<Rightarrow> trm list" where
  "right_terms e = rev (filter (\<lambda>t. \<not> isConst t \<and> \<not> coefficient t < 0) (mTerms e))"

definition const_value :: "exp \<Rightarrow> int option" where
  "const_value e = (case filter isConst (mTerms e) of [] \<Rightarrow> None | ts \<Rightarrow> Some (coefficient (last ts)))"

definition plus_unless :: "bool \<Rightarrow> int \<Rightarrow> string" where
  "plus_unless b k = (if b then int_str k else '' + '' @ int_str k)"

definition relation_sign :: "exp \<Rightarrow> string" where
  "relation_sign e =
     (let noleft = (left_terms e = []) in
      if isEquality e then
        (case const_value e of Some k \<Rightarrow> if k < 0 then plus_unless noleft (- k) else [] | None \<Rightarrow> []) @ '' = ''
      else if isInequality e then
        (case const_value e of
           Some k \<Rightarrow>
             if k < 0 then
               (if - k - 1 \<noteq> 0 then plus_unless noleft (- k - 1) else if noleft then ''0'' else []) @ '' < ''
             else if k > 0 \<and> noleft then int_str (- k - 1) @ '' < '' else '' <= ''
         | None \<Rightarrow> '' <= '')
      else [])"

definition right_const :: "exp \<Rightarrow> string" where
  "right_const e =
     (case const_value e of
        None \<Rightarrow> []
      | Some k \<Rightarrow>
          if isEquality e \<and> k > 0 then plus_unless (left_terms e = []) k
          else if isInequality e \<and> k > 0 \<and> left_terms e \<noteq> [] then plus_unless (right_terms e = []) k
          else [])"

definition constraint_string :: "tuple_decl \<Rightarrow> bool \<Rightarrow> exp \<Rightarrow> string res" where
  "constraint_string td generic e =
     bindr (print_terms td generic (left_terms e)) (\<lambda>l.
     bindr (print_terms td generic (right_terms e)) (\<lambda>r.
     Inr (l @ (if left_terms e = [] \<and> const_value e = None then ''0'' else []) @ relation_sign e
       @ r @ (if right_terms e = [] \<and> const_value e = None then ''0'' else []) @ right_const e)))"

fun string_visit :: "bool \<Rightarrow> visit \<Rightarrow> string_visitor \<Rightarrow> string_visitor res" where
  "string_visit generic (PreExp e) v =
     (if isExpression e then Inr v
      else bindr (constraint_string (aTupleDecl v) generic e) (\<lambda>s.
        Inr (v\<lparr>gs_str := gs_str v @ (if firstExp v then [] else '' && '') @ s, firstExp := False\<rparr>)))"
| "string_visit generic (PreConjunction c) v =
     Inr (v\<lparr>aTupleDecl := getTupleDecl c,
            gs_str := gs_str v @ (if firstConj v then [] else '' union '') @ ''{ ''
              @ tdecl_toString (getTupleDecl c) True (gs_split v) generic @ '' : '',
            firstConj := False, firstExp := True\<rparr>)"
| "string_visit generic (PostConjunction c) v = Inr (v\<lparr>gs_str := gs_str v @ '' }''\<rparr>)"
| "string_visit generic (PreSet s) v =
     (if set_conjs s = []
      then bindr (false_string (mArity s) 0) (\<lambda>str. Inr (v\<lparr>gs_split := 0, gs_str := str\<rparr>))
      else Inr (v\<lparr>gs_split := 0\<rparr>))"
| "string_visit generic (PreRelation r) v =
     (if rel_conjs r = []
      then bindr (false_string (nat (rel_arity r)) (nat (inArity r))) (\<lambda>str.
        Inr (v\<lparr>gs_split := nat (inArity r), gs_str := str\<rparr>))
      else Inr (v\<lparr>gs_split := nat (inArity r)\<rparr>))"
| "string_visit generic _ v = Inr v"

definition Set_getString :: "bool \<Rightarrow> iset \<Rightarrow> string res" where
  "Set_getString generic this =
     bindr (foldm (string_visit generic) (Set_acceptVisitor this) string_visitor_new) (\<lambda>v. Inr (gs_str v))"

definition Relation_getString :: "bool \<Rightarrow> irel \<Rightarrow> string res" where
  "Relation_getString generic this =
     bindr (foldm (string_visit generic) (Relation_acceptVisitor this) string_visitor_new) (\<lambda>v. Inr (gs_str v))"

section \<open>getZ3form\<close>

record z3_visitor =
  z3_tupleDecl :: tuple_decl
  cc :: int
  tvTs :: "string list"
  vtTs :: "string list"
  ufsTs :: "string list"
  expZ3Form :: "string list"
  conjZ3Form :: "string list"
  z3Form :: "string list"
  constT :: int
  leftSide :: string
  rightSide :: string
  z3_nest :: int
  UFparamT :: string
  UFparamExp :: string

definition set_add :: "string \<Rightarrow> string list \<Rightarrow> string list" where
  "set_add s ss = insert_unique (<) s ss"

definition z3_visitor_new :: "string list \<Rightarrow> string list \<Rightarrow> z3_visitor" where
  "z3_visitor_new inUfsTs inVtTs =
     \<lparr>z3_tupleDecl = TupleDecl_new 0, cc = 1, tvTs = [], vtTs = inVtTs, ufsTs = inUfsTs, expZ3Form = [], conjZ3Form = [],
      z3Form = [], constT = 0, leftSide = [], rightSide = [], z3_nest = 0, UFparamT = [], UFparamExp = []\<rparr>"

text \<open>A term outside of calls replaces what was on its side of the constraint.\<close>

definition z3_side :: "int \<Rightarrow> string \<Rightarrow> z3_visitor \<Rightarrow> z3_visitor" where
  "z3_side c str v =
     (if z3_nest v = 0 then if c < 0 then v\<lparr>leftSide := str\<rparr> else v\<lparr>rightSide := str\<rparr> else v\<lparr>UFparamT := str\<rparr>)"

definition z3_constraint :: "exp \<Rightarrow> z3_visitor \<Rightarrow> z3_visitor" where
  "z3_constraint e v =
     (let k = (if isEquality e \<or> constT v = 0 then constT v else constT v + 1);
          comp = (if isEquality e then ''='' else if constT v = 0 then ''<='' else ''<'');
          l = (if leftSide v = [] then ''0'' else leftSide v); r = (if rightSide v = [] then ''0'' else rightSide v);
          str = (if k = 0 then ''('' @ comp @ '' '' @ l @ '' '' @ r @ '')''
                 else if k < 0 then ''('' @ comp @ '' (+ '' @ l @ '' '' @ int_str (- k) @ '') '' @ r @ '')''
                 else ''('' @ comp @ '' '' @ l @ '' (+ '' @ r @ '' '' @ int_str k @ '') )'') in
      v\<lparr>constT := k, leftSide := l, rightSide := r, expZ3Form := expZ3Form v @ [str]\<rparr>)"

definition z3_argument :: "exp \<Rightarrow> z3_visitor \<Rightarrow> z3_visitor" where
  "z3_argument e v =
     (let p = (if UFparamExp v = [] then UFparamT v else UFparamExp v) in
      v\<lparr>UFparamExp := (case getConstTerm e of None \<Rightarrow> p | Some t \<Rightarrow> ''(+ '' @ p @ '' '' @ int_str (coefficient t) @ '')'')\<rparr>)"

fun z3_named :: "int \<Rightarrow> string list \<Rightarrow> string list" where
  "z3_named k [] = []"
| "z3_named k (s # ss) = (''(assert (! '' @ s @ '' :named c1'' @ int_str k @ '') )'') # z3_named (k + 1) ss"

fun z3_visit :: "bool \<Rightarrow> visit \<Rightarrow> z3_visitor \<Rightarrow> z3_visitor res" where
  "z3_visit termDef (PreTerm t) v = Inr (if z3_nest v > 0 then v else v\<lparr>constT := coefficient t\<rparr>)"
| "z3_visit termDef (PreUFCall (UFCallTerm c f es i)) v =
     Inr (let v' = v\<lparr>ufsTs := set_add f (ufsTs v)\<rparr>;
              v'' = (if z3_nest v = 0 then v'\<lparr>UFparamT := [], UFparamExp := []\<rparr> else v') in
          v''\<lparr>z3_nest := z3_nest v + 1\<rparr>)"
| "z3_visit termDef (PostUFCall (UFCallTerm c f es i)) v =
     Inr (let v' = v\<lparr>z3_nest := z3_nest v - 1\<rparr>; str = ''('' @ f @ '' '' @ UFparamExp v @ '')'' in
          if z3_nest v' = 0 then z3_side c str v' else v'\<lparr>UFparamExp := str\<rparr>)"
| "z3_visit termDef (PreTupleVar t) v =
     bindr (term_prettyPrint (z3_tupleDecl v) True t) (\<lambda>str.
     Inr (z3_side (coefficient t) str (v\<lparr>tvTs := set_add str (tvTs v)\<rparr>)))"
| "z3_visit termDef (PreVar t) v =
     (let str = term_toString True False t in
      Inr (z3_side (coefficient t) str (v\<lparr>vtTs := set_add str (vtTs v)\<rparr>)))"
| "z3_visit termDef (PreExp e) v =
     Inr (if isExpression e then v else v\<lparr>leftSide := [], rightSide := [], constT := 0, z3_nest := 0\<rparr>)"
| "z3_visit termDef (PostExp e) v = Inr (if isExpression e then z3_argument e v else z3_constraint e v)"
| "z3_visit termDef (PreConjunction c) v = Inr (v\<lparr>z3_tupleDecl := getTupleDecl c, expZ3Form := []\<rparr>)"
| "z3_visit termDef (PostConjunction c) v =
     Inr (if expZ3Form v = [] then v
          else if termDef then v\<lparr>conjZ3Form := conjZ3Form v @ expZ3Form v\<rparr>
          else v\<lparr>conjZ3Form := conjZ3Form v @ [''(and'' @ concat (map (\<lambda>s. '' '' @ s) (expZ3Form v)) @ '' )'']\<rparr>)"
| "z3_visit termDef (PreSparse cs) v = Inr (v\<lparr>conjZ3Form := []\<rparr>)"
| "z3_visit termDef (PostSparse cs) v =
     (if termDef then
        Inr (v\<lparr>z3Form := z3Form v @ map (\<lambda>s. ''(declare-const '' @ s @ '' Int)'') (tvTs v) @ z3_named (cc v) (conjZ3Form v),
               cc := cc v + int (length (conjZ3Form v))\<rparr>)
      else case conjZ3Form v of
        [] \<Rightarrow> Inl OutOfBounds
      | s # _ \<Rightarrow> Inr (v\<lparr>z3Form := z3Form v @ [''(assert '' @ s @ '' )'']\<rparr>))"
| "z3_visit termDef _ v = Inr v"

text \<open>The forms, the function symbols and the symbolic constants.\<close>

definition getZ3form :: "string list \<Rightarrow> string list \<Rightarrow> bool \<Rightarrow> sparse \<Rightarrow> (string list \<times> string list \<times> string list) res" where
  "getZ3form UFSyms VarSyms termDef this =
     bindr (foldm (z3_visit termDef) (sparse_acceptVisitor this) (z3_visitor_new UFSyms VarSyms)) (\<lambda>v.
     Inr (z3Form v, ufsTs v, vtTs v))"

text \<open>\<open>VisitorGetVarTerms\<close>.\<close>

fun var_terms_visit :: "visit \<Rightarrow> string list \<Rightarrow> string list" where
  "var_terms_visit (PreVar t) ss = set_add (term_toString True False t) ss"
| "var_terms_visit _ ss = ss"

section \<open>What the strings lose\<close>

text \<open>
  \<open>getString\<close> writes no sign between two terms on the same side, nor between a term and a constant
  on the right side of an equality without negative terms.
\<close>

lemma getString_runs_together:
  "Set_getString False \<lparr>mArity = 2, set_conjs = [(Conjunction_new 2)\<lparr>
      mInequalities := [Exp [TupleVarTerm (-1) 0, TupleVarTerm (-1) 1, Term 5] Inequality]\<rparr>]\<rparr>
   = Inr ''{ [tv0, tv1] : tv1tv0 <= 5 }''"
  by code_simp

lemma getString_equality_constant:
  "Set_getString False \<lparr>mArity = 1, set_conjs = [(Conjunction_new 1)\<lparr>
      mEqualities := [Exp [TupleVarTerm 1 0, Term 5] Equality]\<rparr>]\<rparr>
   = Inr ''{ [tv0] :  = tv05 }''"
  by code_simp

text \<open>\<open>getZ3form\<close> keeps one term on each side: of \<open>i + j >= 5\<close> it keeps \<open>j >= 5\<close>.\<close>

lemma getZ3form_loses_terms:
  "getZ3form [] [] True [(Conjunction_new 2)\<lparr>mInequalities := [Exp [TupleVarTerm 1 0, TupleVarTerm 1 1, Term (-5)] Inequality]\<rparr>]
   = Inr ([''(declare-const tv0 Int)'', ''(declare-const tv1 Int)'', ''(assert (! (< (+ 0 4) tv1) :named c11) )''], [], [])"
  by code_simp

end
