(* ===== verification/IEG_Reorder.thy ===== *)
theory IEG_Reorder
  imports IEG_Complexity IEG_Strings
begin

text \<open>
  The order of the loops of an inspector (\<open>reOrdTV_OmegaCodeGen.cc\<close>): a tuple variable that an
  equality defines is moved to the end of the declaration, so that the code generator computes it
  instead of looping over it; and the removal of uninterpreted predicates.
\<close>

section \<open>Classes without equalities\<close>

definition bound_rule :: "comp_visitor \<Rightarrow> comp_visitor res" where
  "bound_rule v =
     (case cv_tv1 v of
        None \<Rightarrow> Inr v
      | Some t1 \<Rightarrow>
          bindr (get_class (cv_comp v) t1) (\<lambda>a.
          if a = 0 \<or> a = 1 then Inr v
          else case cv_curr v of
            None \<Rightarrow> Inl NullDeref
          | Some e \<Rightarrow>
              if isInequality e
              then bindr (inequality_rule t1 (cv_tv2 v) (varUB v) (ufcUB v) (cv_comp v)) (\<lambda>cs.
                   Inr (v\<lparr>cv_comp := cs\<rparr>))
              else Inr v))"

fun noeqs_visit :: "visit \<Rightarrow> comp_visitor \<Rightarrow> comp_visitor res" where
  "noeqs_visit (PreUFCall t) v = Inr (v\<lparr>nestedness := nestedness v + 1\<rparr>)"
| "noeqs_visit (PostUFCall t) v =
     Inr (let v = v\<lparr>nestedness := nestedness v - 1\<rparr> in if nestedness v \<noteq> 0 then v else v\<lparr>ufcUB := Some t\<rparr>)"
| "noeqs_visit (PostVar t) v = Inr (if nestedness v \<noteq> 0 then v else v\<lparr>varUB := Some t\<rparr>)"
| "noeqs_visit (PostTupleVar t) v = Inr (if nestedness v \<noteq> 0 then v else note_tv t v)"
| "noeqs_visit (PreExp e) v = Inr (if nestedness v > 0 then v else start_constraint e v)"
| "noeqs_visit (PostExp e) v = (if nestedness v > 0 then Inr v else bound_rule v)"
| "noeqs_visit _ v = Inr v"

section \<open>Variables that an equality defines\<close>

record zero_visitor =
  zTVs :: "int list"
  zv_tv1 :: int
  zv_tv2 :: int
  zv_nest :: int

definition zero_visitor_new :: "int list \<Rightarrow> zero_visitor" where
  "zero_visitor_new mzTVs = \<lparr>zTVs = mzTVs, zv_tv1 = -1, zv_tv2 = -1, zv_nest = 0\<rparr>"

definition int_nth :: "int list \<Rightarrow> int \<Rightarrow> int res" where
  "int_nth xs i = (if 0 \<le> i \<and> i < int (length xs) then Inr (xs ! nat i) else Inl OutOfBounds)"

definition mark_zero :: "int \<Rightarrow> zero_visitor \<Rightarrow> zero_visitor res" where
  "mark_zero i v =
     (if 0 \<le> i \<and> i < int (length (zTVs v)) then Inr (v\<lparr>zTVs := (zTVs v)[nat i := 1]\<rparr>) else Inl OutOfBounds)"

definition zero_rule :: "int list \<Rightarrow> zero_visitor \<Rightarrow> zero_visitor res" where
  "zero_rule complexity v =
     (if zv_tv2 v = -1 then mark_zero (zv_tv1 v) v
      else
        bindr (int_nth complexity (zv_tv1 v)) (\<lambda>a.
        bindr (int_nth complexity (zv_tv2 v)) (\<lambda>b.
        if a > b then mark_zero (zv_tv1 v) v
        else if a < b then mark_zero (zv_tv2 v) v
        else if zv_tv1 v > zv_tv2 v then mark_zero (zv_tv1 v) v
        else if zv_tv1 v < zv_tv2 v then mark_zero (zv_tv2 v) v
        else mark_zero (zv_tv1 v) v)))"

fun zero_visit :: "int list \<Rightarrow> visit \<Rightarrow> zero_visitor \<Rightarrow> zero_visitor res" where
  "zero_visit complexity (PreUFCall t) v = Inr (v\<lparr>zv_nest := zv_nest v + 1\<rparr>)"
| "zero_visit complexity (PostUFCall t) v = Inr (v\<lparr>zv_nest := zv_nest v - 1\<rparr>)"
| "zero_visit complexity (PreTupleVar t) v =
     Inr (if zv_nest v = 0 then (if zv_tv1 v = -1 then v\<lparr>zv_tv1 := tvloc t\<rparr> else v\<lparr>zv_tv2 := tvloc t\<rparr>) else v)"
| "zero_visit complexity (PreExp e) v = Inr (if zv_nest v = 0 then v\<lparr>zv_tv1 := -1, zv_tv2 := -1\<rparr> else v)"
| "zero_visit complexity (PostExp e) v =
     (if zv_nest v = 0 \<and> zv_tv1 v > -1 \<and> isEquality e then zero_rule complexity v else Inr v)"
| "zero_visit complexity _ v = Inr v"

section \<open>The candidate and the new order\<close>

text \<open>The last of the most expensive variables that an equality defines, or -1.\<close>

definition candidate_step :: "int list \<Rightarrow> int list \<Rightarrow> nat \<Rightarrow> int \<Rightarrow> int" where
  "candidate_step zs complexities i candidateTV =
     (if zs ! i = 1 then
        if candidateTV = -1 then int i
        else if complexities ! nat candidateTV \<le> complexities ! i then int i else candidateTV
      else candidateTV)"

definition candidate_of :: "nat \<Rightarrow> int list \<Rightarrow> int list \<Rightarrow> int" where
  "candidate_of n zs complexities = fold (candidate_step zs complexities) [0..<n] (-1)"

definition reorder_candidate :: "int set \<Rightarrow> nat \<Rightarrow> sparse \<Rightarrow> (visit list) \<Rightarrow> int res" where
  "reorder_candidate parallelTvs n cs visits =
     bindr (foldm noeqs_visit visits (comp_visitor_new (initial_classes parallelTvs n cs))) (\<lambda>vComp.
     bindr (foldm (zero_visit (cv_comp vComp)) visits (zero_visitor_new (replicate n 0))) (\<lambda>vZComp.
     Inr (candidate_of n (zTVs vZComp) (cv_comp vComp))))"

text \<open>The names without the candidate, separated by commas, and the candidate's name.\<close>

fun reorder_loop :: "nat \<Rightarrow> nat \<Rightarrow> int \<Rightarrow> bool \<Rightarrow> string \<Rightarrow> string \<Rightarrow> string list \<Rightarrow> (string \<times> string) res" where
  "reorder_loop 0 i candidateTV b newTupDecl candIter iters = Inr (newTupDecl, candIter)"
| "reorder_loop (Suc n) i candidateTV b newTupDecl candIter [] = Inl OutOfBounds"
| "reorder_loop (Suc n) i candidateTV b newTupDecl candIter (iter # iters) =
     (if int i = candidateTV then reorder_loop n (i + 1) candidateTV b newTupDecl iter iters
      else if b then reorder_loop n (i + 1) candidateTV False (newTupDecl @ iter) candIter iters
      else reorder_loop n (i + 1) candidateTV b (newTupDecl @ '','' @ iter) candIter iters)"

definition reorder_tuple :: "nat \<Rightarrow> int \<Rightarrow> string list \<Rightarrow> string res" where
  "reorder_tuple n candidateTV iters =
     bindr (reorder_loop n 0 candidateTV True ''['' [] iters) (\<lambda>(newTupDecl, candIter).
     Inr (newTupDecl @ '','' @ candIter @ '']''))"

definition reOrdTV_OmegaCodeGen :: "world \<Rightarrow> (string \<Rightarrow> iset res) \<Rightarrow> int set \<Rightarrow> iset \<Rightarrow> iset res" where
  "reOrdTV_OmegaCodeGen w parse_set parallelTvs this =
     (if length (set_conjs this) \<noteq> 1
      then Inl (Assert ''SparseConstraints::complexityForPartialParallel:number of conjunctions is not 1.'')
      else
        bindr (reorder_candidate parallelTvs (mArity this) (set_conjs this) (Set_acceptVisitor this)) (\<lambda>candidateTV.
        if candidateTV = -1 \<or> candidateTV = int (mArity this) - 1 then Inr this
        else
          bindr (Set_getString False this) (\<lambda>setStr.
          bindr (getPartsFromStr setStr) (\<lambda>setParts.
          bindr (tupVarsExtract (tupDecl setParts) (int (mArity this)) 0) (\<lambda>iters.
          bindr (reorder_tuple (mArity this) candidateTV iters) (\<lambda>newTupDecl.
          bindr (parse_set (getFullStrFromParts (setParts\<lparr>tupDecl := newTupDecl\<rparr>))) (Set_copy w)))))))"

section \<open>Uninterpreted predicates\<close>

record ups_visitor =
  ru_newSet :: "iset option"
  ru_newConj :: "conj option"
  ru_vt :: "trm option"
  ru_ct :: int
  ru_nest :: int

definition ups_visitor_new :: ups_visitor where
  "ups_visitor_new = \<lparr>ru_newSet = None, ru_newConj = None, ru_vt = None, ru_ct = -100, ru_nest = 0\<rparr>"

fun ups_visit :: "addr_order \<Rightarrow> visit \<Rightarrow> ups_visitor \<Rightarrow> ups_visitor res" where
  "ups_visit ad (PreUFCall t) v = Inr (v\<lparr>ru_nest := ru_nest v + 1\<rparr>)"
| "ups_visit ad (PostUFCall t) v = Inr (v\<lparr>ru_nest := ru_nest v - 1\<rparr>)"
| "ups_visit ad (PreTerm t) v = Inr (if ru_nest v = 0 then v\<lparr>ru_ct := coefficient t\<rparr> else v)"
| "ups_visit ad (PostVar t) v = Inr (if ru_nest v = 0 then v\<lparr>ru_vt := Some t\<rparr> else v)"
| "ups_visit ad (PreExp e) v = Inr (if ru_nest v = 0 then v\<lparr>ru_vt := None, ru_ct := -100\<rparr> else v)"
| "ups_visit ad (PostExp e) v =
     (if ru_nest v > 0 then Inr v
      else
        let v = (if getTerm e \<noteq> None then v\<lparr>ru_ct := 0\<rparr> else v) in
        if ru_vt v \<noteq> None \<and> ru_ct v \<noteq> -100 \<and> isEquality e then Inr v
        else case ru_newConj v of
          None \<Rightarrow> Inl NullDeref
        | Some c \<Rightarrow> Inr (v\<lparr>ru_newConj := Some (if isInequality e then addInequality ad e c else addEquality ad e c)\<rparr>))"
| "ups_visit ad (PreConjunction c) v = Inr (v\<lparr>ru_newConj := Some (Conjunction_tdecl (getTupleDecl c))\<rparr>)"
| "ups_visit ad (PostSet s) v =
     bindr (Set_new ad (mArity s)) (\<lambda>r.
     case ru_newConj v of
       None \<Rightarrow> Inl NullDeref
     | Some c \<Rightarrow> Inr (v\<lparr>ru_newSet := Some (r\<lparr>set_conjs := sparse_addConjunction ad c (set_conjs r)\<rparr>)\<rparr>))"
| "ups_visit ad _ v = Inr v"

definition removeUPs :: "world \<Rightarrow> iset \<Rightarrow> iset res" where
  "removeUPs w this =
     bindr (foldm (ups_visit (address_order w)) (Set_acceptVisitor this) ups_visitor_new) (\<lambda>v.
     case ru_newSet v of None \<Rightarrow> Inl NullDeref | Some s \<Rightarrow> Set_copy w s)"

section \<open>The candidate is a most expensive one\<close>

lemma candidate_best:
  assumes "candidate_of n zs ks = r"
  shows "if r = -1 then \<forall>i < n. zs ! i \<noteq> 1
    else 0 \<le> r \<and> r < int n \<and> zs ! nat r = 1 \<and> (\<forall>i < n. zs ! i = 1 \<longrightarrow> ks ! i \<le> ks ! nat r)"
  unfolding assms [symmetric]
proof (induction n)
  case (Suc n)
  have "candidate_of (Suc n) zs ks = candidate_step zs ks n (candidate_of n zs ks)" by (simp add: candidate_of_def)
  with Suc show ?case by (auto simp: candidate_step_def less_Suc_eq split: if_splits)
qed (simp add: candidate_of_def)


section \<open>The new tuple\<close>

definition tail_names :: "string list \<Rightarrow> string" where
  "tail_names ss = concat (map (\<lambda>s. '','' @ s) ss)"

lemma tail_names_simps [simp]:
  "tail_names [] = []" "tail_names (s # ss) = '','' @ s @ tail_names ss" "tail_names (ss @ ts) = tail_names ss @ tail_names ts"
  by (simp_all add: tail_names_def)

lemma commas_tail: "commas (s # ss) = s @ tail_names ss"
  by (induction ss arbitrary: s) simp_all

lemma reorder_after:
  "c < int i \<Longrightarrow> reorder_loop (length iters) i c False td cand iters = Inr (td @ tail_names iters, cand)"
  by (induction iters arbitrary: i td) simp_all

lemma reorder_rest:
  "c < length iters \<Longrightarrow> reorder_loop (length iters) i (int (i + c)) False td cand iters =
     Inr (td @ tail_names (take c iters @ drop (Suc c) iters), iters ! c)"
proof (induction iters arbitrary: i c td)
  case (Cons s iters)
  show ?case
  proof (cases c)
    case 0
    then show ?thesis using reorder_after [of "int i" "Suc i" iters td s] by simp
  next
    case (Suc d)
    then show ?thesis using Cons.IH [of d "Suc i" "td @ '','' @ s"] Cons.prems by simp
  qed
qed simp

text \<open>The names keep their order, but the candidate's comes last.\<close>

lemma reorder_tuple_moves:
  assumes "c < length (s # t # iters)"
  shows "reorder_tuple (length (s # t # iters)) (int c) (s # t # iters) =
    Inr (''['' @ commas (take c (s # t # iters) @ drop (Suc c) (s # t # iters) @ [(s # t # iters) ! c]) @ '']'')"
proof (cases c)
  case 0
  then show ?thesis using reorder_after [of 0 2 iters "''['' @ t" s] by (simp add: numeral_2_eq_2 reorder_tuple_def commas_tail)
next
  case (Suc d)
  then show ?thesis
    using reorder_rest [of d "t # iters" 1 "''['' @ s" "[]"] assms by (simp add: reorder_tuple_def commas_tail)
qed

section \<open>Removing predicates\<close>

definition ups_const :: "trm list \<Rightarrow> int" where
  "ups_const ts = (case last_of (filter isConst ts) of None \<Rightarrow> -100 | Some t \<Rightarrow> coefficient t)"

text \<open>A predicate: an equality with a symbolic constant and a constant other than -100, or with nothing else.\<close>

definition is_UP :: "exp \<Rightarrow> bool" where
  "is_UP e \<longleftrightarrow> isEquality e \<and> list_ex is_var (mTerms e) \<and> (ups_const (mTerms e) \<noteq> -100 \<or> getTerm e \<noteq> None)"

lemma ups_calls:
  "ru_nest v > 0 \<Longrightarrow> foldm (ups_visit ad) (term_acceptVisitor t) v = Inr v"
  "ru_nest v > 0 \<Longrightarrow> foldm (ups_visit ad) (exp_acceptVisitor e) v = Inr v"
proof (induction t and e arbitrary: v and v rule: term_acceptVisitor_exp_acceptVisitor.induct)
  case (2 c f es i)
  let ?v = "v\<lparr>ru_nest := ru_nest v + 1\<rparr>"
  have "foldm (ups_visit ad) (concat (map exp_acceptVisitor as)) ?v = Inr ?v" if "set as \<subseteq> set es" for as
    using that
  proof (induction as)
    case (Cons a as)
    then have "foldm (ups_visit ad) (exp_acceptVisitor a) ?v = Inr ?v" using 2(1) [of a ?v] 2(2) by simp
    with Cons show ?case by (simp add: foldm_append)
  qed simp
  from this [of es] show ?case by (simp add: foldm_append)
next
  case (6 ts ty)
  have "foldm (ups_visit ad) (concat (map term_acceptVisitor us)) v = Inr v" if "set us \<subseteq> set ts" for us
    using that
  proof (induction us)
    case (Cons t us)
    then have "foldm (ups_visit ad) (term_acceptVisitor t) v = Inr v" using 6(1) [of t v] 6(2) by simp
    with Cons show ?case by (simp add: foldm_append)
  qed simp
  from this [of ts] show ?case using 6(2) by (simp add: foldm_append)
qed simp_all

definition ups_noted :: "trm list \<Rightarrow> ups_visitor \<Rightarrow> ups_visitor" where
  "ups_noted ts v =
     v\<lparr>ru_vt := or_else (last_of (filter is_var ts)) (ru_vt v),
       ru_ct := (case last_of (filter isConst ts) of None \<Rightarrow> ru_ct v | Some t \<Rightarrow> coefficient t)\<rparr>"

lemma ups_term:
  assumes "ru_nest v = 0"
  shows "foldm (ups_visit ad) (term_acceptVisitor t) v = Inr (ups_noted [t] v)"
proof (cases t)
  case (UFCallTerm c f es i)
  let ?v = "v\<lparr>ru_nest := 1\<rparr>"
  have "foldm (ups_visit ad) (concat (map exp_acceptVisitor as)) ?v = Inr ?v" for as
    by (induction as) (simp_all add: foldm_append ups_calls)
  then show ?thesis using assms
    by (simp add: UFCallTerm foldm_append ups_noted_def is_var_def last_of_def)
qed (use assms in \<open>simp_all add: ups_noted_def is_var_def last_of_def\<close>)

lemma ups_terms:
  "ru_nest v = 0 \<Longrightarrow> foldm (ups_visit ad) (concat (map term_acceptVisitor ts)) v = Inr (ups_noted ts v)"
proof (induction ts arbitrary: v)
  case Nil
  then show ?case by (simp add: ups_noted_def last_of_def)
next
  case (Cons t ts)
  have "ups_noted ts (ups_noted [t] v) = ups_noted (t # ts) v"
    by (auto simp: ups_noted_def last_of_Cons last_of_def or_else_def split: option.splits)
  moreover have "ru_nest (ups_noted [t] v) = 0" using Cons.prems by (simp add: ups_noted_def)
  ultimately show ?case using Cons ups_term [of v ad t] by (simp add: foldm_append)
qed

lemma list_ex_last: "list_ex P ts \<longleftrightarrow> last_of (filter P ts) \<noteq> None"
  by (auto simp: last_of_def list_ex_iff filter_empty_conv)

lemma ups_exp:
  assumes "ru_nest v = 0" and "ru_newConj v = Some c"
  shows "\<exists>v'. foldm (ups_visit ad) (exp_acceptVisitor e) v = Inr v' \<and> ru_nest v' = 0 \<and> ru_newSet v' = ru_newSet v
    \<and> ru_newConj v' = Some (if is_UP e then c else add_constraint ad e c)"
proof -
  obtain ts ty where e: "e = Exp ts ty" by (cases e) auto
  let ?v = "v\<lparr>ru_vt := None, ru_ct := -100\<rparr>"
  have "foldm (ups_visit ad) (concat (map term_acceptVisitor ts)) ?v = Inr (ups_noted ts ?v)"
    using assms(1) by (intro ups_terms) simp
  moreover have "ru_ct (ups_noted ts ?v) = ups_const ts" "ru_vt (ups_noted ts ?v) = last_of (filter is_var ts)"
    "ru_newConj (ups_noted ts ?v) = Some c" "ru_nest (ups_noted ts ?v) = 0" "ru_newSet (ups_noted ts ?v) = ru_newSet v"
    using assms by (simp_all add: ups_noted_def ups_const_def or_else_def split: option.split)
  ultimately show ?thesis using assms(1)
    by (auto simp: e foldm_append Let_def is_UP_def add_constraint_def list_ex_last)
qed

definition without_UPs :: "addr_order \<Rightarrow> conj \<Rightarrow> conj" where
  "without_UPs ad c = fold (add_constraint ad) (filter (\<lambda>e. \<not> is_UP e) (conj_exps c)) (Conjunction_tdecl (getTupleDecl c))"

lemma ups_exps:
  "ru_nest v = 0 \<Longrightarrow> ru_newConj v = Some c \<Longrightarrow>
   \<exists>v'. foldm (ups_visit ad) (concat (map exp_acceptVisitor es)) v = Inr v' \<and> ru_nest v' = 0 \<and> ru_newSet v' = ru_newSet v
     \<and> ru_newConj v' = Some (fold (add_constraint ad) (filter (\<lambda>e. \<not> is_UP e) es) c)"
proof (induction es arbitrary: v c)
  case (Cons e es)
  obtain v1 where v1: "foldm (ups_visit ad) (exp_acceptVisitor e) v = Inr v1" "ru_nest v1 = 0" "ru_newSet v1 = ru_newSet v"
    "ru_newConj v1 = Some (if is_UP e then c else add_constraint ad e c)"
    using ups_exp [OF Cons.prems] by blast
  show ?case using Cons.IH [OF v1(2,4)] v1(1,3) by (auto simp: foldm_append)
qed simp

lemma ups_conjs:
  "ru_nest v = 0 \<Longrightarrow> cs \<noteq> [] \<Longrightarrow>
   \<exists>v'. foldm (ups_visit ad) (concat (map conj_acceptVisitor cs)) v = Inr v' \<and> ru_newConj v' = Some (without_UPs ad (last cs))"
proof (induction cs arbitrary: v)
  case (Cons c cs)
  let ?v = "v\<lparr>ru_newConj := Some (Conjunction_tdecl (getTupleDecl c))\<rparr>"
  have n: "ru_nest ?v = 0" "ru_newConj ?v = Some (Conjunction_tdecl (getTupleDecl c))" using Cons.prems by simp_all
  obtain v1 where v1: "foldm (ups_visit ad) (concat (map exp_acceptVisitor (conj_exps c))) ?v = Inr v1" "ru_nest v1 = 0"
    "ru_newConj v1 = Some (without_UPs ad c)" using ups_exps [OF n, of ad "conj_exps c"] by (auto simp: without_UPs_def)
  then have "foldm (ups_visit ad) (conj_acceptVisitor c) v = Inr v1" by (simp add: conj_visits foldm_append)
  then show ?case using Cons.IH [OF v1(2)] v1(3) by (cases "cs = []") (simp_all add: foldm_append)
qed simp

section \<open>Properties\<close>

text \<open>
  C37. The set without predicates has the declaration and all other constraints of the last
  conjunction: a set with one conjunction loses no tuple.
\<close>

theorem removeUPs_holds:
  assumes "removeUPs w s = Inr s'" and "set_conjs s \<noteq> []" and "okc (last (set_conjs s))"
    and "nests_ok_conj (inverse_of w) (without_UPs (address_order w) (last (set_conjs s)))" and "inverts (inverse_of w) v"
  shows "sparse_holds v (set_conjs s') xs \<longleftrightarrow> admits (mTupleDecl (last (set_conjs s))) xs
    \<and> (\<forall>e \<in> set (conj_exps (last (set_conjs s))). \<not> is_UP e \<longrightarrow> constraint_holds (at_tuple v xs) e)"
proof -
  let ?ad = "address_order w" and ?c = "last (set_conjs s)"
  let ?n = "without_UPs ?ad ?c"
  obtain v1 where "foldm (ups_visit ?ad) (concat (map conj_acceptVisitor (set_conjs s))) ups_visitor_new = Inr v1"
    "ru_newConj v1 = Some ?n" using ups_conjs [OF _ assms(2), of ups_visitor_new ?ad] by (auto simp: ups_visitor_new_def)
  then obtain r where r: "Set_new ?ad (mArity s) = Inr r"
    and cp: "sparse_copy w (sparse_addConjunction ?ad ?n (set_conjs r)) = Inr (set_conjs s')"
    using assms(1) by (auto simp: removeUPs_def Set_acceptVisitor_def sparse_acceptVisitor_def foldm_append bindr_eq_Inr Set_copy_def)
  have "set_conjs r = sparse_addConjunction ?ad (Conjunction_tdecl (projr (sDefaultTupleDecl (mArity s)))) []"
    using r by (auto simp: Set_new_def bindr_eq_Inr)
  then have new: "sparse_addConjunction ?ad ?n (set_conjs r) = [?n]"
    by (simp add: sparse_addConjunction_def drop_true_def hasConstraints_def Conjunction_tdecl_def)
  have n: "okc ?n \<and> (holds v ?n xs \<longleftrightarrow> admits (mTupleDecl ?c) xs
      \<and> (\<forall>e \<in> set (conj_exps ?c). \<not> is_UP e \<longrightarrow> constraint_holds (at_tuple v xs) e))"
    unfolding without_UPs_def by (rule rebuilt_holds [OF assms(3)]) (simp_all add: Conjunction_tdecl_def getTupleDecl_def)
  have "sparse_holds v (set_conjs s') xs \<longleftrightarrow> sparse_holds v [?n] xs"
    by (rule sparse_copy_holds [OF cp [unfolded new], THEN conjunct2]) (use n assms(4,5) in \<open>auto simp: proper_def\<close>)
  then show ?thesis using n by (simp add: sparse_holds_def)
qed

theorem removeUPs_holds_witness:
  "\<exists>s. removeUPs ex_world \<lparr>mArity = 1, set_conjs = [(Conjunction_new 1)\<lparr>
        mEqualities := [Exp [VarTerm 1 ''p'', Term (-1)] Equality, Exp [TupleVarTerm 1 0, Term (-5)] Equality]\<rparr>]\<rparr> = Inr s
     \<and> (\<forall>v. sparse_holds v (set_conjs s) [5])"
proof -
  let ?c = "(Conjunction_new 1)\<lparr>
    mEqualities := [Exp [VarTerm 1 ''p'', Term (-1)] Equality, Exp [TupleVarTerm 1 0, Term (-5)] Equality]\<rparr>"
  let ?s = "\<lparr>mArity = 1, set_conjs = [?c]\<rparr>"
  have r: "removeUPs ex_world ?s = Inr (projr (removeUPs ex_world ?s))"
    by (rule Inr_projr) code_simp
  have e: "set_conjs ?s \<noteq> []" by simp
  have o: "okc (last (set_conjs ?s))" by code_simp
  have n: "nests_ok_conj (inverse_of ex_world) (without_UPs (address_order ex_world) (last (set_conjs ?s)))" by code_simp
  have i: "inverts (inverse_of ex_world) v" for v by (simp add: inverts_def ex_world_def)
  have "admits (mTupleDecl ?c) [5]
      \<and> (\<forall>e \<in> set (conj_exps ?c). \<not> is_UP e \<longrightarrow> constraint_holds (at_tuple v [5]) e)" for v
    by (simp add: conj_exps_def Conjunction_new_def Conjunction_tdecl_def admits_def TupleDecl_new_def elemIsConst_def
        constraint_holds_def isInequality_def isEquality_def is_UP_def is_var_def ups_const_def last_of_def getTerm_def at_tuple_def)
  then show ?thesis using r removeUPs_holds [OF r e o n i, of _ "[5]"] by auto
qed

text \<open>Of a union only the last conjunction is left: \<open>{[x] : x = 1} union {[x] : x = 2}\<close> loses 1.\<close>

lemma removeUPs_last_only:
  "let c = \<lambda>k. (Conjunction_new 1)\<lparr>mEqualities := [Exp [TupleVarTerm 1 0, Term k] Equality]\<rparr>
   in map_sum id set_conjs (removeUPs ex_world \<lparr>mArity = 1, set_conjs = [c (-1), c (-2)]\<rparr>) = Inr [c (-2)]"
  by code_simp

text \<open>A predicate whose constant is -100 is not recognized.\<close>

lemma is_UP_sentinel:
  "is_UP (Exp [VarTerm 1 ''p'', Term (-99)] Equality) \<and> \<not> is_UP (Exp [VarTerm 1 ''p'', Term (-100)] Equality)"
  by code_simp

text \<open>For \<open>{[i,j] : i = j and i < n and j < nnz}\<close> the expensive \<open>i\<close> is the candidate.\<close>

lemma reorder_candidate_example:
  "reorder_candidate {0, 1} 2 cs (Set_acceptVisitor \<lparr>mArity = 2, set_conjs = cs\<rparr>) = Inr 0"
  if "cs = [(Conjunction_new 2)\<lparr>mEqualities := [Exp [TupleVarTerm 1 0, TupleVarTerm (-1) 1] Equality],
     mInequalities := [Exp [TupleVarTerm (-1) 1, VarTerm 1 ''nnz'', Term (-1)] Inequality,
       Exp [TupleVarTerm (-1) 0, VarTerm 1 ''n'', Term (-1)] Inequality]\<rparr>]"
  unfolding that by code_simp

end
