(* ===== verification/IEG_Relationship.thy ===== *)
theory IEG_Relationship
  imports IEG_RemoveProps IEG_Strings
begin

text \<open>
  How two sets relate (\<open>setRelationship.cc\<close>, \<open>strISLSetRelationship\<close> in
  \<open>isl_str_manipulation.cc\<close>): the calls of both sets are replaced by symbols, the other tuple
  variables are projected out, and ISL compares what is left. ISL's reading of a set and its tests
  are the record \<open>rel_ops\<close>, its projection the argument \<open>isl_project\<close>.
\<close>

section \<open>Comparing strings with ISL\<close>

datatype set_relationship = SetEqual | SubSetEqual | SubSet | SuperSet | SuperSetEqual | UnKnown | UnSatSet

record 'i rel_ops =
  rs_read :: "string \<Rightarrow> 'i"
  rs_is_equal :: "'i \<Rightarrow> 'i \<Rightarrow> bool"
  rs_is_strict_subset :: "'i \<Rightarrow> 'i \<Rightarrow> bool"
  rs_is_subset :: "'i \<Rightarrow> 'i \<Rightarrow> bool"

definition strISLSetRelationship :: "'i rel_ops \<Rightarrow> string \<Rightarrow> string \<Rightarrow> set_relationship" where
  "strISLSetRelationship ops setStr1 setStr2 =
     (let set1 = rs_read ops setStr1; set2 = rs_read ops setStr2 in
      if rs_is_equal ops set1 set2 then SetEqual
      else if rs_is_strict_subset ops set1 set2 then SubSet
      else if rs_is_subset ops set1 set2 then SubSetEqual
      else if rs_is_strict_subset ops set2 set1 then SuperSet
      else if rs_is_subset ops set2 set1 then SuperSetEqual
      else UnKnown)"

section \<open>Comparing sets\<close>

fun project_all_loop ::
  "world \<Rightarrow> (nat \<Rightarrow> string \<Rightarrow> string) \<Rightarrow> (string \<Rightarrow> iset res) \<Rightarrow> int set \<Rightarrow> int list \<Rightarrow> iset \<Rightarrow> iset res" where
  "project_all_loop w isl_project parse_set eigenTvs [] s = Inr s"
| "project_all_loop w isl_project parse_set eigenTvs (tV # tVs) s =
     (if tV \<in> eigenTvs then project_all_loop w isl_project parse_set eigenTvs tVs s
      else bindr (islSetProjectOut w isl_project parse_set s (nat tV)) (\<lambda>retSet.
           project_all_loop w isl_project parse_set eigenTvs tVs retSet))"

definition islSetProjectOutAll ::
  "world \<Rightarrow> (nat \<Rightarrow> string \<Rightarrow> string) \<Rightarrow> (string \<Rightarrow> iset res) \<Rightarrow> int set \<Rightarrow> iset \<Rightarrow> iset res" where
  "islSetProjectOutAll w isl_project parse_set eigenTvs inSet =
     project_all_loop w isl_project parse_set eigenTvs (down_from (mArity inSet)) inSet"

text \<open>One side of the comparison: its affine superset, projected, as ISL reads it.\<close>

definition relationship_side ::
  "world \<Rightarrow> environment \<Rightarrow> (nat \<Rightarrow> string \<Rightarrow> string) \<Rightarrow> (string \<Rightarrow> iset res) \<Rightarrow> int set \<Rightarrow> iset \<Rightarrow> string res" where
  "relationship_side w env isl_project parse_set eigenTvs s =
     bindr (sparse_getTupleDecl (set_conjs s)) (\<lambda>td.
     bindr (Set_superAffineSet w env (UFCallMap_decl td) False s) (\<lambda>(affineSet, cmap).
     bindr (islSetProjectOutAll (env_world w env) isl_project parse_set eigenTvs affineSet) (\<lambda>islSet.
     sparse_toISLString (env_world w env) (mArity islSet) 0 (set_conjs islSet))))"

definition iegenSetRelationship ::
  "world \<Rightarrow> environment \<Rightarrow> 'i rel_ops \<Rightarrow> (nat \<Rightarrow> string \<Rightarrow> string) \<Rightarrow> (string \<Rightarrow> iset res)
   \<Rightarrow> iset \<Rightarrow> int set \<Rightarrow> iset \<Rightarrow> int set \<Rightarrow> set_relationship res" where
  "iegenSetRelationship w env ops isl_project parse_set set1 set1EigenTvs set2 set2EigenTvs =
     bindr (relationship_side w env isl_project parse_set set1EigenTvs set1) (\<lambda>str1.
     bindr (relationship_side w env isl_project parse_set set2EigenTvs set2) (\<lambda>str2.
     Inr (strISLSetRelationship ops str1 str2)))"

text \<open>The second relation's \<open>getString\<close> is called before the first set is parsed.\<close>

definition dataDependenceRelationship ::
  "world \<Rightarrow> environment \<Rightarrow> 'i rel_ops \<Rightarrow> (nat \<Rightarrow> string \<Rightarrow> string) \<Rightarrow> (string \<Rightarrow> iset res)
   \<Rightarrow> irel \<Rightarrow> irel \<Rightarrow> int \<Rightarrow> set_relationship res" where
  "dataDependenceRelationship w env ops isl_project parse_set this right_rel parallelLoopLevel =
     bindr (Relation_getString True this) (\<lambda>dep1.
     bindr (Relation_getString True right_rel) (\<lambda>dep2.
     bindr (relationStr2SetStr dep1 (inArity this) (outArity this)) (\<lambda>str1.
     bindr (parse_set str1) (\<lambda>eqSet1.
     bindr (relationStr2SetStr dep2 (inArity right_rel) (outArity right_rel)) (\<lambda>str2.
     bindr (parse_set str2) (\<lambda>eqSet2.
     iegenSetRelationship w env ops isl_project parse_set
       eqSet1 {parallelLoopLevel, inArity this + parallelLoopLevel}
       eqSet2 {parallelLoopLevel, inArity right_rel + parallelLoopLevel}))))))"

section \<open>Properties\<close>

text \<open>ISL's tests decide equality and inclusion of the sets of points.\<close>

definition rel_lawful :: "'i rel_ops \<Rightarrow> ('i \<Rightarrow> 'p set) \<Rightarrow> bool" where
  "rel_lawful ops den \<longleftrightarrow> (\<forall>a b. (rs_is_equal ops a b \<longleftrightarrow> den a = den b)
     \<and> (rs_is_strict_subset ops a b \<longleftrightarrow> den a \<subset> den b) \<and> (rs_is_subset ops a b \<longleftrightarrow> den a \<subseteq> den b))"

text \<open>
  The relationship of two strings is the one of the sets that they denote: equal, properly
  contained in one direction or the other, or unknown if neither contains the other. The two
  results for inclusion that may be equality never occur.
\<close>

lemma strISLSetRelationship_exact:
  assumes "rel_lawful ops den"
  shows "strISLSetRelationship ops s t =
    (let a = den (rs_read ops s); b = den (rs_read ops t) in
     if a = b then SetEqual else if a \<subset> b then SubSet else if b \<subset> a then SuperSet else UnKnown)"
proof -
  have "rs_is_equal ops x y \<longleftrightarrow> den x = den y" "rs_is_strict_subset ops x y \<longleftrightarrow> den x \<subset> den y"
    "rs_is_subset ops x y \<longleftrightarrow> den x \<subseteq> den y" for x y
    using assms by (simp_all add: rel_lawful_def)
  then show ?thesis by (auto simp: strISLSetRelationship_def Let_def)
qed

section \<open>Projection forgets what a symbol stands for\<close>

text \<open>
  The symbol for \<open>f(tv1)\<close> stays when \<open>tv1\<close> is projected out, and is then a parameter. So
  \<open>{[i,j] : i = f(j)}\<close> and \<open>{[i,j] : i = f(j) and j = 5}\<close> with \<open>i\<close> kept are found equal, although
  the first allows every value of \<open>f\<close> for \<open>i\<close> and the second only \<open>f(5)\<close>. The projection is the one
  that ISL computes for these two strings.
\<close>

definition forget_set :: "exp list \<Rightarrow> iset" where
  "forget_set es = \<lparr>mArity = 2, set_conjs = [(Conjunction_new 2)\<lparr>mEqualities :=
     Exp [TupleVarTerm 1 0, UFCallTerm (-1) ''f'' [Exp [TupleVarTerm 1 1] Expression] (-1)] Equality # es\<rparr>]\<rparr>"

definition forget_project :: "nat \<Rightarrow> string \<Rightarrow> string" where
  "forget_project pos str = ''[f_tv1_] -> { [tv0] : tv0 = f_tv1_ }''"

definition forget_parse :: "string \<Rightarrow> iset res" where
  "forget_parse str =
     (if str = ''[f_tv1_] -> {[tv0] : tv0 = f_tv1_ }''
      then Inr \<lparr>mArity = 1, set_conjs = [(Conjunction_new 1)\<lparr>mEqualities :=
        [Exp [TupleVarTerm 1 0, VarTerm (-1) ''f_tv1_''] Equality]\<rparr>]\<rparr>
      else Inl (Assert ''parse error''))"

lemma relationship_forgets:
  assumes "rel_lawful ops den"
  shows "iegenSetRelationship ex_world Environment_new ops forget_project forget_parse
    (forget_set []) {0} (forget_set [Exp [TupleVarTerm 1 1, Term (-5)] Equality]) {0} = Inr SetEqual"
proof -
  let ?str = "''[ f_tv1_ ] -> { [tv0] : tv0 - f_tv1_ = 0 }''"
  have "relationship_side ex_world Environment_new forget_project forget_parse {0} (forget_set []) = Inr ?str"
    "relationship_side ex_world Environment_new forget_project forget_parse {0}
      (forget_set [Exp [TupleVarTerm 1 1, Term (-5)] Equality]) = Inr ?str" by code_simp+
  moreover have "rs_is_equal ops x x" for x using assms by (simp add: rel_lawful_def)
  ultimately show ?thesis by (simp add: iegenSetRelationship_def strISLSetRelationship_def)
qed

lemma relationship_forgets_differs:
  "\<exists>v. (\<exists>j. sparse_holds v (set_conjs (forget_set [])) [7, j])
     \<and> \<not> (\<exists>j. sparse_holds v (set_conjs (forget_set [Exp [TupleVarTerm 1 1, Term (-5)] Equality])) [7, j])"
proof -
  let ?v = "\<lparr>tvv = \<lambda>l. 0, symv = \<lambda>s. 0, ufv = \<lambda>f i xs. hd xs\<rparr>"
  have "sparse_holds ?v (set_conjs (forget_set [])) [7, 7]"
    "\<not> sparse_holds ?v (set_conjs (forget_set [Exp [TupleVarTerm 1 1, Term (-5)] Equality])) [7, j]" for j
    by (auto simp: sparse_holds_def forget_set_def holds_def sat_constraints_def zeros_def nonnegs_def
        Conjunction_new_def Conjunction_tdecl_def admits_def TupleDecl_new_def elemIsConst_def at_tuple_def nth_Cons')
  then show ?thesis by blast
qed

end
