(* ===== verification/IEG_Computation.thy ===== *)
theory IEG_Computation
  imports IEG_RemoveProps IEG_Environment
begin

text \<open>
  Computations and their statements (\<open>computation/Computation.cc\<close>): a statement has source code, an
  iteration space, an execution schedule and the relations by which it reads and writes data spaces;
  a computation has statements and the names of its data spaces. The two owning pointers of a
  statement that may be null are options; the pointers in its lists are never null. The parser is
  the arguments \<open>parse_set\<close> and \<open>parse_rel\<close>. A vector that grows copies its elements; these copies
  of copies are not modelled.
\<close>

section \<open>Statements\<close>

type_synonym data_access = "(string \<times> irel) list"

record stmt =
  stmtSourceCode :: string
  iterationSpace :: "iset option"
  executionSchedule :: "irel option"
  dataReads :: data_access
  dataWrites :: data_access

definition Stmt_new :: stmt where
  "Stmt_new = \<lparr>stmtSourceCode = [], iterationSpace = None, executionSchedule = None, dataReads = [], dataWrites = []\<rparr>"

definition setStmtSourceCode :: "string \<Rightarrow> stmt \<Rightarrow> stmt" where
  "setStmtSourceCode newStmtSourceCode this = this\<lparr>stmtSourceCode := newStmtSourceCode\<rparr>"

definition setIterationSpace :: "(string \<Rightarrow> iset res) \<Rightarrow> string \<Rightarrow> stmt \<Rightarrow> stmt res" where
  "setIterationSpace parse_set str this = bindr (parse_set str) (\<lambda>s. Inr (this\<lparr>iterationSpace := Some s\<rparr>))"

definition setExecutionSchedule :: "(string \<Rightarrow> irel res) \<Rightarrow> string \<Rightarrow> stmt \<Rightarrow> stmt res" where
  "setExecutionSchedule parse_rel str this = bindr (parse_rel str) (\<lambda>r. Inr (this\<lparr>executionSchedule := Some r\<rparr>))"

definition addRead :: "(string \<Rightarrow> irel res) \<Rightarrow> string \<Rightarrow> string \<Rightarrow> stmt \<Rightarrow> stmt res" where
  "addRead parse_rel dataSpace relationStr this =
     bindr (parse_rel relationStr) (\<lambda>r. Inr (this\<lparr>dataReads := dataReads this @ [(dataSpace, r)]\<rparr>))"

definition addWrite :: "(string \<Rightarrow> irel res) \<Rightarrow> string \<Rightarrow> string \<Rightarrow> stmt \<Rightarrow> stmt res" where
  "addWrite parse_rel dataSpace relationStr this =
     bindr (parse_rel relationStr) (\<lambda>r. Inr (this\<lparr>dataWrites := dataWrites this @ [(dataSpace, r)]\<rparr>))"

definition Stmt_of ::
  "(string \<Rightarrow> iset res) \<Rightarrow> (string \<Rightarrow> irel res) \<Rightarrow> string \<Rightarrow> string \<Rightarrow> string
   \<Rightarrow> (string \<times> string) list \<Rightarrow> (string \<times> string) list \<Rightarrow> stmt res" where
  "Stmt_of parse_set parse_rel source iterationSpaceStr executionScheduleStr dataReadsStrs dataWritesStrs =
     bindr (setIterationSpace parse_set iterationSpaceStr (setStmtSourceCode source Stmt_new)) (\<lambda>s.
     bindr (setExecutionSchedule parse_rel executionScheduleStr s) (\<lambda>s.
     bindr (foldm (\<lambda>(d, r). addRead parse_rel d r) dataReadsStrs s) (\<lambda>s.
     foldm (\<lambda>(d, r). addWrite parse_rel d r) dataWritesStrs s)))"

definition copy_access :: "world \<Rightarrow> string \<times> irel \<Rightarrow> (string \<times> irel) res" where
  "copy_access w info = bindr (Relation_copy w (snd info)) (\<lambda>r. Inr (fst info, r))"

text \<open>The assignment replaces the first three members and appends to the lists.\<close>

definition Stmt_assign :: "world \<Rightarrow> stmt \<Rightarrow> stmt \<Rightarrow> stmt res" where
  "Stmt_assign w other this =
     (case iterationSpace other of
        None \<Rightarrow> Inl NullDeref
      | Some sp \<Rightarrow>
          bindr (Set_copy w sp) (\<lambda>sp'.
          case executionSchedule other of
            None \<Rightarrow> Inl NullDeref
          | Some sch \<Rightarrow>
              bindr (Relation_copy w sch) (\<lambda>sch'.
              bindr (mapr (copy_access w) (dataReads other)) (\<lambda>rs.
              bindr (mapr (copy_access w) (dataWrites other)) (\<lambda>ws.
              Inr \<lparr>stmtSourceCode = stmtSourceCode other, iterationSpace = Some sp', executionSchedule = Some sch',
                   dataReads = dataReads this @ rs, dataWrites = dataWrites this @ ws\<rparr>)))))"

definition Stmt_copy :: "world \<Rightarrow> stmt \<Rightarrow> stmt res" where
  "Stmt_copy w other = Stmt_assign w other Stmt_new"

definition access_eq :: "world \<Rightarrow> string \<times> irel \<Rightarrow> string \<times> irel \<Rightarrow> bool res" where
  "access_eq w a b = (if fst a = fst b then Relation_eq w (snd a) (snd b) else Inr False)"

fun reads_eq :: "world \<Rightarrow> data_access \<Rightarrow> data_access \<Rightarrow> bool res" where
  "reads_eq w (a # xs) (b # ys) = bindr (access_eq w a b) (\<lambda>eq. if eq then reads_eq w xs ys else Inr False)"
| "reads_eq w _ _ = Inr True"

text \<open>The loop over the writes counts its index up twice.\<close>

fun writes_eq :: "world \<Rightarrow> data_access \<Rightarrow> data_access \<Rightarrow> bool res" where
  "writes_eq w (a # xs) (b # ys) = bindr (access_eq w a b) (\<lambda>eq. if eq then writes_eq w (tl xs) (tl ys) else Inr False)"
| "writes_eq w _ _ = Inr True"

definition deref :: "'a option \<Rightarrow> 'a res" where
  "deref p = (case p of None \<Rightarrow> Inl NullDeref | Some x \<Rightarrow> Inr x)"

definition space_and_schedule_eq :: "world \<Rightarrow> stmt \<Rightarrow> stmt \<Rightarrow> bool res" where
  "space_and_schedule_eq w this other =
     (if stmtSourceCode this \<noteq> stmtSourceCode other then Inr False
      else
        bindr (deref (iterationSpace this)) (\<lambda>a. bindr (deref (iterationSpace other)) (\<lambda>b.
        bindr (Set_eq w a b) (\<lambda>eq.
        if \<not> eq then Inr False
        else
          bindr (deref (executionSchedule this)) (\<lambda>c. bindr (deref (executionSchedule other)) (\<lambda>d.
          Relation_eq w c d))))))"

definition Stmt_eq :: "world \<Rightarrow> stmt \<Rightarrow> stmt \<Rightarrow> bool res" where
  "Stmt_eq w this other =
     bindr (space_and_schedule_eq w this other) (\<lambda>eq.
     if \<not> eq then Inr False
     else if length (dataReads this) \<noteq> length (dataReads other) \<or> length (dataWrites this) \<noteq> length (dataWrites other)
     then Inr False
     else bindr (reads_eq w (dataReads this) (dataReads other)) (\<lambda>eq.
       if \<not> eq then Inr False else writes_eq w (dataWrites this) (dataWrites other)))"

definition Stmt_isComplete :: "stmt \<Rightarrow> bool" where
  "Stmt_isComplete this \<longleftrightarrow> stmtSourceCode this \<noteq> [] \<and> iterationSpace this \<noteq> None \<and> executionSchedule this \<noteq> None"

definition list_at :: "'a list \<Rightarrow> nat \<Rightarrow> 'a res" where
  "list_at xs i = (if i < length xs then Inr (xs ! i) else Inl OutOfBounds)"

definition getNumReads :: "stmt \<Rightarrow> nat" where
  "getNumReads this = length (dataReads this)"

definition getReadDataSpace :: "stmt \<Rightarrow> nat \<Rightarrow> string res" where
  "getReadDataSpace this index = bindr (list_at (dataReads this) index) (\<lambda>info. Inr (fst info))"

definition getReadRelation :: "stmt \<Rightarrow> nat \<Rightarrow> irel res" where
  "getReadRelation this index = bindr (list_at (dataReads this) index) (\<lambda>info. Inr (snd info))"

definition getNumWrites :: "stmt \<Rightarrow> nat" where
  "getNumWrites this = length (dataWrites this)"

definition getWriteDataSpace :: "stmt \<Rightarrow> nat \<Rightarrow> string res" where
  "getWriteDataSpace this index = bindr (list_at (dataWrites this) index) (\<lambda>info. Inr (fst info))"

definition getWriteRelation :: "stmt \<Rightarrow> nat \<Rightarrow> irel res" where
  "getWriteRelation this index = bindr (list_at (dataWrites this) index) (\<lambda>info. Inr (snd info))"

section \<open>Computations\<close>

record computation =
  comp_env :: environment
  stmts :: "stmt list"
  dataSpaces :: "string set"

definition Computation_new :: computation where
  "Computation_new = \<lparr>comp_env = Environment_new, stmts = [], dataSpaces = {}\<rparr>"

text \<open>
  A vector either assigns to the elements it has and copies the others, or, when it has not enough
  room, copies all of them: \<open>reuse\<close> tells which. The environment is not assigned.
\<close>

fun vector_assign :: "world \<Rightarrow> stmt list \<Rightarrow> stmt list \<Rightarrow> stmt list res" where
  "vector_assign w (other # others) (this # rest) =
     bindr (Stmt_assign w other this) (\<lambda>s. bindr (vector_assign w others rest) (\<lambda>ss. Inr (s # ss)))"
| "vector_assign w others [] = mapr (Stmt_copy w) others"
| "vector_assign w [] rest = Inr []"

definition Computation_assign :: "world \<Rightarrow> bool \<Rightarrow> computation \<Rightarrow> computation \<Rightarrow> computation res" where
  "Computation_assign w reuse other this =
     bindr (vector_assign w (stmts other) (if reuse then stmts this else [])) (\<lambda>ss.
     Inr (this\<lparr>dataSpaces := dataSpaces other, stmts := ss\<rparr>))"

definition Computation_copy :: "world \<Rightarrow> computation \<Rightarrow> computation res" where
  "Computation_copy w other = Computation_assign w False other Computation_new"

fun stmts_eq :: "world \<Rightarrow> stmt list \<Rightarrow> stmt list \<Rightarrow> bool res" where
  "stmts_eq w (a # xs) (b # ys) = bindr (Stmt_eq w a b) (\<lambda>eq. if eq then stmts_eq w xs ys else Inr False)"
| "stmts_eq w xs ys = Inr (xs = [] \<and> ys = [])"

definition Computation_eq :: "world \<Rightarrow> computation \<Rightarrow> computation \<Rightarrow> bool res" where
  "Computation_eq w this other =
     (if dataSpaces this \<noteq> dataSpaces other \<or> length (stmts this) \<noteq> length (stmts other) then Inr False
      else stmts_eq w (stmts this) (stmts other))"

definition getStmt :: "nat \<Rightarrow> computation \<Rightarrow> stmt res" where
  "getStmt index this = list_at (stmts this) index"

definition addStmt :: "world \<Rightarrow> stmt \<Rightarrow> computation \<Rightarrow> (stmt \<times> computation) res" where
  "addStmt w stmt this =
     bindr (Stmt_copy w stmt) (\<lambda>temporary.
     bindr (Stmt_copy w temporary) (\<lambda>s.
     let this = this\<lparr>stmts := stmts this @ [s]\<rparr> in
     bindr (getStmt (length (stmts this) - 1) this) (\<lambda>r. Inr (r, this))))"

definition addDataSpace :: "string \<Rightarrow> computation \<Rightarrow> computation" where
  "addDataSpace dataSpaceName this = this\<lparr>dataSpaces := insert dataSpaceName (dataSpaces this)\<rparr>"

definition getDataSpaces :: "computation \<Rightarrow> string set" where
  "getDataSpaces this = dataSpaces this"

definition getNumStmts :: "computation \<Rightarrow> nat" where
  "getNumStmts this = length (stmts this)"

definition Computation_clear :: "computation \<Rightarrow> computation" where
  "Computation_clear this = this\<lparr>dataSpaces := {}, stmts := []\<rparr>"

text \<open>The names that a statement accesses, added to those of the statements before.\<close>

definition collect_accesses :: "stmt \<Rightarrow> string set \<Rightarrow> string set res" where
  "collect_accesses s acc =
     bindr (foldm (\<lambda>i acc. bindr (getReadDataSpace s i) (\<lambda>d. Inr (insert d acc))) [0..<getNumReads s] acc) (\<lambda>acc.
     foldm (\<lambda>i acc. bindr (getWriteDataSpace s i) (\<lambda>d. Inr (insert d acc))) [0..<getNumWrites s] acc)"

fun complete_loop :: "stmt list \<Rightarrow> string set \<Rightarrow> string set option res" where
  "complete_loop [] acc = Inr (Some acc)"
| "complete_loop (s # ss) acc =
     (if \<not> Stmt_isComplete s then Inr None else bindr (collect_accesses s acc) (complete_loop ss))"

definition Computation_isComplete :: "computation \<Rightarrow> bool res" where
  "Computation_isComplete this =
     bindr (complete_loop (stmts this) {}) (\<lambda>r.
     Inr (case r of None \<Rightarrow> False | Some accessed \<Rightarrow> dataSpaces this = accessed))"

section \<open>Printing\<close>

definition nl :: string where
  "nl = [CHR 0x0A]"

text \<open>Both lists are printed from the reads; only the number of lines is that of the list.\<close>

definition print_accesses :: "world \<Rightarrow> stmt \<Rightarrow> nat \<Rightarrow> string res" where
  "print_accesses w s n =
     (if n = 0 then Inr '' none''
      else
        bindr (mapr (\<lambda>i.
          bindr (getReadDataSpace s i) (\<lambda>d.
          bindr (getReadRelation s i) (\<lambda>r.
          bindr (Relation_prettyPrint w r) (\<lambda>str. Inr (''    '' @ d @ '': '' @ str @ nl))))) [0..<n]) (\<lambda>ls.
        Inr (''{'' @ nl @ concat ls @ ''}'')))"

definition stmt_info :: "world \<Rightarrow> nat \<times> stmt \<Rightarrow> (string \<times> string \<times> string \<times> string \<times> string) res" where
  "stmt_info w ns =
     (let stmtName = ''S'' @ int_str (int (fst ns)); s = snd ns in
      bindr (deref (iterationSpace s)) (\<lambda>sp.
      bindr (sparse_prettyPrint w (mArity sp) 0 (set_conjs sp)) (\<lambda>spStr.
      bindr (deref (executionSchedule s)) (\<lambda>sch.
      bindr (Relation_prettyPrint w sch) (\<lambda>schStr.
      bindr (print_accesses w s (getNumReads s)) (\<lambda>rs.
      bindr (print_accesses w s (getNumWrites s)) (\<lambda>ws.
      Inr (stmtName @ '': '' @ stmtSourceCode s @ nl, stmtName @ '': '' @ spStr @ nl, stmtName @ '': '' @ schStr @ nl,
           stmtName @ '':'' @ rs @ nl, stmtName @ '':'' @ ws @ nl))))))))"

fun comma_names :: "string list \<Rightarrow> string" where
  "comma_names [] = []"
| "comma_names [d] = d"
| "comma_names (d # ds) = d @ '', '' @ comma_names ds"

text \<open>What is printed; \<open>order\<close> lists the data spaces in the order of the hash table.\<close>

definition printInfo :: "world \<Rightarrow> (string set \<Rightarrow> string list) \<Rightarrow> computation \<Rightarrow> string res" where
  "printInfo w order this =
     bindr (mapr (stmt_info w) (enumerate 0 (stmts this))) (\<lambda>infos.
     Inr (''Statements:'' @ nl @ concat (map (\<lambda>(a, b, c, d, e). a) infos)
       @ nl @ ''Iteration spaces:'' @ nl @ concat (map (\<lambda>(a, b, c, d, e). b) infos)
       @ nl @ ''Execution schedules:'' @ nl @ concat (map (\<lambda>(a, b, c, d, e). c) infos)
       @ nl @ ''Data spaces: '' @ ''{'' @ comma_names (order (dataSpaces this)) @ ''}'' @ nl
       @ nl @ ''Array reads:'' @ nl @ concat (map (\<lambda>(a, b, c, d, e). d) infos)
       @ nl @ ''Array writes:'' @ nl @ concat (map (\<lambda>(a, b, c, d, e). e) infos) @ nl))"

section \<open>What copies and comparisons keep\<close>

definition good_sparse :: "world \<Rightarrow> sparse \<Rightarrow> bool" where
  "good_sparse w cs \<longleftrightarrow> list_all okc cs \<and> proper cs \<and> list_all (nests_ok_conj (inverse_of w)) cs"

definition same_tuples :: "valuation \<Rightarrow> sparse \<Rightarrow> sparse \<Rightarrow> bool" where
  "same_tuples v cs ds \<longleftrightarrow> (\<forall>xs. sparse_holds v cs xs \<longleftrightarrow> sparse_holds v ds xs)"

definition set_same :: "valuation \<Rightarrow> iset \<Rightarrow> iset \<Rightarrow> bool" where
  "set_same v a b \<longleftrightarrow> mArity a = mArity b \<and> same_tuples v (set_conjs a) (set_conjs b)"

definition rel_same :: "valuation \<Rightarrow> irel \<Rightarrow> irel \<Rightarrow> bool" where
  "rel_same v a b \<longleftrightarrow> inArity a = inArity b \<and> outArity a = outArity b \<and> same_tuples v (rel_conjs a) (rel_conjs b)"

definition access_same :: "valuation \<Rightarrow> string \<times> irel \<Rightarrow> string \<times> irel \<Rightarrow> bool" where
  "access_same v a b \<longleftrightarrow> fst a = fst b \<and> rel_same v (snd a) (snd b)"

definition good_access :: "world \<Rightarrow> data_access \<Rightarrow> bool" where
  "good_access w = list_all (\<lambda>a. good_sparse w (rel_conjs (snd a)))"

definition good_stmt :: "world \<Rightarrow> stmt \<Rightarrow> bool" where
  "good_stmt w s \<longleftrightarrow> (case iterationSpace s of None \<Rightarrow> True | Some a \<Rightarrow> good_sparse w (set_conjs a))
     \<and> (case executionSchedule s of None \<Rightarrow> True | Some r \<Rightarrow> good_sparse w (rel_conjs r))
     \<and> good_access w (dataReads s) \<and> good_access w (dataWrites s)"

definition head_same :: "valuation \<Rightarrow> stmt \<Rightarrow> stmt \<Rightarrow> bool" where
  "head_same v s t \<longleftrightarrow> stmtSourceCode s = stmtSourceCode t \<and> rel_option (set_same v) (iterationSpace s) (iterationSpace t)
     \<and> rel_option (rel_same v) (executionSchedule s) (executionSchedule t)
     \<and> list_all2 (access_same v) (dataReads s) (dataReads t)"

definition stmt_same :: "valuation \<Rightarrow> stmt \<Rightarrow> stmt \<Rightarrow> bool" where
  "stmt_same v s t \<longleftrightarrow> head_same v s t \<and> list_all2 (access_same v) (dataWrites s) (dataWrites t)"

lemma good_copy:
  assumes "sparse_copy w cs = Inr cs'" and "good_sparse w cs" and "inverts (inverse_of w) v"
  shows "list_all okc cs' \<and> same_tuples v cs cs'"
  using sparse_copy_holds [OF assms(1) _ _ _ assms(3)] assms(2) by (simp add: good_sparse_def same_tuples_def)

lemma Set_copy_same:
  "Set_copy w a = Inr b \<Longrightarrow> good_sparse w (set_conjs a) \<Longrightarrow> inverts (inverse_of w) v \<Longrightarrow> set_same v a b"
  using good_copy by (auto simp: Set_copy_def bindr_eq_Inr set_same_def)

lemma Relation_copy_same:
  assumes "Relation_copy w a = Inr b" and good: "good_sparse w (rel_conjs a)" and v: "inverts (inverse_of w) v"
  shows "rel_same v a b"
proof -
  obtain r where r: "foldm (rel_addConjunction (address_order w)) (rel_conjs a) (Relation_new (inArity a) (outArity a)) = Inr r"
    and b: "rel_cleanUp w r = Inr b" using assms(1) by (auto simp: Relation_copy_def bindr_eq_Inr)
  have "foldm (\<lambda>x r. bindr (Inr x) (\<lambda>c. rel_addConjunction (address_order w) c r)) (rel_conjs a)
      (Relation_new (inArity a) (outArity a)) = Inr r" using r by simp
  from rel_add_loop [OF this] obtain cs where cs: "mapr Inr (rel_conjs a) = Inr cs" "rel_conjs r = fold (sparse_addConjunction (address_order w)) cs []"
    "inArity r = inArity a" "outArity r = outArity a" by (auto simp: Relation_new_def)
  have "mapr Inr xs = Inr xs" for xs :: sparse by (induction xs) simp_all
  then have "cs = rel_conjs a" using cs(1) by simp
  then have "sparse_copy w (rel_conjs a) = Inr (rel_conjs b)" "inArity b = inArity a" "outArity b = outArity a"
    using b cs by (auto simp: rel_cleanUp_def sparse_copy_def bindr_eq_Inr)
  with good_copy [OF this(1) good v] show ?thesis by (simp add: rel_same_def)
qed

lemma copy_accesses_same:
  "mapr (copy_access w) as = Inr bs \<Longrightarrow> good_access w as \<Longrightarrow> inverts (inverse_of w) v \<Longrightarrow> list_all2 (access_same v) as bs"
  unfolding mapr_eq_Inr good_access_def
  by (induction rule: list_all2_induct)
    (auto simp: copy_access_def bindr_eq_Inr access_same_def Relation_copy_same)

lemma Stmt_copy_same:
  assumes "Stmt_copy w s = Inr t" and "good_stmt w s" and "inverts (inverse_of w) v"
  shows "stmt_same v s t"
  using assms copy_accesses_same [OF _ _ assms(3)] Set_copy_same [OF _ _ assms(3)] Relation_copy_same [OF _ _ assms(3)]
  by (auto simp: Stmt_copy_def Stmt_assign_def Stmt_new_def bindr_eq_Inr good_stmt_def stmt_same_def head_same_def
      split: option.splits)

section \<open>Comparison\<close>

lemma sparse_pair_same:
  assumes "sparse_copy w a = Inr a'" and "sparse_copy w b = Inr b'"
    and "\<not> sparse_less (address_order w) a' b'" and "\<not> sparse_less (address_order w) b' a'"
    and "good_sparse w a" and "good_sparse w b" and v: "inverts (inverse_of w) v"
  shows "same_tuples v a b"
proof -
  note a = good_copy [OF assms(1,5) v] and b = good_copy [OF assms(2,6) v]
  have "sparse_holds v a' xs \<longleftrightarrow> sparse_holds v b' xs" for xs
    by (rule sparse_equal_holds) (use assms(3,4) a b in blast)+
  with a b show ?thesis by (simp add: same_tuples_def)
qed

lemma Set_eq_same:
  assumes "Set_eq w a b = Inr True" and "good_sparse w (set_conjs a)" and "good_sparse w (set_conjs b)"
    and "inverts (inverse_of w) v"
  shows "set_same v a b"
  using assms sparse_pair_same [OF _ _ _ _ assms(2,3,4)]
  by (auto simp: Set_eq_def Set_less_def bindr_eq_Inr set_same_def split: if_splits)

lemma Relation_eq_same:
  assumes "Relation_eq w a b = Inr True" and "good_sparse w (rel_conjs a)" and "good_sparse w (rel_conjs b)"
    and "inverts (inverse_of w) v"
  shows "rel_same v a b"
  using assms sparse_pair_same [OF _ _ _ _ assms(2,3,4)]
  by (auto simp: Relation_eq_def Relation_less_def bindr_eq_Inr rel_same_def split: if_splits)

lemma access_eq_same:
  "access_eq w a b = Inr True \<Longrightarrow> good_sparse w (rel_conjs (snd a)) \<Longrightarrow> good_sparse w (rel_conjs (snd b)) \<Longrightarrow>
   inverts (inverse_of w) v \<Longrightarrow> access_same v a b"
  by (auto simp: access_eq_def access_same_def Relation_eq_same split: if_splits)

lemma reads_eq_same:
  "reads_eq w as bs = Inr True \<Longrightarrow> length as = length bs \<Longrightarrow> good_access w as \<Longrightarrow> good_access w bs \<Longrightarrow>
   inverts (inverse_of w) v \<Longrightarrow> list_all2 (access_same v) as bs"
proof (induction w as bs rule: reads_eq.induct)
  case (1 w a as b bs)
  have "access_eq w a b = Inr True" "reads_eq w as bs = Inr True"
    using 1(2) by (auto simp: bindr_eq_Inr split: if_splits)
  then show ?case using 1 access_eq_same [of w a b v] by (auto simp: good_access_def)
qed auto

fun evens :: "'a list \<Rightarrow> 'a list" where
  "evens [] = []"
| "evens (x # xs) = x # evens (tl xs)"

lemma good_access_tl: "good_access w as \<Longrightarrow> good_access w (tl as)"
  by (cases as) (simp_all add: good_access_def)

lemma writes_eq_same:
  "writes_eq w as bs = Inr True \<Longrightarrow> length as = length bs \<Longrightarrow> good_access w as \<Longrightarrow> good_access w bs \<Longrightarrow>
   inverts (inverse_of w) v \<Longrightarrow> list_all2 (access_same v) (evens as) (evens bs)"
proof (induction w as bs rule: writes_eq.induct)
  case (1 w a as b bs)
  have "access_eq w a b = Inr True" "writes_eq w (tl as) (tl bs) = Inr True"
    using 1(2) by (auto simp: bindr_eq_Inr split: if_splits)
  then show ?case using 1 good_access_tl [of w as] good_access_tl [of w bs] access_eq_same [of w a b v]
    by (auto simp: good_access_def)
qed auto

lemma Stmt_eq_same:
  assumes "Stmt_eq w s t = Inr True" and "good_stmt w s" and "good_stmt w t" and v: "inverts (inverse_of w) v"
  shows "head_same v s t \<and> length (dataWrites s) = length (dataWrites t)
    \<and> list_all2 (access_same v) (evens (dataWrites s)) (evens (dataWrites t))"
proof -
  obtain a b c d where p: "iterationSpace s = Some a" "iterationSpace t = Some b" "executionSchedule s = Some c" "executionSchedule t = Some d"
    and eq: "stmtSourceCode s = stmtSourceCode t" "Set_eq w a b = Inr True" "Relation_eq w c d = Inr True"
    and len: "length (dataReads s) = length (dataReads t)" "length (dataWrites s) = length (dataWrites t)"
    and acc: "reads_eq w (dataReads s) (dataReads t) = Inr True" "writes_eq w (dataWrites s) (dataWrites t) = Inr True"
    using assms(1) by (auto simp: Stmt_eq_def space_and_schedule_eq_def deref_def bindr_eq_Inr split: if_splits option.splits)
  have g: "good_sparse w (set_conjs a)" "good_sparse w (set_conjs b)" "good_sparse w (rel_conjs c)" "good_sparse w (rel_conjs d)"
    "good_access w (dataReads s)" "good_access w (dataReads t)" "good_access w (dataWrites s)" "good_access w (dataWrites t)"
    using assms(2,3) p by (auto simp: good_stmt_def)
  show ?thesis
    using p eq(1) Set_eq_same [OF eq(2) g(1,2) v] Relation_eq_same [OF eq(3) g(3,4) v] len(2)
      reads_eq_same [OF acc(1) len(1) g(5,6) v] writes_eq_same [OF acc(2) len(2) g(7,8) v]
    by (simp add: head_same_def)
qed

section \<open>Completeness\<close>

definition accessed :: "stmt \<Rightarrow> string set" where
  "accessed s = fst ` set (dataReads s) \<union> fst ` set (dataWrites s)"

lemma collect_loop:
  assumes "\<And>i. i < n \<Longrightarrow> f i = Inr (g i)"
  shows "foldm (\<lambda>i acc. bindr (f i) (\<lambda>d. Inr (insert d acc))) [0..<n] acc = Inr (g ` {0..<n} \<union> acc)"
  using assms by (induction n) (auto simp: foldm_append lessThan_Suc atLeast0_lessThan_Suc)

lemma nth_names: "(\<lambda>i. fst (xs ! i)) ` {0..<length xs} = fst ` set xs"
  by (metis atLeast_upt image_image list.set_map map_nth set_upt)

lemma collect_accesses_all: "collect_accesses s acc = Inr (accessed s \<union> acc)"
  unfolding collect_accesses_def
  by (subst collect_loop [where g = "\<lambda>i. fst (dataReads s ! i)"], simp add: getReadDataSpace_def getNumReads_def list_at_def)
    (subst bindr.simps, subst collect_loop [where g = "\<lambda>i. fst (dataWrites s ! i)"],
      auto simp: getWriteDataSpace_def getNumWrites_def getNumReads_def list_at_def nth_names accessed_def)

lemma complete_loop_all:
  "complete_loop ss acc = Inr (if list_all Stmt_isComplete ss then Some (\<Union> (accessed ` set ss) \<union> acc) else None)"
  by (induction ss arbitrary: acc) (auto simp: collect_accesses_all)

text \<open>A computation is complete exactly if its statements are and its data spaces are those they access.\<close>

lemma Computation_isComplete_iff:
  "Computation_isComplete c = Inr (list_all Stmt_isComplete (stmts c) \<and> dataSpaces c = \<Union> (accessed ` set (stmts c)))"
  by (simp add: Computation_isComplete_def complete_loop_all)

section \<open>What goes wrong\<close>

text \<open>Two statements that differ in every second write are equal.\<close>

lemma Stmt_eq_skips_write:
  "let r = Relation_new 0 0; s = \<lambda>d. \<lparr>stmtSourceCode = ''x'', iterationSpace = Some \<lparr>mArity = 0, set_conjs = []\<rparr>,
       executionSchedule = Some r, dataReads = [], dataWrites = [(''a'', r), (d, r)]\<rparr>
   in Stmt_eq ex_world (s ''b'') (s ''c'') = Inr True"
  by code_simp

text \<open>Assigning to a statement keeps its reads and writes.\<close>

lemma Stmt_assign_appends:
  "Stmt_assign w other this = Inr s \<Longrightarrow>
   length (dataReads s) = length (dataReads this) + length (dataReads other)
   \<and> length (dataWrites s) = length (dataWrites this) + length (dataWrites other)"
  by (auto simp: Stmt_assign_def bindr_eq_Inr dest!: mapr_Inr_nth split: option.splits)

text \<open>A statement with more writes than reads cannot be printed.\<close>

lemma printInfo_writes:
  assumes "getNumReads s < getNumWrites s"
  shows "\<nexists>str. print_accesses w s (getNumWrites s) = Inr str"
proof
  assume "\<exists>str. print_accesses w s (getNumWrites s) = Inr str"
  then obtain ls where "mapr (\<lambda>i. bindr (getReadDataSpace s i) (\<lambda>d. bindr (getReadRelation s i) (\<lambda>r.
      bindr (Relation_prettyPrint w r) (\<lambda>str. Inr (''    '' @ d @ '': '' @ str @ nl))))) [0..<getNumWrites s] = Inr ls"
    using assms by (auto simp: print_accesses_def bindr_eq_Inr)
  from mapr_Inr_nth [OF this] assms have "\<exists>x. getReadDataSpace s (getNumReads s) = Inr x"
    by (fastforce simp: bindr_eq_Inr)
  then show False by (simp add: getReadDataSpace_def getNumReads_def list_at_def)
qed

text \<open>The copy of a computation has an empty environment; a statement that is not complete cannot be copied.\<close>

lemma Computation_copy_env: "Computation_copy w c = Inr c' \<Longrightarrow> comp_env c' = Environment_new"
  by (auto simp: Computation_copy_def Computation_assign_def bindr_eq_Inr Computation_new_def)

lemma Stmt_copy_null: "Stmt_copy w Stmt_new = Inl NullDeref"
  by (simp add: Stmt_copy_def Stmt_assign_def Stmt_new_def)

section \<open>Properties\<close>

lemma vector_assign_nil: "vector_assign w ss [] = mapr (Stmt_copy w) ss"
  by (cases ss) simp_all

definition same_but_writes :: "valuation \<Rightarrow> stmt \<Rightarrow> stmt \<Rightarrow> bool" where
  "same_but_writes v s t \<longleftrightarrow> head_same v s t \<and> length (dataWrites s) = length (dataWrites t)
     \<and> list_all2 (access_same v) (evens (dataWrites s)) (evens (dataWrites t))"

lemma stmts_eq_same:
  assumes "inverts (inverse_of w) v"
  shows "stmts_eq w ss ts = Inr True \<Longrightarrow> list_all (good_stmt w) (ss @ ts) \<Longrightarrow> list_all2 (same_but_writes v) ss ts"
proof (induction ss arbitrary: ts)
  case Nil
  then show ?case by (cases ts) simp_all
next
  case (Cons s ss)
  then obtain t us where ts: "ts = t # us" by (cases ts) auto
  have "Stmt_eq w s t = Inr True" "stmts_eq w ss us = Inr True"
    using Cons.prems(1) by (auto simp: ts bindr_eq_Inr split: if_splits)
  then show ?case using Cons.IH [of us] Cons.prems(2) Stmt_eq_same [of w s t v] assms by (simp add: ts same_but_writes_def)
qed

text \<open>
  C38. A copy of a computation has the same data spaces, and its statements are copies: same source
  code and names, and sets and relations with the same tuples.
\<close>

theorem Computation_copy_same:
  assumes "Computation_copy w c = Inr c'" and "list_all (good_stmt w) (stmts c)" and "inverts (inverse_of w) v"
  shows "dataSpaces c' = dataSpaces c \<and> list_all2 (stmt_same v) (stmts c) (stmts c')"
proof -
  have m: "mapr (Stmt_copy w) (stmts c) = Inr (stmts c')" and "dataSpaces c' = dataSpaces c"
    using assms(1) by (auto simp: Computation_copy_def Computation_assign_def bindr_eq_Inr vector_assign_nil)
  moreover have "list_all2 (stmt_same v) (stmts c) (stmts c')"
    using m assms(2) Stmt_copy_same [OF _ _ assms(3)]
    by (auto simp: mapr_eq_Inr list_all2_conv_all_nth list_all_length)
  ultimately show ?thesis by simp
qed

definition ex_stmt :: stmt where
  "ex_stmt =
     (let five = \<lambda>c. c\<lparr>mEqualities := [Exp [TupleVarTerm 1 0, Term (-5)] Equality]\<rparr>;
          r = \<lparr>inArity = 1, outArity = 1, rel_conjs = [five (Conjunction_rel 2 1)]\<rparr> in
      \<lparr>stmtSourceCode = ''a(i) = b(i);'', iterationSpace = Some \<lparr>mArity = 1, set_conjs = [five (Conjunction_new 1)]\<rparr>,
       executionSchedule = Some r, dataReads = [(''b'', r)], dataWrites = [(''a'', r)]\<rparr>)"

definition ex_computation :: computation where
  "ex_computation = \<lparr>comp_env = Environment_new, stmts = [ex_stmt], dataSpaces = {''a'', ''b''}\<rparr>"

lemma ex_good: "list_all (good_stmt ex_world) (stmts ex_computation)"
  by code_simp

lemma ex_inverts: "inverts (inverse_of ex_world) v"
  by (simp add: inverts_def ex_world_def)

theorem Computation_copy_same_witness:
  "\<exists>c. Computation_copy ex_world ex_computation = Inr c
     \<and> (\<forall>v. list_all2 (stmt_same v) (stmts ex_computation) (stmts c))"
proof -
  have r: "Computation_copy ex_world ex_computation = Inr (projr (Computation_copy ex_world ex_computation))"
    by (rule Inr_projr) code_simp
  from Computation_copy_same [OF r ex_good ex_inverts] r show ?thesis by blast
qed

text \<open>
  C39. Computations that compare equal have the same data spaces, and their statements have the same
  source code, spaces, schedules and reads, and every other write the same.
\<close>

theorem Computation_eq_sound:
  assumes "Computation_eq w c d = Inr True" and "list_all (good_stmt w) (stmts c @ stmts d)" and "inverts (inverse_of w) v"
  shows "dataSpaces c = dataSpaces d \<and> list_all2 (same_but_writes v) (stmts c) (stmts d)"
  using assms stmts_eq_same [OF assms(3)] by (auto simp: Computation_eq_def split: if_splits)

theorem Computation_eq_sound_witness:
  "Computation_eq ex_world ex_computation ex_computation = Inr True
     \<and> (\<forall>v. list_all2 (same_but_writes v) (stmts ex_computation) (stmts ex_computation))"
proof -
  have r: "Computation_eq ex_world ex_computation ex_computation = Inr True" by code_simp
  have "list_all (good_stmt ex_world) (stmts ex_computation @ stmts ex_computation)" using ex_good by simp
  from Computation_eq_sound [OF r this ex_inverts] r show ?thesis by blast
qed

end
