(* ===== verification/IEG_RuleForms.thy ===== *)
theory IEG_RuleForms
  imports IEG_Strings IEG_Environment
begin

text \<open>
  Rules made from declarations and rules printed for Z3 (\<open>environment.cc\<close>): the rule that a call has a
  value in the range of its function when its argument is in the domain, and the SMT form of a
  universally quantified rule, which collects the functions and symbols of the rules that are relevant.
\<close>

section \<open>The rule of domain and range\<close>

text \<open>\<open>std::string::find\<close> and \<open>replace\<close>; replacing at \<open>npos\<close> throws \<open>out_of_range\<close>.\<close>

definition str_find :: "string \<Rightarrow> nat \<Rightarrow> string \<Rightarrow> nat option" where
  "str_find p pos s = find (\<lambda>i. prefix p (drop i s)) [pos..<Suc (length s)]"

definition str_replace :: "nat option \<Rightarrow> nat \<Rightarrow> string \<Rightarrow> string \<Rightarrow> string res" where
  "str_replace pos n t s =
     (case pos of
        None \<Rightarrow> Inl OutOfBounds
      | Some i \<Rightarrow> if i > length s then Inl OutOfBounds else Inr (take i s @ t @ drop (i + n) s))"

text \<open>The first two places of the range's variable are replaced by the call; the second search starts behind the first
  character of the call that has just been put in.\<close>

definition replace_range_var :: "string \<Rightarrow> string \<Rightarrow> string \<Rightarrow> string res" where
  "replace_range_var rtv ufc s =
     (let found = str_find rtv 0 s in
      bindr (str_replace found (length rtv) ufc s) (\<lambda>s1.
      if the found < length s1 then str_replace (str_find rtv (Suc (the found)) s1) (length rtv) ufc s1 else Inr s1))"

fun queue_front :: "string list \<Rightarrow> string res" where
  "queue_front [] = Inl OutOfBounds"
| "queue_front (s # ss) = Inr s"

definition getUQRForFuncDomainRange ::
  "world \<Rightarrow> (string \<Rightarrow> iset res) \<Rightarrow> environment \<Rightarrow> string \<Rightarrow> uq_rule res" where
  "getUQRForFuncDomainRange w parse env func =
     bindr (queryDomainCurrEnv w env func) (\<lambda>domain.
     bindr (queryRangeCurrEnv w env func) (\<lambda>range.
     bindr (sparse_getTupleDecl (set_conjs domain)) (\<lambda>dtd.
     bindr (sparse_getTupleDecl (set_conjs range)) (\<lambda>rtd.
     bindr (bindr (Set_getString False domain) getPartsFromStr) (\<lambda>domain_parts.
     bindr (bindr (Set_getString False range) getPartsFromStr) (\<lambda>range_parts.
     bindr (tupVarsExtract (tupDecl domain_parts) (int (mArity domain)) 0) (\<lambda>dtd_its.
     bindr (tupVarsExtract (tupDecl range_parts) (int (mArity range)) 0) (\<lambda>rtd_its.
     bindr (queue_front dtd_its) (\<lambda>x.
     bindr (queue_front rtd_its) (\<lambda>rtv.
     bindr (replace_range_var rtv (func @ ''('' @ x @ '')'') (constraints range_parts)) (\<lambda>range_const_str.
     UniQuantRule_new parse ''DomainRange'' (tupDecl domain_parts) (constraints domain_parts) range_const_str)))))))))))"

section \<open>Rules for Z3\<close>

text \<open>The first form that is a conjunction, without the \<open>assert\<close> around it.\<close>

definition z3_side_form :: "string list \<Rightarrow> string" where
  "z3_side_form forms =
     (case find (\<lambda>s. str_find ''(assert (and '' 0 s \<noteq> None) forms of
        None \<Rightarrow> ''()''
      | Some s \<Rightarrow> butlast (drop 8 s))"

definition UniQuantRule_getZ3Form ::
  "uq_rule \<Rightarrow> string list \<Rightarrow> string list \<Rightarrow> int \<Rightarrow> (string \<times> string list \<times> string list) res" where
  "UniQuantRule_getZ3Form rule relevantUFSs glVarSyms k =
     (if relevantUFSs = [] then Inr ([], relevantUFSs, glVarSyms)
      else
        bindr (sparse_getTupleDecl (set_conjs (mLeftSide rule))) (\<lambda>td.
        bindr (getZ3form [] [] False (set_conjs (mLeftSide rule))) (\<lambda>(l, ufs, vars).
        bindr (getZ3form ufs vars False (set_conjs (mRightSide rule))) (\<lambda>(r, UFSyms, apVarSyms).
        let z3Str = ''(assert (! (forall ( '' @ concat (map (\<lambda>i. ''('' @ elemToString td False i @ '' Int) '') [0..<tdecl_size td])
                      @ '') (=> '' @ z3_side_form l @ z3_side_form r @ '')  :named a'' @ int_str k @ '') )'' in
        if list_ex (\<lambda>s. s \<in> set relevantUFSs \<or> s = ''ALL_UFSs'') UFSyms
        then Inr (z3Str, fold set_add UFSyms relevantUFSs, fold set_add apVarSyms glVarSyms)
        else Inr ([], relevantUFSs, glVarSyms)))))"

section \<open>Properties\<close>

text \<open>A rule that is left out changes neither set; one that is printed adds what it mentions, so that the rules that share its functions
  become relevant.\<close>

lemma set_set_add [simp]: "set (set_add s ss) = insert s (set ss)"
proof -
  have "set (insert_unique (<) s ss) = insert s (set ss)" by (induction ss) auto
  then show ?thesis by (simp add: set_add_def)
qed

lemma set_fold_add [simp]: "set (fold set_add xs ys) = set xs \<union> set ys"
  by (induction xs arbitrary: ys) auto

lemma getZ3Form_irrelevant:
  "UniQuantRule_getZ3Form rule [] gl k = Inr ([], [], gl)"
  by (simp add: UniQuantRule_getZ3Form_def)

lemma getZ3Form_cases:
  assumes "UniQuantRule_getZ3Form rule rel gl k = Inr (str, rel', gl')"
  shows "(str = [] \<and> rel' = rel \<and> gl' = gl)
    \<or> (\<exists>ufs vars. str \<noteq> [] \<and> rel' = fold set_add ufs rel \<and> gl' = fold set_add vars gl
         \<and> list_ex (\<lambda>s. s \<in> set rel \<or> s = ''ALL_UFSs'') ufs)"
proof (cases "rel = []")
  case True
  then show ?thesis using assms by (simp add: UniQuantRule_getZ3Form_def)
next
  case False
  obtain td l ufs vars r ufs' vars' where
    "(if list_ex (\<lambda>s. s \<in> set rel \<or> s = ''ALL_UFSs'') ufs'
      then Inr (''(assert (! (forall ( '' @ concat (map (\<lambda>i. ''('' @ elemToString td False i @ '' Int) '') [0..<tdecl_size td])
                  @ '') (=> '' @ z3_side_form l @ z3_side_form r @ '')  :named a'' @ int_str k @ '') )'',
                fold set_add ufs' rel, fold set_add vars' gl)
      else Inr ([], rel, gl)) = (Inr (str, rel', gl') :: (string \<times> string list \<times> string list) res)"
    using assms False unfolding UniQuantRule_getZ3Form_def Let_def bindr_eq_Inr
    by (simp only: if_False case_prod_beta bindr_eq_Inr) blast
  then show ?thesis
    by (cases "list_ex (\<lambda>s. s \<in> set rel \<or> s = ''ALL_UFSs'') ufs'") auto
qed

lemma getZ3Form_relevant:
  assumes "UniQuantRule_getZ3Form rule rel gl k = Inr (str, rel', gl')" and "str \<noteq> []"
  shows "set rel \<subseteq> set rel' \<and> set gl \<subseteq> set gl' \<and> (\<exists>s\<in>set rel'. s \<in> set rel \<or> s = ''ALL_UFSs'')"
  using getZ3Form_cases [OF assms(1)] assms(2) by (auto simp: list_ex_iff)

text \<open>Replacing at both bounds; with one bound the second search fails and the replacement throws; a name that contains the
  variable is torn apart.\<close>

lemma replace_range_var_examples:
  "replace_range_var ''j'' ''f(i)'' '' 0 <= j and j < n '' = Inr '' 0 <= f(i) and f(i) < n ''"
  "replace_range_var ''j'' ''f(i)'' '' 0 <= j '' = Inl OutOfBounds"
  "replace_range_var ''i'' ''sigma(k)'' '' 0 <= i and i < n '' = Inr '' 0 <= ssigma(k)gma(k) and i < n ''"
  by code_simp+

end
