(* ===== verification/IEG_Scanner.thy ===== *)
theory IEG_Scanner
  imports IEG_Environment
begin

text \<open>
  The scanner that flex generates from \<open>parser.l\<close> (\<open>gen_scanner.cc\<close>): its compressed automaton as the
  tables of the source, the loop that follows it to the longest match and backs up, the actions of
  the rules, and the reading of characters one at a time. What flex keeps between two calls is part
  of the state: the characters it has read and not matched, and whether the end of the input is
  pending. Echoing an unknown character to the standard output has no effect on the state.
\<close>

section \<open>Tables\<close>

definition yy_accept :: "nat list" where
  "yy_accept =
    [0, 0, 0, 33, 32, 31, 28, 32, 28, 8, 9, 3, 1, 10, 2, 29, 11, 19, 13, 12, 14, 28, 28, 28,
     28, 6, 7, 32, 28, 28, 28, 28, 4, 5, 28, 28, 28, 28, 18, 28, 17, 29, 15, 16, 28, 28, 22, 28,
     28, 28, 0, 28, 28, 23, 28, 28, 28, 27, 28, 28, 30, 30, 28, 28, 28, 28, 28, 28, 30, 30, 30, 30,
     30, 28, 28, 28, 28, 20, 28, 28, 21, 28, 24, 28, 26, 25, 0]"

definition yy_ec :: "nat list" where
  "yy_ec =
    [0, 1, 1, 1, 1, 1, 1, 1, 1, 2, 2, 1, 1, 2, 1, 1, 1, 1, 1, 1, 1, 1, 1, 1,
     1, 1, 1, 1, 1, 1, 1, 1, 2, 1, 1, 1, 3, 1, 4, 5, 6, 7, 8, 9, 10, 11, 1, 1,
     12, 12, 12, 12, 12, 12, 12, 12, 12, 12, 13, 14, 15, 16, 17, 1, 1, 18, 5, 5, 19, 20, 5, 5,
     5, 21, 5, 5, 5, 5, 22, 23, 5, 5, 24, 25, 5, 26, 27, 5, 5, 5, 5, 28, 1, 29, 1, 30,
     1, 18, 5, 5, 19, 31, 5, 5, 5, 32, 5, 5, 5, 5, 33, 34, 5, 5, 35, 36, 37, 38, 39, 5,
     40, 5, 5, 41, 1, 42, 1, 1, 1, 1, 1, 1, 1, 1, 1, 1, 1, 1, 1, 1, 1, 1, 1, 1,
     1, 1, 1, 1, 1, 1, 1, 1, 1, 1, 1, 1, 1, 1, 1, 1, 1, 1, 1, 1, 1, 1, 1, 1,
     1, 1, 1, 1, 1, 1, 1, 1, 1, 1, 1, 1, 1, 1, 1, 1, 1, 1, 1, 1, 1, 1, 1, 1,
     1, 1, 1, 1, 1, 1, 1, 1, 1, 1, 1, 1, 1, 1, 1, 1, 1, 1, 1, 1, 1, 1, 1, 1,
     1, 1, 1, 1, 1, 1, 1, 1, 1, 1, 1, 1, 1, 1, 1, 1, 1, 1, 1, 1, 1, 1, 1, 1,
     1, 1, 1, 1, 1, 1, 1, 1, 1, 1, 1, 1, 1, 1, 1, 1]"

definition yy_meta :: "nat list" where
  "yy_meta =
    [0, 1, 1, 2, 1, 2, 1, 1, 1, 1, 1, 1, 3, 1, 1, 1, 1, 1, 2, 2, 2, 2, 2, 2,
     2, 2, 2, 2, 1, 1, 2, 2, 2, 2, 2, 2, 2, 2, 2, 2, 2, 1, 1]"

definition yy_base :: "nat list" where
  "yy_base =
    [0, 0, 0, 174, 229, 229, 40, 166, 32, 229, 229, 229, 229, 229, 141, 126, 229, 229, 113, 229, 78, 33, 34, 35,
     38, 229, 229, 45, 37, 39, 41, 49, 229, 229, 71, 61, 0, 75, 229, 68, 229, 46, 229, 229, 69, 73, 72, 74,
     94, 77, 87, 80, 81, 84, 96, 106, 101, 103, 107, 109, 113, 110, 111, 118, 122, 123, 130, 133, 147, 132, 0, 154,
     134, 139, 153, 149, 155, 156, 159, 160, 161, 180, 163, 175, 169, 182, 229, 211, 213, 55, 215, 217, 52, 219, 221, 223,
     225]"

definition yy_def :: "nat list" where
  "yy_def =
    [0, 86, 1, 86, 86, 86, 87, 86, 88, 86, 86, 86, 86, 86, 86, 86, 86, 86, 86, 86, 86, 88, 88, 88,
     88, 86, 86, 89, 88, 88, 88, 88, 86, 86, 87, 88, 90, 91, 86, 88, 86, 86, 86, 86, 88, 88, 88, 88,
     87, 88, 92, 88, 88, 88, 88, 91, 93, 88, 88, 88, 94, 95, 88, 88, 88, 93, 88, 88, 94, 95, 96, 94,
     95, 88, 88, 88, 88, 88, 88, 88, 88, 88, 88, 88, 88, 88, 0, 86, 86, 86, 86, 86, 86, 86, 86, 86,
     86]"

definition yy_nxt :: "nat list" where
  "yy_nxt =
    [0, 4, 5, 6, 7, 8, 9, 10, 11, 12, 13, 14, 15, 16, 17, 18, 19, 20, 21, 8, 8, 22, 8, 23,
     8, 8, 24, 8, 25, 26, 27, 28, 29, 8, 30, 8, 8, 8, 31, 8, 8, 32, 33, 34, 36, 36, 36, 36,
     48, 36, 36, 36, 36, 36, 61, 44, 45, 49, 41, 46, 47, 36, 36, 36, 36, 36, 44, 36, 36, 36, 37, 36,
     52, 36, 34, 50, 53, 51, 55, 36, 36, 36, 54, 36, 36, 36, 36, 36, 57, 36, 60, 36, 36, 36, 43, 59,
     36, 34, 36, 36, 58, 37, 36, 36, 36, 37, 36, 36, 36, 55, 36, 36, 62, 36, 36, 36, 68, 50, 36, 36,
     63, 36, 70, 36, 37, 70, 36, 66, 64, 42, 36, 36, 67, 36, 36, 36, 37, 36, 41, 36, 70, 36, 36, 71,
     70, 36, 70, 73, 36, 74, 68, 36, 36, 36, 76, 77, 75, 68, 40, 70, 36, 36, 70, 36, 70, 36, 70, 36,
     36, 36, 38, 36, 36, 36, 86, 36, 78, 71, 86, 36, 81, 36, 80, 36, 71, 36, 36, 36, 79, 36, 36, 36,
     36, 36, 36, 82, 83, 86, 86, 36, 84, 86, 86, 86, 86, 36, 85, 86, 86, 86, 36, 86, 36, 35, 35, 39,
     39, 36, 36, 56, 56, 65, 65, 69, 69, 72, 72, 70, 70, 3, 86, 86, 86, 86, 86, 86, 86, 86, 86, 86,
     86, 86, 86, 86, 86, 86, 86, 86, 86, 86, 86, 86, 86, 86, 86, 86, 86, 86, 86, 86, 86, 86, 86, 86,
     86, 86, 86, 86, 86, 86, 86, 86]"

definition yy_chk :: "nat list" where
  "yy_chk =
    [0, 1, 1, 1, 1, 1, 1, 1, 1, 1, 1, 1, 1, 1, 1, 1, 1, 1, 1, 1, 1, 1, 1, 1,
     1, 1, 1, 1, 1, 1, 1, 1, 1, 1, 1, 1, 1, 1, 1, 1, 1, 1, 1, 6, 8, 21, 22, 23,
     27, 28, 24, 29, 6, 30, 92, 21, 22, 89, 41, 23, 24, 31, 8, 21, 22, 23, 21, 28, 24, 29, 6, 30,
     29, 35, 34, 27, 30, 28, 37, 31, 39, 44, 31, 34, 46, 45, 47, 37, 44, 49, 50, 35, 51, 52, 20, 47,
     53, 48, 39, 44, 45, 34, 46, 45, 47, 37, 48, 49, 54, 55, 51, 52, 51, 56, 53, 57, 60, 50, 55, 58,
     52, 59, 61, 62, 48, 60, 54, 58, 54, 18, 63, 56, 59, 57, 64, 65, 55, 58, 15, 59, 61, 62, 66, 60,
     69, 67, 72, 62, 63, 63, 68, 73, 64, 65, 66, 67, 64, 71, 14, 68, 66, 75, 69, 67, 72, 74, 71, 76,
     77, 73, 7, 78, 79, 80, 3, 82, 73, 68, 0, 75, 76, 84, 75, 74, 71, 76, 77, 83, 74, 78, 79, 80,
     81, 82, 85, 78, 79, 0, 0, 84, 81, 0, 0, 0, 0, 83, 83, 0, 0, 0, 81, 0, 85, 87, 87, 88,
     88, 90, 90, 91, 91, 93, 93, 94, 94, 95, 95, 96, 96, 86, 86, 86, 86, 86, 86, 86, 86, 86, 86, 86,
     86, 86, 86, 86, 86, 86, 86, 86, 86, 86, 86, 86, 86, 86, 86, 86, 86, 86, 86, 86, 86, 86, 86, 86,
     86, 86, 86, 86, 86, 86, 86, 86]"

section \<open>The automaton\<close>

text \<open>The class of a character. A NUL in the input is in class 1; class 0 is the mark at the end of the
  buffer.\<close>

definition yy_class :: "char \<Rightarrow> nat" where
  "yy_class ch = (if of_char ch = (0::nat) then 1 else yy_ec ! of_char ch)"

text \<open>The rows of the table are compressed: a row that does not own an entry refers to its default row.
  The states from 87 on are templates, whose entries are for equivalence classes of classes. Following
  the defaults ends: a default is a template or the state 86, which owns every entry.\<close>

fun yy_follow :: "nat \<Rightarrow> nat \<Rightarrow> nat \<Rightarrow> nat res" where
  "yy_follow 0 s yy_c = Inl OutOfBounds"
| "yy_follow (Suc n) s yy_c =
     (if yy_chk ! (yy_base ! s + yy_c) = s then Inr (yy_nxt ! (yy_base ! s + yy_c))
      else let s' = yy_def ! s in yy_follow n s' (if s' \<ge> 87 then yy_meta ! yy_c else yy_c))"

definition yy_trans :: "nat \<Rightarrow> nat \<Rightarrow> nat" where
  "yy_trans s yy_c = (case yy_follow 97 s yy_c of Inr s' \<Rightarrow> s' | Inl _ \<Rightarrow> 0)"

section \<open>State and input\<close>

text \<open>\<open>YYSTYPE\<close>, the union of the semantic values.\<close>

datatype yyval =
    V_none
  | V_str string
  | V_int int
  | V_tdecl tuple_decl
  | V_env environment
  | V_set iset
  | V_rel irel
  | V_conj conj
  | V_conjs "conj list"
  | V_exp exp
  | V_exps "exp list"
  | V_strs "string list"

text \<open>The globals of the scanner and of \<open>parser.cc\<close>: \<open>yy_pending\<close> are the characters of flex's buffer from
  \<open>yy_c_buf_p\<close> on, \<open>eof_pending\<close> is the status \<open>YY_BUFFER_EOF_PENDING\<close>, \<open>input_rest\<close> is \<open>input_buffer\<close> from
  \<open>input_pos\<close> on.\<close>

record globals =
  yy_pending :: string
  eof_pending :: bool
  yytext :: string
  input_rest :: string
  parse_error :: bool
  error_message :: string
  parse_env_result :: "environment option"
  parse_set_result :: "iset option"
  parse_relation_result :: "irel option"

text \<open>The state before the first parse, and how every parse sets it.\<close>

definition globals_new :: globals where
  "globals_new = \<lparr>yy_pending = [], eof_pending = False, yytext = [], input_rest = [], parse_error = False,
     error_message = [], parse_env_result = None, parse_set_result = None, parse_relation_result = None\<rparr>"

definition parse_start :: "string \<Rightarrow> globals \<Rightarrow> globals" where
  "parse_start s g =
     g\<lparr>parse_env_result := None, parse_relation_result := None, parse_set_result := None, parse_error := False,
       input_rest := s\<rparr>"

text \<open>A character 0xFF reads as \<open>EOF\<close>, as \<open>char\<close> is signed.\<close>

definition string_get_next_char :: "globals \<Rightarrow> char option \<times> globals" where
  "string_get_next_char g =
     (case input_rest g of
        [] \<Rightarrow> (None, g)
      | ch # cs \<Rightarrow>
          if parse_error g then (None, g)
          else (if of_char ch = (255::nat) then None else Some ch, g\<lparr>input_rest := cs\<rparr>))"

text \<open>The next character of the buffer, which \<open>yy_get_next_buffer\<close> fills when it is empty. At the end of
  the input with a token under way the status becomes \<open>YY_BUFFER_EOF_PENDING\<close> and nothing more is read.\<close>

definition yy_next_char :: "globals \<Rightarrow> char option \<times> globals" where
  "yy_next_char g =
     (case yy_pending g of
        ch # cs \<Rightarrow> (Some ch, g\<lparr>yy_pending := cs\<rparr>)
      | [] \<Rightarrow>
          if eof_pending g then (None, g)
          else case string_get_next_char g of
            (Some ch, g') \<Rightarrow> (Some ch, g')
          | (None, g') \<Rightarrow> (None, g'\<lparr>eof_pending := True\<rparr>))"

definition chars_left :: "globals \<Rightarrow> nat" where
  "chars_left g = length (yy_pending g) + length (input_rest g)"

lemma chars_left_update [simp]:
  "chars_left (g\<lparr>eof_pending := b\<rparr>) = chars_left g" "chars_left (g\<lparr>yytext := s\<rparr>) = chars_left g"
  "chars_left (g\<lparr>parse_error := b\<rparr>) = chars_left g" "chars_left (g\<lparr>error_message := s\<rparr>) = chars_left g"
  "chars_left (g\<lparr>parse_set_result := x\<rparr>) = chars_left g"
  "chars_left (g\<lparr>parse_env_result := y\<rparr>) = chars_left g"
  "chars_left (g\<lparr>parse_relation_result := z\<rparr>) = chars_left g"
  by (simp_all add: chars_left_def)

lemma yy_next_char_left: "yy_next_char g = (Some ch, g') \<Longrightarrow> Suc (chars_left g') = chars_left g"
  by (auto simp: yy_next_char_def string_get_next_char_def chars_left_def split: list.splits if_splits)

lemma yy_next_char_left_le: "yy_next_char g = (r, g') \<Longrightarrow> chars_left g' \<le> chars_left g"
  by (auto simp: yy_next_char_def string_get_next_char_def chars_left_def split: list.splits if_splits)

section \<open>The longest match\<close>

text \<open>The loop \<open>yy_match\<close> from state \<open>s\<close> with the text \<open>run\<close> behind it; \<open>acc\<close> is the last accepting state with
  the text up to it. It returns the state in which it stops, the last accepting state before it and
  the text.\<close>

function yy_match :: "nat \<Rightarrow> (nat \<times> string) option \<Rightarrow> string \<Rightarrow> globals
    \<Rightarrow> nat \<times> (nat \<times> string) option \<times> string \<times> globals" where
  "yy_match s acc run g =
     (let acc' = (if yy_accept ! s \<noteq> 0 then Some (s, run) else acc) in
      case yy_next_char g of
        (None, g') \<Rightarrow> (s, acc', run, g')
      | (Some ch, g') \<Rightarrow>
          (let s' = yy_trans s (yy_class ch); run' = run @ [ch] in
           if yy_base ! s' = 229 then (s', acc', run', g') else yy_match s' acc' run' g'))"
  by pat_completeness auto
termination
  by (relation "measure (\<lambda>(s, acc, run, g). chars_left g)") (auto dest!: sym [THEN yy_next_char_left])

declare yy_match.simps [simp del]

text \<open>The label \<open>yy_find_action\<close>: when the state does not accept, the scanner backs up to the last one that
  did; the characters behind the match stay in the buffer.\<close>

definition yy_find_action :: "nat \<times> (nat \<times> string) option \<times> string \<times> globals \<Rightarrow> (nat \<times> globals) res" where
  "yy_find_action m =
     (case m of (s, acc, run, g) \<Rightarrow>
        let found = (\<lambda>act matched. Inr (act, g\<lparr>yytext := matched, yy_pending := drop (length matched) run @ yy_pending g\<rparr>)) in
        if yy_accept ! s \<noteq> 0 then found (yy_accept ! s) run
        else case acc of None \<Rightarrow> Inl OutOfBounds | Some (s', matched) \<Rightarrow> found (yy_accept ! s') matched)"

section \<open>Tokens\<close>

text \<open>The token codes are those of \<open>gen_parser.hh\<close>.\<close>

abbreviation (input) "YYEOF \<equiv> 0 :: nat"
abbreviation (input) "T_LBRACE \<equiv> 258 :: nat"
abbreviation (input) "T_RBRACE \<equiv> 259 :: nat"
abbreviation (input) "T_LBRACKET \<equiv> 260 :: nat"
abbreviation (input) "T_RBRACKET \<equiv> 261 :: nat"
abbreviation (input) "T_LPAREN \<equiv> 262 :: nat"
abbreviation (input) "T_RPAREN \<equiv> 263 :: nat"
abbreviation (input) "T_COMMA \<equiv> 264 :: nat"
abbreviation (input) "T_COLON \<equiv> 265 :: nat"
abbreviation (input) "T_LT \<equiv> 266 :: nat"
abbreviation (input) "T_LTE \<equiv> 267 :: nat"
abbreviation (input) "T_GT \<equiv> 268 :: nat"
abbreviation (input) "T_GTE \<equiv> 269 :: nat"
abbreviation (input) "T_SEMI \<equiv> 270 :: nat"
abbreviation (input) "T_OR \<equiv> 271 :: nat"
abbreviation (input) "T_UNION \<equiv> 272 :: nat"
abbreviation (input) "T_INVERSE \<equiv> 273 :: nat"
abbreviation (input) "T_EXISTS \<equiv> 274 :: nat"
abbreviation (input) "T_EQ \<equiv> 275 :: nat"
abbreviation (input) "T_ARROW \<equiv> 276 :: nat"
abbreviation (input) "T_ID \<equiv> 277 :: nat"
abbreviation (input) "T_INT \<equiv> 278 :: nat"
abbreviation (input) "T_INVALID_ID \<equiv> 279 :: nat"
abbreviation (input) "T_PLUS \<equiv> 280 :: nat"
abbreviation (input) "T_DASH \<equiv> 281 :: nat"
abbreviation (input) "T_STAR \<equiv> 282 :: nat"
abbreviation (input) "T_UMINUS \<equiv> 283 :: nat"
abbreviation (input) "T_AND \<equiv> 284 :: nat"
abbreviation (input) "T_WAND \<equiv> 285 :: nat"

text \<open>\<open>atoi\<close> is undefined when the number is not an \<open>int\<close>.\<close>

definition atoi :: "string \<Rightarrow> int res" where
  "atoi s =
     (let v = fold (\<lambda>ch n. 10 * n + (of_char ch - 48)) s (0::int) in
      if v > 2147483647 then Inl Overflow else Inr v)"

text \<open>The token of a rule; \<open>None\<close> for white space and for characters that are echoed, after which the loop
  goes on.\<close>

definition keyword_tokens :: "nat list" where
  "keyword_tokens =
    [T_PLUS, T_DASH, T_STAR, T_LBRACE, T_RBRACE, T_LBRACKET, T_RBRACKET, T_LPAREN, T_RPAREN, T_COMMA,
     T_COLON, T_EQ, T_LT, T_GT, T_LTE, T_GTE, T_ARROW, T_AND, T_SEMI, T_UNION,
     T_UNION, T_OR, T_OR, T_EXISTS, T_INVERSE, T_INVERSE, T_WAND]"

definition yy_action :: "nat \<Rightarrow> string \<Rightarrow> (nat \<times> yyval) option res" where
  "yy_action act run =
     (if act < 1 \<or> act > 32 then Inl OutOfBounds
      else if act \<le> 27 then Inr (Some (keyword_tokens ! (act - 1), V_none))
      else if act = 28 then Inr (Some (T_ID, V_str run))
      else if act = 29 then bindr (atoi run) (\<lambda>n. Inr (Some (T_INT, V_int n)))
      else if act = 30 then Inr (Some (T_INVALID_ID, V_none))
      else Inr None)"

definition behind :: "(nat \<times> string) option \<Rightarrow> string \<Rightarrow> bool" where
  "behind acc run \<longleftrightarrow> (\<forall>q m. acc = Some (q, m) \<longrightarrow> m \<noteq> [] \<and> prefix m run)"

lemma behind_more [intro]: "behind acc run \<Longrightarrow> behind acc (run @ [ch])"
  by (auto simp: behind_def)

lemma behind_None [simp]: "behind None run"
  by (simp add: behind_def)

lemma yy_match_chars:
  assumes "yy_match s acc run g = (s', acc', run', g')" and "behind acc run" and "run = [] \<Longrightarrow> yy_accept ! s = 0"
  shows "chars_left g' + length run' \<le> chars_left g + length run \<and> prefix run run' \<and> behind acc' run'"
  using assms
proof (induction s acc run g rule: yy_match.induct)
  case (1 s acc run g)
  let ?acc = "if yy_accept ! s \<noteq> 0 then Some (s, run) else acc"
  have acc: "behind ?acc run" using "1.prems"(2,3) by (auto simp: behind_def)
  show ?case
  proof (cases "yy_next_char g")
    case (Pair r h)
    show ?thesis
    proof (cases r)
      case None
      then have "(s', acc', run', g') = (s, ?acc, run, h)"
        using "1.prems"(1) Pair by (auto simp: yy_match.simps Let_def)
      then show ?thesis using acc yy_next_char_left_le [OF Pair] by simp
    next
      case (Some ch)
      let ?s = "yy_trans s (yy_class ch)"
      have left: "Suc (chars_left h) = chars_left g" using yy_next_char_left Pair Some by simp
      show ?thesis
      proof (cases "yy_base ! ?s = 229")
        case True
        then have "(s', acc', run', g') = (?s, ?acc, run @ [ch], h)"
          using "1.prems"(1) Pair Some by (simp add: yy_match.simps Let_def)
        then show ?thesis using left behind_more [OF acc] by auto
      next
        case False
        then have "yy_match ?s ?acc (run @ [ch]) h = (s', acc', run', g')"
          using "1.prems"(1) Pair Some by (simp add: yy_match.simps [of s] Let_def)
        then show ?thesis
          using "1.IH" [OF refl Pair [symmetric] Some refl refl False _ behind_more [OF acc]] left
          by (auto dest: append_prefixD)
      qed
    qed
  qed
qed

lemma yy_find_action_chars:
  assumes "yy_next_char g = (Some ch, h)" and "yy_find_action (yy_match 1 None [] g) = Inr (act, g')"
  shows "chars_left g' < chars_left g"
proof -
  obtain s acc run k where m: "yy_match 1 None [] g = (s, acc, run, k)" by (cases "yy_match 1 None [] g") auto
  have zero: "yy_accept ! 1 = 0" by (simp add: yy_accept_def)
  note inv = yy_match_chars [OF m, simplified zero, simplified]
  have ne: "run \<noteq> []"
  proof (cases "yy_base ! yy_trans 1 (yy_class ch) = 229")
    case True
    then show ?thesis using m assms(1) by (subst (asm) yy_match.simps) (auto simp: Let_def)
  next
    case False
    then have "yy_match (yy_trans 1 (yy_class ch)) None [ch] h = (s, acc, run, k)"
      using m assms(1) zero by (subst (asm) yy_match.simps) (simp add: Let_def)
    from yy_match_chars [OF this] show ?thesis by auto
  qed
  obtain matched where "chars_left g' = length (drop (length matched) run) + chars_left k"
    and "matched \<noteq> []" "prefix matched run"
  proof (cases "yy_accept ! s = 0")
    case True
    then obtain q m where "acc = Some (q, m)" "g' = k\<lparr>yytext := m, yy_pending := drop (length m) run @ yy_pending k\<rparr>"
      using assms(2) unfolding m by (auto simp: yy_find_action_def Let_def split: option.splits)
    then show thesis using inv that [of m] by (auto simp: chars_left_def behind_def)
  next
    case False
    then have "g' = k\<lparr>yytext := run, yy_pending := yy_pending k\<rparr>"
      using assms(2) unfolding m by (auto simp: yy_find_action_def Let_def)
    then show thesis using ne that [of run] by (auto simp: chars_left_def)
  qed
  then have "chars_left g' = length run - length matched + chars_left k" "0 < length matched" "length matched \<le> length run"
    by (auto dest: prefix_length_le)
  then show ?thesis using inv by linarith
qed

text \<open>\<open>yylex\<close>. At the end of the input the buffer is restarted.\<close>

function yylex :: "globals \<Rightarrow> (nat \<times> yyval \<times> globals) res" where
  "yylex g =
     (case yy_next_char g of
        (None, g') \<Rightarrow> Inr (YYEOF, V_none, g'\<lparr>eof_pending := False, yytext := []\<rparr>)
      | (Some _, _) \<Rightarrow>
          bindr (yy_find_action (yy_match 1 None [] g)) (\<lambda>(act, g').
          bindr (yy_action act (yytext g')) (\<lambda>tok.
          case tok of Some (t, v) \<Rightarrow> Inr (t, v, g') | None \<Rightarrow> yylex g')))"
  by pat_completeness auto
termination
  by (relation "measure chars_left") (auto dest: yy_find_action_chars [OF sym])

declare yylex.simps [simp del]

end
