(* ===== verification/IEG_ParseTables.thy ===== *)
theory IEG_ParseTables
  imports Main
begin

text \<open>
  The tables that bison generates from \<open>parser.y\<close> (\<open>gen_parser.cc\<close>) and how the parser reads them: the
  action of a state on a token, with the default reductions that the compression of the tables
  uses, the goto after a reduction, and the states that shift the token \<open>error\<close>.
\<close>

section \<open>Tables\<close>

definition yytranslate :: "nat list" where
  "yytranslate =
    [0, 2, 2, 2, 2, 2, 2, 2, 2, 2, 2, 2, 2, 2, 2, 2, 2, 2, 2, 2, 2, 2, 2, 2,
     2, 2, 2, 2, 2, 2, 2, 2, 2, 2, 2, 2, 2, 2, 2, 2, 2, 2, 2, 2, 2, 2, 2, 2,
     2, 2, 2, 2, 2, 2, 2, 2, 2, 2, 2, 2, 2, 2, 2, 2, 2, 2, 2, 2, 2, 2, 2, 2,
     2, 2, 2, 2, 2, 2, 2, 2, 2, 2, 2, 2, 2, 2, 2, 2, 2, 2, 2, 2, 2, 2, 2, 2,
     2, 2, 2, 2, 2, 2, 2, 2, 2, 2, 2, 2, 2, 2, 2, 2, 2, 2, 2, 2, 2, 2, 2, 2,
     2, 2, 2, 2, 2, 2, 2, 2, 2, 2, 2, 2, 2, 2, 2, 2, 2, 2, 2, 2, 2, 2, 2, 2,
     2, 2, 2, 2, 2, 2, 2, 2, 2, 2, 2, 2, 2, 2, 2, 2, 2, 2, 2, 2, 2, 2, 2, 2,
     2, 2, 2, 2, 2, 2, 2, 2, 2, 2, 2, 2, 2, 2, 2, 2, 2, 2, 2, 2, 2, 2, 2, 2,
     2, 2, 2, 2, 2, 2, 2, 2, 2, 2, 2, 2, 2, 2, 2, 2, 2, 2, 2, 2, 2, 2, 2, 2,
     2, 2, 2, 2, 2, 2, 2, 2, 2, 2, 2, 2, 2, 2, 2, 2, 2, 2, 2, 2, 2, 2, 2, 2,
     2, 2, 2, 2, 2, 2, 2, 2, 2, 2, 2, 2, 2, 2, 2, 2, 1, 2, 3, 4, 5, 6, 7, 8,
     9, 10, 11, 12, 13, 14, 15, 16, 17, 18, 19, 20, 21, 22, 23, 24, 25, 26, 27, 28, 29, 30]"

definition yypact :: "int list" where
  "yypact =
    [9, -57, -9, 10, 19, -57, -57, -57, -57, -57, 24, 12, 23, 33, -57, 38, 30, -57, 55, -57, -9, 77, 83, 26,
     89, 90, -1, 103, 105, -57, -57, 93, -57, -57, -57, 69, -57, -57, 38, 38, 35, 92, 106, 38, -57, 38, -57, 87,
     -57, -57, -7, 108, 98, 104, 111, 101, 96, 35, 112, -4, 35, 113, 7, -57, -57, -57, -57, -57, -57, -57, -57, -57,
     -57, -57, 51, 94, -57, -57, -57, -57, 95, -57, -57, -57, 104, -57, 104, 97, 116, -57, -57, 38, -57, -57, 38, 92,
     13, 75, 18, -57, -57, -57, 35, -57, 35, 35, 35, 35, 35, 35, 35, 35, 35, 102, 120, 106, 38, 118, -57, -57,
     104, -57, 35, -57, 91, -57, -57, -57, -57, 48, 56, 13, 13, 13, -57, -57, -57, -57, 104, -57, -57, 13, -57, 122,
     35, 35, 35, 35, 120, 107, 13, 13, 13, 13, 123, -57]"

definition yydefact :: "nat list" where
  "yydefact =
    [0, 7, 0, 0, 0, 2, 3, 5, 4, 6, 0, 28, 0, 0, 1, 31, 9, 13, 11, 16, 0, 0, 0, 0,
     0, 0, 42, 0, 0, 29, 26, 0, 30, 38, 37, 0, 34, 36, 31, 31, 41, 0, 21, 31, 14, 31, 17, 0,
     33, 32, 0, 0, 20, 42, 0, 23, 0, 0, 84, 74, 0, 0, 0, 43, 49, 52, 53, 50, 51, 46, 59, 60,
     61, 62, 0, 72, 67, 69, 70, 71, 68, 81, 82, 25, 42, 15, 42, 0, 0, 35, 10, 31, 21, 12, 31, 0,
     89, 0, 0, 83, 78, 75, 0, 40, 0, 0, 0, 0, 0, 0, 0, 0, 0, 0, 24, 0, 31, 0, 19, 22,
     42, 73, 0, 79, 0, 44, 47, 45, 48, 55, 56, 57, 58, 54, 76, 77, 80, 18, 42, 8, 24, 88, 87, 85,
     0, 0, 0, 0, 0, 0, 66, 64, 63, 65, 0, 86]"

definition yypgoto :: "int list" where
  "yypgoto =
    [-57, -57, -57, -57, -57, -57, -57, -57, 109, -57, 100, 40, 117, 39, 119, -57, 115, -15, -57, 88, -16, -51, -57, -19,
     -57, -57, -57, -57, -57, -10, -57, -57, -57, -57, -56, -54, -57, -57, -57, -57, -53, -57, -57, 37]"

definition yydefgoto :: "int list" where
  "yydefgoto =
    [-1, 4, 5, 6, 7, 8, 9, 16, 17, 18, 19, 51, 52, 54, 55, 10, 12, 53, 35, 36, 61, 42, 62, 63,
     64, 65, 66, 67, 68, 69, 70, 71, 72, 73, 74, 75, 76, 77, 78, 79, 80, 81, 82, 97]"

definition yytable :: "int list" where
  "yytable =
    [26, 96, 92, 57, 101, 99, 100, 37, 103, 40, 1, -39, -27, 11, 2, 33, 34, 13, 58, 14, 41, 20, -39, 98,
     56, 57, 84, 15, 86, 21, 87, 3, 32, 114, 37, 115, 104, 105, 111, 112, 58, 22, 57, 23, 99, 123, 96, 27,
     33, 34, 129, 130, 131, 132, 133, 134, 135, 58, 59, 144, 145, 60, 106, 107, 108, 109, 141, 146, 147, 140, 48, 110,
     28, 111, 112, 49, 111, 112, 50, 56, 120, 111, 112, 121, 122, 125, 127, 148, 150, 151, 152, 153, 142, 83, 126, 128,
     -31, 23, 30, 143, 122, 138, -31, 31, 38, 39, 43, -31, 45, 88, 85, 47, 90, 91, 40, 93, 94, 95, 116, -38,
     102, -83, 113, 117, 137, 136, 139, 149, 46, 155, 154, 118, 24, 119, 25, 29, 44, 0, 89, 124]"

definition yycheck :: "int list" where
  "yycheck =
    [15, 57, 53, 7, 60, 59, 59, 23, 1, 10, 1, 4, 3, 22, 5, 22, 23, 7, 22, 0, 21, 9, 15, 27,
     39, 7, 41, 3, 43, 6, 45, 22, 6, 84, 50, 86, 29, 30, 25, 26, 22, 8, 7, 5, 98, 98, 102, 17,
     22, 23, 106, 107, 108, 109, 110, 111, 112, 22, 23, 11, 12, 26, 11, 12, 13, 14, 122, 11, 12, 120, 1, 20,
     17, 25, 26, 6, 25, 26, 9, 94, 95, 25, 26, 8, 9, 104, 105, 138, 144, 145, 146, 147, 1, 1, 104, 105,
     4, 5, 21, 8, 9, 116, 10, 20, 15, 15, 3, 15, 3, 22, 4, 18, 4, 15, 10, 4, 15, 21, 21, 7,
     7, 27, 27, 7, 4, 23, 8, 5, 28, 6, 23, 91, 15, 94, 15, 20, 27, -1, 50, 102]"

definition yystos :: "nat list" where
  "yystos =
    [0, 1, 5, 22, 32, 33, 34, 35, 36, 37, 46, 22, 47, 7, 0, 3, 38, 39, 40, 41, 9, 6, 8, 5,
     43, 45, 48, 17, 17, 47, 21, 20, 6, 22, 23, 49, 50, 51, 15, 15, 10, 21, 52, 3, 39, 3, 41, 18,
     1, 6, 9, 42, 43, 48, 44, 45, 48, 7, 22, 23, 26, 51, 53, 54, 55, 56, 57, 58, 59, 60, 61, 62,
     63, 64, 65, 66, 67, 68, 69, 70, 71, 72, 73, 1, 48, 4, 48, 48, 22, 50, 4, 15, 52, 4, 15, 21,
     65, 74, 27, 66, 71, 65, 7, 1, 29, 30, 11, 12, 13, 14, 20, 25, 26, 27, 52, 52, 21, 7, 42, 44,
     48, 8, 9, 71, 74, 54, 60, 54, 60, 65, 65, 65, 65, 65, 65, 65, 23, 4, 48, 8, 52, 65, 1, 8,
     11, 12, 11, 12, 52, 5, 65, 65, 65, 65, 23, 6]"

definition yyr1 :: "nat list" where
  "yyr1 =
    [0, 31, 32, 32, 32, 32, 32, 32, 33, 34, 35, 36, 37, 38, 38, 39, 40, 40, 41, 42, 42, 43, 44, 44,
     45, 45, 46, 46, 47, 47, 48, 48, 48, 48, 49, 49, 50, 50, 51, 52, 52, 52, 52, 53, 53, 53, 53, 53,
     53, 54, 54, 54, 54, 54, 55, 56, 57, 58, 59, 60, 60, 60, 60, 61, 62, 63, 64, 65, 65, 65, 65, 65,
     65, 66, 67, 68, 69, 69, 70, 70, 70, 71, 71, 71, 72, 73, 73, 73, 74, 74]"

definition yyr2 :: "nat list" where
  "yyr2 =
    [0, 2, 1, 1, 1, 1, 1, 1, 8, 2, 6, 2, 6, 1, 3, 4, 1, 3, 6, 3, 1, 2, 3, 1,
     4, 3, 4, 0, 1, 3, 2, 0, 3, 3, 1, 3, 1, 1, 1, 2, 3, 1, 0, 1, 3, 3, 1, 3,
     3, 1, 1, 1, 1, 1, 3, 3, 3, 3, 3, 1, 1, 1, 1, 5, 5, 5, 5, 1, 1, 1, 1, 1,
     1, 3, 1, 2, 3, 3, 2, 3, 3, 1, 1, 1, 1, 4, 7, 4, 3, 1]"

definition yytname :: "string list" where
  "yytname =
    [''$end'', ''error'', ''$undefined'', ''LBRACE'', ''RBRACE'', ''LBRACKET'', ''RBRACKET'', 
     ''LPAREN'', ''RPAREN'', ''COMMA'', ''COLON'', ''LT'', ''LTE'', ''GT'', ''GTE'', ''SEMI'', 
     ''OR'', ''UNION'', ''INVERSE'', ''EXISTS'', ''EQ'', ''ARROW'', ''ID'', ''INT'', 
     ''INVALID_ID'', ''PLUS'', ''DASH'', ''STAR'', ''UMINUS'', ''AND'', ''WAND'', ''$accept'', 
     ''Start'', ''environment'', ''omega_set'', ''isl_set'', ''omega_relation'', 
     ''isl_relation'', ''conjunct_list'', ''single_conjunct'', ''rel_conjunct_list'', 
     ''rel_single_conjunct'', ''semi_conjunct_list'', ''semi_conjunct'', 
     ''semi_rel_conjunct_list'', ''semi_rel_conjunct'', ''in_symbolic'', ''symbol_list'', 
     ''tuple_decl_with_brackets'', ''tuple_decl'', ''tuple_elem'', ''variable_id'', 
     ''optional_constraints'', ''constraint_list'', ''constraint'', ''constraint_eq'', 
     ''constraint_lt'', ''constraint_lte'', ''constraint_gt'', ''constraint_gte'', 
     ''constraint_range'', ''constraint_range_lte_lt'', ''constraint_range_lt_lte'', 
     ''constraint_range_lte_lte'', ''constraint_range_lt_lt'', ''expression'', 
     ''expression_tuple'', ''expression_int'', ''expression_unop'', ''expression_binop'', 
     ''expression_int_mult'', ''expression_simple'', ''expression_id'', ''expression_func'', 
     ''expression_list'']"

text \<open>The entries of a table, one equation each.\<close>

fun nth_eqs :: "'a list \<Rightarrow> nat \<Rightarrow> 'a list \<Rightarrow> bool" where
  "nth_eqs xs i [] = True"
| "nth_eqs xs i (y # ys) = (xs ! i = y \<and> nth_eqs xs (Suc i) ys)"

lemma nth_eqs_drop: "drop i xs = ys \<Longrightarrow> nth_eqs xs i ys"
  by (induction ys arbitrary: i) (auto, metis nth_via_drop, metis drop_Suc list.sel(3) tl_drop)

lemma nth_eqs_def: "xs = ys \<Longrightarrow> nth_eqs xs 0 ys"
  by (rule nth_eqs_drop) simp

lemmas yypact_nth = nth_eqs_def [OF yypact_def, simplified nth_eqs.simps Suc_numeral numeral_2_eq_2 [symmetric] add_num_simps]
lemmas yydefact_nth = nth_eqs_def [OF yydefact_def, simplified nth_eqs.simps Suc_numeral numeral_2_eq_2 [symmetric] add_num_simps]
lemmas yypgoto_nth = nth_eqs_def [OF yypgoto_def, simplified nth_eqs.simps Suc_numeral numeral_2_eq_2 [symmetric] add_num_simps]
lemmas yydefgoto_nth = nth_eqs_def [OF yydefgoto_def, simplified nth_eqs.simps Suc_numeral numeral_2_eq_2 [symmetric] add_num_simps]
lemmas yytable_nth = nth_eqs_def [OF yytable_def, simplified nth_eqs.simps Suc_numeral numeral_2_eq_2 [symmetric] add_num_simps]
lemmas yycheck_nth = nth_eqs_def [OF yycheck_def, simplified nth_eqs.simps Suc_numeral numeral_2_eq_2 [symmetric] add_num_simps]
lemmas yystos_nth = nth_eqs_def [OF yystos_def, simplified nth_eqs.simps Suc_numeral numeral_2_eq_2 [symmetric] add_num_simps]
lemmas yyr1_nth = nth_eqs_def [OF yyr1_def, simplified nth_eqs.simps Suc_numeral numeral_2_eq_2 [symmetric] add_num_simps]
lemmas yyr2_nth = nth_eqs_def [OF yyr2_def, simplified nth_eqs.simps Suc_numeral numeral_2_eq_2 [symmetric] add_num_simps]

lemmas table_nth = yypact_nth yydefact_nth yypgoto_nth yydefgoto_nth yytable_nth yycheck_nth yystos_nth
  yyr1_nth yyr2_nth

section \<open>Reading the tables\<close>

text \<open>\<open>YYTRANSLATE\<close>: from the codes of the scanner to the symbols of the grammar.\<close>

definition yy_translate :: "nat \<Rightarrow> nat" where
  "yy_translate code = (if code \<le> 285 then yytranslate ! code else 2)"

datatype yyaction = Shift nat | Reduce nat | Syntax_error

definition yy_default :: "nat \<Rightarrow> yyaction" where
  "yy_default s = (let r = yydefact ! s in if r = 0 then Syntax_error else Reduce r)"

text \<open>No entry of the table is an explicit error: \<open>yytable_value_is_error\<close> is constantly false.\<close>

definition yy_lookup :: "nat \<Rightarrow> nat \<Rightarrow> yyaction" where
  "yy_lookup s token =
     (let n = yypact ! s + int token in
      if n < 0 \<or> 139 < n \<or> yycheck ! nat n \<noteq> int token then yy_default s
      else let a = yytable ! nat n in if a \<le> 0 then Reduce (nat (- a)) else Shift (nat a))"

definition yy_goto :: "nat \<Rightarrow> nat \<Rightarrow> nat" where
  "yy_goto p lhs =
     (let n = yypgoto ! (lhs - 31) + int p in
      if 0 \<le> n \<and> n \<le> 139 \<and> yycheck ! nat n = int p then nat (yytable ! nat n)
      else nat (yydefgoto ! (lhs - 31)))"

text \<open>A state with \<open>YYPACT_NINF\<close> acts without a token.\<close>

definition yy_consistent :: "nat \<Rightarrow> bool" where
  "yy_consistent s \<longleftrightarrow> yypact ! s = -57"

definition yy_shift_error :: "nat \<Rightarrow> nat option" where
  "yy_shift_error s =
     (let n = yypact ! s + 1 in
      if yy_consistent s \<or> n < 0 \<or> 139 < n \<or> yycheck ! nat n \<noteq> 1 then None
      else if 0 < yytable ! nat n then Some (nat (yytable ! nat n)) else None)"

section \<open>The message of a syntax error\<close>

text \<open>At most four expected tokens are listed; with more of them, none is.\<close>

definition yy_expected :: "nat \<Rightarrow> nat list" where
  "yy_expected s =
     (let n = yypact ! s in
      if yy_consistent s then []
      else
        let xbegin = (if n < 0 then nat (- n) else 0); xend = min (nat (139 - n + 1)) 31;
            xs = filter (\<lambda>x. yycheck ! nat (int x + n) = int x \<and> x \<noteq> 1) [xbegin..<xend] in
        if length xs > 4 then [] else xs)"

fun join_or :: "string list \<Rightarrow> string" where
  "join_or [] = []"
| "join_or [s] = s"
| "join_or (s # ss) = s @ '' or '' @ join_or ss"

definition yysyntax_error :: "nat \<Rightarrow> nat \<Rightarrow> string" where
  "yysyntax_error s token =
     (let expected = map (nth yytname) (yy_expected s) in
      ''syntax error, unexpected '' @ yytname ! token
      @ (if expected = [] then [] else '', expecting '' @ join_or expected))"

end
