(* ===== verification/IEG_Parser.thy ===== *)
theory IEG_Parser
  imports IEG_Scanner IEG_ParseTables
begin

text \<open>
  The parser that bison generates from \<open>parser.y\<close> (\<open>gen_parser.cc\<close>): the semantic actions, which build
  expressions, declarations, conjunctions, sets and relations with the operations of the library,
  the loop of \<open>yyparse\<close> with its stack, its lookahead and its recovery from errors, and the functions
  of \<open>parser.cc\<close> around it. A semantic value of another type than the one an action reads is the
  error \<open>WrongMember\<close>.
\<close>

section \<open>The members of the union\<close>

fun as_str :: "yyval \<Rightarrow> string res" where "as_str (V_str s) = Inr s" | "as_str _ = Inl WrongMember"
fun as_int :: "yyval \<Rightarrow> int res" where "as_int (V_int n) = Inr n" | "as_int _ = Inl WrongMember"
fun as_tdecl :: "yyval \<Rightarrow> tuple_decl res" where "as_tdecl (V_tdecl t) = Inr t" | "as_tdecl _ = Inl WrongMember"
fun as_env :: "yyval \<Rightarrow> environment res" where "as_env (V_env e) = Inr e" | "as_env _ = Inl WrongMember"
fun as_set :: "yyval \<Rightarrow> iset res" where "as_set (V_set s) = Inr s" | "as_set _ = Inl WrongMember"
fun as_rel :: "yyval \<Rightarrow> irel res" where "as_rel (V_rel r) = Inr r" | "as_rel _ = Inl WrongMember"
fun as_conj :: "yyval \<Rightarrow> conj res" where "as_conj (V_conj c) = Inr c" | "as_conj _ = Inl WrongMember"
fun as_conjs :: "yyval \<Rightarrow> conj list res" where "as_conjs (V_conjs cs) = Inr cs" | "as_conjs _ = Inl WrongMember"
fun as_exp :: "yyval \<Rightarrow> exp res" where "as_exp (V_exp e) = Inr e" | "as_exp _ = Inl WrongMember"
fun as_exps :: "yyval \<Rightarrow> exp list res" where "as_exps (V_exps es) = Inr es" | "as_exps _ = Inl WrongMember"
fun as_strs :: "yyval \<Rightarrow> string list res" where "as_strs (V_strs ss) = Inr ss" | "as_strs _ = Inl WrongMember"

section \<open>Actions: expressions\<close>

definition exp_of_term :: "trm \<Rightarrow> exp" where
  "exp_of_term t = addTerm t Exp_new"

definition minus_exp :: "exp \<Rightarrow> exp \<Rightarrow> exp" where
  "minus_exp a b = addExp (multiplyBy (-1) b) a"

text \<open>A parenthesised list of one expression is that expression, a longer one a tuple.\<close>

definition tuple_action :: "exp list \<Rightarrow> exp res" where
  "tuple_action es =
     (if length es = 1 then Inr (hd es)
      else bindr (foldm (\<lambda>(i, e). setExpElem i e) (enumerate 0 es) (TupleExpTerm_new 1 (length es))) (\<lambda>s.
           bindr (tupexp_copy s) (\<lambda>t. Inr (exp_of_term t))))"

definition call_action :: "string \<Rightarrow> exp list \<Rightarrow> int \<Rightarrow> exp res" where
  "call_action f es tuple_loc =
     bindr (foldm (\<lambda>(i, e). setParamExp i e) (enumerate 0 es) (UFCallTerm_new 1 f (length es) tuple_loc)) (\<lambda>s.
     bindr (ufcall_copy s) (\<lambda>t. Inr (exp_of_term t)))"

section \<open>Actions: constraints\<close>

definition eq_action :: "exp \<Rightarrow> exp \<Rightarrow> exp" where
  "eq_action a b = minus_exp (setEquality a) b"

definition gte_action :: "exp \<Rightarrow> exp \<Rightarrow> exp" where
  "gte_action a b = minus_exp (setInequality a) b"

definition gt_action :: "exp \<Rightarrow> exp \<Rightarrow> exp" where
  "gt_action a b = minus_exp (setInequality a) (addTerm (Term 1) b)"

definition lt_action :: "exp \<Rightarrow> exp \<Rightarrow> exp" where
  "lt_action a b = gt_action b a"

definition lte_action :: "exp \<Rightarrow> exp \<Rightarrow> exp" where
  "lte_action a b = gte_action b a"

section \<open>Actions: conjunctions, sets and relations\<close>

definition add_parsed :: "addr_order \<Rightarrow> exp \<Rightarrow> conj \<Rightarrow> conj" where
  "add_parsed ad e c =
     (if isEquality e then addEquality ad e c else if isInequality e then addInequality ad e c else c)"

definition conj_action :: "world \<Rightarrow> tuple_decl \<Rightarrow> exp list \<Rightarrow> conj res" where
  "conj_action w td es =
     bindr (setTupleDecl td (Conjunction_new (tdecl_size td))) (\<lambda>c.
     substituteTupleDecl w (fold (add_parsed (address_order w)) es c))"

definition rel_conj_action :: "world \<Rightarrow> nat \<Rightarrow> tuple_decl \<Rightarrow> tuple_decl \<Rightarrow> exp list \<Rightarrow> conj res" where
  "rel_conj_action w inarity td1 td2 es =
     bindr (setTupleDecl_inout td1 td2 (Conjunction_rel (tdecl_size td1 + tdecl_size td2) (int inarity))) (\<lambda>c.
     substituteTupleDecl w (fold (add_parsed (address_order w)) es c))"

definition set_action :: "world \<Rightarrow> conj list \<Rightarrow> iset res" where
  "set_action w cs =
     (case cs of
        [] \<Rightarrow> Inl NullDeref
      | c # _ \<Rightarrow> bindr (Set_new (address_order w) (conj_arity c)) (\<lambda>s.
          Inr (s\<lparr>set_conjs := fold (sparse_addConjunction (address_order w)) cs (set_conjs s)\<rparr>)))"

definition rel_action :: "world \<Rightarrow> conj list \<Rightarrow> irel res" where
  "rel_action w cs =
     (case cs of
        [] \<Rightarrow> Inl NullDeref
      | c # _ \<Rightarrow> foldm (rel_addConjunction (address_order w)) cs
                  (Relation_new (mInArity c) (int (conj_arity c) - mInArity c)))"

section \<open>The actions by rule\<close>

definition bind2 :: "'a res \<Rightarrow> 'b res \<Rightarrow> ('a \<Rightarrow> 'b \<Rightarrow> 'c res) \<Rightarrow> 'c res" where
  "bind2 a b f = bindr a (\<lambda>x. bindr b (\<lambda>y. f x y))"

text \<open>Rules 8 to 42: the environment, sets and relations, then conjunctions, then symbols and declarations.
  \<open>vs\<close> are the values of the right-hand side.\<close>

definition union_rules :: "world \<Rightarrow> nat \<Rightarrow> yyval list \<Rightarrow> yyval res" where
  "union_rules w r vs =
     (if r = 8 then bind2 (as_str (vs ! 0)) (as_str (vs ! 5)) (\<lambda>f g. Inr (V_env (setInverse f g Environment_new)))
      else if r = 9 then bindr (as_conjs (vs ! 1)) (\<lambda>cs. bindr (set_action w cs) (\<lambda>s. Inr (V_set s)))
      else if r = 10 then bind2 (as_conj (vs ! 2)) (as_conjs (vs ! 4)) (\<lambda>c cs. bindr (set_action w (c # cs)) (\<lambda>s. Inr (V_set s)))
      else if r = 11 then bindr (as_conjs (vs ! 1)) (\<lambda>cs. bindr (rel_action w cs) (\<lambda>s. Inr (V_rel s)))
      else if r = 12 then bind2 (as_conj (vs ! 2)) (as_conjs (vs ! 4)) (\<lambda>c cs. bindr (rel_action w (c # cs)) (\<lambda>s. Inr (V_rel s)))
      else if r = 13 then bindr (as_conj (vs ! 0)) (\<lambda>c. Inr (V_conjs [c]))
      else bind2 (as_conjs (vs ! 0)) (as_conj (vs ! 2)) (\<lambda>cs c. Inr (V_conjs (cs @ [c]))))"

definition conjunct_rules :: "world \<Rightarrow> nat \<Rightarrow> yyval list \<Rightarrow> yyval res" where
  "conjunct_rules w r vs =
     (if r = 15 then bind2 (as_tdecl (vs ! 1)) (as_exps (vs ! 2)) (\<lambda>td es.
             bindr (conj_action w td es) (\<lambda>c. Inr (V_conj c)))
      else if r = 16 \<or> r = 20 \<or> r = 23 then bindr (as_conj (vs ! 0)) (\<lambda>c. Inr (V_conjs [c]))
      else if r = 17 then bind2 (as_conjs (vs ! 0)) (as_conj (vs ! 2)) (\<lambda>cs c. Inr (V_conjs (cs @ [c])))
      else if r = 18 then bindr (as_exps (vs ! 4)) (\<lambda>es. bind2 (as_tdecl (vs ! 1)) (as_tdecl (vs ! 3)) (\<lambda>td1 td2.
             bindr (rel_conj_action w (tdecl_size td1) td1 td2 es) (\<lambda>c. Inr (V_conj c))))
      else if r = 19 \<or> r = 22 then bind2 (as_conj (vs ! 0)) (as_conjs (vs ! 2)) (\<lambda>c cs. Inr (V_conjs (cs @ [c])))
      else if r = 21 then bind2 (as_tdecl (vs ! 0)) (as_exps (vs ! 1)) (\<lambda>td es.
             bindr (conj_action w td es) (\<lambda>c. Inr (V_conj c)))
      else if r = 24 then bindr (as_exps (vs ! 3)) (\<lambda>es. bind2 (as_tdecl (vs ! 0)) (as_tdecl (vs ! 2)) (\<lambda>td1 td2.
             bindr (rel_conj_action w (tdecl_size td2) td1 td2 es) (\<lambda>c. Inr (V_conj c))))
      else Inr (V_conj (Conjunction_rel 0 0)))"

definition declaration_rules :: "nat \<Rightarrow> yyval list \<Rightarrow> yyval res" where
  "declaration_rules r vs =
     (if r = 26 then bindr (as_strs (vs ! 1)) (\<lambda>ss. Inr (V_strs ss))
      else if r = 27 then Inr (V_strs [])
      else if r = 28 then bindr (as_str (vs ! 0)) (\<lambda>s. Inr (V_strs [s]))
      else if r = 29 then bind2 (as_str (vs ! 0)) (as_strs (vs ! 2)) (\<lambda>s ss. Inr (V_strs (ss @ [s])))
      else if r = 30 \<or> r = 31 \<or> r = 33 then Inr (V_tdecl (TupleDecl_new 0))
      else if r = 32 then bindr (as_tdecl (vs ! 1)) (\<lambda>td. Inr (V_tdecl td))
      else if r = 34 then bindr (as_tdecl (vs ! 0)) (\<lambda>td. Inr (V_tdecl td))
      else if r = 35 then bind2 (as_tdecl (vs ! 0)) (as_tdecl (vs ! 2)) (\<lambda>a b. Inr (V_tdecl (tdecl_concat a b)))
      else if r = 36 then bindr (as_str (vs ! 0)) (\<lambda>s. bindr (setTupleElem_var 0 s (TupleDecl_new 1)) (\<lambda>td. Inr (V_tdecl td)))
      else if r = 37 then bindr (as_int (vs ! 0)) (\<lambda>n. bindr (setTupleElem_const 0 n (TupleDecl_new 1)) (\<lambda>td. Inr (V_tdecl td)))
      else if r = 38 then bindr (as_str (vs ! 0)) (\<lambda>s. Inr (V_str s))
      else if r = 39 then bindr (as_exps (vs ! 1)) (\<lambda>es. Inr (V_exps es))
      else Inr (V_exps []))"

definition structure_action :: "world \<Rightarrow> nat \<Rightarrow> yyval list \<Rightarrow> yyval res" where
  "structure_action w r vs =
     (if r \<le> 14 then union_rules w r vs else if r \<le> 25 then conjunct_rules w r vs else declaration_rules r vs)"

lemmas structure_rules_def = structure_action_def union_rules_def conjunct_rules_def declaration_rules_def

text \<open>Rules 43 to 66: lists of constraints and constraints. A chain of two comparisons is two constraints.\<close>

definition range_action :: "(exp \<Rightarrow> exp \<Rightarrow> exp) \<Rightarrow> (exp \<Rightarrow> exp \<Rightarrow> exp) \<Rightarrow> yyval list \<Rightarrow> yyval res" where
  "range_action f g vs =
     bindr (as_exp (vs ! 0)) (\<lambda>a. bind2 (as_exp (vs ! 2)) (as_exp (vs ! 4)) (\<lambda>b c. Inr (V_exps [f a b, g b c])))"

definition compare_action :: "(exp \<Rightarrow> exp \<Rightarrow> exp) \<Rightarrow> yyval list \<Rightarrow> yyval res" where
  "compare_action f vs = bind2 (as_exp (vs ! 0)) (as_exp (vs ! 2)) (\<lambda>a b. Inr (V_exp (f a b)))"

definition constraint_action :: "nat \<Rightarrow> yyval list \<Rightarrow> yyval res" where
  "constraint_action r vs =
     (if r = 43 then bindr (as_exp (vs ! 0)) (\<lambda>e. Inr (V_exps [e]))
      else if r = 44 \<or> r = 45 then bind2 (as_exps (vs ! 0)) (as_exp (vs ! 2)) (\<lambda>es e. Inr (V_exps (es @ [e])))
      else if r = 46 then bindr (as_exps (vs ! 0)) (\<lambda>es. Inr (V_exps es))
      else if r = 47 \<or> r = 48 then bind2 (as_exps (vs ! 0)) (as_exps (vs ! 2)) (\<lambda>es e. Inr (V_exps (es @ e)))
      else if r \<le> 53 then bindr (as_exp (vs ! 0)) (\<lambda>e. Inr (V_exp e))
      else if r = 54 then compare_action eq_action vs
      else if r = 55 then compare_action lt_action vs
      else if r = 56 then compare_action lte_action vs
      else if r = 57 then compare_action gt_action vs
      else if r = 58 then compare_action gte_action vs
      else if r \<le> 62 then bindr (as_exps (vs ! 0)) (\<lambda>es. Inr (V_exps es))
      else if r = 63 then range_action lte_action lt_action vs
      else if r = 64 then range_action lt_action lte_action vs
      else if r = 65 then range_action lte_action lte_action vs
      else range_action lt_action lt_action vs)"

text \<open>Rules 67 to 89: expressions.\<close>

definition scale_action :: "yyval \<Rightarrow> yyval \<Rightarrow> yyval res" where
  "scale_action n e = bind2 (as_int n) (as_exp e) (\<lambda>n e. Inr (V_exp (multiplyBy n e)))"

definition operator_rules :: "nat \<Rightarrow> yyval list \<Rightarrow> yyval res" where
  "operator_rules r vs =
     (if r \<le> 72 then bindr (as_exp (vs ! 0)) (\<lambda>e. Inr (V_exp e))
      else if r = 73 then bindr (as_exps (vs ! 1)) (\<lambda>es. bindr (tuple_action es) (\<lambda>e. Inr (V_exp e)))
      else if r = 74 then bindr (as_int (vs ! 0)) (\<lambda>n. Inr (V_exp (exp_of_term (Term n))))
      else if r = 75 then bindr (as_exp (vs ! 1)) (\<lambda>e. Inr (V_exp (multiplyBy (-1) e)))
      else if r = 76 then bind2 (as_exp (vs ! 0)) (as_exp (vs ! 2)) (\<lambda>a b. Inr (V_exp (addExp b a)))
      else if r = 77 then compare_action minus_exp vs
      else if r = 78 then scale_action (vs ! 0) (vs ! 1)
      else if r = 79 then scale_action (vs ! 0) (vs ! 2)
      else scale_action (vs ! 2) (vs ! 0))"

definition operand_rules :: "nat \<Rightarrow> yyval list \<Rightarrow> yyval res" where
  "operand_rules r vs =
     (if r \<le> 83 then bindr (as_exp (vs ! 0)) (\<lambda>e. Inr (V_exp e))
      else if r = 84 then bindr (as_str (vs ! 0)) (\<lambda>s. Inr (V_exp (exp_of_term (VarTerm 1 s))))
      else if r = 85 then bind2 (as_str (vs ! 0)) (as_exps (vs ! 2)) (\<lambda>f es. bindr (call_action f es (-1)) (\<lambda>e. Inr (V_exp e)))
      else if r = 86 then bindr (as_int (vs ! 5)) (\<lambda>i. bind2 (as_str (vs ! 0)) (as_exps (vs ! 2)) (\<lambda>f es.
             bindr (call_action f es i) (\<lambda>e. Inr (V_exp e))))
      else if r = 87 then Inr (V_exp Exp_new)
      else if r = 88 then bind2 (as_exps (vs ! 0)) (as_exp (vs ! 2)) (\<lambda>es e. Inr (V_exps (es @ [e])))
      else bindr (as_exp (vs ! 0)) (\<lambda>e. Inr (V_exps [e])))"

definition expression_action :: "nat \<Rightarrow> yyval list \<Rightarrow> yyval res" where
  "expression_action r vs = (if r \<le> 80 then operator_rules r vs else operand_rules r vs)"

lemmas expression_rules_def = expression_action_def operator_rules_def operand_rules_def

text \<open>Rules 2 to 7 store the result of the parse; \<open>Start\<close> has no value.\<close>

definition start_action :: "nat \<Rightarrow> yyval list \<Rightarrow> globals \<Rightarrow> (yyval \<times> globals) res" where
  "start_action r vs g =
     (if r = 2 then bindr (as_env (vs ! 0)) (\<lambda>e. Inr (V_none, g\<lparr>parse_env_result := Some e\<rparr>))
      else if r = 3 \<or> r = 5 then bindr (as_set (vs ! 0)) (\<lambda>s. Inr (V_none, g\<lparr>parse_set_result := Some s\<rparr>))
      else if r = 4 \<or> r = 6 then bindr (as_rel (vs ! 0)) (\<lambda>s. Inr (V_none, g\<lparr>parse_relation_result := Some s\<rparr>))
      else Inr (V_none, g))"

definition value_action :: "world \<Rightarrow> nat \<Rightarrow> yyval list \<Rightarrow> yyval res" where
  "value_action w r vs =
     (if r \<le> 42 then structure_action w r vs else if r \<le> 66 then constraint_action r vs else expression_action r vs)"

definition semantic_action :: "world \<Rightarrow> nat \<Rightarrow> yyval list \<Rightarrow> globals \<Rightarrow> (yyval \<times> globals) res" where
  "semantic_action w r vs g =
     (if r \<le> 7 then start_action r vs g else bindr (value_action w r vs) (\<lambda>v. Inr (v, g)))"

text \<open>The actions of the error rules drop the lookahead (\<open>yyclearin\<close>).\<close>

definition clears_lookahead :: "nat \<Rightarrow> bool" where
  "clears_lookahead r \<longleftrightarrow> r \<in> {7, 25, 33, 40, 87}"

section \<open>The loop of yyparse\<close>

text \<open>The stack has its top first. \<open>yychar\<close> is \<open>None\<close> for \<open>YYEMPTY\<close>.\<close>

record config =
  yystack :: "(nat \<times> yyval) list"
  yychar :: "nat option"
  yylval :: yyval
  yyerrstatus :: nat
  glob :: globals

text \<open>A step goes on, or \<open>yyparse\<close> returns its code, or an exception or a failure leaves it.\<close>

datatype outcome = Continue config | Return nat globals | Throw err globals

text \<open>\<open>clearAll\<close> empties the input buffer; the caller of \<open>yyerror\<close> drops the lookahead.\<close>

definition yyerror :: "string \<Rightarrow> globals \<Rightarrow> globals" where
  "yyerror msg g =
     g\<lparr>parse_error := True, error_message := msg @ '' at '' @ [CHR 0x27] @ yytext g @ [CHR 0x27] @ '', line 1'' @ endl,
       parse_relation_result := None, parse_set_result := None, input_rest := []\<rparr>"

fun pop_to_error :: "(nat \<times> yyval) list \<Rightarrow> ((nat \<times> yyval) list \<times> nat) option" where
  "pop_to_error [] = None"
| "pop_to_error ((s, v) # st) =
     (case yy_shift_error s of Some q \<Rightarrow> Some ((s, v) # st, q) | None \<Rightarrow> pop_to_error st)"

definition yyerrlab1 :: "config \<Rightarrow> outcome" where
  "yyerrlab1 cf =
     (case pop_to_error (yystack cf) of
        None \<Rightarrow> Return 1 (glob cf)
      | Some (st, q) \<Rightarrow> Continue (cf\<lparr>yystack := (q, yylval cf) # st, yyerrstatus := 3\<rparr>))"

definition yyerrlab :: "config \<Rightarrow> outcome" where
  "yyerrlab cf =
     (if yyerrstatus cf = 0 then
        let token = (case yychar cf of None \<Rightarrow> 2 | Some ch \<Rightarrow> yy_translate ch) in
        yyerrlab1 (cf\<lparr>glob := yyerror (yysyntax_error (fst (hd (yystack cf))) token) (glob cf), yychar := None\<rparr>)
      else if yyerrstatus cf = 3 \<and> yychar cf = Some YYEOF then Return 1 (glob cf)
      else if yyerrstatus cf = 3 then yyerrlab1 (cf\<lparr>yychar := None\<rparr>)
      else yyerrlab1 cf)"

definition yyreduce :: "world \<Rightarrow> nat \<Rightarrow> config \<Rightarrow> outcome" where
  "yyreduce w r cf =
     (let n = yyr2 ! r; vs = rev (map snd (take n (yystack cf))); st = drop n (yystack cf) in
      case semantic_action w r vs (glob cf) of
        Inl e \<Rightarrow> Throw e (glob cf)
      | Inr (v, g) \<Rightarrow>
          Continue (cf\<lparr>yystack := (yy_goto (fst (hd st)) (yyr1 ! r), v) # st, glob := g,
                     yychar := (if clears_lookahead r then None else yychar cf)\<rparr>))"

fun yyperform :: "world \<Rightarrow> yyaction \<Rightarrow> config \<Rightarrow> outcome" where
  "yyperform w (Shift q) cf =
     Continue (cf\<lparr>yystack := (q, yylval cf) # yystack cf, yychar := None, yyerrstatus := yyerrstatus cf - 1\<rparr>)"
| "yyperform w (Reduce r) cf = yyreduce w r cf"
| "yyperform w Syntax_error cf = yyerrlab cf"

text \<open>From \<open>yynewstate\<close> to the next \<open>yynewstate\<close>. The stack may grow to \<open>YYMAXDEPTH\<close>.\<close>

definition yystep :: "world \<Rightarrow> config \<Rightarrow> outcome" where
  "yystep w cf =
     (let s = fst (hd (yystack cf)) in
      if length (yystack cf) \<ge> 10000 then Return 2 (yyerror ''memory exhausted'' (glob cf))
      else if s = 14 then Return 0 (glob cf)
      else if yy_consistent s then yyperform w (yy_default s) cf
      else case yychar cf of
        Some ch \<Rightarrow> yyperform w (yy_lookup s (yy_translate ch)) cf
      | None \<Rightarrow>
          (case yylex (glob cf) of
             Inl e \<Rightarrow> Throw e (glob cf)
           | Inr (ch, v, g) \<Rightarrow>
               yyperform w (yy_lookup s (yy_translate ch)) (cf\<lparr>yychar := Some ch, yylval := v, glob := g\<rparr>)))"

fun yyrun :: "nat \<Rightarrow> world \<Rightarrow> config \<Rightarrow> outcome" where
  "yyrun 0 w cf = Continue cf"
| "yyrun (Suc n) w cf = (case yystep w cf of Continue cf' \<Rightarrow> yyrun n w cf' | res \<Rightarrow> res)"

definition yystart :: "globals \<Rightarrow> config" where
  "yystart g = \<lparr>yystack = [(0, V_none)], yychar = None, yylval = V_none, yyerrstatus = 0, glob = g\<rparr>"


text \<open>The number of steps is at most linear in the characters; \<open>yyparse\<close> is the loop with that many. A
  theorem of \<open>IEG_ParseProps\<close> shows that they are enough.\<close>

definition yyfuel :: "globals \<Rightarrow> nat" where
  "yyfuel g = 18 * chars_left g + 16"

definition yyparse :: "world \<Rightarrow> globals \<Rightarrow> outcome" where
  "yyparse w g = yyrun (yyfuel g) w (yystart g)"

section \<open>parser.cc\<close>

text \<open>The three functions run the parser from the same start and turn the error flag into an exception;
  the last case is never reached.\<close>

definition run_parser :: "(globals \<Rightarrow> 'a option) \<Rightarrow> world \<Rightarrow> string \<Rightarrow> globals \<Rightarrow> 'a option res \<times> globals" where
  "run_parser result w s g =
     (case yyparse w (parse_start s g) of
        Return n g' \<Rightarrow> (if parse_error g' then Inl (ParseError (error_message g')) else Inr (result g'), g')
      | Throw e g' \<Rightarrow> (Inl e, g')
      | Continue cf \<Rightarrow> (Inl OutOfBounds, glob cf))"

text \<open>\<open>None\<close> is the null pointer.\<close>

definition parse_env :: "world \<Rightarrow> string \<Rightarrow> globals \<Rightarrow> environment option res \<times> globals" where
  "parse_env = run_parser parse_env_result"

definition parse_set :: "world \<Rightarrow> string \<Rightarrow> globals \<Rightarrow> iset option res \<times> globals" where
  "parse_set = run_parser parse_set_result"

definition parse_relation :: "world \<Rightarrow> string \<Rightarrow> globals \<Rightarrow> irel option res \<times> globals" where
  "parse_relation = run_parser parse_relation_result"

text \<open>The constructors from a string dereference the result without a check.\<close>

definition Set_of_string :: "world \<Rightarrow> string \<Rightarrow> globals \<Rightarrow> iset res \<times> globals" where
  "Set_of_string w str g =
     (case parse_set w str g of (r, g') \<Rightarrow>
        (bindr r (\<lambda>s. case s of None \<Rightarrow> Inl NullDeref | Some s \<Rightarrow> Set_copy w s), g'))"

definition Relation_of_string :: "world \<Rightarrow> string \<Rightarrow> globals \<Rightarrow> irel res \<times> globals" where
  "Relation_of_string w str g =
     (case parse_relation w str g of (res, g') \<Rightarrow>
        (bindr res (\<lambda>r. case r of None \<Rightarrow> Inl NullDeref | Some r \<Rightarrow> Relation_copy w r), g'))"

end
