(* ===== verification/IEG_Grammar.thy ===== *)
theory IEG_Grammar
  imports IEG_Parser
begin

text \<open>
  The grammar of \<open>parser.y\<close> and the check that the tables of \<open>gen_parser.cc\<close> are an automaton for it: on
  the stack, every state lies above a state from which its symbol leads to it; where a state
  reduces by a rule, the right-hand side of the rule is on top of the stack and the state below
  it has a goto. The check also finds a potential that decreases with every reduction.
\<close>

section \<open>The grammar\<close>

text \<open>The right-hand sides by rule, in symbols: the terminals are the numbers below 31 (1 is \<open>error\<close>), the
  others the nonterminals. Rule 1 is \<open>$accept\<close>.\<close>

definition yyrhs :: "nat list list" where
  "yyrhs =
    [[], [32, 0], [33], [34], [36], [35], [37], [1], [22, 7, 8, 20, 18, 22, 7, 8], [46, 38],
     [46, 3, 43, 15, 42, 4], [46, 40], [46, 3, 45, 15, 44, 4], [39], [38, 17, 39], [3, 48, 52, 4],
     [41], [40, 17, 41], [3, 48, 21, 48, 52, 4], [43, 15, 42], [43], [48, 52], [45, 15, 44], [45],
     [48, 21, 48, 52], [48, 21, 1], [5, 47, 6, 21], [], [22], [22, 9, 47], [5, 6], [], [5, 49, 6],
     [5, 49, 1], [50], [49, 9, 50], [51], [23], [22], [10, 53], [10, 53, 1], [10], [], [54],
     [53, 29, 54], [53, 30, 54], [60], [53, 29, 60], [53, 30, 60], [55], [58], [59], [56], [57],
     [65, 20, 65], [65, 11, 65], [65, 12, 65], [65, 13, 65], [65, 14, 65], [61], [62], [63], [64],
     [65, 12, 65, 11, 65], [65, 11, 65, 12, 65], [65, 12, 65, 12, 65], [65, 11, 65, 11, 65], [67],
     [71], [68], [69], [70], [66], [7, 74, 8], [23], [26, 65], [65, 25, 65], [65, 26, 65], [23, 71],
     [23, 27, 71], [71, 27, 23], [72], [73], [66], [22], [51, 7, 74, 8], [51, 7, 74, 8, 5, 23, 6],
     [51, 7, 74, 1], [74, 9, 65], [65]]"

text \<open>The member of \<open>YYSTYPE\<close> that a symbol has (\<open>%type\<close> and \<open>%token\<close>).\<close>

definition typed :: "nat \<Rightarrow> yyval \<Rightarrow> bool" where
  "typed X v =
     (if X \<in> {22, 51} then (\<exists>s. v = V_str s)
      else if X = 23 then (\<exists>n. v = V_int n)
      else if X = 33 then (\<exists>e. v = V_env e)
      else if X \<in> {34, 35} then (\<exists>s. v = V_set s)
      else if X \<in> {36, 37} then (\<exists>r. v = V_rel r)
      else if X \<in> {38, 40, 42, 44} then (\<exists>cs. cs \<noteq> [] \<and> v = V_conjs cs)
      else if X \<in> {39, 41, 43, 45} then (\<exists>c. v = V_conj c)
      else if X \<in> {46, 47} then (\<exists>ss. v = V_strs ss)
      else if X \<in> {48, 49, 50} then (\<exists>td. v = V_tdecl td)
      else if X \<in> {52, 53, 60, 61, 62, 63, 64} then (\<exists>es. v = V_exps es)
      else if X = 74 then (\<exists>es. es \<noteq> [] \<and> v = V_exps es)
      else if 54 \<le> X \<and> X \<le> 73 then (\<exists>e. v = V_exp e)
      else True)"

section \<open>The automaton\<close>

text \<open>The states below a state on the stack.\<close>

definition yy_below :: "nat list list" where
  "yy_below =
    [[], [0], [0], [0], [0], [0], [0], [0], [0], [0], [0], [2, 20], [2], [3], [4], [10], [10], [10],
     [10], [10], [11], [12], [13], [15, 38, 39, 41, 43, 45, 91, 94, 95, 116], [15], [15], [15],
     [16], [18], [20], [21], [22], [23], [23, 50], [23, 50], [23], [23], [23, 50], [24], [25],
     [26, 53, 84, 86, 120, 138], [26], [26], [27], [27], [28], [28], [31], [35], [35], [35], [38],
     [38, 91], [38, 91], [39], [39, 94], [39, 94],
     [40, 57, 59, 60, 98, 102, 104, 105, 106, 107, 108, 109, 110, 111, 112, 122, 144, 145, 146, 147],
     [40, 57, 59, 60, 98, 102, 104, 105, 106, 107, 108, 109, 110, 111, 112, 122, 144, 145, 146, 147],
     [40, 57, 60, 102, 104, 105, 106, 107, 108, 109, 110, 111, 112, 122, 144, 145, 146, 147],
     [40, 57, 60, 102, 104, 105, 106, 107, 108, 109, 110, 111, 112, 122, 144, 145, 146, 147],
     [40, 57, 59, 60, 98, 102, 104, 105, 106, 107, 108, 109, 110, 111, 112, 122, 144, 145, 146, 147],
     [40], [40], [40, 104, 105], [40, 104, 105], [40, 104, 105], [40, 104, 105], [40, 104, 105],
     [40], [40, 104, 105], [40, 104, 105], [40, 104, 105], [40, 104, 105], [40, 104, 105],
     [40, 57, 60, 102, 104, 105, 106, 107, 108, 109, 110, 111, 112, 122, 144, 145, 146, 147],
     [40, 57, 60, 102, 104, 105, 106, 107, 108, 109, 110, 111, 112, 122, 144, 145, 146, 147],
     [40, 57, 60, 102, 104, 105, 106, 107, 108, 109, 110, 111, 112, 122, 144, 145, 146, 147],
     [40, 57, 60, 102, 104, 105, 106, 107, 108, 109, 110, 111, 112, 122, 144, 145, 146, 147],
     [40, 57, 60, 102, 104, 105, 106, 107, 108, 109, 110, 111, 112, 122, 144, 145, 146, 147],
     [40, 57, 60, 102, 104, 105, 106, 107, 108, 109, 110, 111, 112, 122, 144, 145, 146, 147],
     [40, 57, 59, 60, 98, 102, 104, 105, 106, 107, 108, 109, 110, 111, 112, 122, 144, 145, 146, 147],
     [40, 57, 59, 60, 98, 102, 104, 105, 106, 107, 108, 109, 110, 111, 112, 122, 144, 145, 146, 147],
     [41, 95], [41], [42, 115], [43], [45], [47], [50], [51], [52], [53], [54], [55], [56],
     [57, 102], [57], [59], [59, 98], [59], [60], [61], [62], [62], [62], [74], [74], [74], [74],
     [74], [74, 96, 129, 130, 131, 132, 133, 141, 150, 151, 152, 153],
     [74, 96, 129, 130, 131, 132, 133, 141, 150, 151, 152, 153], [80], [84], [86], [87], [88], [91],
     [94], [95], [97], [97, 124], [98], [102], [104], [104], [105], [105], [106], [107], [108],
     [109], [110], [111], [112], [113], [114, 148], [116], [117], [120], [122], [124], [124], [129],
     [129], [130], [130], [138], [143], [144], [145], [146], [147], [149], [154]]"

definition yy_potential :: "nat list" where
  "yy_potential =
    [3, 4, 0, 0, 3, 4, 4, 4, 4, 4, 0, 1, 0, 0, 0, 6, 3, 4, 3, 4, 0, 0, 0, 0, 0, 0, 3, 0, 0, 0, 0, 0,
     2, 3, 2, 0, 1, 2, 6, 3, 1, 6, 0, 6, 0, 3, 0, 0, 0, 0, 0, 0, 1, 3, 0, 1, 0, 0, 4, 3, 0, 0, 0, 1,
     2, 2, 2, 2, 2, 1, 2, 2, 2, 2, 0, 3, 2, 2, 2, 2, 2, 3, 3, 0, 3, 0, 3, 0, 0, 0, 0, 6, 0, 0, 3, 6,
     1, 0, 0, 2, 1, 1, 0, 0, 0, 0, 0, 0, 0, 0, 0, 0, 0, 0, 0, 0, 6, 0, 0, 0, 3, 0, 0, 0, 0, 0, 0, 0,
     0, 0, 0, 0, 0, 0, 0, 0, 0, 0, 3, 0, 0, 0, 0, 0, 0, 0, 0, 0, 0, 0, 0, 0, 0, 0, 0, 0]"

text \<open>The states that a right-hand side, read backwards, exposes.\<close>

fun yy_expose :: "nat list \<Rightarrow> nat list \<Rightarrow> nat list option" where
  "yy_expose [] S = Some S"
| "yy_expose (X # Xs) S =
     (if list_all (\<lambda>s. yystos ! s = X) S
      then yy_expose Xs (remdups (concat (map (nth yy_below) S))) else None)"

text \<open>A reduction of state \<open>s\<close> by rule \<open>r\<close> that exposes \<open>p\<close>.\<close>

definition exposed_ok :: "nat \<Rightarrow> nat \<Rightarrow> nat \<Rightarrow> bool" where
  "exposed_ok s r p \<longleftrightarrow>
     (let q = yy_goto p (yyr1 ! r) in
      q < 156 \<and> yystos ! q = yyr1 ! r \<and> p \<in> set (yy_below ! q)
      \<and> yy_potential ! q + 2 < yy_potential ! s + 2 * length (yyrhs ! r))"

fun all_exposed_ok :: "nat \<Rightarrow> nat \<Rightarrow> nat list \<Rightarrow> bool" where
  "all_exposed_ok s r [] \<longleftrightarrow> True"
| "all_exposed_ok s r (p # ps) \<longleftrightarrow> exposed_ok s r p \<and> all_exposed_ok s r ps"

definition reduce_ok :: "nat \<Rightarrow> nat \<Rightarrow> bool" where
  "reduce_ok s r \<longleftrightarrow>
     2 \<le> r \<and> r \<le> 89 \<and>
     (case yy_expose (rev (yyrhs ! r)) [s] of None \<Rightarrow> False | Some S \<Rightarrow> all_exposed_ok s r S)"

definition shift_ok :: "nat \<Rightarrow> nat \<Rightarrow> nat \<Rightarrow> bool" where
  "shift_ok s X q \<longleftrightarrow> q < 156 \<and> yystos ! q = X \<and> s \<in> set (yy_below ! q) \<and> (X = 0 \<longrightarrow> s = 4 \<and> q = 14)"

text \<open>The check of one state: its default action, and the entries of the table that are its own.\<close>

definition entry_ok :: "nat \<Rightarrow> nat \<Rightarrow> bool" where
  "entry_ok s X \<longleftrightarrow>
     (let n = yypact ! s + int X in
      0 \<le> n \<longrightarrow> n \<le> 139 \<longrightarrow> yycheck ! nat n = int X \<longrightarrow>
      (let a = yytable ! nat n in if a \<le> 0 then reduce_ok s (nat (- a)) else shift_ok s X (nat a)))"

fun all_entries_ok :: "nat \<Rightarrow> nat list \<Rightarrow> bool" where
  "all_entries_ok s [] \<longleftrightarrow> True"
| "all_entries_ok s (X # Xs) \<longleftrightarrow> entry_ok s X \<and> all_entries_ok s Xs"

definition yy_terminals :: "nat list" where
  "yy_terminals = [0, 1, 2, 3, 4, 5, 6, 7, 8, 9, 10, 11, 12, 13, 14, 15, 16, 17, 18, 19, 20, 21, 22, 23, 24, 25, 26, 27, 28, 29, 30]"

definition state_ok :: "nat \<Rightarrow> bool" where
  "state_ok s \<longleftrightarrow>
     (yydefact ! s = 0 \<longrightarrow> \<not> yy_consistent s) \<and> (yydefact ! s \<noteq> 0 \<longrightarrow> reduce_ok s (yydefact ! s)) \<and>
     (\<not> yy_consistent s \<longrightarrow> all_entries_ok s yy_terminals)"

fun all_states_ok :: "nat list \<Rightarrow> bool" where
  "all_states_ok [] \<longleftrightarrow> True"
| "all_states_ok (s # ss) \<longleftrightarrow> (s = 14 \<or> state_ok s) \<and> all_states_ok ss"

lemmas below_nth = nth_eqs_def [OF yy_below_def, simplified nth_eqs.simps Suc_numeral numeral_2_eq_2 [symmetric] add_num_simps]
lemmas potential_nth = nth_eqs_def [OF yy_potential_def, simplified nth_eqs.simps Suc_numeral numeral_2_eq_2 [symmetric] add_num_simps]
lemmas yyrhs_nth = nth_eqs_def [OF yyrhs_def, simplified nth_eqs.simps Suc_numeral numeral_2_eq_2 [symmetric] add_num_simps]

lemmas state_check = state_ok_def entry_ok_def shift_ok_def reduce_ok_def exposed_ok_def yy_goto_def yy_consistent_def
  yy_terminals_def Let_def table_nth below_nth potential_nth yyrhs_nth numeral_2_eq_2 [symmetric]

lemma rules_agree: "list_all (\<lambda>r. yyr2 ! r = length (yyrhs ! r) \<and> 31 < yyr1 ! r) [2..<90]"
  by (simp add: table_nth yyrhs_nth)

lemma states_ok_1: "all_states_ok [0..<26]"
proof -
  have "[0..<26] = [0, 1, 2, 3, 4, 5, 6, 7, 8, 9, 10, 11, 12, 13, 14, 15, 16, 17, 18, 19, 20, 21, 22, 23, 24, 25]" by code_simp
  then show ?thesis by (simp only:) (simp add: state_check)
qed

lemma states_ok_2: "all_states_ok [26..<52]"
proof -
  have "[26..<52] = [26, 27, 28, 29, 30, 31, 32, 33, 34, 35, 36, 37, 38, 39, 40, 41, 42, 43, 44, 45, 46, 47, 48, 49, 50, 51]" by code_simp
  then show ?thesis by (simp only:) (simp add: state_check)
qed

lemma states_ok_3: "all_states_ok [52..<78]"
proof -
  have "[52..<78] = [52, 53, 54, 55, 56, 57, 58, 59, 60, 61, 62, 63, 64, 65, 66, 67, 68, 69, 70, 71, 72, 73, 74, 75, 76, 77]" by code_simp
  then show ?thesis by (simp only:) (simp add: state_check)
qed

lemma states_ok_4: "all_states_ok [78..<104]"
proof -
  have "[78..<104] = [78, 79, 80, 81, 82, 83, 84, 85, 86, 87, 88, 89, 90, 91, 92, 93, 94, 95, 96, 97, 98, 99, 100, 101, 102, 103]" by code_simp
  then show ?thesis by (simp only:) (simp add: state_check)
qed

lemma states_ok_5: "all_states_ok [104..<130]"
proof -
  have "[104..<130] = [104, 105, 106, 107, 108, 109, 110, 111, 112, 113, 114, 115, 116, 117, 118, 119, 120, 121, 122, 123, 124, 125, 126, 127, 128, 129]" by code_simp
  then show ?thesis by (simp only:) (simp add: state_check)
qed

lemma states_ok_6: "all_states_ok [130..<156]"
proof -
  have "[130..<156] = [130, 131, 132, 133, 134, 135, 136, 137, 138, 139, 140, 141, 142, 143, 144, 145, 146, 147, 148, 149, 150, 151, 152, 153, 154, 155]" by code_simp
  then show ?thesis by (simp only:) (simp add: state_check)
qed


end
