(* ===== verification/IEG_ParseProps.thy ===== *)
theory IEG_ParseProps
  imports IEG_Grammar
begin

text \<open>
  Properties of the parser's loop. Whatever the input, the stack is linked by the automaton and
  its values have the types of their symbols, also while the parser recovers from errors; every
  step decreases a measure that is linear in the number of characters that are left, so the
  parser always returns.
\<close>

section \<open>What the check of the tables gives\<close>

lemma states_ok: "s < 156 \<Longrightarrow> s \<noteq> 14 \<Longrightarrow> state_ok s"
proof -
  have all: "all_states_ok ss \<longleftrightarrow> (\<forall>s \<in> set ss. s = 14 \<or> state_ok s)" for ss
    by (induction ss) auto
  have list: "[0..<156] =
    [0..<26] @ [26..<52] @ [52..<78] @ [78..<104] @ [104..<130] @ [130..<156]" by code_simp
  have "\<forall>s \<in> set [0..<156]. s = 14 \<or> state_ok s"
    using states_ok_1 states_ok_2 states_ok_3 states_ok_4 states_ok_5 states_ok_6
    unfolding all list set_append ball_Un by blast
  then show "s < 156 \<Longrightarrow> s \<noteq> 14 \<Longrightarrow> state_ok s" by auto
qed

lemma entries_ok:
  assumes "s < 156" "s \<noteq> 14" "\<not> yy_consistent s" "X < 31"
  shows "entry_ok s X"
proof -
  have all: "all_entries_ok s Xs \<longleftrightarrow> (\<forall>X \<in> set Xs. entry_ok s X)" for Xs by (induction Xs) auto
  have "X \<in> set yy_terminals" using assms(4) unfolding yy_terminals_def by (simp; presburger)
  then show ?thesis using states_ok [OF assms(1,2)] assms(3) all by (simp add: state_ok_def)
qed

lemma lookup_ok:
  assumes "s < 156" "s \<noteq> 14" "\<not> yy_consistent s" "X < 31"
  shows "yy_lookup s X = Shift q \<Longrightarrow> shift_ok s X q" and "yy_lookup s X = Reduce r \<Longrightarrow> reduce_ok s r"
  using entries_ok [OF assms] states_ok [OF assms(1,2)] assms(3)
  by (auto simp: yy_lookup_def yy_default_def entry_ok_def state_ok_def Let_def split: if_splits)

lemma default_ok:
  assumes "s < 156" "s \<noteq> 14" "yy_consistent s"
  obtains r where "yy_default s = Reduce r" "reduce_ok s r"
  using states_ok [OF assms(1,2)] assms(3) that [of "yydefact ! s"]
  by (auto simp: state_ok_def yy_default_def Let_def)

lemma shift_error_ok:
  assumes "s < 156" "s \<noteq> 14" "yy_shift_error s = Some q"
  shows "shift_ok s 1 q"
proof -
  have "\<not> yy_consistent s" using assms(3) by (auto simp: yy_shift_error_def Let_def)
  then have "entry_ok s 1" using entries_ok [OF assms(1,2)] by simp
  then show ?thesis using assms(3)
    by (auto simp: yy_shift_error_def entry_ok_def Let_def algebra_simps split: if_splits)
qed

lemma rules_nonzero: "list_all (\<lambda>r. 0 \<notin> set (yyrhs ! r)) [2..<90]"
  by (simp add: yyrhs_nth)

lemma rule_facts:
  assumes "2 \<le> r" "r \<le> 89"
  shows "yyr2 ! r = length (yyrhs ! r)" "31 < yyr1 ! r" "0 \<notin> set (yyrhs ! r)"
  using rules_agree rules_nonzero assms unfolding list_all_iff set_upt by auto

lemma potential_le: "q < 156 \<Longrightarrow> yy_potential ! q \<le> 6"
proof -
  have "list_all (\<lambda>n. n \<le> 6) yy_potential" "length yy_potential = 156" by (simp_all add: yy_potential_def)
  then show "q < 156 \<Longrightarrow> yy_potential ! q \<le> 6" by (auto simp: list_all_length)
qed

lemma symbol_0 [simp]: "yystos ! 0 = 0" "yystos ! 14 = 0"
  by (simp_all add: yystos_nth)

section \<open>The stack and what it spans\<close>

text \<open>\<open>yields R Xs ts vs\<close>: the sequence \<open>ts\<close> is the concatenation of one piece for each symbol of \<open>Xs\<close>, and \<open>R\<close>
  relates the symbol, the piece and the value.\<close>

inductive yields :: "(nat \<Rightarrow> 't list \<Rightarrow> yyval \<Rightarrow> bool) \<Rightarrow> nat list \<Rightarrow> 't list \<Rightarrow> yyval list \<Rightarrow> bool"
  for R where
  none: "yields R [] [] []"
| more: "R X ts v \<Longrightarrow> yields R Xs us vs \<Longrightarrow> yields R (X # Xs) (ts @ us) (v # vs)"

inductive_simps yields_simps: "yields R [] ts vs" "yields R (X # Xs) ts vs"

lemma yields_mono [mono]: "(\<And>X ts v. R X ts v \<longrightarrow> S X ts v) \<Longrightarrow> yields R Xs ts vs \<longrightarrow> yields S Xs ts vs"
proof
  assume RS: "\<And>X ts v. R X ts v \<longrightarrow> S X ts v" and "yields R Xs ts vs"
  from this(2) show "yields S Xs ts vs" by induction (use RS in \<open>auto intro: yields.intros\<close>)
qed

lemma yields_snoc: "yields R Xs ts vs \<Longrightarrow> R X us v \<Longrightarrow> yields R (Xs @ [X]) (ts @ us) (vs @ [v])"
proof (induction rule: yields.induct)
  case none
  then show ?case using yields.more [OF _ yields.none] by fastforce
next
  case (more Y ts v Xs us vs)
  then show ?case using yields.more by fastforce
qed

fun spans :: "(nat \<Rightarrow> 't list \<Rightarrow> yyval \<Rightarrow> bool) \<Rightarrow> (nat \<times> yyval) list \<Rightarrow> 't list \<Rightarrow> bool" where
  "spans R [] ts \<longleftrightarrow> False"
| "spans R [(s, v)] ts \<longleftrightarrow> s = 0 \<and> ts = []"
| "spans R ((q, v) # (p, u) # st) ts \<longleftrightarrow>
     q < 156 \<and> p \<in> set (yy_below ! q) \<and>
     (\<exists>us vs. ts = us @ vs \<and> R (yystos ! q) vs v \<and> spans R ((p, u) # st) us)"

lemma spans_top: "spans R st ts \<Longrightarrow> st \<noteq> [] \<and> fst (hd st) < 156"
  by (cases "(R, st, ts)" rule: spans.cases) auto

lemma spans_push:
  "spans R ((p, u) # st) us \<Longrightarrow> q < 156 \<Longrightarrow> p \<in> set (yy_below ! q) \<Longrightarrow> R (yystos ! q) vs v
   \<Longrightarrow> spans R ((q, v) # (p, u) # st) (us @ vs)"
  by auto

text \<open>A right-hand side on top of the stack.\<close>

lemma spans_expose:
  assumes "spans R ((s, v) # st) ts" and "s \<in> set S" and "yy_expose Xs S = Some S'" and "0 \<notin> set Xs"
  shows "\<exists>us vs p u st'. drop (length Xs) ((s, v) # st) = (p, u) # st' \<and> p \<in> set S' \<and> spans R ((p, u) # st') us
    \<and> ts = us @ vs \<and> yields R (rev Xs) vs (rev (map snd (take (length Xs) ((s, v) # st))))"
  using assms
proof (induction Xs arbitrary: S s v st ts)
  case Nil
  then show ?case by (auto intro: yields.none)
next
  case (Cons X Xs)
  have X: "\<forall>s \<in> set S. yystos ! s = X"
    and ex: "yy_expose Xs (remdups (concat (map (nth yy_below) S))) = Some S'"
    using Cons.prems(3) by (auto simp: list_all_iff split: if_splits)
  show ?case
  proof (cases st)
    case Nil
    then show ?thesis using Cons.prems X by auto
  next
    case (Cons a st0)
    obtain p u where a: "a = (p, u)" by fastforce
    obtain us vs where ts: "ts = us @ vs" and R: "R X vs v" and sp: "spans R ((p, u) # st0) us"
      and below: "p \<in> set (yy_below ! s)"
      using Cons.prems(1,2) X unfolding Cons a by auto
    have "p \<in> set (remdups (concat (map (nth yy_below) S)))" using below Cons.prems(2) by auto
    from Cons.IH [OF sp this ex] Cons.prems(4)
    obtain us' vs' p' u' st' where *: "drop (length Xs) ((p, u) # st0) = (p', u') # st'" "p' \<in> set S'"
      "spans R ((p', u') # st') us'" "us = us' @ vs'"
      "yields R (rev Xs) vs' (rev (map snd (take (length Xs) ((p, u) # st0))))" by auto
    have "yields R (rev (X # Xs)) (vs' @ vs) (rev (map snd (take (length (X # Xs)) ((s, v) # a # st0))))"
      using yields_snoc [where R = R, OF *(5) R] a by simp
    moreover have "drop (length (X # Xs)) ((s, v) # a # st0) = (p', u') # st'" using *(1) a by simp
    ultimately show ?thesis using *(2-4) ts Cons by (metis append.assoc)
  qed
qed

text \<open>A reduction, and the step to the state that its goto gives.\<close>

lemma spans_reduce:
  assumes "spans R st ts" and "reduce_ok (fst (hd st)) r"
  obtains us vs p u st' where "drop (yyr2 ! r) st = (p, u) # st'" "spans R ((p, u) # st') us" "ts = us @ vs"
    "yields R (yyrhs ! r) vs (rev (map snd (take (yyr2 ! r) st)))" "exposed_ok (fst (hd st)) r p"
proof -
  obtain s v st0 where st: "st = (s, v) # st0" using spans_top [OF assms(1)] by (cases st) auto
  have r: "2 \<le> r" "r \<le> 89" using assms(2) by (auto simp: reduce_ok_def)
  obtain S where S: "yy_expose (rev (yyrhs ! r)) [s] = Some S" and ok: "all_exposed_ok s r S"
    using assms(2) st by (auto simp: reduce_ok_def split: option.splits)
  have all: "all_exposed_ok s r ps \<longleftrightarrow> (\<forall>p \<in> set ps. exposed_ok s r p)" for ps by (induction ps) auto
  have "0 \<notin> set (rev (yyrhs ! r))" using rule_facts(3) [OF r] by simp
  from spans_expose [OF assms(1) [unfolded st] _ S this]
  show thesis using that ok unfolding all st rule_facts(1) [OF r] by auto
qed

section \<open>Types of the actions\<close>

text \<open>Errors of the operations that the actions call are not \<open>WrongMember\<close>.\<close>

lemma bindr_eq_Inl: "bindr r f = Inl e \<longleftrightarrow> r = Inl e \<or> (\<exists>x. r = Inr x \<and> f x = Inl e)"
  by (cases r) auto

lemma mapr_eq_Inl: "mapr f xs = Inl e \<Longrightarrow> \<exists>x \<in> set xs. f x = Inl e"
  by (induction xs) (auto simp: bindr_eq_Inl)

lemma foldm_eq_Inl: "foldm f xs s = Inl e \<Longrightarrow> \<exists>x \<in> set xs. \<exists>s. f x s = Inl e"
  by (induction xs arbitrary: s) (auto simp: bindr_eq_Inl)

lemma collapse_check_members: "collapse_check ad f i s es \<noteq> Inl WrongMember"
  by (induction ad f i s es rule: collapse_check.induct) (auto split: if_splits option.splits trm.splits)

lemma collapse_members:
  "collapse ad invOf e \<noteq> Inl WrongMember" "term_collapse ad invOf t \<noteq> Inl WrongMember"
  by (induction ad invOf e and ad invOf t rule: collapse_term_collapse.induct)
    (auto simp: bindr_eq_Inl collapse_check_members dest!: mapr_eq_Inl split: option.splits)


lemma cleanUp_members: "cleanUp w c \<noteq> Inl WrongMember"
  by (auto simp: cleanUp_def bindr_eq_Inl Let_def collapse_members dest!: mapr_eq_Inl)

lemma setTupleDecl_members: "setTupleDecl td c \<noteq> Inl WrongMember"
  by (auto simp: setTupleDecl_def bindr_eq_Inl merge_decl_def copyTupleElem_def dest!: foldm_eq_Inl split: if_splits)

lemma Set_new_members: "Set_new ad n \<noteq> Inl WrongMember"
proof -
  have "default_names ks td \<noteq> Inl WrongMember" for ks td
    by (induction ks arbitrary: td) (auto simp: bindr_eq_Inl setTupleElem_var_def split: if_splits)
  then show ?thesis by (auto simp: Set_new_def bindr_eq_Inl sDefaultTupleDecl_def)
qed

lemma action_members:
  "conj_action w td es \<noteq> Inl WrongMember" "rel_conj_action w n td1 td2 es \<noteq> Inl WrongMember"
  "set_action w cs \<noteq> Inl WrongMember" "rel_action w cs \<noteq> Inl WrongMember"
  "tuple_action es \<noteq> Inl WrongMember" "call_action f es i \<noteq> Inl WrongMember"
  "setTupleElem_var k s td \<noteq> Inl WrongMember" "setTupleElem_const k m td \<noteq> Inl WrongMember"
  by (auto simp: conj_action_def rel_conj_action_def set_action_def rel_action_def tuple_action_def call_action_def
      bindr_eq_Inl setTupleDecl_members Set_new_members cleanUp_members substituteTupleDecl_def substituteInConstraints_def
      setTupleDecl_inout_def rel_addConjunction_def setExpElem_def setParamExp_def tupexp_copy_def ufcall_copy_def
      setTupleElem_var_def setTupleElem_const_def dest!: foldm_eq_Inl split: if_splits list.splits prod.splits)

text \<open>An action gives a value of the type of its left-hand side.\<close>

lemma structure_action_typed:
  assumes "8 \<le> r" "r \<le> 42" "structure_action w r vs = Inr v"
  shows "typed (yyr1 ! r) v"
proof -
  have "r = 8 \<or> r = 9 \<or> r = 10 \<or> r = 11 \<or> r = 12 \<or> r = 13 \<or> r = 14 \<or> r = 15 \<or> 
    r = 16 \<or> r = 17 \<or> r = 18 \<or> r = 19 \<or> r = 20 \<or> r = 21 \<or> r = 22 \<or> 
    r = 23 \<or> r = 24 \<or> r = 25 \<or> r = 26 \<or> r = 27 \<or> r = 28 \<or> r = 29 \<or> 
    r = 30 \<or> r = 31 \<or> r = 32 \<or> r = 33 \<or> r = 34 \<or> r = 35 \<or> r = 36 \<or> 
    r = 37 \<or> r = 38 \<or> r = 39 \<or> r = 40 \<or> r = 41 \<or> r = 42"
    using assms(1,2) by presburger
  then show ?thesis
    by (elim disjE) (use assms(3) in \<open>auto simp: structure_rules_def bind2_def bindr_eq_Inr yyr1_nth typed_def\<close>)
qed

lemma constraint_action_typed:
  assumes "43 \<le> r" "r \<le> 66" "constraint_action r vs = Inr v"
  shows "typed (yyr1 ! r) v"
proof -
  have "r = 43 \<or> r = 44 \<or> r = 45 \<or> r = 46 \<or> r = 47 \<or> r = 48 \<or> r = 49 \<or> 
    r = 50 \<or> r = 51 \<or> r = 52 \<or> r = 53 \<or> r = 54 \<or> r = 55 \<or> r = 56 \<or> 
    r = 57 \<or> r = 58 \<or> r = 59 \<or> r = 60 \<or> r = 61 \<or> r = 62 \<or> r = 63 \<or> 
    r = 64 \<or> r = 65 \<or> r = 66"
    using assms(1,2) by presburger
  then show ?thesis
    by (elim disjE) (use assms(3) in \<open>auto simp: constraint_action_def range_action_def compare_action_def bind2_def bindr_eq_Inr yyr1_nth typed_def\<close>)
qed

lemma expression_action_typed:
  assumes "67 \<le> r" "r \<le> 89" "expression_action r vs = Inr v"
  shows "typed (yyr1 ! r) v"
proof -
  have "r = 67 \<or> r = 68 \<or> r = 69 \<or> r = 70 \<or> r = 71 \<or> r = 72 \<or> r = 73 \<or> 
    r = 74 \<or> r = 75 \<or> r = 76 \<or> r = 77 \<or> r = 78 \<or> r = 79 \<or> r = 80 \<or> 
    r = 81 \<or> r = 82 \<or> r = 83 \<or> r = 84 \<or> r = 85 \<or> r = 86 \<or> r = 87 \<or> 
    r = 88 \<or> r = 89"
    using assms(1,2) by presburger
  then show ?thesis
    by (elim disjE) (use assms(3) in \<open>auto simp: expression_rules_def scale_action_def compare_action_def bind2_def bindr_eq_Inr yyr1_nth typed_def\<close>)
qed

text \<open>The arguments of an action have the types of the right-hand side, and then no action reads another
  member than the one that is there.\<close>

definition has_type :: "nat \<Rightarrow> unit list \<Rightarrow> yyval \<Rightarrow> bool" where
  "has_type X ts v \<longleftrightarrow> ts = [] \<and> typed X v"

lemma structure_action_members:
  assumes "8 \<le> r" "r \<le> 42" "yields has_type (yyrhs ! r) ts vs"
  shows "structure_action w r vs \<noteq> Inl WrongMember"
proof -
  have "r = 8 \<or> r = 9 \<or> r = 10 \<or> r = 11 \<or> r = 12 \<or> r = 13 \<or> r = 14 \<or> r = 15 \<or> 
    r = 16 \<or> r = 17 \<or> r = 18 \<or> r = 19 \<or> r = 20 \<or> r = 21 \<or> r = 22 \<or> 
    r = 23 \<or> r = 24 \<or> r = 25 \<or> r = 26 \<or> r = 27 \<or> r = 28 \<or> r = 29 \<or> 
    r = 30 \<or> r = 31 \<or> r = 32 \<or> r = 33 \<or> r = 34 \<or> r = 35 \<or> r = 36 \<or> 
    r = 37 \<or> r = 38 \<or> r = 39 \<or> r = 40 \<or> r = 41 \<or> r = 42"
    using assms(1,2) by presburger
  then show ?thesis
    by (elim disjE) (use assms(3) in \<open>auto simp: structure_rules_def bind2_def bindr_eq_Inl yyrhs_nth yields_simps has_type_def typed_def action_members\<close>)
qed

lemma constraint_action_members:
  assumes "43 \<le> r" "r \<le> 66" "yields has_type (yyrhs ! r) ts vs"
  shows "constraint_action r vs \<noteq> Inl WrongMember"
proof -
  have "r = 43 \<or> r = 44 \<or> r = 45 \<or> r = 46 \<or> r = 47 \<or> r = 48 \<or> r = 49 \<or> 
    r = 50 \<or> r = 51 \<or> r = 52 \<or> r = 53 \<or> r = 54 \<or> r = 55 \<or> r = 56 \<or> 
    r = 57 \<or> r = 58 \<or> r = 59 \<or> r = 60 \<or> r = 61 \<or> r = 62 \<or> r = 63 \<or> 
    r = 64 \<or> r = 65 \<or> r = 66"
    using assms(1,2) by presburger
  then show ?thesis
    by (elim disjE) (use assms(3) in \<open>auto simp: constraint_action_def range_action_def compare_action_def bind2_def bindr_eq_Inl yyrhs_nth yields_simps has_type_def typed_def action_members\<close>)
qed

lemma expression_action_members:
  assumes "67 \<le> r" "r \<le> 89" "yields has_type (yyrhs ! r) ts vs"
  shows "expression_action r vs \<noteq> Inl WrongMember"
proof -
  have "r = 67 \<or> r = 68 \<or> r = 69 \<or> r = 70 \<or> r = 71 \<or> r = 72 \<or> r = 73 \<or> 
    r = 74 \<or> r = 75 \<or> r = 76 \<or> r = 77 \<or> r = 78 \<or> r = 79 \<or> r = 80 \<or> 
    r = 81 \<or> r = 82 \<or> r = 83 \<or> r = 84 \<or> r = 85 \<or> r = 86 \<or> r = 87 \<or> 
    r = 88 \<or> r = 89"
    using assms(1,2) by presburger
  then show ?thesis
    by (elim disjE) (use assms(3) in \<open>auto simp: expression_rules_def scale_action_def compare_action_def bind2_def bindr_eq_Inl yyrhs_nth yields_simps has_type_def typed_def action_members\<close>)
qed

lemma semantic_action_ok:
  assumes "2 \<le> r" "r \<le> 89" and "yields has_type (yyrhs ! r) ts vs"
  shows "semantic_action w r vs g \<noteq> Inl WrongMember"
    and "semantic_action w r vs g = Inr (v, g') \<Longrightarrow> typed (yyr1 ! r) v \<and> chars_left g' = chars_left g"
proof -
  show "semantic_action w r vs g \<noteq> Inl WrongMember"
  proof (cases "r \<le> 7")
    case True
    then have "r = 2 \<or> r = 3 \<or> r = 4 \<or> r = 5 \<or> r = 6 \<or> r = 7" using assms(1) by presburger
    then show ?thesis
      by (elim disjE) (use assms(3) in \<open>auto simp: semantic_action_def start_action_def bindr_eq_Inl yyrhs_nth
        numeral_2_eq_2 [symmetric] yields_simps has_type_def typed_def\<close>)
  next
    case False
    then show ?thesis
      using structure_action_members [of r ts vs w] constraint_action_members [of r ts vs] expression_action_members [of r ts vs] assms
      by (auto simp: semantic_action_def value_action_def bindr_eq_Inl split: if_splits)
  qed
  show "typed (yyr1 ! r) v \<and> chars_left g' = chars_left g" if "semantic_action w r vs g = Inr (v, g')"
  proof (cases "r \<le> 7")
    case True
    then have "r = 2 \<or> r = 3 \<or> r = 4 \<or> r = 5 \<or> r = 6 \<or> r = 7" using assms(1) by presburger
    then show ?thesis
      by (elim disjE) (use that in \<open>auto simp: semantic_action_def start_action_def bindr_eq_Inr yyr1_nth
        numeral_2_eq_2 [symmetric] typed_def\<close>)
  next
    case False
    then show ?thesis
      using structure_action_typed [of r w vs v] constraint_action_typed [of r vs v] expression_action_typed [of r vs v] assms that
      by (auto simp: semantic_action_def value_action_def bindr_eq_Inr split: if_splits)
  qed
qed

section \<open>Tokens\<close>

lemma translate_code:
  assumes "ch = 0 \<or> 258 \<le> ch \<and> ch \<le> 285"
  shows "yy_translate ch = (if ch = 0 then 0 else ch - 255)"
proof -
  have len: "length yytranslate = 286" by (simp add: yytranslate_def)
  have zero: "yytranslate ! 0 = 0" by (simp add: yytranslate_def)
  have "drop 258 yytranslate = [3..<31]" by (simp add: yytranslate_def)
  then have "yytranslate ! ch = [3..<31] ! (ch - 258)" if "258 \<le> ch" "ch \<le> 285"
    using nth_drop [of 258 yytranslate "ch - 258"] that len by simp
  then have "yytranslate ! ch = ch - 255" if "258 \<le> ch" "ch \<le> 285"
    using that by (simp del: upt_rec_numeral)
  then show ?thesis using assms zero by (auto simp: yy_translate_def)
qed

definition token_ok :: "nat \<Rightarrow> yyval \<Rightarrow> bool" where
  "token_ok ch v \<longleftrightarrow> (ch = 0 \<or> 258 \<le> ch \<and> ch \<le> 285) \<and> typed (yy_translate ch) v"

lemma yylex_ok:
  "yylex g = Inr (ch, v, g') \<Longrightarrow>
   token_ok ch v \<and> chars_left g' \<le> chars_left g \<and> (ch \<noteq> 0 \<longrightarrow> chars_left g' < chars_left g)"
proof (induction g rule: yylex.induct)
  case (1 g)
  obtain r h where r: "yy_next_char g = (r, h)" by fastforce
  show ?case
  proof (cases r)
    case None
    then show ?thesis using "1.prems" r yy_next_char_left_le [OF r]
      by (auto simp: yylex.simps [of g] token_ok_def typed_def translate_code)
  next
    case (Some c)
    obtain act k tok where act: "yy_find_action (yy_match 1 None [] g) = Inr (act, k)" "yy_action act (yytext k) = Inr tok"
      and tok: "(case tok of Some (t, v) \<Rightarrow> Inr (t, v, k) | None \<Rightarrow> yylex k) = Inr (ch, v, g')"
      using "1.prems" r Some by (auto simp: yylex.simps [of g] bindr_eq_Inr)
    have less: "chars_left k < chars_left g" using yy_find_action_chars r Some act(1) by auto
    show ?thesis
    proof (cases tok)
      case None
      have "yylex k = Inr (ch, v, g')" using tok None by simp
      from "1.IH" [OF r [symmetric] Some act(1) refl act(2) None this] show ?thesis using less by fastforce
    next
      case (Some tv)
      have "token_ok t u" if "yy_action act s = Inr (Some (t, u))" for t u s
      proof -
        have "t \<in> set keyword_tokens \<and> u = V_none \<or> t = 277 \<and> (\<exists>s. u = V_str s) \<or> t = 278 \<and> (\<exists>n. u = V_int n)
          \<or> t = 279 \<and> u = V_none"
        proof -
          have "length keyword_tokens = 27" by (simp add: keyword_tokens_def)
          then have "keyword_tokens ! (act - 1) \<in> set keyword_tokens" if "1 \<le> act" "act \<le> 27"
            using that by (intro nth_mem) simp
          then show ?thesis using that by (auto simp: yy_action_def bindr_eq_Inr split: if_splits)
        qed
        moreover have "list_all (\<lambda>t. 258 \<le> t \<and> t \<le> 285 \<and> typed (t - 255) V_none) keyword_tokens"
          by (simp add: keyword_tokens_def typed_def)
        moreover have "typed (277 - 255) (V_str x)" "typed (278 - 255) (V_int n)" "typed (279 - 255) V_none" for x n
          by (simp_all add: typed_def)
        ultimately have "258 \<le> t \<and> t \<le> 285 \<and> typed (t - 255) u"
          unfolding list_all_iff by (elim disjE conjE exE) simp_all
        then show ?thesis by (simp add: token_ok_def translate_code)
      qed
      then show ?thesis using tok Some act(2) less by (cases tv) auto
    qed
  qed
qed

lemma yylex_members: "yylex g \<noteq> Inl WrongMember"
proof (induction g rule: yylex.induct)
  case (1 g)
  have find: "yy_find_action m \<noteq> Inl WrongMember" for m
    by (auto simp: yy_find_action_def Let_def split: prod.splits if_splits option.splits)
  have act: "yy_action act run \<noteq> Inl WrongMember" for act run
    by (auto simp: yy_action_def bindr_eq_Inl atoi_def Let_def split: if_splits)
  show ?case
  proof (cases "yy_next_char g")
    case (Pair r h)
    show ?thesis
    proof (cases r)
      case None
      then show ?thesis using Pair by (simp add: yylex.simps [of g])
    next
      case (Some c)
      show ?thesis
      proof (cases "yy_find_action (yy_match 1 None [] g)")
        case (Inl e)
        then show ?thesis using Pair Some find [of "yy_match 1 None [] g"] by (simp add: yylex.simps [of g])
      next
        case (Inr ak)
        obtain a k where ak: "ak = (a, k)" by fastforce
        show ?thesis
        proof (cases "yy_action a (yytext k)")
          case (Inl e)
          then show ?thesis using Pair Some Inr ak act [of a "yytext k"] by (simp add: yylex.simps [of g])
        next
          case tok: (Inr tok)
          show ?thesis
          proof (cases tok)
            case None
            then show ?thesis using "1.IH" [OF Pair [symmetric] Some Inr ak [symmetric] tok None] Pair Some Inr ak tok
              by (simp add: yylex.simps [of g])
          qed (use Pair Some Inr ak tok in \<open>auto simp: yylex.simps [of g]\<close>)
        qed
      qed
    qed
  qed
qed

section \<open>The invariant of the loop\<close>

definition lookahead_ok :: "config \<Rightarrow> bool" where
  "lookahead_ok cf \<longleftrightarrow> (\<forall>ch. yychar cf = Some ch \<longrightarrow> token_ok ch (yylval cf))"

definition config_ok :: "config \<Rightarrow> bool" where
  "config_ok cf \<longleftrightarrow> spans has_type (yystack cf) [] \<and> lookahead_ok cf \<and> yyerrstatus cf \<le> 3"

definition yy_top :: "config \<Rightarrow> nat" where
  "yy_top cf = fst (hd (yystack cf))"

text \<open>Characters weigh 18, also the one token that has been read and not shifted; the state before an error
  weighs 9, what the stack can grow by an error; an entry of the stack weighs 2.\<close>

definition yy_measure :: "config \<Rightarrow> nat" where
  "yy_measure cf =
     18 * (chars_left (glob cf) + (case yychar cf of Some ch \<Rightarrow> if ch = YYEOF then 0 else 1 | None \<Rightarrow> 0))
     + (if yyerrstatus cf < 3 \<and> yy_top cf \<noteq> 14 then 9 else 0)
     + 2 * length (yystack cf) + yy_potential ! yy_top cf"

definition outcome_ok :: "config \<Rightarrow> outcome \<Rightarrow> bool" where
  "outcome_ok cf res \<longleftrightarrow>
     (case res of
        Continue cf' \<Rightarrow> config_ok cf' \<and> yy_measure cf' < yy_measure cf
      | Return n g \<Rightarrow> True
      | Throw e g \<Rightarrow> e \<noteq> WrongMember)"

lemma spans_has_type_Nil: "spans has_type st ts \<Longrightarrow> ts = []"
  by (induction has_type st ts rule: spans.induct) (auto simp: has_type_def)

lemma yyreduce_ok:
  assumes "config_ok cf" and "reduce_ok (yy_top cf) r" and "yy_top cf \<noteq> 14"
  shows "outcome_ok cf (yyreduce w r cf)"
proof -
  have r: "2 \<le> r" "r \<le> 89" using assms(2) by (auto simp: reduce_ok_def)
  let ?n = "yyr2 ! r" and ?vs = "rev (map snd (take (yyr2 ! r) (yystack cf)))"
  obtain p u st' vs where drop: "drop ?n (yystack cf) = (p, u) # st'" and sp: "spans has_type ((p, u) # st') []"
    and y: "yields has_type (yyrhs ! r) vs ?vs" and ok: "exposed_ok (yy_top cf) r p"
  proof -
    have "spans has_type (yystack cf) []" "reduce_ok (fst (hd (yystack cf))) r"
      using assms by (auto simp: config_ok_def yy_top_def)
    then show thesis by (rule spans_reduce) (use that in \<open>auto simp: yy_top_def\<close>)
  qed
  note sem = semantic_action_ok [OF r y, of w "glob cf"]
  show ?thesis
  proof (cases "semantic_action w r ?vs (glob cf)")
    case (Inl e)
    then show ?thesis using sem(1) by (simp add: yyreduce_def outcome_ok_def Let_def)
  next
    case (Inr vg)
    obtain v g where vg: "vg = (v, g)" by fastforce
    let ?q = "yy_goto p (yyr1 ! r)"
    let ?cf = "cf\<lparr>yystack := (?q, v) # (p, u) # st', glob := g, yychar := (if clears_lookahead r then None else yychar cf)\<rparr>"
    have res: "yyreduce w r cf = Continue ?cf" using Inr vg drop by (simp add: yyreduce_def Let_def)
    have q: "?q < 156" "yystos ! ?q = yyr1 ! r" "p \<in> set (yy_below ! ?q)"
      "yy_potential ! ?q + 2 < yy_potential ! yy_top cf + 2 * length (yyrhs ! r)"
      using ok by (auto simp: exposed_ok_def Let_def)
    have tv: "typed (yystos ! ?q) v" "chars_left g = chars_left (glob cf)" using sem(2) Inr vg q(2) by auto
    have "spans has_type ((?q, v) # (p, u) # st') []"
      using spans_push [OF sp q(1,3), where v = v and vs = "[]"] tv by (simp add: has_type_def)
    then have "config_ok ?cf" using assms(1) by (auto simp: config_ok_def lookahead_ok_def)
    moreover have "yy_measure ?cf < yy_measure cf"
    proof -
      have "?q \<noteq> 14" using q(2) rule_facts(2) [OF r] by auto
      have "length (yystack cf) = ?n + Suc (length st')"
        using arg_cong [OF drop, of length] by (simp add: less_diff_conv)
      then show ?thesis using q(4) tv(2) rule_facts(1) [OF r] assms(3) \<open>?q \<noteq> 14\<close>
        by (auto simp: yy_measure_def yy_top_def split: option.split)
    qed
    ultimately show ?thesis by (simp add: res outcome_ok_def)
  qed
qed

lemma below_not_final: "q < 156 \<Longrightarrow> p \<in> set (yy_below ! q) \<Longrightarrow> p \<noteq> 14"
proof -
  have "list_all (\<lambda>ps. 14 \<notin> set ps) yy_below" "length yy_below = 156" by (simp_all add: yy_below_def)
  then show "q < 156 \<Longrightarrow> p \<in> set (yy_below ! q) \<Longrightarrow> p \<noteq> 14" by (metis list_all_length)
qed

lemma yyerrlab1_ok:
  assumes "config_ok cf" and "yy_top cf \<noteq> 14" and "yy_measure (cf'\<lparr>yyerrstatus := 3\<rparr>) + 8 < yy_measure cf"
    and "yystack cf' = yystack cf" "lookahead_ok cf'"
  shows "outcome_ok cf (yyerrlab1 cf')"
proof (cases "pop_to_error (yystack cf')")
  case None
  then show ?thesis by (simp add: yyerrlab1_def outcome_ok_def)
next
  case (Some stq)
  obtain st q where stq: "stq = (st, q)" by fastforce
  have pop: "pop_to_error xs = Some (st, q) \<Longrightarrow> spans has_type xs [] \<Longrightarrow> fst (hd xs) \<noteq> 14 \<Longrightarrow>
      spans has_type ((q, v) # st) [] \<and> length st \<le> length xs \<and> q < 156 \<and> q \<noteq> 14" for xs v
  proof (induction xs)
    case (Cons x xs)
    obtain s u where x: "x = (s, u)" by fastforce
    show ?case
    proof (cases "yy_shift_error s")
      case None
      show ?thesis
      proof (cases xs)
        case Nil
        then show ?thesis using Cons.prems None x by simp
      next
        case (Cons y ys)
        obtain p t where y: "y = (p, t)" by fastforce
        have sp: "s < 156" "p \<in> set (yy_below ! s)" "spans has_type xs []"
          using Cons.prems(2) unfolding x Cons y by (auto dest: spans_has_type_Nil)
        moreover have "p \<noteq> 14" by (rule below_not_final [OF sp(1,2)])
        ultimately show ?thesis using Cons.IH Cons.prems(1) None x y Cons by auto
      qed
    next
      case (Some q')
      then have st: "st = (s, u) # xs" "q' = q" using Cons.prems(1) x by auto
      have "shift_ok s 1 q"
        using shift_error_ok [OF _ _ Some] spans_top [OF Cons.prems(2)] Cons.prems(3) st x by simp
      then show ?thesis
        using spans_push [OF Cons.prems(2) [unfolded x], where v = v and vs = "[]" and q = q] st x
        by (auto simp: shift_ok_def has_type_def typed_def)
    qed
  qed simp
  have "spans has_type (yystack cf') []" "fst (hd (yystack cf')) \<noteq> 14"
    using assms(1,2,4) by (auto simp: config_ok_def yy_top_def)
  note p = pop [OF Some [unfolded stq] this]
  let ?cf = "cf'\<lparr>yystack := (q, yylval cf') # st, yyerrstatus := 3\<rparr>"
  have "yy_potential ! q \<le> 6" using potential_le p by blast
  moreover have "length st \<le> length (yystack cf')" using p by blast
  ultimately have "yy_measure ?cf \<le> yy_measure (cf'\<lparr>yyerrstatus := 3\<rparr>) + 8"
    by (simp add: yy_measure_def yy_top_def)
  then have "yy_measure ?cf < yy_measure cf" using assms(3) by simp
  moreover have "config_ok ?cf" using p [of "yylval cf'"] assms(5) by (auto simp: config_ok_def lookahead_ok_def)
  ultimately show ?thesis by (simp add: yyerrlab1_def Some stq outcome_ok_def)
qed

text \<open>An error is only detected with a token.\<close>

lemma yyerrlab_ok:
  assumes "config_ok cf" and "yy_top cf \<noteq> 14" and "yychar cf = Some ch"
  shows "outcome_ok cf (yyerrlab cf)"
proof -
  consider "yyerrstatus cf = 0" | "yyerrstatus cf = 3" "ch = YYEOF" | "yyerrstatus cf = 3" "ch \<noteq> YYEOF"
    | "yyerrstatus cf = 1 \<or> yyerrstatus cf = 2"
    using assms(1) by (force simp: config_ok_def)
  then show ?thesis
  proof cases
    case 1
    have less: "18 * chars_left (yyerror msg (glob cf)) \<le> 18 * chars_left (glob cf)" for msg
      by (simp add: yyerror_def chars_left_def)
    show ?thesis
      unfolding yyerrlab_def using 1 assms
      by (auto simp: Let_def lookahead_ok_def yy_measure_def yy_top_def intro!: yyerrlab1_ok less [THEN le_less_trans])
  next
    case 2
    then show ?thesis by (simp add: yyerrlab_def assms(3) outcome_ok_def)
  next
    case 3
    then show ?thesis
      using assms by (auto simp: yyerrlab_def lookahead_ok_def yy_measure_def yy_top_def intro!: yyerrlab1_ok)
  next
    case 4
    then show ?thesis
      using assms by (auto simp: yyerrlab_def config_ok_def yy_measure_def yy_top_def intro!: yyerrlab1_ok)
  qed
qed

lemma yyperform_ok:
  assumes "config_ok cf" and "yy_top cf \<noteq> 14" and "yychar cf = Some ch" and "\<not> yy_consistent (yy_top cf)"
  shows "outcome_ok cf (yyperform w (yy_lookup (yy_top cf) (yy_translate ch)) cf)"
proof -
  have top: "yy_top cf < 156" using assms(1) spans_top by (auto simp: config_ok_def yy_top_def)
  have tok: "token_ok ch (yylval cf)" using assms(1,3) by (auto simp: config_ok_def lookahead_ok_def)
  then have tr: "yy_translate ch < 31" "yy_translate ch = 0 \<longleftrightarrow> ch = 0" by (auto simp: token_ok_def translate_code)
  note lookup = lookup_ok [OF top assms(2,4) tr(1)]
  show ?thesis
  proof (cases "yy_lookup (yy_top cf) (yy_translate ch)")
    case (Shift q)
    then have q: "q < 156" "yystos ! q = yy_translate ch" "yy_top cf \<in> set (yy_below ! q)"
      "yy_translate ch = 0 \<Longrightarrow> yy_top cf = 4 \<and> q = 14"
      using lookup(1) by (auto simp: shift_ok_def)
    obtain s v st where st: "yystack cf = (s, v) # st" using assms(1) spans_top by (cases "yystack cf") (auto simp: config_ok_def)
    let ?cf = "cf\<lparr>yystack := (q, yylval cf) # yystack cf, yychar := None, yyerrstatus := yyerrstatus cf - 1\<rparr>"
    have "spans has_type ((q, yylval cf) # yystack cf) []"
      using spans_push [where R = has_type and p = s and u = v and st = st and us = "[]" and q = q and v = "yylval cf" and vs = "[]"] assms(1) q(1-3) tok st
      by (auto simp: config_ok_def yy_top_def has_type_def token_ok_def)
    then have "config_ok ?cf" using assms(1) by (auto simp: config_ok_def lookahead_ok_def)
    moreover have "yy_measure ?cf < yy_measure cf"
    proof (cases "ch = YYEOF")
      case True
      then have "yy_top cf = 4" "q = 14" using q(4) tr(2) by auto
      moreover have "yy_potential ! 14 = 0" "yy_potential ! 4 = 3" by (simp_all add: potential_nth)
      ultimately show ?thesis using assms(3) True by (simp add: yy_measure_def yy_top_def)
    next
      case False
      then have "q \<noteq> 14" using q(2) tr(2) by auto
      then show ?thesis using assms(3) False potential_le [OF q(1)] by (simp add: yy_measure_def yy_top_def)
    qed
    ultimately show ?thesis by (simp add: Shift outcome_ok_def)
  next
    case (Reduce r)
    then show ?thesis using yyreduce_ok [OF assms(1) lookup(2) assms(2)] by simp
  next
    case Syntax_error
    then show ?thesis using yyerrlab_ok [OF assms(1-3)] by simp
  qed
qed

lemma yystep_ok:
  assumes "config_ok cf"
  shows "outcome_ok cf (yystep w cf)"
proof -
  have top: "yy_top cf < 156" using assms spans_top by (auto simp: config_ok_def yy_top_def)
  consider "length (yystack cf) \<ge> 10000 \<or> yy_top cf = 14" | "length (yystack cf) < 10000" "yy_top cf \<noteq> 14" "yy_consistent (yy_top cf)"
    | ch where "length (yystack cf) < 10000" "yy_top cf \<noteq> 14" "\<not> yy_consistent (yy_top cf)" "yychar cf = Some ch"
    | "length (yystack cf) < 10000" "yy_top cf \<noteq> 14" "\<not> yy_consistent (yy_top cf)" "yychar cf = None"
    by fastforce
  then show ?thesis
  proof cases
    case 1
    then show ?thesis by (auto simp: yystep_def yy_top_def outcome_ok_def Let_def)
  next
    case 2
    then obtain r where "yy_default (yy_top cf) = Reduce r" "reduce_ok (yy_top cf) r" using default_ok [OF top] by blast
    then show ?thesis using yyreduce_ok [OF assms _ 2(2), of r w] 2 by (simp add: yystep_def yy_top_def Let_def)
  next
    case 3
    then show ?thesis using yyperform_ok [OF assms 3(2) 3(4) 3(3), of w] by (simp add: yystep_def yy_top_def Let_def)
  next
    case 4
    show ?thesis
    proof (cases "yylex (glob cf)")
      case (Inl e)
      then show ?thesis using 4 yylex_members by (auto simp: yystep_def yy_top_def outcome_ok_def Let_def)
    next
      case (Inr tvg)
      obtain ch v g where tvg: "tvg = (ch, v, g)" by (cases tvg) auto
      note lex = yylex_ok [OF Inr [unfolded tvg]]
      let ?cf = "cf\<lparr>yychar := Some ch, yylval := v, glob := g\<rparr>"
      have ok: "config_ok ?cf" using assms lex by (auto simp: config_ok_def lookahead_ok_def)
      have "yy_measure ?cf \<le> yy_measure cf" using lex 4(4) by (auto simp: yy_measure_def yy_top_def)
      moreover have "outcome_ok ?cf (yystep w cf)"
        using yyperform_ok [OF ok, of ch w] 4 Inr tvg by (simp add: yystep_def yy_top_def Let_def)
      ultimately show ?thesis by (auto simp: outcome_ok_def split: outcome.splits)
    qed
  qed
qed

section \<open>The parser returns\<close>

lemma yyrun_returns:
  "config_ok cf \<Longrightarrow> yy_measure cf < n \<Longrightarrow> (\<forall>cf'. yyrun n w cf \<noteq> Continue cf') \<and> (\<forall>g. yyrun n w cf \<noteq> Throw WrongMember g)"
proof (induction n arbitrary: cf)
  case (Suc n)
  show ?case
  proof (cases "yystep w cf")
    case (Continue cf')
    then show ?thesis using yystep_ok [OF Suc.prems(1), of w] Suc.IH [of cf'] Suc.prems(2) by (simp add: outcome_ok_def)
  qed (use yystep_ok [OF Suc.prems(1), of w] in \<open>auto simp: outcome_ok_def\<close>)
qed simp

lemma yystart_ok: "config_ok (yystart g)" "yy_measure (yystart g) < yyfuel g"
  by (simp_all add: config_ok_def yystart_def lookahead_ok_def yy_measure_def yy_top_def yyfuel_def potential_nth)

lemma yyrun_more:
  "(\<forall>cf'. yyrun n w cf \<noteq> Continue cf') \<Longrightarrow> n \<le> m \<Longrightarrow> yyrun m w cf = yyrun n w cf"
proof (induction n arbitrary: m cf)
  case (Suc n)
  then obtain k where m: "m = Suc k" "n \<le> k" by (cases m) auto
  show ?case
  proof (cases "yystep w cf")
    case (Continue cf')
    have "yyrun k w cf' = yyrun n w cf'" by (rule Suc.IH) (use Suc.prems(1) Continue m in simp_all)
    then show ?thesis using Continue m(1) by simp
  qed (use m in simp_all)
qed simp

text \<open>
  C17. \<open>yyparse\<close> returns on every input: the loop ends within the number of steps of \<open>yyfuel\<close>, with a
  return code or with an error of an operation of the library, never because a value of the stack
  is read as another type than it has. More steps would give the same result.
\<close>

theorem yyparse_returns:
  "(\<exists>code g'. yyparse w g = Return code g') \<or> (\<exists>e g'. yyparse w g = Throw e g' \<and> e \<noteq> WrongMember)"
  using yyrun_returns [OF yystart_ok, of g w] by (cases "yyparse w g") (auto simp: yyparse_def)

lemma yyparse_fuel: "yyfuel g \<le> n \<Longrightarrow> yyrun n w (yystart g) = yyparse w g"
  using yyrun_returns [OF yystart_ok, of g w] yyrun_more unfolding yyparse_def by blast

section \<open>Types of the stack\<close>

lemma yyrun_config_ok: "config_ok cf \<Longrightarrow> yyrun n w cf = Continue cf' \<Longrightarrow> config_ok cf'"
proof (induction n arbitrary: cf)
  case (Suc n)
  then obtain cf1 where "yystep w cf = Continue cf1" "yyrun n w cf1 = Continue cf'" by (auto split: outcome.splits)
  moreover from this have "config_ok cf1" using yystep_ok [OF Suc.prems(1), of w] by (simp add: outcome_ok_def)
  ultimately show ?case using Suc.IH by blast
qed simp

lemma spans_typed: "spans has_type st ts \<Longrightarrow> list_all (\<lambda>(s, v). s = 0 \<or> s < 156 \<and> typed (yystos ! s) v) st"
  by (induction has_type st ts rule: spans.induct) (auto simp: has_type_def)

lemma yyperform_codes: "yyperform w a cf = Return code h \<Longrightarrow> code \<le> 2"
  by (cases a) (auto simp: yyreduce_def yyerrlab_def yyerrlab1_def Let_def split: sum.splits option.splits if_splits)

lemma yystep_codes: "yystep w cf = Return code h \<Longrightarrow> code \<le> 2"
  by (auto simp: yystep_def Let_def dest: yyperform_codes split: if_splits option.splits sum.splits)

lemma yyrun_codes: "yyrun n w cf = Return code h \<Longrightarrow> code \<le> 2"
  by (induction n arbitrary: cf) (auto dest: yystep_codes split: outcome.splits)

lemma yyrun_members: "config_ok cf \<Longrightarrow> yyrun n w cf \<noteq> Throw WrongMember h"
proof (induction n arbitrary: cf)
  case (Suc n)
  then show ?case using yystep_ok [OF Suc.prems, of w] by (auto simp: outcome_ok_def split: outcome.splits)
qed simp

text \<open>
  C40. After any number of steps of the parser every value on its stack has the type that \<open>parser.y\<close> declares for the
  symbol of its state, so that no action reads another member of \<open>YYSTYPE\<close> than was written;
  this holds also while the parser recovers from an error.
\<close>

theorem parser_stack_typed:
  "case yyrun n w (yystart g) of
     Continue cf \<Rightarrow> list_all (\<lambda>(s, v). s = 0 \<or> s < 156 \<and> typed (yystos ! s) v) (yystack cf) \<and> yystack cf \<noteq> []
   | Return code h \<Rightarrow> code \<le> 2
   | Throw e h \<Rightarrow> e \<noteq> WrongMember"
proof (cases "yyrun n w (yystart g)")
  case (Continue cf)
  then have "config_ok cf" using yyrun_config_ok [OF yystart_ok(1)] by blast
  then have "spans has_type (yystack cf) []" by (simp add: config_ok_def)
  then show ?thesis using Continue spans_typed spans_top by fastforce
next
  case (Return code h)
  then show ?thesis using yyrun_codes [of n w "yystart g"] by simp
next
  case (Throw e h)
  then show ?thesis using yyrun_members [OF yystart_ok(1), of n w g h] by auto
qed

end
