(* ===== verification/IEG_ScanRules.thy ===== *)
theory IEG_ScanRules
  imports IEG_Scanner IEG_ParseTables
begin

text \<open>
  The rules of \<open>parser.l\<close> as sets of strings, and what is left to match of them behind a first part of
  the input. Every state of the automaton of \<open>gen_scanner.cc\<close> stands for what is left of every rule;
  that the tables step from what is left to what is left is a finite check over the states and the
  classes of characters.
\<close>

section \<open>The rules of parser.l\<close>

definition ch_in :: "string \<Rightarrow> char \<Rightarrow> bool" where
  "ch_in s ch \<longleftrightarrow> ch \<in> set s"

definition is_letter :: "char \<Rightarrow> bool" where
  "is_letter ch \<longleftrightarrow> (let n = of_char ch :: nat in 65 \<le> n \<and> n \<le> 90 \<or> 97 \<le> n \<and> n \<le> 122)"

definition is_digit :: "char \<Rightarrow> bool" where
  "is_digit ch \<longleftrightarrow> (let n = of_char ch :: nat in 48 \<le> n \<and> n \<le> 57)"

text \<open>The classes \<open>[a-zA-Z'_]\<close>, \<open>[a-zA-Z'$]\<close> and \<open>[a-zA-Z0-9'$_]\<close>.\<close>

definition ident_head :: "char \<Rightarrow> bool" where
  "ident_head ch \<longleftrightarrow> is_letter ch \<or> ch = CHR 0x27 \<or> ch = CHR ''_''"

definition ident_body :: "char \<Rightarrow> bool" where
  "ident_body ch \<longleftrightarrow> is_letter ch \<or> ch = CHR 0x27 \<or> ch = CHR ''$''"

definition ident_tail :: "char \<Rightarrow> bool" where
  "ident_tail ch \<longleftrightarrow> is_letter ch \<or> is_digit ch \<or> ch = CHR 0x27 \<or> ch = CHR ''$'' \<or> ch = CHR ''_''"

definition lower :: "char \<Rightarrow> char" where
  "lower ch = (if is_letter ch \<and> of_char ch < (97::nat) then char_of (of_char ch + 32 :: nat) else ch)"

text \<open>Patterns: those of the rules, and what is left of them behind a first part. \<open>Word\<close> ignores case.\<close>

datatype pat = Lit string | Word string | Digits1 | Digits | Ident0 | Ident1 | IdentTail | Invalid0 | Blank | AnyChar

fun matches :: "pat \<Rightarrow> string \<Rightarrow> bool" where
  "matches (Lit s) w \<longleftrightarrow> w = s"
| "matches (Word s) w \<longleftrightarrow> map lower w = s"
| "matches Digits1 w \<longleftrightarrow> w \<noteq> [] \<and> list_all is_digit w"
| "matches Digits w \<longleftrightarrow> list_all is_digit w"
| "matches Ident0 w \<longleftrightarrow>
     (\<exists>x y z. w = x @ y @ z \<and> length x \<le> 1 \<and> list_all ident_head x \<and> y \<noteq> [] \<and> list_all ident_body y \<and> list_all ident_tail z)"
| "matches Ident1 w \<longleftrightarrow> (\<exists>y z. w = y @ z \<and> y \<noteq> [] \<and> list_all ident_body y \<and> list_all ident_tail z)"
| "matches IdentTail w \<longleftrightarrow> list_all ident_tail w"
| "matches Invalid0 w \<longleftrightarrow>
     (\<exists>u x y z. w = u @ x @ y @ z \<and> list_all (ch_in ''_$'') u \<and> length x \<le> 1 \<and> list_all ident_head x
        \<and> y \<noteq> [] \<and> list_all ident_body y \<and> list_all ident_tail z)"
| "matches Blank w \<longleftrightarrow> (\<exists>ch. w = [ch] \<and> ch_in [CHR '' '', CHR 0x09, CHR 0x0A, CHR 0x0D] ch)"
| "matches AnyChar w \<longleftrightarrow> length w = 1"

text \<open>The rules in their order; the last one is flex's default rule.\<close>

definition flex_rules :: "(nat \<times> pat) list" where
  "flex_rules =
    [(1, Lit ''+''), (2, Lit ''-''), (3, Lit ''*''), (4, Lit ''{''), (5, Lit ''}''), (6, Lit ''[''),
     (7, Lit '']''), (8, Lit ''(''), (9, Lit '')''), (10, Lit '',''), (11, Lit '':''), (12, Lit ''=''),
     (13, Lit ''<''), (14, Lit ''>''), (15, Lit ''<=''), (16, Lit ''>=''), (17, Lit ''->''),
     (18, Lit ''&&''), (19, Lit '';''), (20, Lit ''UNION''), (21, Lit ''union''), (22, Lit ''OR''),
     (23, Lit ''or''), (24, Lit ''exists''), (25, Lit ''inverse''), (26, Lit ''INVERSE''),
     (27, Word ''and''), (28, Ident0), (29, Digits1), (30, Invalid0), (31, Blank), (32, AnyChar)]"

text \<open>\<open>longest_match s k m\<close>: rule \<open>k\<close> matches \<open>m\<close>, no rule matches a longer prefix of \<open>s\<close> and no earlier one \<open>m\<close>.\<close>

definition longest_match :: "string \<Rightarrow> nat \<Rightarrow> string \<Rightarrow> bool" where
  "longest_match s k m \<longleftrightarrow>
     prefix m s \<and> m \<noteq> [] \<and> (\<exists>p. (k, p) \<in> set flex_rules \<and> matches p m) \<and>
     (\<forall>j p w. (j, p) \<in> set flex_rules \<longrightarrow> prefix w s \<longrightarrow> matches p w \<longrightarrow> length w < length m \<or> length w = length m \<and> k \<le> j)"

section \<open>What is left of a rule\<close>

fun deriv :: "char \<Rightarrow> pat \<Rightarrow> pat option" where
  "deriv ch (Lit s) = (case s of [] \<Rightarrow> None | d # s' \<Rightarrow> if ch = d then Some (Lit s') else None)"
| "deriv ch (Word s) = (case s of [] \<Rightarrow> None | d # s' \<Rightarrow> if lower ch = d then Some (Word s') else None)"
| "deriv ch Digits1 = (if is_digit ch then Some Digits else None)"
| "deriv ch Digits = (if is_digit ch then Some Digits else None)"
| "deriv ch Ident0 = (if ident_body ch then Some IdentTail else if ch = CHR ''_'' then Some Ident1 else None)"
| "deriv ch Ident1 = (if ident_body ch then Some IdentTail else None)"
| "deriv ch IdentTail = (if ident_tail ch then Some IdentTail else None)"
| "deriv ch Invalid0 = (if ident_body ch then Some IdentTail else if ch = CHR ''_'' then Some Invalid0 else None)"
| "deriv ch Blank = (if ch_in [CHR '' '', CHR 0x09, CHR 0x0A, CHR 0x0D] ch then Some (Lit []) else None)"
| "deriv ch AnyChar = Some (Lit [])"

fun derivs :: "char \<Rightarrow> (nat \<times> pat) list \<Rightarrow> (nat \<times> pat) list" where
  "derivs ch [] = []"
| "derivs ch ((k, p) # ps) = (case deriv ch p of None \<Rightarrow> derivs ch ps | Some q \<Rightarrow> (k, q) # derivs ch ps)"

fun nullable :: "pat \<Rightarrow> bool" where
  "nullable (Lit s) = (s = [])"
| "nullable (Word s) = (s = [])"
| "nullable Digits = True"
| "nullable IdentTail = True"
| "nullable _ = False"

lemma nullable_matches: "nullable p = matches p []"
  by (cases p) auto

declare matches.simps(5,6,8) [simp del]

lemma body_tail: "ident_body ch \<Longrightarrow> ident_tail ch"
  by (auto simp: ident_body_def ident_tail_def)

lemma body_tails: "list_all ident_body w \<Longrightarrow> list_all ident_tail w"
  by (auto simp: list_all_iff body_tail)

lemma matches_Ident1I: "y \<noteq> [] \<Longrightarrow> list_all ident_body y \<Longrightarrow> list_all ident_tail z \<Longrightarrow> matches Ident1 (y @ z)"
  unfolding matches.simps by blast

lemma matches_Ident1E:
  assumes "matches Ident1 w"
  obtains y z where "w = y @ z" "y \<noteq> []" "list_all ident_body y" "list_all ident_tail z"
  using assms unfolding matches.simps by blast

lemma ident1_Cons: "matches Ident1 (ch # w) \<longleftrightarrow> ident_body ch \<and> list_all ident_tail w"
proof
  assume "matches Ident1 (ch # w)"
  then obtain y z where "ch # w = y @ z" "y \<noteq> []" "list_all ident_body y" "list_all ident_tail z"
    by (rule matches_Ident1E)
  then show "ident_body ch \<and> list_all ident_tail w" by (cases y) (auto dest: body_tails)
next
  assume "ident_body ch \<and> list_all ident_tail w"
  then show "matches Ident1 (ch # w)" using matches_Ident1I [of "[ch]" w] by simp
qed

lemma ident1_tail: "matches Ident1 w \<Longrightarrow> list_all ident_tail w"
  by (cases w) (simp_all add: ident1_Cons body_tail)

lemma ident0_iff: "matches Ident0 w \<longleftrightarrow> matches Ident1 w \<or> (\<exists>h u. w = h # u \<and> ident_head h \<and> matches Ident1 u)"
proof
  assume "matches Ident0 w"
  then obtain x y z where w: "w = x @ y @ z" "length x \<le> 1" "list_all ident_head x" "y \<noteq> []" "list_all ident_body y" "list_all ident_tail z"
    unfolding matches.simps by blast
  show "matches Ident1 w \<or> (\<exists>h u. w = h # u \<and> ident_head h \<and> matches Ident1 u)"
  proof (cases x)
    case Nil
    then show ?thesis using w matches_Ident1I by simp
  next
    case (Cons h x')
    then show ?thesis using w matches_Ident1I by simp
  qed
next
  have more: "matches Ident0 (x @ u)" if "matches Ident1 u" "length x \<le> 1" "list_all ident_head x" for x u
    using that by (elim matches_Ident1E) (unfold matches.simps, blast)
  assume "matches Ident1 w \<or> (\<exists>h u. w = h # u \<and> ident_head h \<and> matches Ident1 u)"
  then show "matches Ident0 w" using more [of _ "[]"] more [of _ "[_]"] by fastforce
qed

lemma ident0_Cons: "matches Ident0 (ch # w) \<longleftrightarrow>
    (if ident_body ch then list_all ident_tail w else ch = CHR ''_'' \<and> matches Ident1 w)"
  unfolding ident0_iff ident1_Cons
  using ident1_tail [of w] by (auto simp: ident_head_def ident_body_def)

lemma ident0_tail: "matches Ident0 w \<Longrightarrow> list_all ident_tail w"
proof (cases w)
  case (Cons ch u)
  moreover have "ident_tail CHR ''_''" by (simp add: ident_tail_def)
  ultimately show "matches Ident0 w \<Longrightarrow> ?thesis"
    by (auto simp: ident0_Cons body_tail ident1_tail split: if_splits)
qed simp

lemma invalid0_iff: "matches Invalid0 w \<longleftrightarrow> (\<exists>u v. w = u @ v \<and> list_all (ch_in ''_$'') u \<and> matches Ident0 v)"
  unfolding matches.simps by blast

lemma invalid0_tail: "matches Invalid0 w \<Longrightarrow> list_all ident_tail w"
proof -
  have "ch_in ''_$'' ch \<Longrightarrow> ident_tail ch" for ch by (auto simp: ch_in_def ident_tail_def)
  then show "matches Invalid0 w \<Longrightarrow> list_all ident_tail w"
    unfolding invalid0_iff by (auto simp: list_all_iff dest!: ident0_tail)
qed

lemma invalid0_step: "matches Invalid0 (ch # w) \<longleftrightarrow> matches Ident0 (ch # w) \<or> ch_in ''_$'' ch \<and> matches Invalid0 w"
proof
  assume "matches Invalid0 (ch # w)"
  then obtain u v where u: "ch # w = u @ v" "list_all (ch_in ''_$'') u" "matches Ident0 v" unfolding invalid0_iff by blast
  show "matches Ident0 (ch # w) \<or> ch_in ''_$'' ch \<and> matches Invalid0 w"
  proof (cases u)
    case (Cons d u')
    then show ?thesis using u unfolding invalid0_iff by auto
  qed (use u in simp)
next
  assume a: "matches Ident0 (ch # w) \<or> ch_in ''_$'' ch \<and> matches Invalid0 w"
  then show "matches Invalid0 (ch # w)"
  proof
    assume "matches Ident0 (ch # w)"
    then have "ch # w = [] @ (ch # w) \<and> list_all (ch_in ''_$'') [] \<and> matches Ident0 (ch # w)" by simp
    then show ?thesis unfolding invalid0_iff by blast
  next
    assume b: "ch_in ''_$'' ch \<and> matches Invalid0 w"
    then obtain u v where "w = u @ v" "list_all (ch_in ''_$'') u" "matches Ident0 v" unfolding invalid0_iff by blast
    then have "ch # w = (ch # u) @ v \<and> list_all (ch_in ''_$'') (ch # u) \<and> matches Ident0 v" using b by simp
    then show ?thesis unfolding invalid0_iff by blast
  qed
qed

lemma ident1_invalid: "matches Ident1 w \<Longrightarrow> matches Invalid0 w"
proof -
  assume "matches Ident1 w"
  then have "w = [] @ w \<and> list_all (ch_in ''_$'') [] \<and> matches Ident0 w" by (simp add: ident0_iff)
  then show "matches Invalid0 w" unfolding invalid0_iff by blast
qed

lemma invalid0_Cons: "matches Invalid0 (ch # w) \<longleftrightarrow>
    (if ident_body ch then list_all ident_tail w else ch = CHR ''_'' \<and> matches Invalid0 w)"
  using invalid0_tail [of w] ident1_invalid [of w] unfolding invalid0_step ident0_Cons
  by (auto simp: ch_in_def ident_body_def is_letter_def)

lemma deriv_matches: "matches p (ch # w) \<longleftrightarrow> (case deriv ch p of None \<Rightarrow> False | Some q \<Rightarrow> matches q w)"
  by (cases p) (auto simp: ident0_Cons ident1_Cons invalid0_Cons ident_body_def is_letter_def split: list.splits)

text \<open>What is left of all rules behind \<open>run\<close>.\<close>

definition left_of :: "string \<Rightarrow> (nat \<times> pat) list" where
  "left_of run = foldl (\<lambda>ps ch. derivs ch ps) flex_rules run"

lemma left_of_simps: "left_of [] = flex_rules" "left_of (run @ [ch]) = derivs ch (left_of run)"
  by (simp_all add: left_of_def)

fun can_match :: "nat \<Rightarrow> string \<Rightarrow> (nat \<times> pat) list \<Rightarrow> bool" where
  "can_match k w [] = False"
| "can_match k w ((j, p) # ps) = (j = k \<and> matches p w \<or> can_match k w ps)"

lemma can_match_iff: "can_match k w ps \<longleftrightarrow> (\<exists>p. (k, p) \<in> set ps \<and> matches p w)"
  by (induction k w ps rule: can_match.induct) auto

lemma derivs_matches: "can_match k w (derivs ch ps) = can_match k (ch # w) ps"
  by (induction ch ps rule: derivs.induct) (simp_all add: deriv_matches split: option.split)

lemma left_of_matches: "can_match k w (left_of run) = can_match k (run @ w) flex_rules"
  by (induction run arbitrary: w rule: rev_induct) (simp_all add: left_of_simps derivs_matches)

text \<open>The rule that accepts: the first that has nothing left to match, 0 for none.\<close>

fun first_nullable :: "(nat \<times> pat) list \<Rightarrow> nat" where
  "first_nullable [] = 0"
| "first_nullable ((k, p) # ps) = (if nullable p then k else first_nullable ps)"

fun dead :: "(nat \<times> pat) list \<Rightarrow> bool" where
  "dead [] = True"
| "dead ((k, p) # ps) = (p = Lit [] \<and> dead ps)"

lemma first_nullable_least:
  assumes "sorted (map fst ps)"
  shows "can_match k [] ps \<Longrightarrow> first_nullable ps \<le> k \<and> can_match (first_nullable ps) [] ps"
  using assms
proof (induction ps)
  case (Cons jp ps)
  obtain j p where jp: "jp = (j, p)" by fastforce
  have "can_match i [] ps \<Longrightarrow> j \<le> i" for i using Cons.prems(2) jp by (auto simp: can_match_iff)
  then show ?case using Cons jp by (auto simp: nullable_matches)
qed simp

lemma derivs_keys: "fst ` set (derivs ch ps) \<subseteq> fst ` set ps"
  by (induction ch ps rule: derivs.induct) (auto split: option.splits)

lemma derivs_sorted: "sorted (map fst ps) \<Longrightarrow> sorted (map fst (derivs ch ps))"
proof (induction ch ps rule: derivs.induct)
  case (2 ch k p ps)
  have "\<forall>i \<in> fst ` set (derivs ch ps). k \<le> i" using "2.prems" derivs_keys [of ch ps] by fastforce
  then show ?case using 2 by (simp split: option.split)
qed simp

lemma left_of_keys: "fst ` set (left_of run) \<subseteq> {1..32}"
proof (induction run rule: rev_induct)
  case Nil
  show ?case by (simp add: left_of_simps flex_rules_def)
next
  case (snoc ch run)
  then show ?case using derivs_keys [of ch "left_of run"] unfolding left_of_simps by (rule subset_trans [rotated])
qed

lemma left_of_sorted: "sorted (map fst (left_of run))"
proof (induction run rule: rev_induct)
  case Nil
  show ?case by (simp add: left_of_simps flex_rules_def)
qed (simp add: left_of_simps derivs_sorted)

definition accepted :: "string \<Rightarrow> nat" where
  "accepted m = first_nullable (left_of m)"

lemma accepted_least: "can_match k m flex_rules \<Longrightarrow> accepted m \<le> k \<and> accepted m \<noteq> 0 \<and> can_match (accepted m) m flex_rules"
proof -
  assume "can_match k m flex_rules"
  then have *: "can_match k [] (left_of m)" by (simp add: left_of_matches)
  have "accepted m \<le> k" "can_match (accepted m) [] (left_of m)"
    using first_nullable_least [OF left_of_sorted *] by (auto simp: accepted_def)
  moreover from this(2) have "accepted m \<in> fst ` set (left_of m)" by (force simp: can_match_iff)
  ultimately show ?thesis using left_of_keys [of m] by (auto simp: left_of_matches)
qed

lemma accepted_matches: "accepted m \<noteq> 0 \<Longrightarrow> can_match (accepted m) m flex_rules"
proof -
  have "first_nullable ps \<noteq> 0 \<Longrightarrow> \<exists>k. can_match k [] ps" for ps
    by (induction ps) (auto simp: nullable_matches split: if_splits)
  then show "accepted m \<noteq> 0 \<Longrightarrow> can_match (accepted m) m flex_rules"
    using accepted_least left_of_matches unfolding accepted_def by (metis append_Nil2)
qed

text \<open>When what is left is \<open>dead\<close>, nothing longer matches.\<close>

lemma dead_end: "dead (left_of run) \<Longrightarrow> w \<noteq> [] \<Longrightarrow> \<not> can_match k (run @ w) flex_rules"
proof -
  have "dead ps \<Longrightarrow> w \<noteq> [] \<Longrightarrow> \<not> can_match k w ps" for ps
    by (induction ps rule: dead.induct) auto
  then show "dead (left_of run) \<Longrightarrow> w \<noteq> [] \<Longrightarrow> \<not> can_match k (run @ w) flex_rules"
    using left_of_matches by metis
qed

section \<open>Classes of characters\<close>

lemmas yy_accept_nth = nth_eqs_def [OF yy_accept_def, simplified nth_eqs.simps Suc_numeral numeral_2_eq_2 [symmetric] add_num_simps]
lemmas yy_meta_nth = nth_eqs_def [OF yy_meta_def, simplified nth_eqs.simps Suc_numeral numeral_2_eq_2 [symmetric] add_num_simps]
lemmas yy_base_nth = nth_eqs_def [OF yy_base_def, simplified nth_eqs.simps Suc_numeral numeral_2_eq_2 [symmetric] add_num_simps]
lemmas yy_def_nth = nth_eqs_def [OF yy_def_def, simplified nth_eqs.simps Suc_numeral numeral_2_eq_2 [symmetric] add_num_simps]
lemmas yy_nxt_nth = nth_eqs_def [OF yy_nxt_def, simplified nth_eqs.simps Suc_numeral numeral_2_eq_2 [symmetric] add_num_simps]
lemmas yy_chk_nth = nth_eqs_def [OF yy_chk_def, simplified nth_eqs.simps Suc_numeral numeral_2_eq_2 [symmetric] add_num_simps]

lemmas scan_nth = yy_accept_nth yy_meta_nth yy_base_nth yy_def_nth yy_nxt_nth yy_chk_nth

text \<open>A character of each class.\<close>

definition class_char :: "nat list" where
  "class_char =
    [0, 1, 9, 36, 38, 39, 40, 41, 42, 43, 44, 45, 48, 58, 59, 60, 61, 62, 65, 68, 69, 73, 78, 79, 82,
     83, 85, 86, 91, 93, 95, 101, 105, 110, 111, 114, 115, 116, 117, 118, 120, 123, 125]"

lemmas class_char_nth = nth_eqs_def [OF class_char_def, simplified nth_eqs.simps Suc_numeral numeral_2_eq_2 [symmetric] add_num_simps]

definition body_class :: "nat \<Rightarrow> bool" where
  "body_class k \<longleftrightarrow> k = 3 \<or> k = 5 \<or> 18 \<le> k \<and> k \<le> 27 \<or> 31 \<le> k \<and> k \<le> 40"

definition tail_class :: "nat \<Rightarrow> bool" where
  "tail_class k \<longleftrightarrow> body_class k \<or> k = 12 \<or> k = 30"

definition class_row_ok :: "nat \<Rightarrow> nat \<Rightarrow> bool" where
  "class_row_ok n k \<longleftrightarrow>
     1 \<le> k \<and> k \<le> 42 \<and>
     (48 \<le> n \<and> n \<le> 57 \<longleftrightarrow> k = 12) \<and>
     (65 \<le> n \<and> n \<le> 90 \<or> 97 \<le> n \<and> n \<le> 122 \<or> n = 39 \<or> n = 36 \<longleftrightarrow> body_class k) \<and>
     (n = 32 \<or> n = 9 \<or> n = 10 \<or> n = 13 \<longleftrightarrow> k = 2) \<and>
     (n = 95 \<longleftrightarrow> k = 30) \<and> (n = 65 \<or> n = 97 \<longleftrightarrow> k = 18) \<and> (n = 68 \<or> n = 100 \<longleftrightarrow> k = 19) \<and> (n = 78 \<or> n = 110 \<longleftrightarrow> k = 22 \<or> k = 33) \<and>
     (k = 1 \<or> k = 2 \<or> k = 5 \<or> k = 12 \<or> k = 18 \<or> k = 19 \<or> n = class_char ! k)"

fun class_rows_ok :: "nat \<Rightarrow> nat list \<Rightarrow> bool" where
  "class_rows_ok n [] = True"
| "class_rows_ok n (k # ks) = (class_row_ok n k \<and> class_rows_ok (n + 1) ks)"

lemma class_table: "class_rows_ok 1 (tl yy_ec)"
  by (simp add: yy_ec_def class_row_ok_def body_class_def class_char_nth numeral_2_eq_2 [symmetric])

lemma class_rows: "class_rows_ok n ks \<Longrightarrow> i < length ks \<Longrightarrow> class_row_ok (n + i) (ks ! i)"
proof (induction n ks arbitrary: i rule: class_rows_ok.induct)
  case (2 n k ks)
  then show ?case by (cases i) auto
qed simp

lemma class_row: "class_row_ok (of_char ch) (yy_class ch)"
proof (cases "of_char ch = (0::nat)")
  case True
  then show ?thesis by (simp add: yy_class_def class_row_ok_def body_class_def)
next
  case False
  have len: "length (tl yy_ec) = 255" by (simp add: yy_ec_def)
  have "of_char ch < (256::nat)" by (rule nat_of_char_less_256)
  then have lt: "of_char ch - 1 < (255::nat)" using False by linarith
  have "class_row_ok (1 + (of_char ch - 1)) (tl yy_ec ! (of_char ch - 1))"
    using class_rows [OF class_table, of "of_char ch - 1"] len lt by simp
  moreover have "tl yy_ec ! (of_char ch - 1) = yy_ec ! of_char ch"
    using nth_tl [of "of_char ch - 1" yy_ec] False len lt by simp
  ultimately show ?thesis using False by (simp add: yy_class_def)
qed

lemma class_tests:
  "is_digit ch \<longleftrightarrow> yy_class ch = 12" "ident_body ch \<longleftrightarrow> body_class (yy_class ch)"
  "ident_tail ch \<longleftrightarrow> tail_class (yy_class ch)" "ch_in [CHR '' '', CHR 0x09, CHR 0x0A, CHR 0x0D] ch \<longleftrightarrow> yy_class ch = 2"
  "1 \<le> yy_class ch" "yy_class ch \<le> 42"
proof -
  have eq: "ch = d \<longleftrightarrow> of_char ch = (of_char d :: nat)" for d by simp
  note row = class_row [of ch, unfolded class_row_ok_def]
  have lit: "of_char CHR 0x27 = (39::nat)" "of_char CHR ''$'' = (36::nat)" "of_char CHR ''_'' = (95::nat)" "of_char CHR '' '' = (32::nat)"
    "of_char CHR 0x09 = (9::nat)" "of_char CHR 0x0A = (10::nat)" "of_char CHR 0x0D = (13::nat)" by simp_all
  show digit: "is_digit ch \<longleftrightarrow> yy_class ch = 12" using row unfolding is_digit_def Let_def by blast
  show body: "ident_body ch \<longleftrightarrow> body_class (yy_class ch)"
    using row unfolding ident_body_def is_letter_def Let_def eq lit by blast
  show "ch_in [CHR '' '', CHR 0x09, CHR 0x0A, CHR 0x0D] ch \<longleftrightarrow> yy_class ch = 2"
    using row unfolding ch_in_def list.set insert_iff empty_iff eq lit by blast
  show "1 \<le> yy_class ch" "yy_class ch \<le> 42" using row by blast+
  have "ident_tail ch \<longleftrightarrow> ident_body ch \<or> is_digit ch \<or> ch = CHR ''_''"
    unfolding ident_tail_def ident_body_def by blast
  moreover have "ch = CHR ''_'' \<longleftrightarrow> yy_class ch = 30" using row unfolding eq lit by blast
  ultimately show "ident_tail ch \<longleftrightarrow> tail_class (yy_class ch)" using digit body by (simp add: tail_class_def)
qed

text \<open>Characters that are alone in their class.\<close>

definition single_class :: "char \<Rightarrow> bool" where
  "single_class d \<longleftrightarrow> yy_class d \<notin> {1, 2, 5, 12, 18, 19}"

lemma single_class_eq: "single_class d \<Longrightarrow> ch = d \<longleftrightarrow> yy_class ch = yy_class d"
proof -
  assume d: "single_class d"
  have "ch = d" if "yy_class ch = yy_class d"
  proof -
    have "of_char ch = (of_char d :: nat)"
      using class_row [of ch] class_row [of d] that d by (auto simp: class_row_ok_def single_class_def)
    then show ?thesis by simp
  qed
  then show "ch = d \<longleftrightarrow> yy_class ch = yy_class d" by blast
qed

section \<open>The check of the automaton\<close>

fun cderiv :: "nat \<Rightarrow> pat \<Rightarrow> pat option" where
  "cderiv k (Lit s) = (case s of [] \<Rightarrow> None | d # s' \<Rightarrow> if k = yy_class d then Some (Lit s') else None)"
| "cderiv k (Word s) =
     (case s of [] \<Rightarrow> None
      | d # s' \<Rightarrow> if d = CHR ''a'' \<and> k = 18 \<or> d = CHR ''d'' \<and> k = 19 \<or> d = CHR ''n'' \<and> (k = 22 \<or> k = 33)
                then Some (Word s') else None)"
| "cderiv k Digits1 = (if k = 12 then Some Digits else None)"
| "cderiv k Digits = (if k = 12 then Some Digits else None)"
| "cderiv k Ident0 = (if body_class k then Some IdentTail else if k = 30 then Some Ident1 else None)"
| "cderiv k Ident1 = (if body_class k then Some IdentTail else None)"
| "cderiv k IdentTail = (if tail_class k then Some IdentTail else None)"
| "cderiv k Invalid0 = (if body_class k then Some IdentTail else if k = 30 then Some Invalid0 else None)"
| "cderiv k Blank = (if k = 2 then Some (Lit []) else None)"
| "cderiv k AnyChar = Some (Lit [])"

fun cderivs :: "nat \<Rightarrow> (nat \<times> pat) list \<Rightarrow> (nat \<times> pat) list" where
  "cderivs k [] = []"
| "cderivs k ((j, p) # ps) = (case cderiv k p of None \<Rightarrow> cderivs k ps | Some q \<Rightarrow> (j, q) # cderivs k ps)"

fun good_pat :: "pat \<Rightarrow> bool" where
  "good_pat (Lit s) = list_all single_class s"
| "good_pat (Word s) = list_all (\<lambda>d. d = CHR ''a'' \<or> d = CHR ''d'' \<or> d = CHR ''n'') s"
| "good_pat _ = True"

lemma lower_eq:
  "lower ch = CHR ''a'' \<longleftrightarrow> yy_class ch = 18" "lower ch = CHR ''d'' \<longleftrightarrow> yy_class ch = 19"
  "lower ch = CHR ''n'' \<longleftrightarrow> yy_class ch = 22 \<or> yy_class ch = 33"
proof -
  have "lower ch = d \<longleftrightarrow> of_char ch = (of_char d :: nat) \<or> of_char ch + 32 = (of_char d :: nat)"
    if "97 \<le> (of_char d :: nat)" "of_char d \<le> (122::nat)" for d
  proof (cases "is_letter ch \<and> of_char ch < (97::nat)")
    case True
    then have n: "65 \<le> (of_char ch :: nat)" "(of_char ch :: nat) \<le> 90" by (auto simp: is_letter_def Let_def)
    have "lower ch = d \<longleftrightarrow> of_char (lower ch) = (of_char d :: nat)" by simp
    moreover have "of_char (lower ch) = (of_char ch :: nat) + 32" using True n by (simp add: lower_def)
    ultimately show ?thesis using n that by auto
  next
    case False
    then have "lower ch = ch" unfolding lower_def by (rule if_not_P)
    moreover have "of_char ch + 32 \<noteq> (of_char d :: nat)" using False that by (auto simp: is_letter_def Let_def)
    moreover have "ch = d \<longleftrightarrow> of_char ch = (of_char d :: nat)" by simp
    ultimately show ?thesis by simp
  qed
  note low = this
  note row = class_row [of ch, unfolded class_row_ok_def]
  have codes: "of_char CHR ''a'' = (97::nat)" "of_char CHR ''d'' = (100::nat)" "of_char CHR ''n'' = (110::nat)" by simp_all
  have "n + 32 = 97 \<longleftrightarrow> n = 65" "n + 32 = 100 \<longleftrightarrow> n = 68" "n + 32 = 110 \<longleftrightarrow> n = 78" for n :: nat by auto
  note eqs = this
  show "lower ch = CHR ''a'' \<longleftrightarrow> yy_class ch = 18"
    using low [of "CHR ''a''"] row unfolding codes eqs by simp blast
  show "lower ch = CHR ''d'' \<longleftrightarrow> yy_class ch = 19"
    using low [of "CHR ''d''"] row unfolding codes eqs by simp blast
  show "lower ch = CHR ''n'' \<longleftrightarrow> yy_class ch = 22 \<or> yy_class ch = 33"
    using low [of "CHR ''n''"] row unfolding codes eqs by simp blast
qed

lemma deriv_class: "good_pat p \<Longrightarrow> deriv ch p = cderiv (yy_class ch) p"
proof (cases p)
  case (Lit s)
  then show "good_pat p \<Longrightarrow> ?thesis" by (auto simp: single_class_eq split: list.split)
next
  case (Word s)
  then show "good_pat p \<Longrightarrow> ?thesis" by (auto simp: lower_eq split: list.split)
next
  case Ident0
  have "ch = CHR ''_'' \<longleftrightarrow> yy_class ch = 30"
    using single_class_eq [of "CHR ''_''" ch] by (simp add: single_class_def yy_class_def yy_ec_def)
  then show ?thesis using Ident0 by (simp add: class_tests)
next
  case Invalid0
  have "ch = CHR ''_'' \<longleftrightarrow> yy_class ch = 30"
    using single_class_eq [of "CHR ''_''" ch] by (simp add: single_class_def yy_class_def yy_ec_def)
  then show ?thesis using Invalid0 by (simp add: class_tests)
qed (simp_all add: class_tests)

lemma deriv_good: "good_pat p \<Longrightarrow> deriv ch p = Some q \<Longrightarrow> good_pat q"
  by (cases p) (auto split: if_splits list.splits)

lemma derivs_good: "list_all (\<lambda>(j, p). good_pat p) ps \<Longrightarrow> list_all (\<lambda>(j, p). good_pat p) (derivs ch ps)"
  by (induction ch ps rule: derivs.induct) (auto dest: deriv_good split: option.split)

lemma derivs_class: "list_all (\<lambda>(j, p). good_pat p) ps \<Longrightarrow> derivs ch ps = cderivs (yy_class ch) ps"
  by (induction ch ps rule: derivs.induct) (simp_all add: deriv_class split: option.split)

text \<open>What is left in each state.\<close>

definition yy_residual :: "(nat \<times> pat) list list" where
  "yy_residual =
    [[], flex_rules, [], [], [(32, Lit '''')], [(31, Lit ''''), (32, Lit '''')],
     [(28, IdentTail), (30, IdentTail), (32, Lit '''')], [(18, Lit ''&''), (32, Lit '''')],
     [(28, IdentTail), (30, IdentTail), (32, Lit '''')], [(8, Lit ''''), (32, Lit '''')],
     [(9, Lit ''''), (32, Lit '''')], [(3, Lit ''''), (32, Lit '''')], [(1, Lit ''''), (32, Lit '''')],
     [(10, Lit ''''), (32, Lit '''')], [(2, Lit ''''), (17, Lit ''>''), (32, Lit '''')],
     [(29, Digits), (32, Lit '''')], [(11, Lit ''''), (32, Lit '''')], [(19, Lit ''''), (32, Lit '''')],
     [(13, Lit ''''), (15, Lit ''=''), (32, Lit '''')], [(12, Lit ''''), (32, Lit '''')],
     [(14, Lit ''''), (16, Lit ''=''), (32, Lit '''')],
     [(27, Word ''nd''), (28, IdentTail), (30, IdentTail), (32, Lit '''')],
     [(26, Lit ''NVERSE''), (28, IdentTail), (30, IdentTail), (32, Lit '''')],
     [(22, Lit ''R''), (28, IdentTail), (30, IdentTail), (32, Lit '''')],
     [(20, Lit ''NION''), (28, IdentTail), (30, IdentTail), (32, Lit '''')],
     [(6, Lit ''''), (32, Lit '''')], [(7, Lit ''''), (32, Lit '''')],
     [(28, Ident1), (30, Invalid0), (32, Lit '''')],
     [(24, Lit ''xists''), (28, IdentTail), (30, IdentTail), (32, Lit '''')],
     [(25, Lit ''nverse''), (28, IdentTail), (30, IdentTail), (32, Lit '''')],
     [(23, Lit ''r''), (28, IdentTail), (30, IdentTail), (32, Lit '''')],
     [(21, Lit ''nion''), (28, IdentTail), (30, IdentTail), (32, Lit '''')],
     [(4, Lit ''''), (32, Lit '''')], [(5, Lit ''''), (32, Lit '''')],
     [(28, IdentTail), (30, IdentTail)], [(28, IdentTail), (30, IdentTail)],
     [(28, IdentTail), (30, IdentTail)], [(28, IdentTail), (30, IdentTail)], [(18, Lit '''')],
     [(28, IdentTail), (30, IdentTail)], [(17, Lit '''')], [(29, Digits)], [(15, Lit '''')],
     [(16, Lit '''')], [(27, Word ''d''), (28, IdentTail), (30, IdentTail)],
     [(26, Lit ''VERSE''), (28, IdentTail), (30, IdentTail)],
     [(22, Lit ''''), (28, IdentTail), (30, IdentTail)],
     [(20, Lit ''ION''), (28, IdentTail), (30, IdentTail)], [(28, IdentTail), (30, IdentTail)],
     [(28, IdentTail), (30, IdentTail)], [(30, Invalid0)],
     [(24, Lit ''ists''), (28, IdentTail), (30, IdentTail)],
     [(25, Lit ''verse''), (28, IdentTail), (30, IdentTail)],
     [(23, Lit ''''), (28, IdentTail), (30, IdentTail)],
     [(21, Lit ''ion''), (28, IdentTail), (30, IdentTail)], [(28, IdentTail), (30, IdentTail)],
     [(28, IdentTail), (30, IdentTail)], [(27, Word ''''), (28, IdentTail), (30, IdentTail)],
     [(26, Lit ''ERSE''), (28, IdentTail), (30, IdentTail)],
     [(20, Lit ''ON''), (28, IdentTail), (30, IdentTail)], [(30, IdentTail)], [(30, IdentTail)],
     [(24, Lit ''sts''), (28, IdentTail), (30, IdentTail)],
     [(25, Lit ''erse''), (28, IdentTail), (30, IdentTail)],
     [(21, Lit ''on''), (28, IdentTail), (30, IdentTail)], [(28, IdentTail), (30, IdentTail)],
     [(26, Lit ''RSE''), (28, IdentTail), (30, IdentTail)],
     [(20, Lit ''N''), (28, IdentTail), (30, IdentTail)], [(30, IdentTail)], [(30, IdentTail)],
     [(30, IdentTail)], [(30, IdentTail)], [(30, IdentTail)],
     [(24, Lit ''ts''), (28, IdentTail), (30, IdentTail)],
     [(25, Lit ''rse''), (28, IdentTail), (30, IdentTail)],
     [(21, Lit ''n''), (28, IdentTail), (30, IdentTail)],
     [(26, Lit ''SE''), (28, IdentTail), (30, IdentTail)],
     [(20, Lit ''''), (28, IdentTail), (30, IdentTail)],
     [(24, Lit ''s''), (28, IdentTail), (30, IdentTail)],
     [(25, Lit ''se''), (28, IdentTail), (30, IdentTail)],
     [(21, Lit ''''), (28, IdentTail), (30, IdentTail)],
     [(26, Lit ''E''), (28, IdentTail), (30, IdentTail)],
     [(24, Lit ''''), (28, IdentTail), (30, IdentTail)],
     [(25, Lit ''e''), (28, IdentTail), (30, IdentTail)],
     [(26, Lit ''''), (28, IdentTail), (30, IdentTail)],
     [(25, Lit ''''), (28, IdentTail), (30, IdentTail)], []]"

lemmas residual_nth = nth_eqs_def [OF yy_residual_def, simplified nth_eqs.simps Suc_numeral numeral_2_eq_2 [symmetric] add_num_simps]

definition scan_state :: "nat \<Rightarrow> bool" where
  "scan_state s \<longleftrightarrow> s = 1 \<or> 4 \<le> s \<and> s \<le> 86"

definition trans_ok :: "nat \<Rightarrow> nat \<Rightarrow> bool" where
  "trans_ok s k \<longleftrightarrow> scan_state (yy_trans s k) \<and> yy_residual ! yy_trans s k = cderivs k (yy_residual ! s)"

fun all_trans_ok :: "nat \<Rightarrow> nat list \<Rightarrow> bool" where
  "all_trans_ok s [] = True"
| "all_trans_ok s (k # ks) = (trans_ok s k \<and> all_trans_ok s ks)"

definition yy_classes :: "nat list" where
  "yy_classes = [1, 2, 3, 4, 5, 6, 7, 8, 9, 10, 11, 12, 13, 14, 15, 16, 17, 18, 19, 20, 21, 22, 23, 24, 25, 26, 27, 28,
    29, 30, 31, 32, 33, 34, 35, 36, 37, 38, 39, 40, 41, 42]"

definition scan_state_ok :: "nat \<Rightarrow> bool" where
  "scan_state_ok s \<longleftrightarrow>
     yy_accept ! s = first_nullable (yy_residual ! s) \<and> (yy_base ! s = 229 \<longrightarrow> dead (yy_residual ! s)) \<and>
     all_trans_ok s yy_classes"

fun all_scan_states_ok :: "nat list \<Rightarrow> bool" where
  "all_scan_states_ok [] = True"
| "all_scan_states_ok (s # ss) = (scan_state_ok s \<and> all_scan_states_ok ss)"

lemma yy_follow_numeral:
  "yy_follow (numeral v) s k =
     (if yy_chk ! (yy_base ! s + k) = s then Inr (yy_nxt ! (yy_base ! s + k))
      else yy_follow (pred_numeral v) (yy_def ! s) (if yy_def ! s \<ge> 87 then yy_meta ! k else k))"
  by (simp add: numeral_eq_Suc Let_def)

lemma class_letter:
  "yy_class CHR ''+'' = 9" "yy_class CHR ''-'' = 11" "yy_class CHR ''*'' = 8" "yy_class CHR ''{'' = 41"
  "yy_class CHR ''}'' = 42" "yy_class CHR ''['' = 28" "yy_class CHR '']'' = 29" "yy_class CHR ''('' = 6"
  "yy_class CHR '')'' = 7" "yy_class CHR '','' = 10" "yy_class CHR '':'' = 13" "yy_class CHR ''='' = 16"
  "yy_class CHR ''<'' = 15" "yy_class CHR ''>'' = 17" "yy_class CHR ''&'' = 4" "yy_class CHR '';'' = 14"
  "yy_class CHR ''U'' = 26" "yy_class CHR ''N'' = 22" "yy_class CHR ''I'' = 21" "yy_class CHR ''O'' = 23"
  "yy_class CHR ''R'' = 24" "yy_class CHR ''V'' = 27" "yy_class CHR ''E'' = 20" "yy_class CHR ''S'' = 25"
  "yy_class CHR ''u'' = 38" "yy_class CHR ''n'' = 33" "yy_class CHR ''i'' = 32" "yy_class CHR ''o'' = 34"
  "yy_class CHR ''r'' = 35" "yy_class CHR ''v'' = 39" "yy_class CHR ''e'' = 31" "yy_class CHR ''s'' = 36"
  "yy_class CHR ''x'' = 40" "yy_class CHR ''t'' = 37"
  by (simp_all add: yy_class_def yy_ec_def)

lemmas scan_check = scan_state_ok_def yy_classes_def trans_ok_def scan_state_def yy_trans_def yy_follow_numeral scan_nth
  residual_nth flex_rules_def class_letter body_class_def tail_class_def numeral_2_eq_2 [symmetric]

lemma scan_start_ok: "scan_state_ok 1"
  by (simp add: scan_check)

lemma scan_states_ok_1: "all_scan_states_ok [4..<25]"
proof -
  have "[4..<25] = [4, 5, 6, 7, 8, 9, 10, 11, 12, 13, 14, 15, 16, 17, 18, 19, 20, 21, 22, 23, 24]" by code_simp
  then show ?thesis by (simp only:) (simp add: scan_check)
qed

lemma scan_states_ok_2: "all_scan_states_ok [25..<46]"
proof -
  have "[25..<46] = [25, 26, 27, 28, 29, 30, 31, 32, 33, 34, 35, 36, 37, 38, 39, 40, 41, 42, 43, 44, 45]" by code_simp
  then show ?thesis by (simp only:) (simp add: scan_check)
qed

lemma scan_states_ok_3: "all_scan_states_ok [46..<67]"
proof -
  have "[46..<67] = [46, 47, 48, 49, 50, 51, 52, 53, 54, 55, 56, 57, 58, 59, 60, 61, 62, 63, 64, 65, 66]" by code_simp
  then show ?thesis by (simp only:) (simp add: scan_check)
qed

lemma scan_states_ok_4: "all_scan_states_ok [67..<87]"
proof -
  have "[67..<87] = [67, 68, 69, 70, 71, 72, 73, 74, 75, 76, 77, 78, 79, 80, 81, 82, 83, 84, 85, 86]" by code_simp
  then show ?thesis by (simp only:) (simp add: scan_check)
qed



lemma scan_state_check: "scan_state s \<Longrightarrow> scan_state_ok s"
proof -
  have all: "all_scan_states_ok ss \<longleftrightarrow> (\<forall>s \<in> set ss. scan_state_ok s)" for ss by (induction ss) auto
  assume "scan_state s"
  then consider "s = 1" | "s \<in> set [4..<25]" | "s \<in> set [25..<46]" | "s \<in> set [46..<67]" | "s \<in> set [67..<87]"
    unfolding scan_state_def set_upt by fastforce
  then show "scan_state_ok s"
    using scan_start_ok scan_states_ok_1 scan_states_ok_2 scan_states_ok_3 scan_states_ok_4 unfolding all
    by cases auto
qed

lemma good_rules: "list_all (\<lambda>(j, p). good_pat p) flex_rules"
  by (simp add: flex_rules_def single_class_def class_letter)

lemma left_of_good: "list_all (\<lambda>(j, p). good_pat p) (left_of run)"
  by (induction run rule: rev_induct) (simp_all add: left_of_simps good_rules derivs_good)

lemma scan_step:
  assumes "scan_state s" "yy_residual ! s = left_of run"
  shows "scan_state (yy_trans s (yy_class ch))" "yy_residual ! yy_trans s (yy_class ch) = left_of (run @ [ch])"
proof -
  have all: "all_trans_ok s ks \<longleftrightarrow> (\<forall>k \<in> set ks. trans_ok s k)" for ks by (induction ks) auto
  have "yy_class ch \<in> set yy_classes"
    using class_tests(5,6) [of ch] unfolding yy_classes_def by (simp; presburger)
  then have "trans_ok s (yy_class ch)" using scan_state_check [OF assms(1)] by (auto simp: scan_state_ok_def all)
  then show "scan_state (yy_trans s (yy_class ch))" "yy_residual ! yy_trans s (yy_class ch) = left_of (run @ [ch])"
    using assms(2) derivs_class [OF left_of_good] by (simp_all add: trans_ok_def left_of_simps)
qed


end
