(* ===== verification/IEG_ScanProps.thy ===== *)
theory IEG_ScanProps
  imports IEG_ScanRules
begin

text \<open>
  The scanner finds the longest match of the rules of \<open>parser.l\<close>, and among the rules with that match
  the first; \<open>yylex\<close> is the sequence of the tokens of such matches.
\<close>

section \<open>The longest match\<close>

text \<open>The characters that the scanner can still read.\<close>

definition readable :: "globals \<Rightarrow> string" where
  "readable g = yy_pending g @
     (if eof_pending g \<or> parse_error g then [] else takeWhile (\<lambda>ch. of_char ch \<noteq> (255::nat)) (input_rest g))"

lemma next_char_readable:
  "yy_next_char g = (Some ch, h) \<Longrightarrow> readable g = ch # readable h"
  "yy_next_char g = (None, h) \<Longrightarrow> readable g = [] \<and> readable h = []"
  by (auto simp: yy_next_char_def string_get_next_char_def readable_def split: list.splits if_splits)

text \<open>\<open>acc\<close> is the longest of the first \<open>n\<close> parts of \<open>run\<close> that a rule accepts.\<close>

definition acc_upto :: "(nat \<times> string) option \<Rightarrow> string \<Rightarrow> nat \<Rightarrow> bool" where
  "acc_upto acc run n \<longleftrightarrow>
     (case acc of
        None \<Rightarrow> \<forall>j < n. accepted (take j run) = 0
      | Some (q, m) \<Rightarrow> \<exists>i < n. m = take i run \<and> yy_accept ! q = accepted m \<and> accepted m \<noteq> 0
          \<and> (\<forall>j < n. i < j \<longrightarrow> accepted (take j run) = 0))"

lemma acc_upto_append: "acc_upto acc run n \<Longrightarrow> n \<le> Suc (length run) \<Longrightarrow> acc_upto acc (run @ [ch]) n"
  by (auto simp: acc_upto_def split: option.splits)

lemma acc_upto_more:
  assumes "acc_upto acc run (length run)" "yy_accept ! s = accepted run"
  shows "acc_upto (if yy_accept ! s \<noteq> 0 then Some (s, run) else acc) run (Suc (length run))"
  using assms by (auto simp: acc_upto_def less_Suc_eq split: option.splits)

lemma scan_run:
  assumes "yy_match s acc run g = (s', acc', run', g')" and "scan_state s" "yy_residual ! s = left_of run"
    and "acc_upto acc run (length run)"
  shows "scan_state s' \<and> yy_residual ! s' = left_of run' \<and> run' @ readable g' = run @ readable g
    \<and> (readable g' = [] \<or> dead (left_of run')) \<and> (yy_accept ! s' = 0 \<longrightarrow> acc_upto acc' run' (length run'))"
  using assms
proof (induction s acc run g rule: yy_match.induct)
  case (1 s acc run g)
  let ?acc = "if yy_accept ! s \<noteq> 0 then Some (s, run) else acc"
  have "yy_accept ! s = accepted run"
    using scan_state_check [OF "1.prems"(2)] "1.prems"(3) by (simp add: scan_state_ok_def accepted_def)
  then have acc: "acc_upto ?acc run (Suc (length run))" by (rule acc_upto_more [OF "1.prems"(4)])
  obtain r h where nx: "yy_next_char g = (r, h)" by fastforce
  show ?case
  proof (cases r)
    case None
    then have "(s', acc', run', g') = (s, ?acc, run, h)"
      using "1.prems"(1) nx by (auto simp: yy_match.simps Let_def)
    then show ?thesis using "1.prems" next_char_readable(2) nx None by (auto split: if_splits)
  next
    case (Some ch)
    let ?s = "yy_trans s (yy_class ch)"
    note step = scan_step [OF "1.prems"(2,3), of ch]
    have acc2: "acc_upto ?acc (run @ [ch]) (length (run @ [ch]))" using acc_upto_append [OF acc] by simp
    have rd: "readable g = ch # readable h" using next_char_readable(1) nx Some by simp
    show ?thesis
    proof (cases "yy_base ! ?s = 229")
      case True
      then have "(s', acc', run', g') = (?s, ?acc, run @ [ch], h)"
        using "1.prems"(1) nx Some by (simp add: yy_match.simps Let_def)
      then show ?thesis using step rd acc2 scan_state_check [OF step(1)] True
        by (auto simp: scan_state_ok_def simp del: length_append)
    next
      case False
      then have "yy_match ?s ?acc (run @ [ch]) h = (s', acc', run', g')"
        using "1.prems"(1) nx Some by (simp add: yy_match.simps [of s] Let_def)
      from "1.IH" [OF refl nx [symmetric] Some refl refl False this step acc2]
      show ?thesis using rd by simp
    qed
  qed
qed

lemma longest_matchI:
  assumes run: "run @ rest = s" and i: "i \<le> length run" and m: "m = take i run" "accepted m \<noteq> 0"
    and none: "\<And>j. i < j \<Longrightarrow> j \<le> length run \<Longrightarrow> accepted (take j run) = 0" and rest: "rest = [] \<or> dead (left_of run)"
  shows "longest_match s (accepted m) m"
  unfolding longest_match_def
proof (intro conjI allI impI)
  show "prefix m s" using m(1) run by (metis prefixI prefix_order.order_trans take_is_prefix)
  show "m \<noteq> []" using m(2) by (auto simp: accepted_def left_of_simps flex_rules_def)
  show "\<exists>p. (accepted m, p) \<in> set flex_rules \<and> matches p m"
    using accepted_matches [OF m(2)] by (simp add: can_match_iff)
  fix j p w assume w: "(j, p) \<in> set flex_rules" "prefix w s" "matches p w"
  then have "can_match j w flex_rules" by (auto simp: can_match_iff)
  note acc = accepted_least [OF this]
  show "length w < length m \<or> length w = length m \<and> accepted m \<le> j"
  proof (cases "length w \<le> length m")
    case True
    show ?thesis
    proof (cases "length w = length m")
      case True
      then have "w = m" using w(2) \<open>prefix m s\<close> by (metis append_eq_append_conv prefix_def)
      then show ?thesis using acc by simp
    qed (use True in simp)
  next
    case False
    have len: "length m = i" using m(1) i by simp
    obtain u where u: "s = w @ u" using w(2) by (auto simp: prefix_def)
    show ?thesis
    proof (cases "length w \<le> length run")
      case True
      then have "w = take (length w) run" using u run by (auto simp: append_eq_append_conv2 take_append)
      then show ?thesis using none [of "length w"] False len True acc by simp
    next
      case longer: False
      then obtain v where v: "w = run @ v" "v \<noteq> []" using u run longer
        by (auto simp: append_eq_append_conv2)
      then have "rest \<noteq> []" using u run by auto
      then show ?thesis using dead_end [of run v j] rest v acc \<open>can_match j w flex_rules\<close> by simp
    qed
  qed
qed

lemma scan_longest:
  assumes "readable g \<noteq> []"
  shows "\<exists>act g'. yy_find_action (yy_match 1 None [] g) = Inr (act, g') \<and> longest_match (readable g) act (yytext g')
    \<and> readable g = yytext g' @ readable g'"
proof -
  obtain s acc run h where m: "yy_match 1 None [] g = (s, acc, run, h)" by (cases "yy_match 1 None [] g") auto
  have "yy_residual ! 1 = left_of []" by (simp add: residual_nth left_of_simps)
  then have scan: "scan_state s" "yy_residual ! s = left_of run" and run: "run @ readable h = readable g"
    and rest: "readable h = [] \<or> dead (left_of run)"
    and acc: "yy_accept ! s = 0 \<Longrightarrow> acc_upto acc run (length run)"
    using scan_run [OF m] by (auto simp: scan_state_def acc_upto_def)
  have s: "yy_accept ! s = accepted run"
    using scan_state_check [OF scan(1)] scan(2) by (simp add: scan_state_ok_def accepted_def)
  have rd0: "readable (h\<lparr>yytext := x\<rparr>) = readable h" for x by (simp add: readable_def)
  have rd: "readable (h\<lparr>yytext := x, yy_pending := y @ yy_pending h\<rparr>) = y @ readable h" for x y
    by (simp add: readable_def)
  show ?thesis
  proof (cases "accepted run = 0")
    case False
    then have "longest_match (readable g) (accepted run) run"
      by (intro longest_matchI [OF run, of "length run"]) (use rest in auto)
    then show ?thesis using False s m run rd0 by (simp add: yy_find_action_def Let_def)
  next
    case True
    obtain ch cs where g: "readable g = ch # cs" using assms by (cases "readable g") auto
    have "can_match 32 [ch] flex_rules" by (simp add: flex_rules_def can_match_iff)
    then have one: "accepted [ch] \<noteq> 0" using accepted_least by blast
    have "run \<noteq> []"
    proof
      assume "run = []"
      moreover have "\<not> dead flex_rules" by (simp add: flex_rules_def)
      ultimately show False using rest run g by (simp add: left_of_simps)
    qed
    then have ch: "take 1 run = [ch]" using run g by (cases run) auto
    have "1 < length run" using True one ch \<open>run \<noteq> []\<close> by (cases run; cases "tl run") auto
    have upto: "acc_upto acc run (length run)" using acc True s by simp
    obtain q i where qi: "acc = Some (q, take i run)" "i < length run" "yy_accept ! q = accepted (take i run)"
      "accepted (take i run) \<noteq> 0" "\<forall>j < length run. i < j \<longrightarrow> accepted (take j run) = 0"
    proof (cases acc)
      case None
      then have "accepted (take 1 run) = 0" using upto \<open>1 < length run\<close> by (simp only: acc_upto_def None option.case)
      then show thesis using one ch by simp
    next
      case (Some qm)
      obtain q m where qm: "qm = (q, m)" by fastforce
      show thesis using upto that by (simp only: acc_upto_def Some qm option.case prod.case) blast
    qed
    have "longest_match (readable g) (accepted (take i run)) (take i run)"
    proof (rule longest_matchI [OF run _ refl qi(4) _ rest])
      show "i \<le> length run" using qi(2) by simp
      show "accepted (take j run) = 0" if "i < j" "j \<le> length run" for j
        using qi(5) True that by (cases "j = length run") simp_all
    qed
    moreover have "drop (length (take i run)) run = drop i run" using qi(2) by simp
    ultimately have "yy_find_action (yy_match 1 None [] g) =
        Inr (accepted (take i run), h\<lparr>yytext := take i run, yy_pending := drop i run @ yy_pending h\<rparr>)"
      using True s qi(1,3) unfolding m yy_find_action_def Let_def by simp
    moreover have "readable g = take i run @ drop i run @ readable h" unfolding run [symmetric] append_assoc [symmetric] append_take_drop_id ..
    ultimately show ?thesis using \<open>longest_match _ _ _\<close> by (simp add: rd)
  qed
qed


section \<open>The sequence of tokens\<close>

text \<open>Two matches of the same string agree.\<close>

lemma longest_match_unique:
  assumes "longest_match s k m" "longest_match s j w"
  shows "j = k \<and> w = m"
proof -
  obtain p q where p: "(k, p) \<in> set flex_rules" "prefix m s" "matches p m" and q: "(j, q) \<in> set flex_rules" "prefix w s" "matches q w"
    using assms by (auto simp: longest_match_def)
  have "length w < length m \<or> length w = length m \<and> k \<le> j" "length m < length w \<or> length m = length w \<and> j \<le> k"
    using assms p q unfolding longest_match_def by blast+
  then have "length w = length m" "j = k" by linarith+
  moreover have "w = take (length w) s" "m = take (length m) s" using p(2) q(2) by (metis append_eq_conv_conj prefix_def)+
  ultimately show ?thesis by simp
qed

text \<open>The tokens of a string by the rules: white space and characters that no other rule takes are
  skipped. The code of a token and its value are those of the rule's action.\<close>

inductive tokens :: "string \<Rightarrow> (nat \<times> yyval) list \<Rightarrow> bool" where
  finished: "tokens [] []"
| token: "longest_match (m @ s) k m \<Longrightarrow> yy_action k m = Inr (Some t) \<Longrightarrow> tokens s ts \<Longrightarrow> tokens (m @ s) (t # ts)"
| skipped: "longest_match (m @ s) k m \<Longrightarrow> yy_action k m = Inr None \<Longrightarrow> tokens s ts \<Longrightarrow> tokens (m @ s) ts"

inductive_cases tokens_NilE: "tokens [] ts"

text \<open>\<open>lexes g ts g'\<close>: \<open>yylex\<close> called again and again from \<open>g\<close> returns the tokens \<open>ts\<close> and leads to \<open>g'\<close>.\<close>

inductive lexes :: "globals \<Rightarrow> (nat \<times> yyval) list \<Rightarrow> globals \<Rightarrow> bool" where
  none: "lexes g [] g"
| more: "yylex g = Inr (ch, v, h) \<Longrightarrow> ch \<noteq> YYEOF \<Longrightarrow> lexes h ts g' \<Longrightarrow> lexes g ((ch, v) # ts) g'"

lemma lexes_snoc: "lexes g ts h \<Longrightarrow> yylex h = Inr (ch, v, g') \<Longrightarrow> ch \<noteq> YYEOF \<Longrightarrow> lexes g (ts @ [(ch, v)]) g'"
  by (induction rule: lexes.induct) (auto intro: lexes.intros)

lemma yy_action_code: "yy_action act m = Inr (Some (t, v)) \<Longrightarrow> t \<noteq> YYEOF"
proof -
  assume a: "yy_action act m = Inr (Some (t, v))"
  have codes: "list_all (\<lambda>t. t \<noteq> YYEOF) keyword_tokens" "length keyword_tokens = 27" by (simp_all add: keyword_tokens_def)
  then have "keyword_tokens ! (act - 1) \<noteq> YYEOF" if "1 \<le> act" "act \<le> 27"
    using that by (auto simp: list_all_length)
  then show "t \<noteq> YYEOF" using a by (auto simp: yy_action_def bindr_eq_Inr split: if_splits)
qed

lemma yylex_tokens:
  "yylex g = Inr (ch, v, g') \<Longrightarrow>
   (ch = YYEOF \<longrightarrow> tokens (readable g) []) \<and>
   (ch \<noteq> YYEOF \<longrightarrow> (\<forall>ts. tokens (readable g') ts \<longrightarrow> tokens (readable g) ((ch, v) # ts)))"
proof (induction g rule: yylex.induct)
  case (1 g)
  obtain r h where r: "yy_next_char g = (r, h)" by fastforce
  show ?case
  proof (cases r)
    case None
    then show ?thesis using "1.prems" r next_char_readable(2) [of g h]
      by (auto simp: yylex.simps [of g] intro: tokens.finished)
  next
    case (Some c)
    then have "readable g \<noteq> []" using next_char_readable(1) r by simp
    then obtain act k where find: "yy_find_action (yy_match 1 None [] g) = Inr (act, k)"
      and long: "longest_match (readable g) act (yytext k)" and rd: "readable g = yytext k @ readable k"
      using scan_longest by blast
    obtain tok where act: "yy_action act (yytext k) = Inr tok"
      and tok: "(case tok of Some (t, v) \<Rightarrow> Inr (t, v, k) | None \<Rightarrow> yylex k) = Inr (ch, v, g')"
      using "1.prems" r Some find by (cases "yy_action act (yytext k)") (auto simp: yylex.simps [of g])
    show ?thesis
    proof (cases tok)
      case None
      have "yylex k = Inr (ch, v, g')" using tok None by simp
      from "1.IH" [OF r [symmetric] Some find refl act None this] show ?thesis
        using tokens.skipped [of "yytext k" "readable k" act] long act None rd by simp
    next
      case (Some tv)
      then have "tv = (ch, v)" "g' = k" using tok by (auto split: prod.splits)
      moreover have "ch \<noteq> YYEOF" using yy_action_code act Some \<open>tv = _\<close> by blast
      ultimately show ?thesis using tokens.token [of "yytext k" "readable k" act tv] long act Some rd by simp
    qed
  qed
qed

lemma lexes_tokens:
  "lexes g ts h \<Longrightarrow> yylex h = Inr (YYEOF, v, g') \<Longrightarrow> tokens (readable g) ts"
  by (induction rule: lexes.induct) (use yylex_tokens in blast)+

text \<open>The tokens of a string are determined.\<close>

lemma tokens_unique: "tokens s ts \<Longrightarrow> tokens s us \<Longrightarrow> us = ts"
proof (induction arbitrary: us rule: tokens.induct)
  case finished
  then show ?case by (cases rule: tokens.cases) (auto simp: longest_match_def)
next
  case (token m s k t ts)
  from token.prems show ?case
  proof (cases rule: tokens.cases)
    case finished
    then show ?thesis using token.hyps(1) by (simp add: longest_match_def)
  next
    case t2: (token m' s' k' t' ts')
    have "k' = k \<and> m' = m" using longest_match_unique [OF token.hyps(1)] t2(1,3) by metis
    then show ?thesis using t2 token by auto
  next
    case t2: (skipped m' s' k')
    have "k' = k \<and> m' = m" using longest_match_unique [OF token.hyps(1)] t2(1,2) by metis
    then show ?thesis using t2 token by auto
  qed
next
  case (skipped m s k ts)
  from skipped.prems show ?case
  proof (cases rule: tokens.cases)
    case finished
    then show ?thesis using skipped.hyps(1) by (simp add: longest_match_def)
  next
    case t2: (token m' s' k' t' ts')
    have "k' = k \<and> m' = m" using longest_match_unique [OF skipped.hyps(1)] t2(1,3) by metis
    then show ?thesis using t2 skipped by auto
  next
    case t2: (skipped m' s' k')
    have "k' = k \<and> m' = m" using longest_match_unique [OF skipped.hyps(1)] t2(1,2) by metis
    then show ?thesis using t2 skipped by auto
  qed
qed

text \<open>
  C16. The tables of the scanner are the rules of \<open>parser.l\<close>: on whatever characters it can still read,
  the loop over the tables finds the longest prefix that a rule matches, and the first rule that
  matches it; the rest is what it reads next, also after the automaton had to back up.
\<close>

theorem scanner_finds_longest_match:
  assumes "readable g \<noteq> []"
  shows "\<exists>act g'. yy_find_action (yy_match 1 None [] g) = Inr (act, g') \<and> longest_match (readable g) act (yytext g')
    \<and> readable g = yytext g' @ readable g'"
  using assms by (rule scan_longest)

theorem scanner_finds_longest_match_witness:
  "\<exists>act g'. yy_find_action (yy_match 1 None [] (parse_start ''__1'' globals_new)) = Inr (act, g')
    \<and> longest_match ''__1'' act (yytext g') \<and> ''__1'' = yytext g' @ readable g'"
proof -
  have "readable (parse_start ''__1'' globals_new) = ''__1''" by (simp add: readable_def parse_start_def globals_new_def)
  then show ?thesis using scanner_finds_longest_match [of "parse_start ''__1'' globals_new"] by simp
qed

end
