(* ===== verification/IEG_ParseSound.thy ===== *)
theory IEG_ParseSound
  imports IEG_ParseProps IEG_ScanProps
begin

text \<open>
  What the parser accepts is derived by the grammar of \<open>parser.y\<close>: when a parse ends without an
  error, the tokens of its input, by the rules of \<open>parser.l\<close>, have a derivation from one of the
  symbols of a set, a relation or an environment, and the result is the value that the actions give to
  it. The scanner is then as before the parse, so that the next parse does not see what this
  one has left.
\<close>

section \<open>Derivations\<close>

inductive derives :: "world \<Rightarrow> nat \<Rightarrow> (nat \<times> yyval) list \<Rightarrow> yyval \<Rightarrow> bool" for w where
  terminal: "258 \<le> ch \<Longrightarrow> ch \<le> 285 \<Longrightarrow> X = yy_translate ch \<Longrightarrow> derives w X [(ch, v)] v"
| rule: "8 \<le> r \<Longrightarrow> r \<le> 89 \<Longrightarrow> yields (derives w) (yyrhs ! r) ts vs \<Longrightarrow> value_action w r vs = Inr v
    \<Longrightarrow> X = yyr1 ! r \<Longrightarrow> derives w X ts v"

text \<open>The symbol \<open>Start\<close> has no value; its rules store the result.\<close>

definition started :: "world \<Rightarrow> globals \<Rightarrow> (nat \<times> yyval) list \<Rightarrow> bool" where
  "started w g ts \<longleftrightarrow>
     (\<exists>X s. (X = 34 \<or> X = 35) \<and> derives w X ts (V_set s)
        \<and> parse_set_result g = Some s \<and> parse_relation_result g = None \<and> parse_env_result g = None)
     \<or> (\<exists>X r. (X = 36 \<or> X = 37) \<and> derives w X ts (V_rel r)
        \<and> parse_set_result g = None \<and> parse_relation_result g = Some r \<and> parse_env_result g = None)
     \<or> (\<exists>e. derives w 33 ts (V_env e)
        \<and> parse_set_result g = None \<and> parse_relation_result g = None \<and> parse_env_result g = Some e)"

definition same_results :: "globals \<Rightarrow> globals \<Rightarrow> bool" where
  "same_results g h \<longleftrightarrow> parse_set_result h = parse_set_result g \<and> parse_relation_result h = parse_relation_result g
     \<and> parse_env_result h = parse_env_result g \<and> parse_error h = parse_error g"

definition no_result :: "globals \<Rightarrow> bool" where
  "no_result g \<longleftrightarrow> parse_set_result g = None \<and> parse_relation_result g = None \<and> parse_env_result g = None"

lemma same_results_refl [simp]: "same_results g g"
  by (simp add: same_results_def)

lemma same_results_trans: "same_results g h \<Longrightarrow> same_results h k \<Longrightarrow> same_results g k"
  by (simp add: same_results_def)

lemma next_char_results: "yy_next_char g = (r, h) \<Longrightarrow> same_results g h"
  by (auto simp: yy_next_char_def string_get_next_char_def same_results_def split: list.splits if_splits)

lemma yy_match_results: "yy_match s acc run g = (s', acc', run', g') \<Longrightarrow> same_results g g'"
proof (induction s acc run g rule: yy_match.induct)
  case (1 s acc run g)
  obtain r h where nx: "yy_next_char g = (r, h)" by fastforce
  note same = next_char_results [OF nx]
  let ?acc = "if yy_accept ! s \<noteq> 0 then Some (s, run) else acc"
  show ?case
  proof (cases r)
    case None
    then show ?thesis using "1.prems" nx same by (simp add: yy_match.simps Let_def)
  next
    case (Some ch)
    let ?s = "yy_trans s (yy_class ch)"
    show ?thesis
    proof (cases "yy_base ! ?s = 229")
      case True
      then show ?thesis using "1.prems" nx Some same by (simp add: yy_match.simps Let_def)
    next
      case False
      then have "yy_match ?s ?acc (run @ [ch]) h = (s', acc', run', g')"
        using "1.prems" nx Some by (simp add: yy_match.simps [of s] Let_def)
      from "1.IH" [OF refl nx [symmetric] Some refl refl False this] show ?thesis
        using same same_results_trans by blast
    qed
  qed
qed

lemma yy_find_action_results:
  "yy_find_action (yy_match 1 None [] g) = Inr (act, g') \<Longrightarrow> same_results g g'"
proof -
  assume a: "yy_find_action (yy_match 1 None [] g) = Inr (act, g')"
  obtain s acc run h where m: "yy_match 1 None [] g = (s, acc, run, h)" by (cases "yy_match 1 None [] g") auto
  have "same_results h g'"
    using a unfolding m by (auto simp: yy_find_action_def Let_def same_results_def split: if_splits option.splits)
  then show "same_results g g'" using yy_match_results [OF m] same_results_trans by blast
qed

definition clean :: "globals \<Rightarrow> bool" where
  "clean g \<longleftrightarrow> yy_pending g = [] \<and> \<not> eof_pending g"

lemma yylex_results:
  "yylex g = Inr (ch, v, g') \<Longrightarrow> same_results g g' \<and> (ch = YYEOF \<longrightarrow> clean g')"
proof (induction g rule: yylex.induct)
  case (1 g)
  obtain r h where r: "yy_next_char g = (r, h)" by fastforce
  show ?case
  proof (cases r)
    case None
    have "yy_pending h = []" using r None
      by (auto simp: yy_next_char_def string_get_next_char_def split: list.splits if_splits)
    then show ?thesis using "1.prems" r None next_char_results [OF r]
      by (auto simp: yylex.simps [of g] same_results_def clean_def)
  next
    case (Some c)
    obtain act k tok where act: "yy_find_action (yy_match 1 None [] g) = Inr (act, k)" "yy_action act (yytext k) = Inr tok"
      and tok: "(case tok of Some (t, v) \<Rightarrow> Inr (t, v, k) | None \<Rightarrow> yylex k) = Inr (ch, v, g')"
      using "1.prems" r Some by (auto simp: yylex.simps [of g] bindr_eq_Inr)
    note same = yy_find_action_results [OF act(1)]
    show ?thesis
    proof (cases tok)
      case None
      have "yylex k = Inr (ch, v, g')" using tok None by simp
      from "1.IH" [OF r [symmetric] Some act(1) refl act(2) None this] show ?thesis
        using same same_results_trans by blast
    next
      case (Some tv)
      then have "tv = (ch, v)" "g' = k" using tok by (auto split: prod.splits)
      then show ?thesis using same yy_action_code act(2) Some by blast
    qed
  qed
qed

section \<open>The stack holds derivations\<close>

definition entry :: "world \<Rightarrow> globals \<Rightarrow> nat \<Rightarrow> (nat \<times> yyval) list \<Rightarrow> yyval \<Rightarrow> bool" where
  "entry w g X ts v \<longleftrightarrow> (if X = 0 then ts = [] else if X = 32 then started w g ts else derives w X ts v)"

lemma entry_same_results: "same_results g h \<Longrightarrow> entry w g = entry w h"
  by (auto simp: fun_eq_iff entry_def started_def same_results_def)

lemma not_error_member: "\<not> derives w 1 ts v"
proof
  assume "derives w 1 ts v"
  then show False
  proof (cases rule: derives.cases)
    case (terminal ch)
    then show ?thesis by (simp add: translate_code)
  next
    case (rule r vs)
    then show ?thesis using rule_facts(2) [of r] by simp
  qed
qed

lemma rhs_no_start: "list_all (\<lambda>r. 0 \<notin> set (yyrhs ! r) \<and> 32 \<notin> set (yyrhs ! r)) [2..<90]"
  by (simp add: yyrhs_nth)

lemma yields_entry:
  assumes "yields (entry w g) Xs ts vs" and "0 \<notin> set Xs" "32 \<notin> set Xs"
  shows "yields (derives w) Xs ts vs"
  using assms by induction (auto simp: entry_def intro: yields.intros)

lemma yields_entry_error:
  assumes "yields (entry w g) Xs ts vs" shows "1 \<notin> set Xs"
proof
  assume "1 \<in> set Xs"
  with assms show False
  proof induction
    case (more X ts v Xs us vs)
    then show ?case using not_error_member [of w ts v] by (cases "X = 1") (simp_all add: entry_def)
  qed simp
qed

text \<open>The results are stored by a rule of \<open>Start\<close>, whose symbol is only found in the state 4.\<close>

lemma set_but_nth: "q < length xs \<Longrightarrow> q \<noteq> k \<Longrightarrow> xs ! q \<in> set (take k xs @ drop (Suc k) xs)"
proof -
  assume q: "q < length xs" "q \<noteq> k"
  show ?thesis
  proof (cases "q < k")
    case True
    then show ?thesis using q by (metis Un_iff in_set_conv_nth length_take min_less_iff_conj nth_take set_append)
  next
    case False
    then have "drop (Suc k) xs ! (q - Suc k) = xs ! q" using q by simp
    moreover have "q - Suc k < length (drop (Suc k) xs)" using q False by simp
    ultimately show ?thesis by (metis Un_iff nth_mem set_append)
  qed
qed

lemma below_start: "q < 156 \<Longrightarrow> q \<noteq> 14 \<Longrightarrow> 4 \<notin> set (yy_below ! q)"
proof -
  have "\<forall>ps \<in> set (take 14 yy_below @ drop (Suc 14) yy_below). 4 \<notin> set ps" "length yy_below = 156"
    by (simp_all add: yy_below_def)
  then show "q < 156 \<Longrightarrow> q \<noteq> 14 \<Longrightarrow> 4 \<notin> set (yy_below ! q)" using set_but_nth [of q yy_below 14] by auto
qed

lemma symbol_start: "q < 156 \<Longrightarrow> q \<noteq> 4 \<Longrightarrow> yystos ! q \<noteq> 32"
proof -
  have "\<forall>X \<in> set (take 4 yystos @ drop (Suc 4) yystos). X \<noteq> 32" "length yystos = 156" by (simp_all add: yystos_def)
  then show "q < 156 \<Longrightarrow> q \<noteq> 4 \<Longrightarrow> yystos ! q \<noteq> 32" using set_but_nth [of q yystos 4] by auto
qed

lemma spans_entry_cong:
  "spans (entry w g) st ts \<Longrightarrow> fst (hd st) \<noteq> 4 \<Longrightarrow> fst (hd st) \<noteq> 14 \<Longrightarrow> spans (entry w h) st ts"
proof (induction "entry w g" st ts rule: spans.induct)
  case (3 q v p u st ts)
  have q: "q < 156" "p \<in> set (yy_below ! q)" "q \<noteq> 4" "q \<noteq> 14" using 3(2-4) by auto
  then have p: "p \<noteq> 14" "p \<noteq> 4" "yystos ! q \<noteq> 32"
    using below_not_final [OF q(1,2)] below_start [of q] symbol_start [of q] by auto
  obtain us vs where ts: "ts = us @ vs" "entry w g (yystos ! q) vs v" "spans (entry w g) ((p, u) # st) us"
    using 3(2) by auto
  have "spans (entry w h) ((p, u) # st) us" using 3(1) [OF ts(3)] p by simp
  moreover have "entry w h (yystos ! q) vs v" using ts(2) p(3) by (simp add: entry_def)
  ultimately show ?case using q ts(1) by auto
qed auto

section \<open>The invariant of an error-free parse\<close>

text \<open>The tokens of the input are those that the stack spans, then the lookahead, then those of the rest.\<close>

definition consumed :: "string \<Rightarrow> (nat \<times> yyval) list \<Rightarrow> config \<Rightarrow> bool" where
  "consumed s ts cf \<longleftrightarrow>
     (case yychar cf of
        None \<Rightarrow> (if yy_top cf = 14 then tokens s ts \<and> clean (glob cf)
                 else \<forall>rest. tokens (readable (glob cf)) rest \<longrightarrow> tokens s (ts @ rest))
      | Some ch \<Rightarrow>
          (if ch = YYEOF then tokens s ts \<and> clean (glob cf)
           else \<forall>rest. tokens (readable (glob cf)) rest \<longrightarrow> tokens s (ts @ (ch, yylval cf) # rest)))"

definition sound :: "world \<Rightarrow> string \<Rightarrow> config \<Rightarrow> bool" where
  "sound w s cf \<longleftrightarrow> yyerrstatus cf = 0 \<and> lookahead_ok cf
     \<and> (\<exists>ts. spans (entry w (glob cf)) (yystack cf) ts \<and> consumed s ts cf)
     \<and> (yy_top cf = 4 \<or> yy_top cf = 14 \<or> no_result (glob cf)) \<and> (yy_top cf = 14 \<longrightarrow> yychar cf = None)"

definition sound_outcome :: "world \<Rightarrow> string \<Rightarrow> outcome \<Rightarrow> bool" where
  "sound_outcome w s res \<longleftrightarrow>
     (case res of
        Continue cf \<Rightarrow> parse_error (glob cf) \<or> sound w s cf
      | Return n g \<Rightarrow> parse_error g \<or> (\<exists>ts. tokens s ts \<and> started w g ts \<and> clean g)
      | Throw e g \<Rightarrow> True)"

lemma yyerrlab_sound:
  assumes "yyerrstatus cf = 0" shows "sound_outcome w s (yyerrlab cf)"
  using assms by (auto simp: yyerrlab_def yyerrlab1_def sound_outcome_def yyerror_def Let_def split: option.split)


lemma value_action_g: "8 \<le> r \<Longrightarrow> semantic_action w r vs g = Inr (v, h) \<Longrightarrow> value_action w r vs = Inr v \<and> h = g"
  by (auto simp: semantic_action_def bindr_eq_Inr)

lemma as_eq_Inr:
  "as_set v = Inr s \<longleftrightarrow> v = V_set s" "as_rel v = Inr r \<longleftrightarrow> v = V_rel r" "as_env v = Inr e \<longleftrightarrow> v = V_env e"
  by (cases v; simp)+

lemma start_symbol: "2 \<le> r \<Longrightarrow> r \<le> 7 \<Longrightarrow> yyr1 ! r = 32"
proof -
  assume "2 \<le> r" "r \<le> 7"
  then consider "r = 2" | "r = 3" | "r = 4" | "r = 5" | "r = 6" | "r = 7" by linarith
  then show ?thesis by cases (simp_all add: yyr1_nth numeral_2_eq_2 [symmetric])
qed

lemma rule_not_start: "8 \<le> r \<Longrightarrow> r \<le> 89 \<Longrightarrow> yyr1 ! r \<noteq> 32"
proof -
  have "\<forall>X \<in> set (drop 8 yyr1). X \<noteq> 32" "length yyr1 = 90" by (simp_all add: yyr1_def)
  moreover assume "8 \<le> r" "r \<le> 89"
  ultimately have "drop 8 yyr1 ! (r - 8) \<in> set (drop 8 yyr1)" by (intro nth_mem) simp
  with \<open>\<forall>X \<in> _. _\<close> have "drop 8 yyr1 ! (r - 8) \<noteq> 32" by blast
  then show ?thesis using \<open>8 \<le> r\<close> \<open>length yyr1 = 90\<close> by simp
qed

lemma yields_entry_single:
  "yields (entry w g) [X] ts vs \<Longrightarrow> X \<noteq> 0 \<Longrightarrow> X \<noteq> 32 \<Longrightarrow> \<exists>u. vs = [u] \<and> derives w X ts u"
  by (auto simp: yields_simps entry_def)

lemma start_entry:
  assumes "2 \<le> r" "r \<le> 7" and y: "yields (entry w g) (yyrhs ! r) ts vs" and no: "no_result g"
    and sem: "semantic_action w r vs g = Inr (v, h)"
  shows "started w h ts \<and> readable h = readable g \<and> clean h = clean g \<and> yyr1 ! r = 32 \<and> \<not> clears_lookahead r"
proof -
  have "r \<noteq> 7" using yields_entry_error [OF y] by (cases "r = 7") (simp_all add: yyrhs_nth)
  then consider "r = 2" | "r = 3 \<or> r = 5" | "r = 4 \<or> r = 6" using assms(1,2) by linarith
  then show ?thesis
  proof cases
    case 1
    then obtain u where u: "vs = [u]" "derives w 33 ts u"
      using yields_entry_single [of w g 33 ts vs] y by (auto simp: yyrhs_nth numeral_2_eq_2 [symmetric])
    obtain e where e: "u = V_env e" "h = g\<lparr>parse_env_result := Some e\<rparr>"
      using sem 1 u(1) by (auto simp: semantic_action_def start_action_def bindr_eq_Inr as_eq_Inr)
    then have "started w h ts" using u(2) no by (auto simp: started_def no_result_def)
    then show ?thesis using 1 e(2) by (simp add: readable_def clean_def yyr1_nth numeral_2_eq_2 [symmetric] clears_lookahead_def)
  next
    case 2
    then have "\<exists>X. yyrhs ! r = [X] \<and> (X = 34 \<or> X = 35)" by (elim disjE) (simp_all add: yyrhs_nth)
    then obtain X u where u: "vs = [u]" "derives w X ts u" "X = 34 \<or> X = 35" using yields_entry_single y by fastforce
    obtain e where e: "u = V_set e" "h = g\<lparr>parse_set_result := Some e\<rparr>"
      using sem 2 u(1) by (auto simp: semantic_action_def start_action_def bindr_eq_Inr as_eq_Inr)
    then have "started w h ts" using u(2,3) no by (auto simp: started_def no_result_def)
    moreover have "yyr1 ! r = 32" using 2 by (elim disjE) (simp_all add: yyr1_nth)
    ultimately show ?thesis using 2 e(2) by (auto simp: readable_def clean_def clears_lookahead_def)
  next
    case 3
    then have "\<exists>X. yyrhs ! r = [X] \<and> (X = 36 \<or> X = 37)" by (elim disjE) (simp_all add: yyrhs_nth)
    then obtain X u where u: "vs = [u]" "derives w X ts u" "X = 36 \<or> X = 37" using yields_entry_single y by fastforce
    obtain e where e: "u = V_rel e" "h = g\<lparr>parse_relation_result := Some e\<rparr>"
      using sem 3 u(1) by (auto simp: semantic_action_def start_action_def bindr_eq_Inr as_eq_Inr)
    then have "started w h ts" using u(2,3) no by (auto simp: started_def no_result_def)
    moreover have "yyr1 ! r = 32" using 3 by (elim disjE) (simp_all add: yyr1_nth)
    ultimately show ?thesis using 3 e(2) by (auto simp: readable_def clean_def clears_lookahead_def)
  qed
qed

lemma rule_entry:
  assumes "8 \<le> r" "r \<le> 89" and y: "yields (entry w g) (yyrhs ! r) ts vs" and "semantic_action w r vs g = Inr (v, h)"
  shows "derives w (yyr1 ! r) ts v \<and> h = g \<and> \<not> clears_lookahead r"
proof -
  have "0 \<notin> set (yyrhs ! r)" "32 \<notin> set (yyrhs ! r)" using rhs_no_start assms(1,2) unfolding list_all_iff set_upt by auto
  then have "yields (derives w) (yyrhs ! r) ts vs" using yields_entry [OF y] by blast
  then have "derives w (yyr1 ! r) ts v" using value_action_g [OF assms(1,4)] assms(1,2) derives.rule by blast
  moreover have "1 \<in> set (yyrhs ! r)" if "r \<in> {25, 33, 40, 87}" using that by (elim insertE emptyE) (simp_all add: yyrhs_nth)
  ultimately show ?thesis
    using value_action_g [OF assms(1,4)] yields_entry_error [OF y] assms(1) by (auto simp: clears_lookahead_def)
qed


text \<open>The state 4 has no reduction.\<close>

lemma no_reduction: "\<not> reduce_ok 4 r"
proof
  assume red: "reduce_ok 4 r"
  then have r: "2 \<le> r" "r \<le> 89" by (auto simp: reduce_ok_def)
  obtain S where S: "yy_expose (rev (yyrhs ! r)) [4] = Some S" and ok: "all_exposed_ok 4 r S"
    using red by (auto simp: reduce_ok_def split: option.splits)
  show False
  proof (cases "rev (yyrhs ! r)")
    case Nil
    then have "exposed_ok 4 r 4" using S ok by auto
    then have "4 \<in> set (yy_below ! yy_goto 4 (yyr1 ! r))" "yy_goto 4 (yyr1 ! r) < 156" "yystos ! yy_goto 4 (yyr1 ! r) = yyr1 ! r"
      by (auto simp: exposed_ok_def Let_def)
    then show False using below_start rule_facts(2) [OF r] by fastforce
  next
    case (Cons X Xs)
    then have "X = 32" using S by (auto simp: yystos_nth split: if_splits)
    moreover have "X \<in> set (rev (yyrhs ! r))" unfolding Cons by simp
    moreover have "32 \<notin> set (yyrhs ! r)" using rhs_no_start r unfolding list_all_iff set_upt by auto
    ultimately show False by simp
  qed
qed

lemma yyreduce_sound:
  assumes inv: "sound w s cf" and red: "reduce_ok (yy_top cf) r" and top: "yy_top cf \<noteq> 14"
  shows "sound_outcome w s (yyreduce w r cf)"
proof -
  let ?n = "yyr2 ! r" and ?vs = "rev (map snd (take (yyr2 ! r) (yystack cf)))"
  have r: "2 \<le> r" "r \<le> 89" using red by (auto simp: reduce_ok_def)
  obtain ts where ts: "spans (entry w (glob cf)) (yystack cf) ts" "consumed s ts cf" using inv by (auto simp: sound_def)
  obtain us ys p u st' where drop: "drop ?n (yystack cf) = (p, u) # st'" and sp: "spans (entry w (glob cf)) ((p, u) # st') us"
    and tsu: "ts = us @ ys" and y: "yields (entry w (glob cf)) (yyrhs ! r) ys ?vs" and ok: "exposed_ok (yy_top cf) r p"
    using spans_reduce [OF ts(1)] red by (metis yy_top_def)
  let ?q = "yy_goto p (yyr1 ! r)"
  have q: "?q < 156" "yystos ! ?q = yyr1 ! r" "p \<in> set (yy_below ! ?q)" using ok by (auto simp: exposed_ok_def Let_def)
  have "?q \<noteq> 14" using q(2) rule_facts(2) [OF r] by auto
  then have p: "p \<noteq> 4" "p \<noteq> 14" using below_start [OF q(1)] below_not_final [OF q(1,3)] q(3) by auto
  show ?thesis
  proof (cases "semantic_action w r ?vs (glob cf)")
    case (Inl e)
    then show ?thesis by (simp add: yyreduce_def sound_outcome_def Let_def)
  next
    case (Inr vg)
    obtain v g where vg: "vg = (v, g)" by fastforce
    have no: "no_result (glob cf)" using inv top no_reduction [of r] red by (auto simp: sound_def)
    have q4: "?q = 4 \<longleftrightarrow> r \<le> 7"
    proof
      show "?q = 4" if "r \<le> 7" using start_symbol [OF r(1) that] symbol_start [OF q(1)] q(2) by auto
      show "r \<le> 7" if "?q = 4"
      proof (rule ccontr)
        assume "\<not> r \<le> 7"
        then have "yyr1 ! r \<noteq> 32" using rule_not_start r by simp
        then show False using that q(2) by (simp add: yystos_nth)
      qed
    qed
    have *: "entry w g (yyr1 ! r) ys v" "readable g = readable (glob cf)" "clean g = clean (glob cf)"
      "\<not> clears_lookahead r" "?q = 4 \<or> no_result g"
    proof -
      have "entry w g (yyr1 ! r) ys v \<and> readable g = readable (glob cf) \<and> clean g = clean (glob cf)
        \<and> \<not> clears_lookahead r \<and> (?q = 4 \<or> no_result g)"
      proof (cases "r \<le> 7")
        case True
        then show ?thesis using start_entry [OF r(1) True y no] Inr vg q4 by (simp add: entry_def)
      next
        case False
        then have "8 \<le> r" by simp
        then show ?thesis using rule_entry [OF \<open>8 \<le> r\<close> r(2) y] Inr vg rule_facts(2) [OF r] no rule_not_start [of r] r
          by (auto simp: entry_def)
      qed
      then show "entry w g (yyr1 ! r) ys v" "readable g = readable (glob cf)" "clean g = clean (glob cf)"
        "\<not> clears_lookahead r" "?q = 4 \<or> no_result g" by blast+
    qed
    have "spans (entry w g) ((p, u) # st') us" using spans_entry_cong [OF sp] p by simp
    then have "spans (entry w g) ((?q, v) # (p, u) # st') ts"
      using spans_push [where R = "entry w g"] q *(1) unfolding tsu by metis
    moreover have "consumed s ts (cf\<lparr>yystack := (?q, v) # (p, u) # st', glob := g\<rparr>)"
      using ts(2) *(2,3) top \<open>?q \<noteq> 14\<close> by (auto simp: consumed_def yy_top_def split: option.splits)
    ultimately have "sound w s (cf\<lparr>yystack := (?q, v) # (p, u) # st', glob := g\<rparr>)"
      using inv *(5) \<open>?q \<noteq> 14\<close> by (auto simp: sound_def lookahead_ok_def yy_top_def)
    then show ?thesis using Inr vg drop *(4) by (simp add: yyreduce_def sound_outcome_def Let_def)
  qed
qed


lemma yyperform_sound:
  assumes inv: "sound w s cf" and top: "yy_top cf \<noteq> 14" and ch: "yychar cf = Some ch" and con: "\<not> yy_consistent (yy_top cf)"
  shows "sound_outcome w s (yyperform w (yy_lookup (yy_top cf) (yy_translate ch)) cf)"
proof -
  obtain ts where ts: "spans (entry w (glob cf)) (yystack cf) ts" "consumed s ts cf" using inv by (auto simp: sound_def)
  have top156: "yy_top cf < 156" using spans_top [OF ts(1)] by (simp add: yy_top_def)
  have tok: "token_ok ch (yylval cf)" using inv ch by (auto simp: sound_def lookahead_ok_def)
  then have tr: "yy_translate ch < 31" "yy_translate ch = 0 \<longleftrightarrow> ch = 0" "ch \<noteq> 0 \<longrightarrow> 258 \<le> ch \<and> ch \<le> 285"
    by (auto simp: token_ok_def translate_code)
  note lookup = lookup_ok [OF top156 top con tr(1)]
  show ?thesis
  proof (cases "yy_lookup (yy_top cf) (yy_translate ch)")
    case (Shift q)
    then have q: "q < 156" "yystos ! q = yy_translate ch" "yy_top cf \<in> set (yy_below ! q)"
      "yy_translate ch = 0 \<Longrightarrow> yy_top cf = 4 \<and> q = 14"
      using lookup(1) by (auto simp: shift_ok_def)
    obtain p u st where st: "yystack cf = (p, u) # st" using spans_top [OF ts(1)] by (cases "yystack cf") auto
    let ?cf = "cf\<lparr>yystack := (q, yylval cf) # yystack cf, yychar := None, yyerrstatus := yyerrstatus cf - 1\<rparr>"
    let ?us = "if ch = 0 then [] else [(ch, yylval cf)]"
    have "entry w (glob cf) (yystos ! q) ?us (yylval cf)"
      using tr derives.terminal [of ch "yystos ! q" w "yylval cf"] q(2) by (auto simp: entry_def)
    then have "spans (entry w (glob cf)) ((q, yylval cf) # yystack cf) (ts @ ?us)"
      using spans_push [of "entry w (glob cf)" p u st ts q] ts(1) q(1,3) st unfolding yy_top_def by (metis fst_conv list.sel(1))
    moreover have "consumed s (ts @ ?us) ?cf"
      using ts(2) ch q(2,4) tr(2) by (auto simp: consumed_def yy_top_def)
    moreover have "q = 14 \<or> no_result (glob cf)"
      using inv top below_start [OF q(1)] q(3) unfolding sound_def by metis
    ultimately have "sound w s ?cf" using inv by (auto simp: sound_def lookahead_ok_def yy_top_def)
    then show ?thesis by (simp add: Shift sound_outcome_def)
  next
    case (Reduce r)
    then show ?thesis using yyreduce_sound [OF inv lookup(2) top] by simp
  next
    case Syntax_error
    then show ?thesis using yyerrlab_sound inv by (simp add: sound_def)
  qed
qed

lemma lex_sound:
  assumes inv: "sound w s cf" and top: "yy_top cf \<noteq> 14" and none: "yychar cf = None" and lex: "yylex (glob cf) = Inr (ch, v, g)"
  shows "sound w s (cf\<lparr>yychar := Some ch, yylval := v, glob := g\<rparr>)"
proof -
  obtain ts where ts: "spans (entry w (glob cf)) (yystack cf) ts" "consumed s ts cf" using inv by (auto simp: sound_def)
  note res = yylex_results [OF lex] and toks = yylex_tokens [OF lex] and ok = yylex_ok [OF lex]
  have "entry w g = entry w (glob cf)" using entry_same_results res by metis
  moreover have "no_result g = no_result (glob cf)" using res by (simp add: same_results_def no_result_def)
  moreover have "consumed s ts (cf\<lparr>yychar := Some ch, yylval := v, glob := g\<rparr>)"
    using ts(2) none top toks res by (auto simp: consumed_def)
  ultimately show ?thesis using inv ts(1) ok top by (auto simp: sound_def lookahead_ok_def yy_top_def)
qed

lemma spans_final:
  assumes "spans (entry w g) st ts" "fst (hd st) = 14"
  shows "started w g ts"
proof -
  obtain v p u st' where st: "st = (14, v) # (p, u) # st'"
    using assms by (cases "(entry w g, st, ts)" rule: spans.cases) auto
  then have p: "p = 4" and 4: "spans (entry w g) ((4, u) # st') ts" using assms by (auto simp: below_nth entry_def)
  then obtain q x st'' where st': "st' = (q, x) # st''" by (cases st') auto
  then obtain us vs where "ts = us @ vs" "started w g vs" and 0: "spans (entry w g) ((0, x) # st'') us"
    using 4 by (auto simp: below_nth yystos_nth entry_def)
  moreover have "us = []"
  proof (cases st'')
    case (Cons y ys)
    then show ?thesis using 0 by (cases y) (simp add: below_nth)
  qed (use 0 in simp)
  ultimately show ?thesis by simp
qed

lemma yystep_sound:
  assumes inv: "sound w s cf"
  shows "sound_outcome w s (yystep w cf)"
proof -
  obtain ts where ts: "spans (entry w (glob cf)) (yystack cf) ts" "consumed s ts cf" using inv by (auto simp: sound_def)
  have top: "yy_top cf < 156" using spans_top [OF ts(1)] by (simp add: yy_top_def)
  consider "length (yystack cf) \<ge> 10000" | "length (yystack cf) < 10000" "yy_top cf = 14"
    | "length (yystack cf) < 10000" "yy_top cf \<noteq> 14" "yy_consistent (yy_top cf)"
    | ch where "length (yystack cf) < 10000" "yy_top cf \<noteq> 14" "\<not> yy_consistent (yy_top cf)" "yychar cf = Some ch"
    | "length (yystack cf) < 10000" "yy_top cf \<noteq> 14" "\<not> yy_consistent (yy_top cf)" "yychar cf = None"
    by fastforce
  then show ?thesis
  proof cases
    case 1
    then show ?thesis by (simp add: yystep_def sound_outcome_def yyerror_def Let_def)
  next
    case 2
    have "started w (glob cf) ts" using spans_final [OF ts(1)] 2 by (simp add: yy_top_def)
    moreover have "tokens s ts \<and> clean (glob cf)" using ts(2) inv 2 by (simp add: consumed_def sound_def)
    ultimately show ?thesis using 2 by (auto simp: yystep_def yy_top_def sound_outcome_def Let_def)
  next
    case 3
    then obtain r where "yy_default (yy_top cf) = Reduce r" "reduce_ok (yy_top cf) r" using default_ok [OF top] by blast
    then show ?thesis using yyreduce_sound [OF inv _ 3(2), of r] 3 by (simp add: yystep_def yy_top_def Let_def)
  next
    case 4
    then show ?thesis using yyperform_sound [OF inv 4(2) 4(4) 4(3)] by (simp add: yystep_def yy_top_def Let_def)
  next
    case 5
    show ?thesis
    proof (cases "yylex (glob cf)")
      case (Inl e)
      then show ?thesis using 5 by (simp add: yystep_def yy_top_def sound_outcome_def Let_def)
    next
      case (Inr tvg)
      obtain ch v g where tvg: "tvg = (ch, v, g)" by (cases tvg) auto
      let ?cf = "cf\<lparr>yychar := Some ch, yylval := v, glob := g\<rparr>"
      have "sound w s ?cf" using lex_sound [OF inv 5(2,4)] Inr tvg by simp
      then show ?thesis using yyperform_sound [of w s ?cf ch] 5 Inr tvg by (simp add: yystep_def yy_top_def Let_def)
    qed
  qed
qed


text \<open>The error flag stays set.\<close>

definition flagged :: "outcome \<Rightarrow> bool" where
  "flagged res \<longleftrightarrow>
     (case res of Continue cf \<Rightarrow> parse_error (glob cf) | Return n g \<Rightarrow> parse_error g | Throw e g \<Rightarrow> True)"

lemma semantic_action_flag: "semantic_action w r vs g = Inr (v, h) \<Longrightarrow> parse_error h = parse_error g"
  by (cases "r \<le> 7") (auto simp: semantic_action_def start_action_def bindr_eq_Inr split: if_splits)

lemma yyperform_flagged:
  assumes "parse_error (glob cf)" shows "flagged (yyperform w a cf)"
proof (cases a)
  case (Reduce r)
  then show ?thesis using assms semantic_action_flag [of w r _ "glob cf"]
    by (auto simp: flagged_def yyreduce_def Let_def split: sum.split)
next
  case Syntax_error
  have "flagged (yyerrlab1 cf')" if "parse_error (glob cf')" for cf'
    using that by (auto simp: flagged_def yyerrlab1_def split: option.split)
  then show ?thesis using assms Syntax_error by (simp add: yyerrlab_def yyerror_def Let_def flagged_def [of "Return _ _"])
qed (use assms in \<open>simp add: flagged_def\<close>)

lemma yystep_flagged: "parse_error (glob cf) \<Longrightarrow> flagged (yystep w cf)"
proof -
  assume a: "parse_error (glob cf)"
  have "parse_error g" if "yylex (glob cf) = Inr (ch, v, g)" for ch v g
    using yylex_results [OF that] a by (simp add: same_results_def)
  then show ?thesis using a
    by (auto simp: yystep_def Let_def yyperform_flagged flagged_def [of "Return _ _"] flagged_def [of "Throw _ _"] yyerror_def
      split: option.split sum.split)
qed

lemma yyrun_flagged: "parse_error (glob cf) \<Longrightarrow> flagged (yyrun n w cf)"
proof (induction n arbitrary: cf)
  case (Suc n)
  show ?case
  proof (cases "yystep w cf")
    case (Continue cf')
    then show ?thesis using yystep_flagged [OF Suc.prems, of w] Suc.IH [of cf'] by (simp add: flagged_def)
  qed (use yystep_flagged [OF Suc.prems, of w] in \<open>simp_all add: flagged_def\<close>)
qed (simp add: flagged_def)

lemma yyrun_sound: "sound w s cf \<Longrightarrow> sound_outcome w s (yyrun n w cf)"
proof (induction n arbitrary: cf)
  case (Suc n)
  show ?case
  proof (cases "yystep w cf")
    case (Continue cf')
    then consider "parse_error (glob cf')" | "sound w s cf'"
      using yystep_sound [OF Suc.prems] by (auto simp: sound_outcome_def)
    then show ?thesis
    proof cases
      case 1
      then show ?thesis using yyrun_flagged [OF 1, of n w] Continue by (auto simp: flagged_def sound_outcome_def split: outcome.splits)
    next
      case 2
      then show ?thesis using Suc.IH Continue by simp
    qed
  qed (use yystep_sound [OF Suc.prems] in simp_all)
qed (simp add: sound_outcome_def)

lemma sound_start:
  assumes "no_result g"
  shows "sound w (readable g) (yystart g)"
proof -
  have "consumed (readable g) [] (yystart g)" by (simp add: consumed_def yystart_def yy_top_def)
  moreover have "spans (entry w g) (yystack (yystart g)) []" by (simp add: yystart_def)
  moreover have "glob (yystart g) = g" by (simp add: yystart_def)
  ultimately show ?thesis using assms by (auto simp: sound_def yystart_def lookahead_ok_def yy_top_def)
qed

section \<open>What the entry points of the parser accept\<close>

text \<open>The characters of the argument up to the first with the code 255, which the scanner reads as the end.\<close>

definition text_of :: "string \<Rightarrow> string" where
  "text_of s = takeWhile (\<lambda>ch. of_char ch \<noteq> (255::nat)) s"

lemma run_parser_sound:
  assumes "clean g" and "run_parser f w s g = (Inr res, g')"
  shows "\<exists>ts. tokens (text_of s) ts \<and> started w g' ts \<and> clean g' \<and> res = f g'"
proof -
  let ?g = "parse_start s g"
  have "no_result ?g" "readable ?g = text_of s"
    using assms(1) by (simp_all add: parse_start_def no_result_def readable_def clean_def text_of_def)
  then have "sound_outcome w (text_of s) (yyparse w ?g)" using yyrun_sound sound_start unfolding yyparse_def by metis
  then show ?thesis using assms(2) by (auto simp: run_parser_def sound_outcome_def split: outcome.splits if_splits)
qed

text \<open>
  C4. What \<open>parse_set\<close> accepts is a set by the grammar. When the scanner has no characters left from an earlier
  parse and \<open>parse_set\<close> returns a set, the tokens of the text by the rules of \<open>parser.l\<close> have a
  derivation by the productions of \<open>parser.y\<close> from one of the two symbols of a set, the set is the value that the
  semantic actions give to this derivation, and again no characters are left in the scanner.
\<close>

theorem parse_set_sound:
  "clean g \<Longrightarrow> parse_set w s g = (Inr (Some S), g') \<Longrightarrow>
   \<exists>ts X. tokens (text_of s) ts \<and> (X = 34 \<or> X = 35) \<and> derives w X ts (V_set S) \<and> clean g'"
  unfolding parse_set_def by (drule (1) run_parser_sound) (force simp: started_def)

text \<open>A smallest example, evaluated.\<close>

definition parser_world :: world where
  "parser_world = \<lparr>address_order = no_addr, key_address = (\<lambda>n. n), inverse_of = (\<lambda>f. []), range_arity = (\<lambda>f. Inr 1)\<rparr>"

lemma parse_braces:
  "case fst (parse_set parser_world ''{}'' globals_new) of Inr (Some S) \<Rightarrow> mArity S = 0 | _ \<Rightarrow> False"
  by code_simp

theorem parse_set_sound_witness:
  "\<exists>S g' ts X. parse_set parser_world ''{}'' globals_new = (Inr (Some S), g') \<and> mArity S = 0
    \<and> tokens (text_of ''{}'') ts \<and> (X = 34 \<or> X = 35) \<and> derives parser_world X ts (V_set S) \<and> clean g'"
proof -
  obtain S g' where S: "parse_set parser_world ''{}'' globals_new = (Inr (Some S), g')" "mArity S = 0"
    using parse_braces by (cases "parse_set parser_world ''{}'' globals_new") (auto split: sum.splits option.splits)
  moreover have "clean globals_new" by (simp add: clean_def globals_new_def)
  ultimately show ?thesis using parse_set_sound by blast
qed

end
