(* ===== verification/IEG_ParseMeaning.thy ===== *)
theory IEG_ParseMeaning
  imports IEG_Parser IEG_SetProps IEG_Compose
begin

text \<open>
  What the text of a constraint means, rule by rule of the grammar, and that the semantic actions build
  expressions with this meaning. The meaning is a number for an expression, a truth value
  for a constraint and for a list of constraints; it is given without the expressions of the library.
\<close>

section \<open>Meanings\<close>

datatype meaning =
    M_none
  | M_int int
  | M_name string
  | M_num int
  | M_nums "int list"
  | M_holds bool
  | M_all bool

text \<open>The meaning of the left-hand side of a rule from those of the symbols on the right. \<open>M_none\<close> stands for
  what has no meaning of its own: punctuation, and tuple expressions.\<close>

fun M_one :: "meaning \<Rightarrow> meaning" where
  "M_one (M_holds a) = M_all a" | "M_one m = M_none"

fun M_and :: "meaning \<Rightarrow> meaning \<Rightarrow> meaning" where
  "M_and (M_all a) (M_holds b) = M_all (a \<and> b)"
| "M_and (M_all a) (M_all b) = M_all (a \<and> b)"
| "M_and m n = M_none"

fun M_compare :: "(int \<Rightarrow> int \<Rightarrow> bool) \<Rightarrow> meaning \<Rightarrow> meaning \<Rightarrow> meaning" where
  "M_compare R (M_num a) (M_num b) = M_holds (R a b)" | "M_compare R m n = M_none"

fun M_range :: "(int \<Rightarrow> int \<Rightarrow> bool) \<Rightarrow> (int \<Rightarrow> int \<Rightarrow> bool) \<Rightarrow> meaning \<Rightarrow> meaning \<Rightarrow> meaning \<Rightarrow> meaning" where
  "M_range R S (M_num a) (M_num b) (M_num c) = M_all (R a b \<and> S b c)" | "M_range R S l m n = M_none"

text \<open>Rules 43 to 66: lists of constraints and constraints.\<close>

definition constraint_meaning :: "nat \<Rightarrow> meaning list \<Rightarrow> meaning" where
  "constraint_meaning r ms =
     (if r = 43 then M_one (ms ! 0)
      else if r = 44 \<or> r = 45 \<or> r = 47 \<or> r = 48 then M_and (ms ! 0) (ms ! 2)
      else if r \<le> 53 then ms ! 0
      else if r = 54 then M_compare (=) (ms ! 0) (ms ! 2)
      else if r = 55 then M_compare (<) (ms ! 0) (ms ! 2)
      else if r = 56 then M_compare (\<le>) (ms ! 0) (ms ! 2)
      else if r = 57 then M_compare (>) (ms ! 0) (ms ! 2)
      else if r = 58 then M_compare (\<ge>) (ms ! 0) (ms ! 2)
      else if r \<le> 62 then ms ! 0
      else if r = 63 then M_range (\<le>) (<) (ms ! 0) (ms ! 2) (ms ! 4)
      else if r = 64 then M_range (<) (\<le>) (ms ! 0) (ms ! 2) (ms ! 4)
      else if r = 65 then M_range (\<le>) (\<le>) (ms ! 0) (ms ! 2) (ms ! 4)
      else M_range (<) (<) (ms ! 0) (ms ! 2) (ms ! 4))"

fun M_lift :: "(int \<Rightarrow> int \<Rightarrow> int) \<Rightarrow> meaning \<Rightarrow> meaning \<Rightarrow> meaning" where
  "M_lift f (M_num a) (M_num b) = M_num (f a b)" | "M_lift f m n = M_none"

fun M_scale :: "meaning \<Rightarrow> meaning \<Rightarrow> meaning" where
  "M_scale (M_int k) (M_num a) = M_num (k * a)" | "M_scale m n = M_none"

fun M_negative :: "meaning \<Rightarrow> meaning" where
  "M_negative (M_num a) = M_num (- a)" | "M_negative m = M_none"

fun M_number :: "meaning \<Rightarrow> meaning" where
  "M_number (M_int k) = M_num k" | "M_number m = M_none"

fun M_single :: "meaning \<Rightarrow> meaning" where
  "M_single (M_nums [a]) = M_num a" | "M_single m = M_none"

fun M_append :: "meaning \<Rightarrow> meaning \<Rightarrow> meaning" where
  "M_append (M_nums as) (M_num a) = M_nums (as @ [a])" | "M_append m n = M_none"

fun M_symbol :: "valuation \<Rightarrow> meaning \<Rightarrow> meaning" where
  "M_symbol v (M_name s) = M_num (symv v s)" | "M_symbol v m = M_none"

fun M_call :: "valuation \<Rightarrow> meaning \<Rightarrow> meaning \<Rightarrow> meaning \<Rightarrow> meaning" where
  "M_call v (M_name f) (M_nums as) (M_int i) = M_num (ufv v f i as)" | "M_call v l m n = M_none"

text \<open>Rules 67 to 89: parentheses, numbers, signs, sums, products with a number, names and calls.\<close>

definition expression_meaning :: "valuation \<Rightarrow> nat \<Rightarrow> meaning list \<Rightarrow> meaning" where
  "expression_meaning v r ms =
     (if r \<le> 72 \<or> r = 81 \<or> r = 82 \<or> r = 83 then ms ! 0
      else if r = 73 then M_single (ms ! 1)
      else if r = 74 then M_number (ms ! 0)
      else if r = 75 then M_negative (ms ! 1)
      else if r = 76 then M_lift (+) (ms ! 0) (ms ! 2)
      else if r = 77 then M_lift (-) (ms ! 0) (ms ! 2)
      else if r = 78 then M_scale (ms ! 0) (ms ! 1)
      else if r = 79 then M_scale (ms ! 0) (ms ! 2)
      else if r = 80 then M_scale (ms ! 2) (ms ! 0)
      else if r = 84 then M_symbol v (ms ! 0)
      else if r = 85 then M_call v (ms ! 0) (ms ! 2) (M_int 0)
      else if r = 86 then M_call v (ms ! 0) (ms ! 2) (ms ! 5)
      else if r = 88 then M_append (ms ! 0) (ms ! 2)
      else if r = 89 then M_append (M_nums []) (ms ! 0)
      else M_none)"

text \<open>Rules 38 to 42: names and the constraints after the colon, which may be left out.\<close>

definition rule_meaning :: "valuation \<Rightarrow> nat \<Rightarrow> meaning list \<Rightarrow> meaning" where
  "rule_meaning v r ms =
     (if r = 38 then ms ! 0
      else if r = 39 then ms ! 1
      else if r = 40 then M_none
      else if r \<le> 42 then M_all True
      else if r \<le> 66 then constraint_meaning r ms
      else expression_meaning v r ms)"

section \<open>Values with a meaning\<close>

definition constraint_exp :: "exp \<Rightarrow> bool" where
  "constraint_exp e \<longleftrightarrow> plain_exp e \<and> (isEquality e \<or> isInequality e)"

definition constraint_holds :: "valuation \<Rightarrow> exp \<Rightarrow> bool" where
  "constraint_holds v e \<longleftrightarrow> (if isEquality e then eval_exp v e = 0 else eval_exp v e \<ge> 0)"

definition means :: "valuation \<Rightarrow> yyval \<Rightarrow> meaning \<Rightarrow> bool" where
  "means v u m \<longleftrightarrow>
     (case m of
        M_none \<Rightarrow> True
      | M_int k \<Rightarrow> u = V_int k \<and> 0 \<le> k
      | M_name s \<Rightarrow> u = V_str s \<and> wf_name s \<and> take 4 s \<noteq> ''__tv''
      | M_num a \<Rightarrow> \<exists>e. u = V_exp e \<and> plain_exp e \<and> eval_exp v e = a
      | M_nums as \<Rightarrow> \<exists>es. u = V_exps es \<and> list_all plain_exp es \<and> map (eval_exp v) es = as
      | M_holds b \<Rightarrow> \<exists>e. u = V_exp e \<and> constraint_exp e \<and> constraint_holds v e = b
      | M_all b \<Rightarrow> \<exists>es. u = V_exps es \<and> list_all constraint_exp es \<and> list_all (constraint_holds v) es = b)"

lemma means_simps [simp]:
  "means v u M_none"
  "means v u (M_int k) \<longleftrightarrow> u = V_int k \<and> 0 \<le> k"
  "means v u (M_name s) \<longleftrightarrow> u = V_str s \<and> wf_name s \<and> take 4 s \<noteq> ''__tv''"
  "means v u (M_num a) \<longleftrightarrow> (\<exists>e. u = V_exp e \<and> plain_exp e \<and> eval_exp v e = a)"
  "means v u (M_nums as) \<longleftrightarrow> (\<exists>es. u = V_exps es \<and> list_all plain_exp es \<and> map (eval_exp v) es = as)"
  "means v u (M_holds b) \<longleftrightarrow> (\<exists>e. u = V_exp e \<and> constraint_exp e \<and> constraint_holds v e = b)"
  "means v u (M_all b) \<longleftrightarrow> (\<exists>es. u = V_exps es \<and> list_all constraint_exp es \<and> list_all (constraint_holds v) es = b)"
  by (simp_all add: means_def)

lemma type_of_sum [simp]:
  "mExpType (addExp e f) = mExpType f" "mExpType (addTerm t f) = mExpType f"
  by (cases f; simp add: addExp_def addTerm_def)+

lemma type_of_comparison [simp]:
  "mExpType (setEquality e) = Equality" "mExpType (setInequality e) = Inequality"
  by (cases e; simp)+

lemmas comparison_def = eq_action_def lt_action_def lte_action_def gt_action_def gte_action_def minus_exp_def
  constraint_exp_def constraint_holds_def isEquality_def isInequality_def

text \<open>A function that builds the constraint of a comparison.\<close>

definition compares :: "(exp \<Rightarrow> exp \<Rightarrow> exp) \<Rightarrow> (int \<Rightarrow> int \<Rightarrow> bool) \<Rightarrow> bool" where
  "compares f R \<longleftrightarrow>
     (\<forall>v a b. plain_exp a \<longrightarrow> plain_exp b \<longrightarrow>
        constraint_exp (f a b) \<and> constraint_holds v (f a b) = R (eval_exp v a) (eval_exp v b))"

lemma compares_actions [simp]:
  "compares eq_action (=)" "compares lt_action (<)" "compares lte_action (\<le>)" "compares gt_action (>)" "compares gte_action (\<ge>)"
  by (auto simp: compares_def comparison_def plain_intros eval_simps)

section \<open>The actions keep the meaning\<close>

lemma compare_means:
  assumes "compare_action f vs = Inr u" and "compares f R" and "means v (vs ! 0) m" "means v (vs ! 2) n"
  shows "means v u (M_compare R m n)"
  using assms by (cases "(R, m, n)" rule: M_compare.cases) (auto simp: compares_def compare_action_def bind2_def bindr_eq_Inr)

lemma range_means:
  assumes "range_action f g vs = Inr u" and "compares f R" "compares g S"
    and "means v (vs ! 0) l" "means v (vs ! 2) m" "means v (vs ! 4) n"
  shows "means v u (M_range R S l m n)"
  using assms
  by (cases "(R, S, l, m, n)" rule: M_range.cases) (auto simp: compares_def range_action_def bind2_def bindr_eq_Inr)

lemma minus_means:
  "means v (vs ! 0) m \<Longrightarrow> means v (vs ! 2) n \<Longrightarrow> compare_action minus_exp vs = Inr u \<Longrightarrow> means v u (M_lift (-) m n)"
  by (cases "((-) :: int \<Rightarrow> int \<Rightarrow> int, m, n)" rule: M_lift.cases)
    (auto simp: compare_action_def bind2_def bindr_eq_Inr minus_exp_def plain_intros eval_simps)

lemma scale_means:
  "means v a m \<Longrightarrow> means v b n \<Longrightarrow> scale_action a b = Inr u \<Longrightarrow> means v u (M_scale m n)"
  by (cases "(m, n)" rule: M_scale.cases)
    (auto simp: scale_action_def bind2_def bindr_eq_Inr plain_intros eval_simps)

lemma fill_arguments:
  "foldm (\<lambda>(i, e). setParamExp i e) (enumerate (length as) es)
     (s\<lparr>mArgs := map Some as @ replicate (length es) None\<rparr>) = Inr (s\<lparr>mArgs := map Some (as @ es)\<rparr>)"
proof (induction es arbitrary: as)
  case (Cons e es)
  have "foldm (\<lambda>(i, e). setParamExp i e) (enumerate (Suc (length as)) es)
     (s\<lparr>mArgs := map Some (as @ [e]) @ replicate (length es) None\<rparr>) = Inr (s\<lparr>mArgs := map Some (as @ e # es)\<rparr>)"
    using Cons.IH [of "as @ [e]"] by simp
  moreover have "setParamExp (length as) e (s\<lparr>mArgs := map Some as @ replicate (length (e # es)) None\<rparr>)
      = Inr (s\<lparr>mArgs := map Some (as @ [e]) @ replicate (length es) None\<rparr>)"
    by (simp add: setParamExp_def nth_append list_update_append)
  ultimately show ?case by simp
qed simp

lemma call_action_value: "call_action f es i = Inr (exp_of_term (UFCallTerm 1 f es i))"
proof -
  have "mArgs (UFCallTerm_new 1 f (length es) i) = replicate (length es) None" by (simp add: UFCallTerm_new_def)
  then have "foldm (\<lambda>(i, e). setParamExp i e) (enumerate 0 es) (UFCallTerm_new 1 f (length es) i)
      = Inr ((UFCallTerm_new 1 f (length es) i)\<lparr>mArgs := map Some es\<rparr>)"
    using fill_arguments [of "[]" es "UFCallTerm_new 1 f (length es) i"] by (simp add: UFCallTerm_new_def)
  then show ?thesis by (auto simp: call_action_def ufcall_copy_def UFCallTerm_new_def comp_def)
qed

lemma term_means: "plain_term t \<Longrightarrow> means v (V_exp (exp_of_term t)) (M_num (coefficient t * factor_val v t))"
  by (auto simp: exp_of_term_def plain_intros eval_simps)

lemma call_means:
  "means v a (M_name f) \<Longrightarrow> means v b (M_nums as) \<Longrightarrow> -1 \<le> i \<Longrightarrow>
   bind2 (as_str a) (as_exps b) (\<lambda>f es. bindr (call_action f es i) (\<lambda>e. Inr (V_exp e))) = Inr u \<Longrightarrow>
   means v u (M_num (ufv v f (tupleIndex i) as))"
  using term_means [of "UFCallTerm 1 f es i" v for es]
  by (auto simp: bind2_def call_action_value)

lemma call_means_index:
  assumes "means v a l" "means v b m" "means v c n"
    and "bindr (as_int c) (\<lambda>i. bind2 (as_str a) (as_exps b) (\<lambda>f es. bindr (call_action f es i) (\<lambda>e. Inr (V_exp e)))) = Inr u"
  shows "means v u (M_call v l m n)"
proof (cases "(v, l, m, n)" rule: M_call.cases)
  case (1 v' f as i)
  then show ?thesis using assms call_means [of v a f b as i u] by (auto simp: tupleIndex_def isIndexed_def)
qed simp_all

lemma call_means_plain:
  assumes "means v a l" "means v b m"
    and "bind2 (as_str a) (as_exps b) (\<lambda>f es. bindr (call_action f es (-1)) (\<lambda>e. Inr (V_exp e))) = Inr u"
  shows "means v u (M_call v l m (M_int 0))"
proof (cases "(v, l, m, M_int 0)" rule: M_call.cases)
  case (1 v' f as i)
  then show ?thesis using assms call_means [of v a f b as "-1" u] by (auto simp: tupleIndex_def isIndexed_def)
qed simp_all

lemma and_means:
  "means v a m \<Longrightarrow> means v b n \<Longrightarrow>
   bind2 (as_exps a) (as_exp b) (\<lambda>es e. Inr (V_exps (es @ [e]))) = Inr u \<or>
   bind2 (as_exps a) (as_exps b) (\<lambda>es e. Inr (V_exps (es @ e))) = Inr u \<Longrightarrow> means v u (M_and m n)"
  by (cases "(m, n)" rule: M_and.cases) (auto simp: bind2_def bindr_eq_Inr)

lemma number_means:
  "means v a m \<Longrightarrow> bindr (as_int a) (\<lambda>n. Inr (V_exp (exp_of_term (Term n)))) = Inr u \<Longrightarrow> means v u (M_number m)"
  using term_means [of "Term n" v for n] by (cases m) auto

lemma symbol_means:
  "means v a m \<Longrightarrow> bindr (as_str a) (\<lambda>s. Inr (V_exp (exp_of_term (VarTerm 1 s)))) = Inr u \<Longrightarrow> means v u (M_symbol v m)"
  using term_means [of "VarTerm 1 s" v for s] by (cases m) auto

lemma negative_means:
  "means v a m \<Longrightarrow> bindr (as_exp a) (\<lambda>e. Inr (V_exp (multiplyBy (-1) e))) = Inr u \<Longrightarrow> means v u (M_negative m)"
  by (cases m) (auto simp: plain_intros eval_simps)

lemma sum_means:
  "means v a m \<Longrightarrow> means v b n \<Longrightarrow> bind2 (as_exp a) (as_exp b) (\<lambda>a b. Inr (V_exp (addExp b a))) = Inr u
   \<Longrightarrow> means v u (M_lift (+) m n)"
  by (cases "((+) :: int \<Rightarrow> int \<Rightarrow> int, m, n)" rule: M_lift.cases)
    (auto simp: bind2_def bindr_eq_Inr plain_intros eval_simps)

lemma single_means:
  "means v a m \<Longrightarrow> bindr (as_exps a) (\<lambda>es. bindr (tuple_action es) (\<lambda>e. Inr (V_exp e))) = Inr u \<Longrightarrow> means v u (M_single m)"
  by (cases m rule: M_single.cases) (auto simp: tuple_action_def map_eq_Cons_conv)

lemma append_means:
  "means v a m \<Longrightarrow> means v b n \<Longrightarrow> bind2 (as_exps a) (as_exp b) (\<lambda>es e. Inr (V_exps (es @ [e]))) = Inr u
   \<Longrightarrow> means v u (M_append m n)"
  by (cases "(m, n)" rule: M_append.cases) (auto simp: bind2_def bindr_eq_Inr)

lemma first_means:
  "means v b n \<Longrightarrow> bindr (as_exp b) (\<lambda>e. Inr (V_exps [e])) = Inr u \<Longrightarrow> means v u (M_append (M_nums []) n)"
  by (cases n) auto

lemma same_means:
  "means v a m \<Longrightarrow> bindr (as_exp a) (\<lambda>e. Inr (V_exp e)) = Inr u \<Longrightarrow> means v u m"
  "means v a m \<Longrightarrow> bindr (as_exps a) (\<lambda>e. Inr (V_exps e)) = Inr u \<Longrightarrow> means v u m"
  by (auto simp: bindr_eq_Inr elim: as_exp.elims as_exps.elims)

lemma one_means:
  "means v a m \<Longrightarrow> bindr (as_exp a) (\<lambda>e. Inr (V_exps [e])) = Inr u \<Longrightarrow> means v u (M_one m)"
  by (cases m) auto

lemmas actions_mean = compare_means range_means minus_means scale_means and_means call_means_plain call_means_index number_means
  symbol_means negative_means sum_means single_means append_means first_means same_means one_means

lemma rule_lengths: "43 \<le> r \<Longrightarrow> r \<le> 89 \<Longrightarrow> 0 < yyr2 ! r"
proof -
  assume r: "43 \<le> r" "r \<le> 89"
  have "\<forall>n \<in> set (drop 43 yyr2). 0 < n" "length yyr2 = 90" by (simp_all add: yyr2_def)
  moreover from this(2) have "drop 43 yyr2 ! (r - 43) \<in> set (drop 43 yyr2)" using r by (intro nth_mem) simp
  ultimately have "0 < drop 43 yyr2 ! (r - 43)" by blast
  then show ?thesis using r \<open>length yyr2 = 90\<close> by simp
qed

lemma operator_means:
  assumes "67 \<le> r" "r \<le> 80" "\<forall>i < yyr2 ! r. means v (vs ! i) (ms ! i)" "operator_rules r vs = Inr u"
  shows "means v u (expression_meaning v r ms)"
proof -
  have m0: "means v (vs ! 0) (ms ! 0)" using assms(3) rule_lengths [of r] assms(1,2) by simp
  have m: "k < yyr2 ! r \<longrightarrow> means v (vs ! k) (ms ! k)" for k using assms(3) by blast
  note ms = m [of 1] m [of 2] m [of 4] m [of 5]
  consider "r \<le> 72" | "r = 73" | "r = 74" | "r = 75" | "r = 76" | "r = 77" | "r = 78" | "r = 79" | "r = 80" using assms(2) by linarith
  then show ?thesis
    by cases (use assms(4) m0 ms in \<open>auto simp: operator_rules_def expression_meaning_def yyr2_nth intro: actions_mean compares_actions\<close>)
qed

lemma operand_means:
  assumes "81 \<le> r" "r \<le> 89" "\<forall>i < yyr2 ! r. means v (vs ! i) (ms ! i)" "operand_rules r vs = Inr u"
  shows "means v u (expression_meaning v r ms)"
proof -
  have m0: "means v (vs ! 0) (ms ! 0)" using assms(3) rule_lengths [of r] assms(1,2) by simp
  have m: "k < yyr2 ! r \<longrightarrow> means v (vs ! k) (ms ! k)" for k using assms(3) by blast
  note ms = m [of 1] m [of 2] m [of 4] m [of 5]
  consider "r \<le> 83" | "r = 84" | "r = 85" | "r = 86" | "r = 87" | "r = 88" | "r = 89" using assms(2) by linarith
  then show ?thesis
    by cases (use assms(1,2,4) m0 ms in \<open>auto simp: operand_rules_def expression_meaning_def yyr2_nth intro: actions_mean compares_actions\<close>)
qed

lemma constraint_means:
  assumes "43 \<le> r" "r \<le> 66" "\<forall>i < yyr2 ! r. means v (vs ! i) (ms ! i)" "constraint_action r vs = Inr u"
  shows "means v u (constraint_meaning r ms)"
proof -
  have m0: "means v (vs ! 0) (ms ! 0)" using assms(3) rule_lengths [of r] assms(1,2) by simp
  have m: "k < yyr2 ! r \<longrightarrow> means v (vs ! k) (ms ! k)" for k using assms(3) by blast
  note ms = m [of 1] m [of 2] m [of 4] m [of 5]
  have "r = 43 \<or> r = 44 \<or> r = 45 \<or> r = 46 \<or> r = 47 \<or> r = 48 \<or> 49 \<le> r \<and> r \<le> 53 \<or> r = 54 \<or> r = 55 \<or> r = 56
    \<or> r = 57 \<or> r = 58 \<or> 59 \<le> r \<and> r \<le> 62 \<or> r = 63 \<or> r = 64 \<or> r = 65 \<or> r = 66"
    using assms(1,2) by presburger
  then show ?thesis
    by (elim disjE) (use assms(4) m0 ms in \<open>auto simp: constraint_action_def constraint_meaning_def yyr2_nth intro: actions_mean compares_actions\<close>)
qed

lemma declaration_means:
  assumes "38 \<le> r" "r \<le> 42" "\<forall>i < yyr2 ! r. means v (vs ! i) (ms ! i)" "declaration_rules r vs = Inr u"
  shows "means v u (rule_meaning v r ms)"
proof -
  have m: "k < yyr2 ! r \<longrightarrow> means v (vs ! k) (ms ! k)" for k using assms(3) by blast
  consider "r = 38" | "r = 39" | "r = 40" | "r = 41 \<or> r = 42" using assms(1,2) by linarith
  then show ?thesis
  proof cases
    case 1
    then show ?thesis using m [of 0] assms(4) by (auto simp: declaration_rules_def rule_meaning_def yyr2_nth bindr_eq_Inr elim: as_str.elims)
  next
    case 2
    then show ?thesis using m [of 1] assms(4)
      by (auto simp: declaration_rules_def rule_meaning_def yyr2_nth intro: same_means)
  qed (use assms(4) in \<open>auto simp: declaration_rules_def rule_meaning_def\<close>)
qed

text \<open>
  C6. The actions build what the text says. If the values of the symbols on the right of one of the rules
  for constraints and expressions have their meanings, then the value that the action returns has the
  meaning of the rule: a sum for a sum, the comparison for a comparison, both comparisons for a chain,
  the value of the function for a call.
\<close>

theorem actions_keep_meaning:
  assumes "38 \<le> r" "r \<le> 89" "length vs = yyr2 ! r" "list_all2 (means v) vs ms" "value_action w r vs = Inr u"
  shows "means v u (rule_meaning v r ms)"
proof -
  have ms: "\<forall>i < yyr2 ! r. means v (vs ! i) (ms ! i)" using assms(3,4) by (simp add: list_all2_conv_all_nth)
  consider "r \<le> 42" | "43 \<le> r" "r \<le> 66" | "67 \<le> r" "r \<le> 80" | "81 \<le> r" by linarith
  then show ?thesis
  proof cases
    case 1
    then show ?thesis using declaration_means [OF assms(1) _ ms, of u] assms(1,5)
      by (simp add: value_action_def structure_action_def)
  next
    case 2
    then show ?thesis using constraint_means [OF _ _ ms, of u] assms(5) by (simp add: value_action_def rule_meaning_def)
  next
    case 3
    then show ?thesis using operator_means [OF _ _ ms, of u] assms(5)
      by (simp add: value_action_def rule_meaning_def expression_action_def)
  next
    case 4
    then show ?thesis using operand_means [OF _ assms(2) ms, of u] assms(5)
      by (simp add: value_action_def rule_meaning_def expression_action_def)
  qed
qed

text \<open>The rule for differences, at 7 and \<open>n\<close> with the value 5.\<close>

theorem actions_keep_meaning_witness:
  "let w = \<lparr>address_order = no_addr, key_address = (\<lambda>n. n), inverse_of = (\<lambda>f. []), range_arity = (\<lambda>f. Inr 1)\<rparr>;
       v = \<lparr>tvv = \<lambda>l. 0, symv = \<lambda>s. 5, ufv = \<lambda>f i xs. 0\<rparr>;
       a = Exp [Term 7] Expression; b = Exp [VarTerm 1 ''n''] Expression
   in \<exists>e. value_action w 77 [V_exp a, V_none, V_exp b] = Inr (V_exp e) \<and> eval_exp v e = 2"
proof -
  let ?w = "\<lparr>address_order = no_addr, key_address = (\<lambda>n. n), inverse_of = (\<lambda>f. []), range_arity = (\<lambda>f. Inr 1)\<rparr>"
  let ?v = "\<lparr>tvv = \<lambda>l. 0, symv = \<lambda>s. 5, ufv = \<lambda>f i xs. 0\<rparr>"
  let ?a = "Exp [Term 7] Expression" and ?b = "Exp [VarTerm 1 ''n''] Expression"
  have act: "value_action ?w 77 [V_exp ?a, V_none, V_exp ?b] = Inr (V_exp (minus_exp ?a ?b))"
    by (simp add: value_action_def expression_rules_def compare_action_def bind2_def)
  have "list_all2 (means ?v) [V_exp ?a, V_none, V_exp ?b] [M_num 7, M_none, M_num 5]"
    by (simp add: wf_name_def is_ident_def is_digit_def)
  from actions_keep_meaning [OF _ _ _ this act]
  have "means ?v (V_exp (minus_exp ?a ?b)) (M_num 2)" by (simp add: yyr2_nth rule_meaning_def expression_meaning_def)
  then show ?thesis using act by simp
qed

section \<open>The tuples of a parsed conjunction\<close>

text \<open>The names of a declaration stand for the elements of the tuple; a name that is repeated stands for the first of
  its elements, and the others must be equal to it.\<close>

definition named :: "tuple_decl \<Rightarrow> string \<Rightarrow> nat \<Rightarrow> bool" where
  "named td s i \<longleftrightarrow> \<not> elemIsConst td i \<and> elemVarString td i = s"

definition bind_names :: "tuple_decl \<Rightarrow> int list \<Rightarrow> valuation \<Rightarrow> valuation" where
  "bind_names td xs v =
     (at_tuple v xs)\<lparr>symv := (\<lambda>s. case find (named td s) [0..<mSize td] of Some i \<Rightarrow> xs ! i | None \<Rightarrow> symv v s)\<rparr>"

definition names_agree :: "tuple_decl \<Rightarrow> int list \<Rightarrow> bool" where
  "names_agree td xs \<longleftrightarrow>
     (\<forall>i < mSize td. \<forall>j < mSize td. \<not> elemIsConst td i \<and> named td (elemVarString td i) j \<longrightarrow> xs ! i = xs ! j)"

definition first_named :: "tuple_decl \<Rightarrow> nat \<Rightarrow> string \<Rightarrow> int option" where
  "first_named td n s = map_option int (find (named td s) [0..<n])"

definition names_state :: "world \<Rightarrow> tuple_decl \<Rightarrow> conj \<Rightarrow> nat \<Rightarrow> (string \<rightharpoonup> int) \<times> submap \<times> conj \<Rightarrow> bool" where
  "names_state w td c n st \<longleftrightarrow>
     (case st of (N, m, c') \<Rightarrow>
        N = first_named td n \<and> fst ` set (mTerm2ExpMap m) \<subseteq> key_address w ` {0..<n}
        \<and> pairs_of m = {(VarTerm 1 s, addTerm (TupleVarTerm 1 l) Exp_new) | s l. first_named td n s = Some l}
        \<and> plain_conj c' \<and> mTupleDecl c' = mTupleDecl c
        \<and> (\<forall>u. sat_constraints u c' \<longleftrightarrow> sat_constraints u c
             \<and> (\<forall>j < n. \<forall>l. \<not> elemIsConst td j \<longrightarrow> first_named td n (elemVarString td j) = Some l \<longrightarrow> tvv u l = tvv u (int j))))"

lemma find_snoc: "find P (xs @ [x]) = (case find P xs of Some y \<Rightarrow> Some y | None \<Rightarrow> if P x then Some x else None)"
  by (induction xs) auto

lemma first_named_Suc:
  "first_named td (Suc n) s =
     (case first_named td n s of Some l \<Rightarrow> Some l | None \<Rightarrow> if named td s n then Some (int n) else None)"
  by (auto simp: first_named_def find_snoc split: option.splits)

lemma first_named_Some:
  "first_named td n s = Some l \<Longrightarrow> \<exists>i < n. l = int i \<and> named td s i"
  by (auto simp: first_named_def find_Some_iff)

lemma first_named_None: "first_named td n s = None \<Longrightarrow> i < n \<Longrightarrow> \<not> named td s i"
  by (auto simp: first_named_def find_None_iff)

lemma names_step:
  assumes st: "names_state w td c n st" and inj: "inj (key_address w)"
  shows "names_state w td c (Suc n) (tuple_name_step w td n st)"
proof -
  obtain N m c' where N: "st = (N, m, c')" by (cases st)
  let ?name = "elemVarString td n"
  have f: "N = first_named td n" "fst ` set (mTerm2ExpMap m) \<subseteq> key_address w ` {0..<n}"
    "pairs_of m = {(VarTerm 1 s, addTerm (TupleVarTerm 1 l) Exp_new) | s l. first_named td n s = Some l}"
    "plain_conj c'" "mTupleDecl c' = mTupleDecl c"
    "\<And>u. sat_constraints u c' \<longleftrightarrow> sat_constraints u c
        \<and> (\<forall>j < n. \<forall>l. \<not> elemIsConst td j \<longrightarrow> first_named td n (elemVarString td j) = Some l \<longrightarrow> tvv u l = tvv u (int j))"
    using st by (auto simp: N names_state_def)
  have prev: "\<exists>l. first_named td n (elemVarString td j) = Some l" if "j < n" "\<not> elemIsConst td j" for j
    using first_named_None [of td n "elemVarString td j" j] that by (cases "first_named td n (elemVarString td j)") (auto simp: named_def)
  show ?thesis
  proof (cases "elemIsConst td n")
    case True
    then have "first_named td (Suc n) = first_named td n"
      by (auto simp: fun_eq_iff first_named_Suc named_def split: option.split)
    then show ?thesis using f True by (auto simp: N names_state_def tuple_name_step_def less_Suc_eq)
  next
    case var: False
    show ?thesis
    proof (cases "first_named td n ?name")
      case (Some l)
      then have l: "0 \<le> l" by (auto dest: first_named_Some)
      have same: "first_named td (Suc n) = first_named td n"
        using Some var by (auto simp: fun_eq_iff first_named_Suc named_def split: option.split)
      let ?e = "addTerm (TupleVarTerm (-1) (int n)) (addTerm (TupleVarTerm 1 l) Exp_new)"
      have e: "plain_exp ?e" "eval_exp u ?e = tvv u l - tvv u (int n)" for u
        using l by (simp_all add: plain_intros eval_simps)
      have step: "tuple_name_step w td n st = (N, m, addEquality (address_order w) ?e c')"
        using var Some f(1) by (simp add: N tuple_name_step_def Let_def)
      have "plain_conj (addEquality (address_order w) ?e c')"
        "sat_constraints u (addEquality (address_order w) ?e c') \<longleftrightarrow> sat_constraints u c' \<and> tvv u l = tvv u (int n)" for u
        using sat_addEquality [OF e(1) f(4), of "address_order w" u] e(2) [of u] by auto
      then show ?thesis using f Some var same by (auto simp: step names_state_def less_Suc_eq)
    next
      case None
      have upd: "first_named td (Suc n) = (first_named td n)(?name \<mapsto> int n)"
        using None var by (auto simp: fun_eq_iff first_named_Suc named_def split: option.split)
      let ?m = "insertPair (key_address w n) (VarTerm 1 ?name) (addTerm (TupleVarTerm 1 (int n)) Exp_new) m"
      have step: "tuple_name_step w td n st = (N(?name \<mapsto> int n), ?m, c')"
        using var None f(1) by (simp add: N tuple_name_step_def Let_def)
      have "key_address w n \<notin> fst ` set (mTerm2ExpMap m)"
      proof
        assume "key_address w n \<in> fst ` set (mTerm2ExpMap m)"
        then obtain k where "k < n" "key_address w n = key_address w k" using f(2) by auto
        then show False using inj by (simp add: inj_eq)
      qed
      then have pairs: "pairs_of ?m = insert (VarTerm 1 ?name, addTerm (TupleVarTerm 1 (int n)) Exp_new) (pairs_of m)"
        and "set (mTerm2ExpMap ?m) = insert (key_address w n, VarTerm 1 ?name, addTerm (TupleVarTerm 1 (int n)) Exp_new) (set (mTerm2ExpMap m))"
        by (simp_all add: pairs_insertPair) (simp add: insertPair_def set_map_assign)
      then have addr: "fst ` set (mTerm2ExpMap ?m) \<subseteq> key_address w ` {0..<Suc n}" using f(2) by auto
      have "first_named td (Suc n) (elemVarString td j) = first_named td n (elemVarString td j)"
        if "j < n" "\<not> elemIsConst td j" for j
        using prev [OF that] None by (auto simp: upd)
      then have quant: "(\<forall>j < Suc n. \<forall>l. \<not> elemIsConst td j \<longrightarrow> first_named td (Suc n) (elemVarString td j) = Some l \<longrightarrow> tvv u l = tvv u (int j))
        \<longleftrightarrow> (\<forall>j < n. \<forall>l. \<not> elemIsConst td j \<longrightarrow> first_named td n (elemVarString td j) = Some l \<longrightarrow> tvv u l = tvv u (int j))" for u
        by (auto simp: less_Suc_eq upd)
      have pairs': "pairs_of ?m = {(VarTerm 1 s, addTerm (TupleVarTerm 1 l) Exp_new) | s l. first_named td (Suc n) s = Some l}"
        unfolding pairs f(3) upd using None by auto
      have "N(?name \<mapsto> int n) = first_named td (Suc n)" using f(1) upd by simp
      then show ?thesis unfolding step names_state_def prod.case quant using addr pairs' f(4-6) by blast
    qed
  qed
qed

lemma names_fold:
  assumes "plain_conj c" "inj (key_address w)"
  shows "names_state w td c n (fold (tuple_name_step w td) [0..<n] (Map.empty, SubMap_new, c))"
proof (induction n)
  case 0
  show ?case using assms(1) by (auto simp: names_state_def first_named_def fun_eq_iff SubMap_new_def pairs_of_def)
next
  case (Suc n)
  then show ?case using names_step [OF Suc assms(2)] by simp
qed

lemma fold_add_parsed:
  "list_all constraint_exp es \<Longrightarrow> plain_conj c \<Longrightarrow>
   plain_conj (fold (add_parsed ad) es c) \<and> mTupleDecl (fold (add_parsed ad) es c) = mTupleDecl c
   \<and> (sat_constraints v (fold (add_parsed ad) es c) \<longleftrightarrow> sat_constraints v c \<and> list_all (constraint_holds v) es)"
proof (induction es arbitrary: c)
  case (Cons e es)
  have e: "plain_exp e" "isEquality e \<or> isInequality e" using Cons.prems(1) by (auto simp: constraint_exp_def)
  have "plain_conj (add_parsed ad e c) \<and> mTupleDecl (add_parsed ad e c) = mTupleDecl c
     \<and> (sat_constraints v (add_parsed ad e c) \<longleftrightarrow> sat_constraints v c \<and> constraint_holds v e)"
    using sat_addEquality [OF e(1) Cons.prems(2), of ad v] sat_addInequality [OF e(1) Cons.prems(2), of ad v] e(2)
    by (auto simp: add_parsed_def constraint_holds_def)
  then show ?case using Cons.IH [of "add_parsed ad e c"] Cons.prems(1) by auto
qed simp

lemma names_agree_first:
  assumes "length xs = mSize td"
  shows "(\<forall>j < mSize td. \<forall>l. \<not> elemIsConst td j \<longrightarrow> first_named td (mSize td) (elemVarString td j) = Some l
      \<longrightarrow> tvv (at_tuple v xs) l = tvv (at_tuple v xs) (int j)) \<longleftrightarrow> names_agree td xs"
    (is "?first \<longleftrightarrow> _")
proof
  assume first: ?first
  show "names_agree td xs"
    unfolding names_agree_def
  proof (intro allI impI, elim conjE)
    fix i j assume i: "i < mSize td" "\<not> elemIsConst td i" and j: "j < mSize td" "named td (elemVarString td i) j"
    then have j': "\<not> elemIsConst td j" "elemVarString td j = elemVarString td i" by (auto simp: named_def)
    have "named td (elemVarString td i) i" using i(2) by (simp add: named_def)
    then obtain l where l: "first_named td (mSize td) (elemVarString td i) = Some l"
      using first_named_None i(1) by (cases "first_named td (mSize td) (elemVarString td i)") auto
    then have "tvv (at_tuple v xs) (int i) = tvv (at_tuple v xs) (int j)" using first i j(1) j' by metis
    then show "xs ! i = xs ! j" using i(1) j(1) assms by simp
  qed
next
  assume "names_agree td xs"
  then show ?first using assms by (auto simp: names_agree_def dest!: first_named_Some)
qed

lemma no_inverses: "(\<forall>f. invOf f = []) \<longrightarrow> nests_ok invOf e" "(\<forall>f. invOf f = []) \<longrightarrow> term_nests_ok invOf t"
  by (induction invOf e and invOf t rule: nests_ok_term_nests_ok.induct) (simp_all add: list_all_iff)

text \<open>
  C5. The tuples of a parsed conjunction. When no inverse functions are declared, a tuple is in the conjunction
  that the action builds from a declaration and the constraints after the colon exactly if
  the declaration admits it, elements with the same name are equal, and the constraints are true by the meaning of their text,
  with the names of the declaration standing for the elements of the tuple.
\<close>

theorem parsed_conjunct_holds:
  assumes act: "conj_action w td es = Inr c" and inv: "inverse_of w = (\<lambda>f. [])" and inj: "inj (key_address w)"
    and len: "length xs = mSize td" and tm: "means (bind_names td xs v) (V_exps es) (M_all b)"
  shows "holds v c xs \<longleftrightarrow> admits td xs \<and> names_agree td xs \<and> b"
proof -
  let ?u = "at_tuple v xs" and ?c0 = "(Conjunction_new (tdecl_size td))\<lparr>mTupleDecl := td\<rparr>"
  let ?c1 = "fold (add_parsed (address_order w)) es ?c0"
  have es: "list_all constraint_exp es" and b: "list_all (constraint_holds (bind_names td xs v)) es = b" using tm by auto
  have decl: "setTupleDecl td (Conjunction_new (tdecl_size td)) = Inr c' \<Longrightarrow> c' = ?c0" for c'
    by (rule setTupleDecl_no_consts) (simp_all add: Conjunction_new_def Conjunction_tdecl_def)
  then have sub: "substituteTupleDecl w ?c1 = Inr c" using act by (auto simp: conj_action_def bindr_eq_Inr)
  have p0: "plain_conj ?c0" "sat_constraints u ?c0" for u
    by (simp_all add: Conjunction_new_def Conjunction_tdecl_def plain_conj_def sat_constraints_def zeros_def nonnegs_def)
  have c1: "plain_conj ?c1" "mTupleDecl ?c1 = td" "sat_constraints u ?c1 \<longleftrightarrow> list_all (constraint_holds u) es" for u
    using fold_add_parsed [OF es p0(1), of "address_order w" u] p0(2) [of u] by simp_all
  obtain N m c2 where fold: "fold (tuple_name_step w td) [0..<mSize td] (Map.empty, SubMap_new, ?c1) = (N, m, c2)"
    by (metis prod_cases3)
  have st: "names_state w td ?c1 (mSize td) (N, m, c2)" using names_fold [OF c1(1) inj] fold by metis
  have clean: "cleanUp w (substituted m c2) = Inr c"
    using sub fold by (simp add: substituteTupleDecl_def c1(2) [unfolded tdecl_size_def] conj_arity_def tdecl_size_def substituteInConstraints_def substituted_def)
  have "mTupleDecl (substituted m c2) = td" using st c1(2) by (simp add: names_state_def substituted_def)
  have pairs: "pairs_of m = {(VarTerm 1 s, addTerm (TupleVarTerm 1 l) Exp_new) | s l. first_named td (mSize td) s = Some l}"
    and p2: "plain_conj c2"
    and sat2: "sat_constraints u c2 \<longleftrightarrow> sat_constraints u ?c1 \<and>
      (\<forall>j < mSize td. \<forall>l. \<not> elemIsConst td j \<longrightarrow> first_named td (mSize td) (elemVarString td j) = Some l \<longrightarrow> tvv u l = tvv u (int j))" for u
    using st by (auto simp: names_state_def)
  have match: "factorMatches (VarTerm 1 s) (VarTerm 1 s') \<longleftrightarrow> s = s'" "\<not> factorMatches (TupleVarTerm 1 l) (VarTerm 1 s')" for s s' l
    by (simp_all add: factorMatches_def)
  have look: "subExp m (VarTerm 1 s) = map_option (\<lambda>l. addTerm (TupleVarTerm 1 l) Exp_new) (first_named td (mSize td) s)" for s
  proof (cases "subExp m (VarTerm 1 s)")
    case None
    have "first_named td (mSize td) s = None"
    proof (rule ccontr)
      assume "first_named td (mSize td) s \<noteq> None"
      then obtain l where "(VarTerm 1 s, addTerm (TupleVarTerm 1 l) Exp_new) \<in> pairs_of m" unfolding pairs by auto
      then show False using submap.look_None [OF None] match(1) by blast
    qed
    then show ?thesis using None by simp
  next
    case (Some e)
    then show ?thesis using submap.look_Some [OF Some] pairs match(1) by auto
  qed
  have look_tuple: "subExp m (TupleVarTerm 1 l) = None" for l
    using submap.look_Some [of m "TupleVarTerm 1 l"] pairs match(2) by (cases "subExp m (TupleVarTerm 1 l)") auto
  have u': "valuation_sub (subExp m) ?u = bind_names td xs v"
  proof -
    have "(case subExp m (VarTerm 1 s) of None \<Rightarrow> symv ?u s | Some e \<Rightarrow> eval_exp ?u e) =
        (case find (named td s) [0..<mSize td] of Some i \<Rightarrow> xs ! i | None \<Rightarrow> symv v s)" for s
    proof (cases "find (named td s) [0..<mSize td]")
      case (Some i)
      then have "i < length xs" using len by (auto simp: find_Some_iff)
      then show ?thesis using Some by (simp add: look first_named_def eval_simps plain_intros)
    qed (simp add: look first_named_def)
    then show ?thesis by (simp add: valuation_sub_def bind_names_def look_tuple)
  qed
  have keys: "\<forall>(k, s) \<in> pairs_of m. termType k \<in> {TupleVar, SymConst} \<and> plain_exp s"
    unfolding pairs by (auto simp: plain_intros dest: first_named_Some)
  have sub_sat: "plain_conj (substituted m c2)" "sat_constraints ?u (substituted m c2) \<longleftrightarrow> sat_constraints (bind_names td xs v) c2"
    using substitute_variables_value [OF keys, where v = ?u] p2 unfolding u'
    by (auto simp: plain_conj_def substituted_def sat_constraints_def zeros_def nonnegs_def list_all_iff)
  have "(\<forall>j < mSize td. \<forall>l. \<not> elemIsConst td j \<longrightarrow> first_named td (mSize td) (elemVarString td j) = Some l
      \<longrightarrow> tvv (bind_names td xs v) l = tvv (bind_names td xs v) (int j)) \<longleftrightarrow> names_agree td xs"
    using names_agree_first [OF len] by (simp add: bind_names_def)
  then have "sat_constraints (bind_names td xs v) c2 \<longleftrightarrow> b \<and> names_agree td xs"
    using sat2 [of "bind_names td xs v"] c1(3) [of "bind_names td xs v"] b by blast
  then show ?thesis using cleanUp_facts [OF clean sub_sat(1), of ?u] inv sub_sat(2) \<open>mTupleDecl (substituted m c2) = td\<close>
no_inverses(1) [of "inverse_of w"]
    by (auto simp: holds_def nests_ok_conj_def inverts_def list_all_iff)
qed

text \<open>The conjunction of \<open>{[i,j]: i <= j}\<close>, which (3,5) satisfies and (5,3) does not.\<close>

theorem parsed_conjunct_holds_witness:
  "let w = \<lparr>address_order = no_addr, key_address = (\<lambda>n. n), inverse_of = (\<lambda>f. []), range_arity = (\<lambda>f. Inr 1)\<rparr>;
       td = \<lparr>mSize = 2, mIsConst = [False, False], mConstVal = [0, 0], mVarString = [''i'', ''j'']\<rparr>;
       e = lte_action (Exp [VarTerm 1 ''i''] Expression) (Exp [VarTerm 1 ''j''] Expression);
       v = \<lparr>tvv = \<lambda>l. 0, symv = \<lambda>s. 4, ufv = \<lambda>f i xs. 0\<rparr>
   in \<exists>c. conj_action w td [e] = Inr c \<and> holds v c [3, 5] \<and> \<not> holds v c [5, 3]"
proof -
  let ?w = "\<lparr>address_order = no_addr, key_address = (\<lambda>n. n), inverse_of = (\<lambda>f. []), range_arity = (\<lambda>f. Inr 1)\<rparr>"
  let ?td = "\<lparr>mSize = 2, mIsConst = [False, False], mConstVal = [0, 0], mVarString = [''i'', ''j'']\<rparr>"
  let ?a = "Exp [VarTerm 1 ''i''] Expression" and ?b = "Exp [VarTerm 1 ''j''] Expression"
  let ?v = "\<lparr>tvv = \<lambda>l. 0, symv = \<lambda>s. 4, ufv = \<lambda>f i xs. 0\<rparr>"
  have "case conj_action ?w ?td [lte_action ?a ?b] of Inr c \<Rightarrow> mInArity c = 0 | Inl _ \<Rightarrow> False" by code_simp
  then obtain c where c: "conj_action ?w ?td [lte_action ?a ?b] = Inr c" by (auto split: sum.splits)
  have two: "[0..<2] = [0, Suc 0]" by (simp add: upt_rec)
  have i: "i < (2::nat) \<longleftrightarrow> i = 0 \<or> i = Suc 0" for i by auto
  have decl: "admits ?td [x, y]" "names_agree ?td [x, y]" for x y
    by (auto simp: admits_def names_agree_def named_def elemIsConst_def elemVarString_def i)
  have plain: "plain_exp ?a" "plain_exp ?b" by (simp_all add: wf_name_def is_ident_def is_digit_def)
  have tm: "means (bind_names ?td [x, y] ?v) (V_exps [lte_action ?a ?b]) (M_all (x \<le> y))" for x y
    using plain compares_actions(3) [unfolded compares_def]
    by (auto simp: bind_names_def named_def two elemIsConst_def elemVarString_def)
  have "holds ?v c [3, 5]" "\<not> holds ?v c [5, 3]"
    using parsed_conjunct_holds [OF c _ _ _ tm [of 3 5]] parsed_conjunct_holds [OF c _ _ _ tm [of 5 3]]
    by (simp_all add: inj_def decl)
  then show ?thesis using c by (auto simp: Let_def)
qed

section \<open>Defects\<close>

text \<open>The relation conjunct after a semicolon takes its input arity from the second tuple.\<close>

lemma semi_rel_conjunct_inarity:
  "let w = \<lparr>address_order = no_addr, key_address = (\<lambda>n. n), inverse_of = (\<lambda>f. []), range_arity = (\<lambda>f. Inr 1)\<rparr>;
       i = \<lparr>mSize = 1, mIsConst = [False], mConstVal = [0], mVarString = [''i'']\<rparr>;
       jk = \<lparr>mSize = 2, mIsConst = [False, False], mConstVal = [0, 0], mVarString = [''j'', ''k'']\<rparr>
   in (case value_action w 24 [V_tdecl i, V_none, V_tdecl jk, V_exps []] of
         Inr (V_conj c) \<Rightarrow> mInArity c = 2 | _ \<Rightarrow> False)
    \<and> (case value_action w 18 [V_none, V_tdecl i, V_none, V_tdecl jk, V_exps [], V_none] of
         Inr (V_conj c) \<Rightarrow> mInArity c = 1 | _ \<Rightarrow> False)"
  by code_simp

text \<open>The constructor of a set dereferences the null pointer that \<open>parse_set\<close> returns for a relation.\<close>

lemma Set_of_relation_string: "fst (parse_set w s g) = Inr None \<Longrightarrow> fst (Set_of_string w s g) = Inl NullDeref"
  by (cases "parse_set w s g") (simp add: Set_of_string_def)

end
