(* ===== verification/Spec2Isabelle.thy ===== *)
theory Spec2Isabelle
  imports IEG_SubMap IEG_Variables IEG_Solve IEG_SetProps IEG_UnionFind IEG_Environment IEG_RemoveProps IEG_Instantiate IEG_Reorder IEG_Relationship IEG_Computation IEG_RuleForms
    IEG_ParseSound IEG_ParseMeaning
begin

text \<open>
  IEGenLib, a library of sets and relations of integer tuples under affine constraints with
  uninterpreted functions: unions of conjunctions of equalities and inequalities over tuple
  variables, symbolic constants and function calls. This development models the C++ library
  under \<open>src/set_relation\<close>, \<open>src/util\<close>, \<open>src/parser\<close> and \<open>src/computation\<close>.

  The parts of the program. An expression (\<open>Exp\<close>) is a sorted list of terms (\<open>Term\<close>,
  \<open>TupleVarTerm\<close>, \<open>VarTerm\<close>, \<open>UFCallTerm\<close>, \<open>TupleExpTerm\<close>). A conjunction has two sorted lists
  of expressions, those equal to zero and those not negative, and a tuple declaration that
  names the tuple variables or fixes them to constants. \<open>SparseConstraints\<close> is a sorted list of
  conjunctions; \<open>Set\<close> and \<open>Relation\<close> add arities. The environment is the table of declared
  functions with their domains, ranges and inverses; solving an equality asks it for inverses,
  printing a call asks for the arity of its range. Visitors walk over a set and build another:
  calls become symbols, the affine set goes through ISL, the symbols become calls again. The parser
  turns text into sets, relations and environments: a scanner made by flex reads characters into
  tokens, a parser made by bison reduces them, and its actions call the constructors of the
  library. A \<open>Computation\<close> holds statements with their iteration spaces, schedules and accesses.

  Which theory models what.
  \<^item> \<open>IEG_Prelude\<close>: errors as values (\<open>Assert\<close> for a thrown exception, \<open>NullDeref\<close>, \<open>OutOfBounds\<close>, \<open>UseAfterFree\<close>,
    \<open>DivByZero\<close>, \<open>Overflow\<close> and \<open>WrongMember\<close> for what C++ leaves undefined, \<open>ParseError\<close> for the exception of the
    parser), loops over them, decimal printing, sorted insertion, and the
    locale \<open>keyed_order\<close> for comparison functions that a key determines.
  \<^item> \<open>IEG_Terms\<close>, \<open>IEG_Exp\<close>: the terms and \<open>Exp\<close> of \<open>expression.cc\<close>. \<open>IEG_Reading\<close> proves that
    the printed form determines a plain expression, on which the comparison of calls rests;
    \<open>IEG_Algebra\<close> gives the values of expressions under valuations; \<open>IEG_SubMap\<close> models \<open>SubMap.cc\<close>
    and the rewriting of factors; \<open>IEG_Variables\<close> the queries on variables; \<open>IEG_Solve\<close> the
    solving of an equality for a factor and the inverse functions.
  \<^item> \<open>IEG_TupleDecl\<close>, \<open>IEG_Util\<close>: \<open>TupleDecl.cc\<close> and \<open>util.cc\<close>.
  \<^item> \<open>IEG_Conjunction\<close>: the class \<open>Conjunction\<close> of \<open>set_relation.cc\<close>; \<open>IEG_ConjSem\<close> says which tuples
    satisfy a conjunction; \<open>IEG_ConjProps\<close>, \<open>IEG_Functions\<close> (the functions that \<open>Compose\<close> substitutes are always
    found) and \<open>IEG_Compose\<close> hold the properties of its operations.
  \<^item> \<open>IEG_Sparse\<close>: \<open>SparseConstraints\<close>, \<open>Set\<close> and \<open>Relation\<close>; \<open>IEG_SetProps\<close> their properties.
  \<^item> \<open>IEG_UnionFind\<close>: \<open>UnionFindUniverse.cc\<close>, against named sets as its specification (locale
    \<open>named_sets\<close>), and the universes that sequences of calls reach as an inductive predicate.
  \<^item> \<open>IEG_IslStr\<close>: \<open>isl_str_manipulation.cc\<close> and the functions that pass a set or relation
    through ISL. \<open>IEG_Environment\<close>: \<open>environment.cc\<close> and \<open>UninterpFunc.cc\<close>, with the environments
    that sequences of declarations reach as an inductive predicate.
  \<^item> \<open>IEG_Visitor\<close>: the traversal as the sequence of the visitor's calls. \<open>IEG_UFCallMap\<close>:
    \<open>UFCallMap.cc\<close>. \<open>IEG_SuperAffine\<close>: bounding calls, the affine superset, its reversal and
    \<open>normalize\<close>; \<open>IEG_Values\<close> (locale \<open>factor_values\<close>) and \<open>IEG_AffineProps\<close> prove them over the
    locale \<open>affine_replacement\<close>, which is interpreted for both directions.
  \<^item> \<open>IEG_Projection\<close>: projecting out a tuple variable, removing expensive constraints and
    \<open>simplifyForPartialParallel\<close>; \<open>IEG_ProjectProps\<close> and \<open>IEG_RemoveProps\<close> their properties. That
    projecting out is exact is a lemma under the assumption that \<open>islSetProjectOut\<close> is.

  \<^item> \<open>IEG_Instantiate\<close>: the instantiation of universally quantified rules at the arguments of a set.
    \<open>IEG_Strings\<close>: the visitors that print for Z3, Omega and ISL. \<open>IEG_Complexity\<close>:
    \<open>complexityForPartialParallel.cc\<close>. \<open>IEG_Reorder\<close>: \<open>reOrdTV_OmegaCodeGen.cc\<close> and the
    removal of uninterpreted predicates. \<open>IEG_Relationship\<close>: \<open>setRelationship.cc\<close>.
    \<open>IEG_Computation\<close>: \<open>Computation.cc\<close>. \<open>IEG_RuleForms\<close>: the rule of domain and range and
    the SMT form of a rule (\<open>environment.cc\<close>).
  \<^item> \<open>IEG_Scanner\<close>: the tables, the matching loop and the actions of \<open>gen_scanner.cc\<close>, and the reading of characters
    in \<open>parser.cc\<close>; \<open>IEG_ScanRules\<close> states the rules of \<open>parser.l\<close> as patterns with derivatives and
    checks the automaton against them state by state; \<open>IEG_ScanProps\<close> proves the longest match and gives the tokens of a
    string. \<open>IEG_ParseTables\<close>: the tables of \<open>gen_parser.cc\<close> and their decoding; \<open>IEG_Parser\<close>: the
    semantic actions, the loop of \<open>yyparse\<close> with its error recovery, and the entry points of \<open>parser.cc\<close>;
    \<open>IEG_Grammar\<close>: the productions of \<open>parser.y\<close> and a finite check that every entry of the tables fits
    them; \<open>IEG_ParseProps\<close>: termination and types of the stack; \<open>IEG_ParseSound\<close>: what the
    parser accepts is derived by the grammar; \<open>IEG_ParseMeaning\<close>: the actions for constraints against
    a meaning of their text, and the tuples of the conjunction that is built from it.

  Correspondence. Names are those of the source with a prefix where several classes have the
  same method (\<open>term_\<close>, \<open>exp_\<close>, \<open>conj_\<close>, \<open>sparse_\<close>, \<open>Set_\<close>, \<open>Relation_\<close>). A method that changes its object
  returns the changed record. The record \<open>world\<close> stands for what an operation reads elsewhere:
  the order of addresses, by which the default \<open>operator<\<close> of incomparable objects decides, and
  the two queries to the environment; \<open>env_world\<close> fills them from a modelled environment.
  Coefficients are \<open>int\<close> in the source; the model uses unbounded integers, so overflow of
  coefficients is outside the statements.

  What the lemmas show. Each operation is related to the values of expressions or to the tuples
  that satisfy constraints: adding, substituting, normalizing, solving, union, intersection,
  composition, application, inverse, cleaning up and comparing. Well-formedness (\<open>plain_exp\<close>,
  \<open>sorted_conj\<close>, \<open>okc\<close>, \<open>env_ok\<close>, \<open>ucm_ok\<close>, \<open>uf_inv\<close> and the like) is shown to be kept. Where an operation
  is right only under a condition, the condition is a hypothesis and a lemma or a witness beside
  it shows what happens without it.

  Bounds and fuel. The loops over strings and paths are recursions on the string or the path.
  \<open>do_FIND\<close> recurs on the parent links: it ends on every universe that the operations reach, and
  its depth is at most the logarithm of the number of elements. The iterators of \<open>IEG_Util\<close> and
  \<open>IEG_Conjunction\<close> that collect names run for the number of elements that are left. \<open>yyparse\<close> runs for
  \<open>yyfuel\<close> steps, 18 for each character and 16 more: a measure of the configuration
  decreases in every step, so the loop has always ended by then.

  Not modelled. ISL and GMP (\<open>lib/\<close>; ISL is a parameter of the operations that call it), the
  drivers and test programs, the JSON helpers, and \<open>compareFileContentsToString\<close> of \<open>util.cc\<close>, which
  reads a file. The parser is modelled on its own, with the globals that it keeps between two parses; the operations of
  other theories that parse take the parser as an argument.
\<close>

end
